(* ===== verification/Prelude.thy ===== *)
theory Prelude
  imports Main "HOL-Library.Word" "HOL-Library.Monad_Syntax" "HOL-Library.Signed_Division"
begin

text \<open>
  The machine the kernel runs on: the integer types of i386 C, a byte-addressed memory,
  little-endian access to it, and the lemmas on words and memory that the components share.
  A 32-bit C value, signed or not, is a \<open>32 word\<close>; signed comparisons are written \<open><s\<close>
  and \<open>\<le>s\<close>. A function that may not return has a result of type \<open>'a option\<close>, and
  \<open>None\<close> is "does not return".
\<close>

unbundle bit_operations_syntax

section \<open>Types\<close>

type_synonym byte = "8 word"
type_synonym u16 = "16 word"
type_synonym u32 = "32 word"
type_synonym addr = "32 word"
type_synonym mem = "addr \<Rightarrow> byte"

named_theorems status_defs \<open>the numeric constants of status.h, config.h and the like\<close>
named_theorems frame \<open>what an operation leaves unchanged\<close>

section \<open>Status codes\<close>

definition LIBREWIN_ALL_OK :: u32 where [status_defs]: "LIBREWIN_ALL_OK = 0"
definition EIO :: u32 where [status_defs]: "EIO = 1"
definition EINVARG :: u32 where [status_defs]: "EINVARG = 2"
definition ENOMEM :: u32 where [status_defs]: "ENOMEM = 3"
definition EBADPATH :: u32 where [status_defs]: "EBADPATH = 4"
definition EFSNOTUS :: u32 where [status_defs]: "EFSNOTUS = 5"
definition ERDONLY :: u32 where [status_defs]: "ERDONLY = 6"
definition EISTKN :: u32 where [status_defs]: "EISTKN = 8"

text \<open>\<open>ISERR(value)\<close> of kernel.h: the value, read as an int, is negative.\<close>

definition ISERR :: "u32 \<Rightarrow> bool" where
  "ISERR v \<longleftrightarrow> v <s 0"

section \<open>Word arithmetic\<close>

lemma unat_lt2p: "unat w < 2 ^ LENGTH('a)" for w :: "'a::len word"
  by (rule unsigned_less)

lemma unat_u32: "unat w < 4294967296" for w :: u32
  using unat_lt2p [of w] by simp

lemma uint_u32: "uint w < 4294967296" for w :: u32
  using uint_lt2p [of w] by simp

lemma unat_Suc_less: "i < n \<Longrightarrow> unat (i + 1) = Suc (unat i)" for i n :: "'a::len word"
proof -
  assume "i < n"
  then have "unat i < unat n" by (simp add: word_less_nat_alt)
  with unat_lt2p [of n] have "Suc (unat i) < 2 ^ LENGTH('a)" by linarith
  then show ?thesis by (simp add: unat_word_ariths)
qed

lemma unat_minus_one: "unat (- 1 :: u32) = 4294967295"
  by (simp add: unsigned_minus_1_eq_mask mask_eq_exp_minus_1)

lemma measure_up: "i < n \<Longrightarrow> unat (n - (i + 1)) < unat (n - i)" for i n :: "'a::len word"
  by unat_arith

lemma measure_down: "n \<noteq> 0 \<Longrightarrow> unat (n - 1) < unat n" for n :: "'a::len word"
  by unat_arith

lemma unat_dec: "n \<noteq> 0 \<Longrightarrow> unat (n - 1) = unat n - 1" for n :: "'a::len word"
  by unat_arith

lemma sint_dec: "0 <s n \<Longrightarrow> sint (n - 1) = sint n - 1" for n :: u32
proof -
  assume "0 <s n"
  then have pos: "0 < sint n" by (simp add: word_sless_alt)
  have "sint n < 2 ^ 31" using sint_lt [of n] by simp
  with pos show ?thesis
    by (simp add: sint_word_ariths signed_take_bit_int_eq_self)
qed

lemma sint_unat: "sint v = (if unat v < 2 ^ 31 then int (unat v) else int (unat v) - 2 ^ 32)"
  for v :: u32
proof -
  have "uint v = sint v mod 2 ^ 32"
    using uint_sint [of v] by (simp add: take_bit_eq_mod)
  moreover have "- (2 ^ 31) \<le> sint v" "sint v < 2 ^ 31"
    using sint_ge [of v] sint_lt [of v] by simp_all
  ultimately have "uint v = (if sint v < 0 then sint v + 2 ^ 32 else sint v)"
    using mod_pos_pos_trivial [of "sint v" "2 ^ 32"]
      mod_pos_pos_trivial [of "sint v + 2 ^ 32" "2 ^ 32"] by auto
  with \<open>- (2 ^ 31) \<le> sint v\<close> \<open>sint v < 2 ^ 31\<close> show ?thesis
    by (auto simp: unat_eq_nat_uint split: if_splits)
qed

lemma sless_zero_unat: "v <s 0 \<longleftrightarrow> 2 ^ 31 \<le> unat v" for v :: u32
  using uint_u32 [of v] by (auto simp: word_sless_alt sint_unat)

lemma sint_inc: "i <s n \<Longrightarrow> sint (i + 1) = sint i + 1" for i n :: u32
proof -
  assume "i <s n"
  then have "sint i < sint n" by (simp add: word_sless_alt)
  moreover have "sint n < 2 ^ 31" "- (2 ^ 31) \<le> sint i"
    using sint_lt [of n] sint_ge [of i] by simp_all
  ultimately show ?thesis
    by (simp add: sint_word_ariths signed_take_bit_int_eq_self)
qed

lemma measure_up_signed: "i <s n \<Longrightarrow> nat (sint n - sint (i + 1)) < nat (sint n - sint i)"
  for i n :: u32
  by (simp add: sint_inc word_sless_alt)

lemma sint_word_of_nat: "n < 2 ^ 31 \<Longrightarrow> sint (word_of_nat n :: u32) = int n"
  by (simp add: sint_unat unat_of_nat)

lemma word_of_nat_inject_u32:
  "a < 2 ^ 32 \<Longrightarrow> b < 2 ^ 32 \<Longrightarrow> (word_of_nat a :: u32) = word_of_nat b \<longleftrightarrow> a = b"
  by (simp add: word_of_nat_eq_iff take_bit_nat_eq_self)

lemma uint_minus_u32: "uint (x - y) = (if unat y \<le> unat x then int (unat x - unat y)
    else int (unat x + 2 ^ 32 - unat y))" for x y :: u32
  unfolding uint_nat [of "x - y"] unat_sub_if' by simp

lemma LENGTH_u32: "LENGTH(32) = 32"
  by simp

lemma word_of_nat_unat: "word_of_nat (unat w) = w" for w :: "'a::len word"
  by simp

lemma unat_ucast_u16: "unat (ucast n :: u32) = unat n" for n :: "16 word"
proof -
  have "unat n < 65536" using unat_lt2p [of n] by simp
  then show ?thesis by (simp add: unsigned_ucast_eq take_bit_nat_eq_self_iff)
qed

lemma unat_word_of_nat: "k < 2 ^ 32 \<Longrightarrow> unat (word_of_nat k :: u32) = k"
  by (simp add: unat_of_nat)

section \<open>Signed division\<close>

text \<open>\<open>/\<close> and \<open>%\<close> on \<open>int\<close>, which truncate toward zero. Division by zero, which traps, is 0 here.\<close>

definition sdiv32 :: "u32 \<Rightarrow> u32 \<Rightarrow> u32" where
  "sdiv32 a b = word_of_int (sint a sdiv sint b)"

definition smod32 :: "u32 \<Rightarrow> u32 \<Rightarrow> u32" where
  "smod32 a b = word_of_int (sint a smod sint b)"

lemma sdiv32_nat: "a < 2 ^ 31 \<Longrightarrow> b < 2 ^ 31 \<Longrightarrow> sdiv32 (word_of_nat a) (word_of_nat b) = word_of_nat (a div b)"
  by (cases "b = 0") (simp_all add: sdiv32_def sint_word_of_nat signed_divide_int_def sgn_if zdiv_int [symmetric])

lemma smod32_nat: "a < 2 ^ 31 \<Longrightarrow> b < 2 ^ 31 \<Longrightarrow> smod32 (word_of_nat a) (word_of_nat b) = word_of_nat (a mod b)"
proof -
  assume a: "a < 2 ^ 31" and b: "b < 2 ^ 31"
  have "int a smod int b = int a - int a sdiv int b * int b" by (simp add: minus_sdiv_mult_eq_smod)
  also have "int a sdiv int b = int (a div b)"
    by (cases "b = 0") (simp_all add: signed_divide_int_def sgn_if zdiv_int [symmetric])
  also have "int a - int (a div b) * int b = int (a mod b)"
    using div_mult_mod_eq [of a b] by (metis add_diff_cancel_left' of_nat_add of_nat_mult)
  finally show ?thesis using a b by (simp add: smod32_def sint_word_of_nat)
qed

end
