(* ===== verification/Memory.thy ===== *)
theory Memory
  imports Prelude
begin

text \<open>
  \<^verbatim>\<open>ke/memory/memory.c\<close> (\<open>memset\<close>, \<open>memcmp\<close>, \<open>memcpy\<close>) over the byte-addressed memory, and the
  little-endian loads and stores the compiled C code makes. \<open>memset\<close> and \<open>memcpy\<close> return their
  first argument, which no caller uses; the model returns the new memory.
\<close>

section \<open>Regions of memory\<close>

text \<open>The address \<open>a\<close> lies in the \<open>n\<close> bytes from \<open>p\<close> on (address arithmetic wraps at \<open>2\<^sup>3\<^sup>2\<close>).\<close>

definition in_range :: "addr \<Rightarrow> nat \<Rightarrow> addr \<Rightarrow> bool" where
  "in_range p n a \<longleftrightarrow> unat (a - p) < n"

definition bytes :: "mem \<Rightarrow> addr \<Rightarrow> nat \<Rightarrow> byte list" where
  "bytes m p n = map (\<lambda>i. m (p + word_of_nat i)) [0..<n]"

lemma length_bytes [simp]: "length (bytes m p n) = n"
  by (simp add: bytes_def)

lemma nth_bytes [simp]: "i < n \<Longrightarrow> bytes m p n ! i = m (p + word_of_nat i)"
  by (simp add: bytes_def)

lemma in_range_offset: "n \<le> 2 ^ 32 \<Longrightarrow> i < n \<Longrightarrow> in_range p n (p + word_of_nat i)"
  by (simp add: in_range_def unat_of_nat)

lemma in_range_ex: "in_range p n a \<Longrightarrow> \<exists>i<n. a = p + word_of_nat i"
  by (rule exI [of _ "unat (a - p)"]) (simp add: in_range_def)

lemma bytes_cong:
  "(\<And>i. i < n \<Longrightarrow> m' (p + word_of_nat i) = m (p + word_of_nat i)) \<Longrightarrow> bytes m' p n = bytes m p n"
  by (simp add: bytes_def)

lemma bytes_0 [simp]: "bytes m p 0 = []"
  by (simp add: bytes_def)

lemma bytes_Suc: "bytes m p (Suc n) = m p # bytes m (p + 1) n"
  by (simp add: bytes_def upt_conv_Cons comp_def ac_simps del: upt_Suc flip: map_Suc_upt)

section \<open>memset, memcpy, memcmp\<close>

function memset_loop :: "mem \<Rightarrow> addr \<Rightarrow> byte \<Rightarrow> u32 \<Rightarrow> u32 \<Rightarrow> mem" where
  "memset_loop m c_ptr c sz i =
     (if i < sz then memset_loop (m(c_ptr + i := c)) c_ptr c sz (i + 1) else m)"
  by pat_completeness auto
termination
  by (relation "measure (\<lambda>(m, p, c, sz, i). unat (sz - i))") (auto simp: measure_up)

definition memset :: "mem \<Rightarrow> addr \<Rightarrow> u32 \<Rightarrow> u32 \<Rightarrow> mem" where
  "memset m ptr c sz = memset_loop m ptr (ucast c) sz 0"

function memcpy :: "mem \<Rightarrow> addr \<Rightarrow> addr \<Rightarrow> u32 \<Rightarrow> mem" where
  "memcpy m d s len =
     (if len \<noteq> 0 then memcpy (m(d := m s)) (d + 1) (s + 1) (len - 1) else m)"
  by pat_completeness auto
termination
  by (relation "measure (\<lambda>(m, d, s, len). unat len)") (auto simp: measure_down)

text \<open>\<open>char\<close> is signed on i386, so the bytes are compared as signed values.\<close>

function memcmp :: "mem \<Rightarrow> addr \<Rightarrow> addr \<Rightarrow> u32 \<Rightarrow> u32" where
  "memcmp m c1 c2 count =
     (if 0 <s count
      then if m c1 \<noteq> m c2 then (if m c1 <s m c2 then - 1 else 1)
           else memcmp m (c1 + 1) (c2 + 1) (count - 1)
      else 0)"
  by pat_completeness auto
termination
  by (relation "measure (\<lambda>(m, c1, c2, count). nat (sint count))")
    (auto simp: sint_dec, simp add: word_sless_alt)

declare memset_loop.simps [simp del] memcpy.simps [simp del] memcmp.simps [simp del]

lemma memset_loop_apply:
  "memset_loop m p c n i a = (if i \<le> a - p \<and> a - p < n then c else m a)"
proof (induction m p c n i rule: memset_loop.induct)
  case (1 m p c n i)
  show ?case
  proof (cases "i < n")
    case True
    have IH: "memset_loop (m(p + i := c)) p c n (i + 1) a =
        (if i + 1 \<le> a - p \<and> a - p < n then c else (m(p + i := c)) a)"
      using True by (rule "1.IH")
    have eq: "a = p + i \<longleftrightarrow> a - p = i" by (auto simp: algebra_simps)
    have "i + 1 \<le> a - p \<longleftrightarrow> i \<le> a - p \<and> a - p \<noteq> i"
      using True by unat_arith
    then show ?thesis
      unfolding memset_loop.simps [of m p c n i] using True IH eq by auto
  next
    case False
    then have "\<not> (i \<le> a - p \<and> a - p < n)" by unat_arith
    with False show ?thesis by (auto simp: memset_loop.simps [of m p c n i])
  qed
qed

lemma memset_apply:
  "memset m p c n a = (if in_range p (unat n) a then ucast c else m a)"
  by (simp add: memset_def memset_loop_apply in_range_def word_less_nat_alt)

lemma in_range_step:
  fixes n :: u32
  assumes "n \<noteq> 0"
  shows "in_range (d + 1) (unat (n - 1)) a \<longleftrightarrow> in_range d (unat n) a \<and> a \<noteq> d"
proof (cases "a = d")
  case True
  have "\<not> 4294967295 < unat n - 1" using unat_u32 [of n] by linarith
  with True show ?thesis by (simp add: in_range_def unat_dec [OF assms] unat_minus_one)
next
  case False
  then have "unat (a - (d + 1)) = unat (a - d) - 1"
    using unat_dec [of "a - d"] by (simp add: diff_diff_eq)
  moreover have "0 < unat (a - d)" using False by (simp add: unat_gt_0)
  ultimately show ?thesis using False by (auto simp: in_range_def unat_dec [OF assms])
qed

lemma memcpy_apply:
  assumes "\<And>i j. i < unat n \<Longrightarrow> j < i \<Longrightarrow> d + word_of_nat j \<noteq> s + word_of_nat i"
  shows "memcpy m d s n a = (if in_range d (unat n) a then m (s + (a - d)) else m a)"
  using assms
proof (induction m d s n rule: memcpy.induct)
  case (1 m d s n)
  show ?case
  proof (cases "n = 0")
    case True
    then show ?thesis by (simp add: memcpy.simps [of m d s] in_range_def)
  next
    case False
    have clobber: "d + 1 + word_of_nat j \<noteq> s + 1 + word_of_nat i"
      if "i < unat (n - 1)" "j < i" for i j
      using "1.prems" [of "Suc i" "Suc j"] that unat_dec [OF False] by (simp add: algebra_simps)
    have IH: "memcpy (m(d := m s)) (d + 1) (s + 1) (n - 1) a =
        (if in_range (d + 1) (unat (n - 1)) a then (m(d := m s)) (s + 1 + (a - (d + 1)))
         else (m(d := m s)) a)"
      by (rule "1.IH" [OF False]) (use clobber in blast)
    have "in_range d (unat n) a \<Longrightarrow> a \<noteq> d \<Longrightarrow> s + (a - d) \<noteq> d"
      using "1.prems" [of "unat (a - d)" 0] by (auto simp: in_range_def unat_gt_0)
    moreover have "in_range d (unat n) d" using False by (simp add: in_range_def unat_gt_0)
    ultimately show ?thesis
      unfolding memcpy.simps [of m d s n] using False IH by (auto simp: in_range_step)
  qed
qed

lemma memcmp_eq_0_iff:
  "memcmp m p q n = 0 \<longleftrightarrow> (\<forall>i. int i < sint n \<longrightarrow> m (p + word_of_nat i) = m (q + word_of_nat i))"
proof (induction m p q n rule: memcmp.induct)
  case (1 m p q n)
  show ?case
  proof (cases "0 <s n \<and> m p = m q")
    case True
    then have "0 <s n" and "\<not> m p \<noteq> m q" by simp_all
    note IH = "1.IH" [OF this] and n1 = sint_dec [OF \<open>0 <s n\<close>]
    have "(\<forall>i. int i < sint n \<longrightarrow> m (p + word_of_nat i) = m (q + word_of_nat i)) \<longleftrightarrow>
        (\<forall>i. int i < sint n - 1 \<longrightarrow> m (p + 1 + word_of_nat i) = m (q + 1 + word_of_nat i))"
      (is "?l \<longleftrightarrow> ?r")
    proof
      assume ?l
      show ?r
      proof (intro allI impI)
        fix i assume "int i < sint n - 1"
        then have "int (Suc i) < sint n" by simp
        with \<open>?l\<close> have "m (p + word_of_nat (Suc i)) = m (q + word_of_nat (Suc i))" by blast
        then show "m (p + 1 + word_of_nat i) = m (q + 1 + word_of_nat i)" by (simp add: ac_simps)
      qed
    next
      assume r: ?r
      show ?l
      proof (intro allI impI)
        fix i assume i: "int i < sint n"
        show "m (p + word_of_nat i) = m (q + word_of_nat i)"
        proof (cases i)
          case 0
          then show ?thesis using True by simp
        next
          case (Suc j)
          then show ?thesis using r [rule_format, of j] i by (simp add: ac_simps)
        qed
      qed
    qed
    then show ?thesis unfolding memcmp.simps [of m p q n] using True IH n1 by simp
  next
    case False
    show ?thesis
    proof (cases "0 <s n")
      case True
      then have "\<exists>i. int i < sint n \<and> m (p + word_of_nat i) \<noteq> m (q + word_of_nat i)"
        using False by (intro exI [of _ 0]) (simp add: word_sless_alt)
      with True False show ?thesis by (auto simp: memcmp.simps [of m p q n])
    next
      case False
      then show ?thesis by (auto simp: memcmp.simps [of m p q n] word_sless_alt)
    qed
  qed
qed

section \<open>Little-endian loads and stores\<close>

definition read16 :: "mem \<Rightarrow> addr \<Rightarrow> u16" where
  "read16 m p = ucast (m p) OR push_bit 8 (ucast (m (p + 1)))"

definition read32 :: "mem \<Rightarrow> addr \<Rightarrow> u32" where
  "read32 m p = ucast (m p) OR push_bit 8 (ucast (m (p + 1)))
     OR push_bit 16 (ucast (m (p + 2))) OR push_bit 24 (ucast (m (p + 3)))"

definition write32 :: "mem \<Rightarrow> addr \<Rightarrow> u32 \<Rightarrow> mem" where
  "write32 m p v = m(p := ucast v, p + 1 := ucast (drop_bit 8 v),
     p + 2 := ucast (drop_bit 16 v), p + 3 := ucast (drop_bit 24 v))"

definition write16 :: "mem \<Rightarrow> addr \<Rightarrow> u16 \<Rightarrow> mem" where
  "write16 m p v = m(p := ucast v, p + 1 := ucast (drop_bit 8 v))"

lemma read16_bytes: "ucast (ucast v :: byte) OR push_bit 8 (ucast (ucast (drop_bit 8 v) :: byte)) = v"
  for v :: u16
proof (rule bit_word_eqI)
  fix n assume "n < LENGTH(16)"
  then consider "n < 8" | "8 \<le> n" "n < 16" by force
  then show "bit (ucast (ucast v :: byte) OR push_bit 8 (ucast (ucast (drop_bit 8 v) :: byte)) :: u16) n = bit v n"
    by cases (auto simp: bit_or_iff bit_push_bit_iff bit_ucast_iff bit_drop_bit_eq)
qed

lemma read16_write16 [simp]: "read16 (write16 m p v) p = v"
  by (simp add: read16_def write16_def read16_bytes)

lemma write16_apply: "a \<noteq> p \<Longrightarrow> a \<noteq> p + 1 \<Longrightarrow> write16 m p v a = m a"
  by (simp add: write16_def)

lemma read16_write16_nat:
  assumes "i < 2 ^ 31" "j < 2 ^ 31"
  shows "read16 (write16 m (a + 2 * word_of_nat i) v) (a + 2 * word_of_nat j) =
    (if j = i then v else read16 m (a + 2 * word_of_nat j))"
proof (cases "j = i")
  case False
  have "2 * (word_of_nat j :: u32) + word_of_nat k \<noteq> 2 * word_of_nat i + word_of_nat l" if "k < 2" "l < 2" for k l
  proof -
    have "2 * j + k \<noteq> 2 * i + l" using False that by linarith
    moreover have "2 * j + k < 2 ^ 32" "2 * i + l < 2 ^ 32" using assms that by simp_all
    ultimately have "(word_of_nat (2 * j + k) :: u32) \<noteq> word_of_nat (2 * i + l)"
      using word_of_nat_inject_u32 by blast
    then show ?thesis by simp
  qed
  from this [of 0 0] this [of 0 1] this [of 1 0] this [of 1 1]
  show ?thesis using False by (simp add: read16_def write16_def add.assoc)
qed simp

lemma read32_bytes:
  fixes v :: u32
  shows "ucast (ucast v :: byte) OR push_bit 8 (ucast (ucast (drop_bit 8 v) :: byte))
     OR push_bit 16 (ucast (ucast (drop_bit 16 v) :: byte))
     OR push_bit 24 (ucast (ucast (drop_bit 24 v) :: byte)) = v"
proof (rule bit_word_eqI)
  fix n assume "n < LENGTH(32)"
  then consider "n < 8" | "8 \<le> n" "n < 16" | "16 \<le> n" "n < 24" | "24 \<le> n" "n < 32" by force
  then show "bit (ucast (ucast v :: byte) OR push_bit 8 (ucast (ucast (drop_bit 8 v) :: byte))
     OR push_bit 16 (ucast (ucast (drop_bit 16 v) :: byte))
     OR push_bit 24 (ucast (ucast (drop_bit 24 v) :: byte)) :: u32) n = bit v n"
    by cases (auto simp: bit_or_iff bit_push_bit_iff bit_ucast_iff bit_drop_bit_eq)
qed

lemma read32_write32 [simp]: "read32 (write32 m p v) p = v"
  by (simp add: read32_def write32_def read32_bytes)

lemma write32_apply: "\<not> in_range p 4 a \<Longrightarrow> write32 m p v a = m a"
  by (auto simp: write32_def in_range_def)

lemma read32_cong:
  assumes "\<And>i. i < 4 \<Longrightarrow> m' (p + word_of_nat i) = m (p + word_of_nat i)"
  shows "read32 m' p = read32 m p"
  using assms [of 0] assms [of 1] assms [of 2] assms [of 3] by (simp add: read32_def)

lemma read32_other:
  assumes "\<And>i. i < 4 \<Longrightarrow> \<not> in_range p 4 (q + word_of_nat i)"
  shows "read32 (write32 m p v) q = read32 m q"
  by (intro read32_cong write32_apply assms)

lemma read32_zero: "(\<And>i. i < 4 \<Longrightarrow> m (p + word_of_nat i) = 0) \<Longrightarrow> read32 m p = 0"
  using read32_cong [of m p "\<lambda>_. 0"] by (simp add: read32_def)

section \<open>C strings\<close>

text \<open>The bytes \<open>s\<close>, none of them zero, stand at \<open>p\<close> and a zero byte follows them.\<close>

fun cstr :: "mem \<Rightarrow> addr \<Rightarrow> byte list \<Rightarrow> bool" where
  "cstr m p [] \<longleftrightarrow> m p = 0"
| "cstr m p (c # cs) \<longleftrightarrow> c \<noteq> 0 \<and> m p = c \<and> cstr m (p + 1) cs"

lemma cstr_unique: "cstr m p s \<Longrightarrow> cstr m p t \<Longrightarrow> s = t"
proof (induction s arbitrary: p t)
  case Nil
  then show ?case by (cases t) auto
next
  case (Cons c s)
  then show ?case by (cases t) auto
qed

lemma cstr_nonzero: "cstr m p s \<Longrightarrow> 0 \<notin> set s"
  by (induction s arbitrary: p) auto

lemma cstr_iff:
  "cstr m p s \<longleftrightarrow> 0 \<notin> set s \<and> bytes m p (length s) = s \<and> m (p + word_of_nat (length s)) = 0"
proof (induction s arbitrary: p)
  case Nil
  then show ?case by (simp add: bytes_def)
next
  case (Cons c s)
  then show ?case by (auto simp: bytes_Suc ac_simps)
qed

lemma cstr_nth: "cstr m p s \<Longrightarrow> i < length s \<Longrightarrow> m (p + word_of_nat i) = s ! i"
  by (metis cstr_iff nth_bytes)

lemma cstr_end: "cstr m p s \<Longrightarrow> m (p + word_of_nat (length s)) = 0"
  by (simp add: cstr_iff)

lemma cstr_append:
  "cstr m p (s @ t) \<longleftrightarrow> 0 \<notin> set s \<and> bytes m p (length s) = s \<and> cstr m (p + word_of_nat (length s)) t"
proof (induction s arbitrary: p)
  case Nil
  then show ?case by (simp add: bytes_def)
next
  case (Cons c s)
  then show ?case by (auto simp: bytes_Suc ac_simps)
qed

lemma cstr_cong:
  assumes "cstr m p s" and "\<And>i. i \<le> length s \<Longrightarrow> m' (p + word_of_nat i) = m (p + word_of_nat i)"
  shows "cstr m' p s"
  using assms bytes_cong [of "length s" m' p m] by (auto simp: cstr_iff)

lemma cstr_exists:
  assumes "m a = 0"
  shows "\<exists>s. cstr m p s"
proof -
  define k where "k = (LEAST k. m (p + word_of_nat k) = 0)"
  have "m (p + word_of_nat (unat (a - p))) = 0" using assms by simp
  then have "m (p + word_of_nat k) = 0" unfolding k_def by (rule LeastI)
  moreover have "m (p + word_of_nat i) \<noteq> 0" if "i < k" for i
    using not_less_Least [of i] that unfolding k_def by blast
  ultimately have "cstr m p (bytes m p k)"
    by (auto simp: cstr_iff in_set_conv_nth)
  then show ?thesis ..
qed

section \<open>Storing a sequence of bytes\<close>

fun write_bytes :: "mem \<Rightarrow> addr \<Rightarrow> byte list \<Rightarrow> mem" where
  "write_bytes m p [] = m"
| "write_bytes m p (b # bs) = write_bytes (m(p := b)) (p + 1) bs"

lemma in_range_Suc:
  assumes "n < 2 ^ 32"
  shows "in_range p (Suc n) a \<longleftrightarrow> a = p \<or> in_range (p + 1) n a"
proof (cases "a = p")
  case False
  then have "unat (a - (p + 1)) = unat (a - p) - 1" and "0 < unat (a - p)"
    using unat_dec [of "a - p"] by (simp_all add: diff_diff_eq unat_gt_0)
  with False show ?thesis by (auto simp: in_range_def)
qed (simp add: in_range_def)

lemma in_range_not_self: "n < 2 ^ 32 \<Longrightarrow> \<not> in_range (p + 1) n p"
  by (simp add: in_range_def unat_minus_one)

lemma write_bytes_apply:
  assumes "length bs \<le> 2 ^ 32"
  shows "write_bytes m p bs a = (if in_range p (length bs) a then bs ! unat (a - p) else m a)"
  using assms
proof (induction bs arbitrary: m p)
  case Nil
  then show ?case by (simp add: in_range_def)
next
  case (Cons b bs)
  then have len: "length bs < 2 ^ 32" by simp
  show ?case
  proof (cases "a = p")
    case True
    then show ?thesis using Cons len by (simp add: in_range_Suc in_range_not_self)
  next
    case False
    then have "unat (a - (p + 1)) = unat (a - p) - 1" and "0 < unat (a - p)"
      using unat_dec [of "a - p"] by (simp_all add: diff_diff_eq unat_gt_0)
    then show ?thesis using Cons len False by (simp add: in_range_Suc nth_Cons')
  qed
qed

lemma bytes_write_bytes:
  "length bs \<le> 2 ^ 32 \<Longrightarrow> bytes (write_bytes m p bs) p (length bs) = bs"
  by (rule nth_equalityI) (simp_all add: write_bytes_apply in_range_offset unat_of_nat)

lemma write_bytes_other:
  "length bs \<le> 2 ^ 32 \<Longrightarrow> \<not> in_range p (length bs) a \<Longrightarrow> write_bytes m p bs a = m a"
  by (simp add: write_bytes_apply)

lemma cstr_write_bytes:
  assumes "0 \<notin> set s" "length s < 2 ^ 32"
  shows "cstr (write_bytes m p (s @ [0])) p s"
proof -
  have "bytes (write_bytes m p (s @ [0])) p (length (s @ [0])) = s @ [0]"
    using assms by (intro bytes_write_bytes) simp
  then have eq: "(write_bytes m p (s @ [0])) (p + word_of_nat i) = (s @ [0]) ! i" if "i \<le> length s" for i
    using that by (metis length_append_singleton less_Suc_eq_le nth_bytes)
  then have "bytes (write_bytes m p (s @ [0])) p (length s) = s"
    by (intro nth_equalityI) (simp_all add: nth_append)
  with assms(1) eq [of "length s"] show ?thesis by (simp add: cstr_iff)
qed

lemma write_bytes_append:
  "write_bytes m p (xs @ ys) = write_bytes (write_bytes m p xs) (p + word_of_nat (length xs)) ys"
  by (induction xs arbitrary: m p) (simp_all add: ac_simps)

text \<open>Two regions share no address.\<close>

definition apart :: "addr \<Rightarrow> nat \<Rightarrow> addr \<Rightarrow> nat \<Rightarrow> bool" where
  "apart p n q k \<longleftrightarrow> (\<forall>i<n. \<forall>j<k. p + word_of_nat i \<noteq> q + word_of_nat j)"

lemma apartD: "apart p n q k \<Longrightarrow> i < n \<Longrightarrow> j < k \<Longrightarrow> p + word_of_nat i \<noteq> q + word_of_nat j"
  by (simp add: apart_def)

lemma low_apart: "p + n \<le> q \<Longrightarrow> q + n' < 2 ^ 32 \<Longrightarrow> apart (word_of_nat p) n (word_of_nat q) n'"
  unfolding apart_def
proof (intro allI impI)
  fix i j assume "p + n \<le> q" "q + n' < 2 ^ 32" "i < n" "j < n'"
  then have "(word_of_nat (p + i) :: u32) \<noteq> word_of_nat (q + j)" by (subst word_of_nat_inject_u32) simp_all
  then show "word_of_nat p + word_of_nat i \<noteq> (word_of_nat q :: u32) + word_of_nat j" by simp
qed

lemma apart_sym: "apart p n q k \<longleftrightarrow> apart q k p n"
  by (auto simp: apart_def) (metis)+

lemma apart_Suc_left: "apart p (Suc n) q k \<Longrightarrow> apart (p + 1) n q k"
  unfolding apart_def
proof (intro allI impI)
  fix i j assume all: "\<forall>i<Suc n. \<forall>j<k. p + word_of_nat i \<noteq> q + word_of_nat j" and "i < n" "j < k"
  then have "p + word_of_nat (Suc i) \<noteq> q + word_of_nat j" by blast
  then show "p + 1 + word_of_nat i \<noteq> q + word_of_nat j" by (simp add: ac_simps)
qed

lemma apart_Suc_right: "apart p n q (Suc k) \<Longrightarrow> apart p n (q + 1) k"
  by (metis apart_Suc_left apart_sym)

lemma apart_mono: "apart p n q k \<Longrightarrow> n' \<le> n \<Longrightarrow> k' \<le> k \<Longrightarrow> apart p n' q k'"
  by (auto simp: apart_def)

lemma apart_notin: "apart p n q k \<Longrightarrow> i < n \<Longrightarrow> \<not> in_range q k (p + word_of_nat i)"
  by (auto simp: apart_def dest!: in_range_ex)

lemma in_range_sub:
  assumes "in_range (p + word_of_nat k) l a" "k + l \<le> n" "n \<le> 2 ^ 32"
  shows "in_range p n a"
proof -
  obtain i where i: "i < l" "a = p + word_of_nat k + word_of_nat i" using in_range_ex [OF assms(1)] by blast
  then have "a = p + word_of_nat (k + i)" by (simp add: ac_simps)
  moreover have "in_range p n (p + word_of_nat (k + i))" using i(1) assms(2,3) by (intro in_range_offset) simp_all
  ultimately show ?thesis by simp
qed

lemma apart_outside: "apart base S q n \<Longrightarrow> in_range q n a \<Longrightarrow> \<not> in_range base S a"
  using in_range_ex [of base S a] in_range_ex [of q n a] apartD [of base S q n] by metis

lemma apart_iff: "k \<le> 2 ^ 32 \<Longrightarrow> apart p n q k \<longleftrightarrow> (\<forall>i<n. \<not> in_range q k (p + word_of_nat i))"
  by (metis apart_def apart_notin in_range_ex in_range_offset)

lemma apart_cstr_upd:
  "cstr m p s \<Longrightarrow> (\<And>i. i \<le> length s \<Longrightarrow> p + word_of_nat i \<noteq> q) \<Longrightarrow> cstr (m(q := b)) p s"
  by (rule cstr_cong [of m p s]) auto

end
