(* ===== verification/Strings.thy ===== *)
theory Strings
  imports Memory
begin

text \<open>
  \<^verbatim>\<open>ke/string/string.c\<close>: the kernel's string library over the byte memory. A \<open>char*\<close> is an
  address; a loop that runs until it meets a zero byte is a partial function, whose \<open>None\<close>
  says that no zero byte is ever met. \<open>char\<close> is signed, \<open>int\<close> results are \<open>32 word\<close>s.
  The static variable \<open>nextToken\<close> of \<open>strtok\<close> is an explicit state component.
\<close>

section \<open>Characters\<close>

definition tolower :: "byte \<Rightarrow> byte" where
  "tolower s1 = (if 65 \<le>s s1 \<and> s1 \<le>s 90 then s1 + 32 else s1)"

definition isdigit :: "byte \<Rightarrow> bool" where
  "isdigit c \<longleftrightarrow> 48 \<le>s c \<and> c \<le>s 57"

definition tonumericdigit :: "byte \<Rightarrow> u32" where
  "tonumericdigit c = scast c - 48"

section \<open>Lengths\<close>

partial_function (option) strlen_loop :: "mem \<Rightarrow> addr \<Rightarrow> u32 \<Rightarrow> u32 option" where
  "strlen_loop m ptr i = (if m ptr \<noteq> 0 then strlen_loop m (ptr + 1) (i + 1) else Some i)"

definition strlen :: "mem \<Rightarrow> addr \<Rightarrow> u32 option" where
  "strlen m ptr = strlen_loop m ptr 0"

function strnlen_loop :: "mem \<Rightarrow> addr \<Rightarrow> u32 \<Rightarrow> u32 \<Rightarrow> u32" where
  "strnlen_loop m ptr mx i =
     (if i <s mx then if m (ptr + i) = 0 then i else strnlen_loop m ptr mx (i + 1) else i)"
  by pat_completeness auto
termination
  by (relation "measure (\<lambda>(m, p, mx, i). nat (sint mx - sint i))")
    (auto simp: measure_up_signed simp del: zless_nat_conj)

definition strnlen :: "mem \<Rightarrow> addr \<Rightarrow> u32 \<Rightarrow> u32" where
  "strnlen m ptr mx = strnlen_loop m ptr mx 0"

function strnlen_terminator_loop :: "mem \<Rightarrow> addr \<Rightarrow> u32 \<Rightarrow> byte \<Rightarrow> u32 \<Rightarrow> u32" where
  "strnlen_terminator_loop m str mx terminator i =
     (if i <s mx
      then if m (str + i) = 0 \<or> m (str + i) = terminator then i
           else strnlen_terminator_loop m str mx terminator (i + 1)
      else i)"
  by pat_completeness auto
termination
  by (relation "measure (\<lambda>(m, p, mx, t, i). nat (sint mx - sint i))")
    (auto simp: measure_up_signed simp del: zless_nat_conj)

definition strnlen_terminator :: "mem \<Rightarrow> addr \<Rightarrow> u32 \<Rightarrow> byte \<Rightarrow> u32" where
  "strnlen_terminator m str mx terminator = strnlen_terminator_loop m str mx terminator 0"

section \<open>Comparison\<close>

function istrncmp :: "mem \<Rightarrow> addr \<Rightarrow> addr \<Rightarrow> u32 \<Rightarrow> u32" where
  "istrncmp m s1 s2 n =
     (if 0 <s n
      then let u1 = m s1; u2 = m s2 in
           if u1 \<noteq> u2 \<and> tolower u1 \<noteq> tolower u2 then ucast u1 - ucast u2
           else if u1 = 0 then 0
           else istrncmp m (s1 + 1) (s2 + 1) (n - 1)
      else 0)"
  by pat_completeness auto
termination
  by (relation "measure (\<lambda>(m, s1, s2, n). nat (sint n))")
    (auto simp: sint_dec, simp_all add: word_sless_alt)

function strncmp :: "mem \<Rightarrow> addr \<Rightarrow> addr \<Rightarrow> u32 \<Rightarrow> u32" where
  "strncmp m str1 str2 n =
     (if 0 <s n
      then let u1 = m str1; u2 = m str2 in
           if u1 \<noteq> u2 then ucast u1 - ucast u2
           else if u1 = 0 then 0
           else strncmp m (str1 + 1) (str2 + 1) (n - 1)
      else 0)"
  by pat_completeness auto
termination
  by (relation "measure (\<lambda>(m, s1, s2, n). nat (sint n))")
    (auto simp: sint_dec, simp_all add: word_sless_alt)

partial_function (option) strcmp :: "mem \<Rightarrow> addr \<Rightarrow> addr \<Rightarrow> u32 option" where
  "strcmp m str1 str2 =
     (if m str1 \<noteq> 0 \<and> m str2 \<noteq> 0 \<and> m str1 = m str2 then strcmp m (str1 + 1) (str2 + 1)
      else Some (ucast (m str1) - ucast (m str2)))"

section \<open>Copying\<close>

partial_function (option) strcpy :: "mem \<Rightarrow> addr \<Rightarrow> addr \<Rightarrow> mem option" where
  "strcpy m dest src =
     (if m src \<noteq> 0 then strcpy (m(dest := m src)) (dest + 1) (src + 1)
      else Some (m(dest := 0)))"

function strncpy_loop :: "mem \<Rightarrow> addr \<Rightarrow> addr \<Rightarrow> u32 \<Rightarrow> u32 \<Rightarrow> mem \<times> u32" where
  "strncpy_loop m dest src count i =
     (if i <s count - 1
      then if m (src + i) = 0 then (m, i)
           else strncpy_loop (m(dest + i := m (src + i))) dest src count (i + 1)
      else (m, i))"
  by pat_completeness auto
termination
  by (relation "measure (\<lambda>(m, d, s, count, i). nat (sint (count - 1) - sint i))")
    (auto simp: measure_up_signed simp del: zless_nat_conj)

definition strncpy :: "mem \<Rightarrow> addr \<Rightarrow> addr \<Rightarrow> u32 \<Rightarrow> mem" where
  "strncpy m dest src count =
     (let (m', i) = strncpy_loop m dest src count 0 in m'(dest + i := 0))"

section \<open>Searching and tokenising\<close>

partial_function (option) strchr :: "mem \<Rightarrow> addr \<Rightarrow> u32 \<Rightarrow> addr option" where
  "strchr m str ch =
     (if m str \<noteq> 0 then if m str = ucast ch then Some str else strchr m (str + 1) ch
      else if ch = 0 then Some str else Some 0)"

partial_function (option) strtok_skip :: "mem \<Rightarrow> addr \<Rightarrow> addr \<Rightarrow> addr option" where
  "strtok_skip m delim nextToken =
     (if m nextToken \<noteq> 0
      then do { r \<leftarrow> strchr m delim (scast (m nextToken));
                if r \<noteq> 0 then strtok_skip m delim (nextToken + 1) else Some nextToken }
      else Some nextToken)"

partial_function (option) strtok_end :: "mem \<Rightarrow> addr \<Rightarrow> addr \<Rightarrow> addr option" where
  "strtok_end m delim nextToken =
     (if m nextToken \<noteq> 0
      then do { r \<leftarrow> strchr m delim (scast (m nextToken));
                if r = 0 then strtok_end m delim (nextToken + 1) else Some nextToken }
      else Some nextToken)"

text \<open>The result is the token, the new value of \<open>nextToken\<close> and the new memory.\<close>

definition strtok :: "mem \<Rightarrow> addr \<Rightarrow> addr \<Rightarrow> addr \<Rightarrow> (addr \<times> addr \<times> mem) option" where
  "strtok m nextToken str delim =
     (let nextToken = (if str \<noteq> 0 then str else nextToken) in
      if nextToken = 0 then Some (0, nextToken, m)
      else do {
        start \<leftarrow> strtok_skip m delim nextToken;
        if m start = 0 then Some (0, start, m)
        else do {
          e \<leftarrow> strtok_end m delim start;
          if m e \<noteq> 0 then Some (start, e + 1, m(e := 0))
          else Some (start, 0, m)
        }
      })"

declare strlen_loop.simps [code] strcmp.simps [code] strcpy.simps [code] strchr.simps [code]
  strtok_skip.simps [code] strtok_end.simps [code]
declare strnlen_loop.simps [simp del] strnlen_terminator_loop.simps [simp del]
  istrncmp.simps [simp del] strncmp.simps [simp del] strncpy_loop.simps [simp del]

section \<open>What the string functions compute on C strings\<close>

lemma strlen_loop_cstr: "cstr m p s \<Longrightarrow> strlen_loop m p i = Some (i + word_of_nat (length s))"
proof (induction s arbitrary: p i)
  case Nil
  then show ?case by (simp add: strlen_loop.simps [of m p])
next
  case (Cons c s)
  then show ?case by (simp add: strlen_loop.simps [of m p] ac_simps)
qed

lemma strlen_cstr: "cstr m p s \<Longrightarrow> strlen m p = Some (word_of_nat (length s))"
  by (simp add: strlen_def strlen_loop_cstr)

lemma strlen_loop_SomeD:
  assumes "strlen_loop m p i = Some r"
  shows "\<exists>a. m a = 0"
proof (rule strlen_loop.raw_induct [where P = "\<lambda>m p i r. \<exists>a. m a = 0", OF _ assms])
  fix f m p i r
  assume "\<And>m p i r. f m p i = Some r \<Longrightarrow> \<exists>a. m a = (0 :: byte)"
    and "(if m p \<noteq> 0 then f m (p + 1) (i + 1) else Some i) = Some r"
  then show "\<exists>a. m a = (0 :: byte)" by (auto split: if_splits)
qed

lemma strlen_terminates_iff: "(\<exists>n. strlen m p = Some n) \<longleftrightarrow> (\<exists>a. m a = 0)"
  by (metis cstr_exists strlen_cstr strlen_def strlen_loop_SomeD)

lemma strnlen_loop_cstr:
  assumes "cstr m p s" "k \<le> length s" "int k \<le> sint mx"
  shows "strnlen_loop m p mx (word_of_nat k) = word_of_nat (min (length s) (nat (sint mx)))"
  using assms(2,3)
proof (induction "nat (sint mx) - k" arbitrary: k)
  case 0
  then have eq: "int k = sint mx" by simp
  then have k: "nat (sint mx) = k" by linarith
  have "sint mx < 2 ^ 31" using sint_lt [of mx] by simp
  with eq have "sint (word_of_nat k :: u32) = int k" by (simp add: sint_word_of_nat)
  with eq 0 show ?case
    by (simp add: strnlen_loop.simps [of m p mx] word_sless_alt min_absorb2 k)
next
  case (Suc d)
  then have lt: "int k < sint mx" by simp
  moreover have "sint mx < 2 ^ 31" using sint_lt [of mx] by simp
  ultimately have less: "(word_of_nat k :: u32) <s mx" by (simp add: word_sless_alt sint_word_of_nat)
  show ?case
  proof (cases "k = length s")
    case True
    then show ?thesis
      using less lt cstr_end [OF assms(1)]
      by (simp add: strnlen_loop.simps [of m p mx] min_absorb1)
  next
    case False
    then have "m (p + word_of_nat k) \<noteq> 0"
      using cstr_nth [OF assms(1)] cstr_nonzero [OF assms(1)] Suc.prems(1)
      by (metis le_neq_implies_less nth_mem)
    moreover have "strnlen_loop m p mx (word_of_nat (Suc k)) =
        word_of_nat (min (length s) (nat (sint mx)))"
      by (rule Suc.hyps(1)) (use Suc False lt in auto)
    ultimately show ?thesis
      using less by (simp add: strnlen_loop.simps [of m p mx] ac_simps)
  qed
qed

lemma strnlen_cstr:
  "cstr m p s \<Longrightarrow> 0 \<le> sint mx \<Longrightarrow> strnlen m p mx = word_of_nat (min (length s) (nat (sint mx)))"
  using strnlen_loop_cstr [of m p s 0 mx] by (simp add: strnlen_def)

text \<open>The reference for the comparisons: the first bytes that differ, as unsigned values.\<close>

fun byte_cmp :: "byte list \<Rightarrow> byte list \<Rightarrow> u32" where
  "byte_cmp [] [] = 0"
| "byte_cmp (x # xs) [] = ucast x"
| "byte_cmp [] (y # ys) = - ucast y"
| "byte_cmp (x # xs) (y # ys) = (if x = y then byte_cmp xs ys else ucast x - ucast y)"

lemma strcmp_cstr:
  "cstr m p s \<Longrightarrow> cstr m q t \<Longrightarrow> strcmp m p q = Some (byte_cmp s t)"
proof (induction s t arbitrary: p q rule: byte_cmp.induct)
  case 1
  then show ?case by (simp add: strcmp.simps [of m p q])
next
  case (2 x xs)
  then show ?case by (simp add: strcmp.simps [of m p q])
next
  case (3 y ys)
  then show ?case by (simp add: strcmp.simps [of m p q])
next
  case (4 x xs y ys)
  then show ?case by (simp add: strcmp.simps [of m p q])
qed

lemma unat_ucast_byte: "unat (ucast x :: u32) = unat x" for x :: byte
  using unat_lt2p [of x] by (simp add: unsigned_ucast_eq take_bit_nat_eq_self)

lemma ucast_byte_inject: "(ucast x :: u32) = ucast y \<longleftrightarrow> x = y" for x y :: byte
  by (metis unat_ucast_byte unsigned_word_eqI)

lemma ucast_byte_eq_0: "(ucast x :: u32) = 0 \<longleftrightarrow> x = 0" for x :: byte
  using ucast_byte_inject [of x 0] by simp

lemma byte_diff_neg: "(ucast x :: u32) - ucast y <s 0 \<longleftrightarrow> x < y" for x y :: byte
proof -
  have "unat x < 256" "unat y < 256" using unat_lt2p [of x] unat_lt2p [of y] by simp_all
  then show ?thesis
    by (auto simp: sless_zero_unat unat_sub_if' unat_ucast_byte word_less_nat_alt)
qed

lemma byte_cmp_eq_0: "0 \<notin> set s \<Longrightarrow> 0 \<notin> set t \<Longrightarrow> byte_cmp s t = 0 \<longleftrightarrow> s = t"
  by (induction s t rule: byte_cmp.induct) (auto simp: ucast_byte_inject ucast_byte_eq_0)

lemma byte_cmp_neg:
  "0 \<notin> set s \<Longrightarrow> 0 \<notin> set t \<Longrightarrow> byte_cmp s t <s 0 \<longleftrightarrow> ord_class.lexordp s t"
proof (induction s t rule: byte_cmp.induct)
  case (2 x xs)
  then show ?case using byte_diff_neg [of x 0] by simp
next
  case (3 y ys)
  then show ?case using byte_diff_neg [of 0 y] by (simp add: word_neq_0_conv)
next
  case (4 x xs y ys)
  then show ?case by (auto simp: byte_diff_neg)
qed simp

lemma nat_sint_pos: "0 <s n \<Longrightarrow> nat (sint n) = Suc (nat (sint (n - 1)))" for n :: u32
  by (simp add: sint_dec word_sless_alt)

lemma strncmp_cstr:
  "cstr m p s \<Longrightarrow> cstr m q t \<Longrightarrow>
   strncmp m p q n = byte_cmp (take (nat (sint n)) s) (take (nat (sint n)) t)"
proof (induction s t arbitrary: p q n rule: byte_cmp.induct)
  case 1
  then show ?case by (simp add: strncmp.simps [of m p q n])
next
  case (2 x xs)
  then show ?case
    by (cases "0 <s n") (auto simp: strncmp.simps [of m p q n] nat_sint_pos word_sless_alt)
next
  case (3 y ys)
  then show ?case
    by (cases "0 <s n") (auto simp: strncmp.simps [of m p q n] nat_sint_pos word_sless_alt)
next
  case (4 x xs y ys)
  then show ?case
    by (cases "0 <s n") (auto simp: strncmp.simps [of m p q n] nat_sint_pos word_sless_alt)
qed

fun ibyte_cmp :: "byte list \<Rightarrow> byte list \<Rightarrow> u32" where
  "ibyte_cmp [] [] = 0"
| "ibyte_cmp (x # xs) [] = ucast x"
| "ibyte_cmp [] (y # ys) = - ucast y"
| "ibyte_cmp (x # xs) (y # ys) =
     (if tolower x = tolower y then ibyte_cmp xs ys else ucast x - ucast y)"

lemma tolower_eq_0: "tolower c = 0 \<longleftrightarrow> c = 0"
proof (cases "65 \<le>s c \<and> c \<le>s 90")
  case True
  then have "c \<noteq> 0" "c \<noteq> - 32" by (auto simp: word_sle_eq)
  then have "c + 32 \<noteq> 0" by (simp add: add_eq_0_iff2)
  with True \<open>c \<noteq> 0\<close> show ?thesis by (simp add: tolower_def)
qed (auto simp: tolower_def)

lemma istrncmp_cstr:
  "cstr m p s \<Longrightarrow> cstr m q t \<Longrightarrow>
   istrncmp m p q n = ibyte_cmp (take (nat (sint n)) s) (take (nat (sint n)) t)"
proof (induction s t arbitrary: p q n rule: ibyte_cmp.induct)
  case 1
  then show ?case by (simp add: istrncmp.simps [of m p q n])
next
  case (2 x xs)
  then show ?case using tolower_eq_0 [of x] tolower_eq_0 [of 0]
    by (cases "0 <s n") (auto simp: istrncmp.simps [of m p q n] nat_sint_pos word_sless_alt)
next
  case (3 y ys)
  then show ?case using tolower_eq_0 [of y] tolower_eq_0 [of 0]
    by (cases "0 <s n") (auto simp: istrncmp.simps [of m p q n] nat_sint_pos word_sless_alt)
next
  case (4 x xs y ys)
  then show ?case
    by (cases "0 <s n") (auto simp: istrncmp.simps [of m p q n] nat_sint_pos word_sless_alt)
qed

lemma ibyte_cmp_eq_0:
  "0 \<notin> set s \<Longrightarrow> 0 \<notin> set t \<Longrightarrow> ibyte_cmp s t = 0 \<longleftrightarrow> map tolower s = map tolower t"
  by (induction s t rule: ibyte_cmp.induct) (auto simp: ucast_byte_inject ucast_byte_eq_0)

lemma strcpy_cstr:
  "cstr m src s \<Longrightarrow> apart dest (Suc (length s)) src (Suc (length s)) \<Longrightarrow>
   strcpy m dest src = Some (write_bytes m dest (s @ [0]))"
proof (induction s arbitrary: m dest src)
  case Nil
  then show ?case by (simp add: strcpy.simps [of m dest src] fun_upd_def)
next
  case (Cons c s)
  have "dest \<noteq> src + 1 + word_of_nat i" if "i \<le> length s" for i
    using apartD [OF Cons.prems(2), of 0 "Suc i"] that by (simp add: ac_simps)
  then have "cstr (m(dest := c)) (src + 1) s"
    using Cons.prems(1) by (intro apart_cstr_upd) auto
  moreover have "apart (dest + 1) (Suc (length s)) (src + 1) (Suc (length s))"
    using Cons.prems(2) by (intro apart_Suc_left apart_Suc_right) simp
  ultimately show ?case
    using Cons by (simp add: strcpy.simps [of m dest src])
qed

lemma strncpy_loop_cstr:
  assumes "cstr m (src + word_of_nat k) s"
    and "apart (dest + word_of_nat k) N (src + word_of_nat k) (Suc (length s))"
    and "int (k + N) = sint (count - 1)"
  shows "strncpy_loop m dest src count (word_of_nat k) =
    (write_bytes m (dest + word_of_nat k) (take N s), word_of_nat (k + min N (length s)))"
  using assms
proof (induction N arbitrary: m k s)
  case 0
  then have "\<not> (word_of_nat k :: u32) <s count - 1"
    using sint_lt [of "count - 1"] by (simp add: word_sless_alt sint_word_of_nat)
  then show ?case by (simp add: strncpy_loop.simps [of m dest src count])
next
  case (Suc N)
  have "int k < sint (count - 1)" "sint (count - 1) < 2 ^ 31"
    using Suc.prems(3) sint_lt [of "count - 1"] by simp_all
  then have less: "(word_of_nat k :: u32) <s count - 1"
    by (simp add: word_sless_alt sint_word_of_nat)
  show ?case
  proof (cases s)
    case Nil
    then show ?thesis using less Suc.prems(1) by (simp add: strncpy_loop.simps [of m dest src count])
  next
    case (Cons c cs)
    let ?m = "m(dest + word_of_nat k := c)"
    have "dest + word_of_nat k \<noteq> src + word_of_nat k + 1 + word_of_nat i" if "i \<le> length cs" for i
      using apartD [OF Suc.prems(2), of 0 "Suc i"] that Cons by (simp add: ac_simps)
    then have "cstr ?m (src + word_of_nat (Suc k)) cs"
      using Suc.prems(1) Cons by (intro apart_cstr_upd) (auto simp: ac_simps)
    moreover have "apart (dest + word_of_nat k + 1) N (src + word_of_nat k + 1) (Suc (length cs))"
      using Suc.prems(2) Cons by (intro apart_Suc_left apart_Suc_right) simp
    then have "apart (dest + word_of_nat (Suc k)) N (src + word_of_nat (Suc k)) (Suc (length cs))"
      by (simp add: ac_simps)
    moreover have "int (Suc k + N) = sint (count - 1)" using Suc.prems(3) by simp
    ultimately have "strncpy_loop ?m dest src count (word_of_nat (Suc k)) =
        (write_bytes ?m (dest + word_of_nat (Suc k)) (take N cs),
         word_of_nat (Suc k + min N (length cs)))"
      by (rule Suc.IH)
    then show ?thesis
      using less Suc.prems(1) Cons
      by (simp add: strncpy_loop.simps [of m dest src count] ac_simps fun_upd_def)
  qed
qed

lemma strncpy_cstr:
  assumes "cstr m src s" "apart dest (unat count) src (Suc (length s))" "0 <s count"
  shows "strncpy m dest src count = write_bytes m dest (take (unat count - 1) s @ [0])"
proof -
  have pos: "0 < sint count" using assms(3) by (simp add: word_sless_alt)
  then have u: "int (unat count) = sint count" using uint_u32 [of count]
    by (auto simp: sint_unat split: if_splits)
  let ?N = "unat count - 1"
  have "strncpy_loop m dest src count (word_of_nat 0) =
      (write_bytes m (dest + word_of_nat 0) (take ?N s), word_of_nat (0 + min ?N (length s)))"
  proof (rule strncpy_loop_cstr)
    show "cstr m (src + word_of_nat 0) s" using assms(1) by simp
    show "apart (dest + word_of_nat 0) ?N (src + word_of_nat 0) (Suc (length s))"
      using apart_mono [OF assms(2), of ?N "Suc (length s)"] by simp
    show "int (0 + ?N) = sint (count - 1)" using u pos sint_dec [OF assms(3)] by linarith
  qed
  then show ?thesis
    by (simp add: strncpy_def write_bytes_append min.commute fun_upd_def)
qed

lemma strchr_cstr:
  "cstr m p s \<Longrightarrow> ucast ch \<noteq> (0 :: byte) \<Longrightarrow>
   strchr m p ch = Some (if ucast ch \<in> set s
     then p + word_of_nat (length (takeWhile (\<lambda>c. c \<noteq> ucast ch) s)) else 0)"
proof (induction s arbitrary: p)
  case Nil
  then show ?case by (auto simp: strchr.simps [of m p])
next
  case (Cons c s)
  then show ?case by (auto simp: strchr.simps [of m p] ac_simps)
qed

lemma takeWhile_length_le: "length (takeWhile P xs) \<le> length xs"
  by (induction xs) auto

lemma ucast_scast_byte [simp]: "ucast (scast c :: u32) = c" for c :: byte
  by (rule bit_word_eqI) (simp add: bit_ucast_iff bit_signed_iff)

text \<open>The test strtok makes of a character: is it one of the delimiters?\<close>

lemma strchr_found:
  assumes "cstr m d ds" "\<And>i. i < length ds \<Longrightarrow> d + word_of_nat i \<noteq> 0" "c \<noteq> 0"
  obtains r where "strchr m d (scast c) = Some r" "r \<noteq> 0 \<longleftrightarrow> c \<in> set ds"
proof -
  have *: "strchr m d (scast c) = Some (if c \<in> set ds
      then d + word_of_nat (length (takeWhile (\<lambda>x. x \<noteq> c) ds)) else 0)"
    using strchr_cstr [OF assms(1), of "scast c"] assms(3) by simp
  have "length (takeWhile (\<lambda>x. x \<noteq> c) ds) < length ds" if "c \<in> set ds"
    using that by (induction ds) auto
  then show ?thesis
    using assms(2) by (intro that [OF *]) auto
qed

lemma strtok_skip_cstr:
  assumes d: "cstr m d ds" "\<And>i. i < length ds \<Longrightarrow> d + word_of_nat i \<noteq> 0"
  shows "cstr m p s \<Longrightarrow>
    strtok_skip m d p = Some (p + word_of_nat (length (takeWhile (\<lambda>c. c \<in> set ds) s)))"
proof (induction s arbitrary: p)
  case Nil
  then show ?case by (simp add: strtok_skip.simps [of m d p])
next
  case (Cons c s)
  from Cons.prems have c: "c \<noteq> 0" "m p = c" by simp_all
  obtain r where "strchr m d (scast c) = Some r" "r \<noteq> 0 \<longleftrightarrow> c \<in> set ds"
    using strchr_found [OF d c(1)] by blast
  then show ?case using c Cons by (auto simp: strtok_skip.simps [of m d p] ac_simps)
qed

lemma strtok_end_cstr:
  assumes d: "cstr m d ds" "\<And>i. i < length ds \<Longrightarrow> d + word_of_nat i \<noteq> 0"
  shows "cstr m p s \<Longrightarrow>
    strtok_end m d p = Some (p + word_of_nat (length (takeWhile (\<lambda>c. c \<notin> set ds) s)))"
proof (induction s arbitrary: p)
  case Nil
  then show ?case by (simp add: strtok_end.simps [of m d p])
next
  case (Cons c s)
  from Cons.prems have c: "c \<noteq> 0" "m p = c" by simp_all
  obtain r where "strchr m d (scast c) = Some r" "r \<noteq> 0 \<longleftrightarrow> c \<in> set ds"
    using strchr_found [OF d c(1)] by blast
  then show ?case using c Cons by (auto simp: strtok_end.simps [of m d p] ac_simps)
qed

lemma cstr_drop_prefix:
  "cstr m p (xs @ ys) \<Longrightarrow> cstr m (p + word_of_nat (length xs)) ys"
  by (simp add: cstr_append)

lemma strtok_cstr:
  assumes d: "cstr m d ds" "\<And>i. i < length ds \<Longrightarrow> d + word_of_nat i \<noteq> 0"
    and p: "p = (if str \<noteq> 0 then str else nextToken)" "p \<noteq> 0" and s: "cstr m p s"
    and parts: "lead = takeWhile (\<lambda>c. c \<in> set ds) s" "rest = dropWhile (\<lambda>c. c \<in> set ds) s"
      "tok = takeWhile (\<lambda>c. c \<notin> set ds) rest" "left = dropWhile (\<lambda>c. c \<notin> set ds) rest"
      "q = p + word_of_nat (length lead)" "e = q + word_of_nat (length tok)"
  shows "strtok m nextToken str d = Some (if rest = [] then (0, q, m)
     else if left = [] then (q, 0, m) else (q, e + 1, m(e := 0)))"
proof -
  have "s = lead @ rest" "rest = tok @ left" using parts by simp_all
  then have "cstr m q rest" and "cstr m e left"
    using s parts(5,6) by (metis cstr_drop_prefix)+
  have skip: "strtok_skip m d p = Some q"
    using strtok_skip_cstr [OF d s] parts(1,5) by simp
  have stop: "strtok_end m d q = Some e"
    using strtok_end_cstr [OF d \<open>cstr m q rest\<close>] parts(3,6) by simp
  have "m q = 0 \<longleftrightarrow> rest = []" and "m e = 0 \<longleftrightarrow> left = []"
    using \<open>cstr m q rest\<close> \<open>cstr m e left\<close> by (cases rest; cases left; auto)+
  then show ?thesis
    using p skip stop by (auto simp: strtok_def Let_def)
qed

section \<open>Properties\<close>

text \<open>\<open>strlen\<close> returns if and only if some byte of the memory is 0: without one it runs through
  the whole address space for ever.\<close>

theorem strlen_terminates:
  "(\<exists>n. strlen m p = Some n) \<longleftrightarrow> (\<exists>a. m a = 0)"
  by (rule strlen_terminates_iff)

end
