(* ===== verification/Heap.thy ===== *)
theory Heap
  imports Strings
begin

text \<open>
  \<^verbatim>\<open>ke/memory/heap/heap.c\<close>: the block allocator. The heap is a pool of 4096-byte blocks from
  \<open>saddr\<close> on, and a table with one byte per block, which lies in memory at \<open>entries\<close>. A table
  byte says whether its block is taken, whether it is the first of its allocation, and whether
  another block of the same allocation follows. The functions take and return the memory.
\<close>

section \<open>Data\<close>

definition LIBREWIN_HEAP_BLOCK_SIZE :: u32 where [status_defs]: "LIBREWIN_HEAP_BLOCK_SIZE = 4096"
definition HEAP_BLOCK_TABLE_ENTRY_TAKEN :: byte where
  [status_defs]: "HEAP_BLOCK_TABLE_ENTRY_TAKEN = 0x01"
definition HEAP_BLOCK_TABLE_ENTRY_FREE :: byte where
  [status_defs]: "HEAP_BLOCK_TABLE_ENTRY_FREE = 0x00"
definition HEAP_BLOCK_HAS_NEXT :: byte where [status_defs]: "HEAP_BLOCK_HAS_NEXT = 0x80"
definition HEAP_BLOCK_IS_FIRST :: byte where [status_defs]: "HEAP_BLOCK_IS_FIRST = 0x40"

record heap_table =
  entries :: addr
  total :: u32

record heap =
  table :: heap_table
  saddr :: addr

section \<open>Creation\<close>

definition heap_validate_table :: "addr \<Rightarrow> addr \<Rightarrow> heap_table \<Rightarrow> u32" where
  "heap_validate_table ptr pend tbl =
     (let table_size = pend - ptr; total_blocks = table_size div LIBREWIN_HEAP_BLOCK_SIZE in
      if total tbl \<noteq> total_blocks then - EINVARG else 0)"

definition heap_validate_alignment :: "addr \<Rightarrow> bool" where
  "heap_validate_alignment ptr \<longleftrightarrow> ptr mod LIBREWIN_HEAP_BLOCK_SIZE = 0"

text \<open>A heap whose table pointer is null, as \<open>memset(heap, 0, sizeof(struct heap))\<close> leaves it,
  is never seen: both fields are set before the next statement that can fail.\<close>

definition heap_create :: "mem \<Rightarrow> heap \<Rightarrow> addr \<Rightarrow> addr \<Rightarrow> heap_table \<Rightarrow> u32 \<times> heap \<times> mem" where
  "heap_create m heap ptr pend tbl =
     (if \<not> heap_validate_alignment ptr \<or> \<not> heap_validate_alignment pend then (- EINVARG, heap, m)
      else
        let heap = \<lparr>table = tbl, saddr = ptr\<rparr>; res = heap_validate_table ptr pend tbl in
        if res <s 0 then (res, heap, m)
        else let table_size = 1 * total tbl in
             (res, heap, memset m (entries tbl) (ucast HEAP_BLOCK_TABLE_ENTRY_FREE) table_size))"

section \<open>Allocation\<close>

definition heap_align_value_to_upper :: "u32 \<Rightarrow> u32" where
  "heap_align_value_to_upper val =
     (if val mod LIBREWIN_HEAP_BLOCK_SIZE = 0 then val
      else let val = val - val mod LIBREWIN_HEAP_BLOCK_SIZE in val + LIBREWIN_HEAP_BLOCK_SIZE)"

definition heap_get_entry_type :: "byte \<Rightarrow> u32" where
  "heap_get_entry_type entry = ucast entry AND 0x0f"

function heap_get_start_block_loop :: "mem \<Rightarrow> heap_table \<Rightarrow> u32 \<Rightarrow> u32 \<Rightarrow> u32 \<Rightarrow> u32 \<Rightarrow> u32" where
  "heap_get_start_block_loop m tbl total_blocks bc bs i =
     (if i < total tbl
      then if heap_get_entry_type (m (entries tbl + i)) \<noteq> ucast HEAP_BLOCK_TABLE_ENTRY_FREE
           then heap_get_start_block_loop m tbl total_blocks 0 (- 1) (i + 1)
           else let bs = (if bs = - 1 then i else bs); bc = bc + 1 in
                if bc = total_blocks then bs
                else heap_get_start_block_loop m tbl total_blocks bc bs (i + 1)
      else bs)"
  by pat_completeness auto
termination
  by (relation "measure (\<lambda>(m, tbl, n, bc, bs, i). unat (total tbl - i))") (auto simp: measure_up)

definition heap_get_start_block :: "mem \<Rightarrow> heap \<Rightarrow> u32 \<Rightarrow> u32" where
  "heap_get_start_block m heap total_blocks =
     (let bs = heap_get_start_block_loop m (table heap) total_blocks 0 (- 1) 0 in
      if bs = - 1 then - ENOMEM else bs)"

definition heap_block_to_address :: "heap \<Rightarrow> u32 \<Rightarrow> addr" where
  "heap_block_to_address heap block = saddr heap + block * LIBREWIN_HEAP_BLOCK_SIZE"

text \<open>The counter of a loop \<open>for (int i = a; i <= b; i++)\<close> is a mathematical integer: C leaves
  its overflow undefined.\<close>

function heap_mark_taken_loop :: "mem \<Rightarrow> addr \<Rightarrow> int \<Rightarrow> byte \<Rightarrow> int \<Rightarrow> mem" where
  "heap_mark_taken_loop m ents end_block entry i =
     (if i \<le> end_block
      then let m = m(ents + word_of_int i := entry);
               entry = HEAP_BLOCK_TABLE_ENTRY_TAKEN;
               entry = (if i \<noteq> end_block - 1 then entry OR HEAP_BLOCK_HAS_NEXT else entry)
           in heap_mark_taken_loop m ents end_block entry (i + 1)
      else m)"
  by pat_completeness auto
termination
  by (relation "measure (\<lambda>(m, ents, e, entry, i). nat (e + 1 - i))") auto

definition heap_mark_blocks_taken :: "mem \<Rightarrow> heap \<Rightarrow> u32 \<Rightarrow> u32 \<Rightarrow> mem" where
  "heap_mark_blocks_taken m heap start_block total_blocks =
     (let end_block = (start_block + total_blocks) - 1;
          entry = HEAP_BLOCK_TABLE_ENTRY_TAKEN OR HEAP_BLOCK_IS_FIRST;
          entry = (if 1 <s total_blocks then entry OR HEAP_BLOCK_HAS_NEXT else entry)
      in heap_mark_taken_loop m (entries (table heap)) (sint end_block) entry (sint start_block))"

definition heap_malloc_blocks :: "mem \<Rightarrow> heap \<Rightarrow> u32 \<Rightarrow> addr \<times> mem" where
  "heap_malloc_blocks m heap total_blocks =
     (let start_block = heap_get_start_block m heap total_blocks in
      if start_block <s 0 then (0, m)
      else (heap_block_to_address heap start_block,
            heap_mark_blocks_taken m heap start_block total_blocks))"

definition heap_malloc :: "mem \<Rightarrow> heap \<Rightarrow> u32 \<Rightarrow> addr \<times> mem" where
  "heap_malloc m heap sz =
     (let aligned_size = heap_align_value_to_upper sz;
          total_blocks = aligned_size div LIBREWIN_HEAP_BLOCK_SIZE
      in heap_malloc_blocks m heap total_blocks)"

section \<open>Release\<close>

function heap_mark_free_loop :: "mem \<Rightarrow> addr \<Rightarrow> int \<Rightarrow> int \<Rightarrow> mem" where
  "heap_mark_free_loop m ents tot i =
     (if i < tot
      then let entry = m (ents + word_of_int i);
               m = m(ents + word_of_int i := HEAP_BLOCK_TABLE_ENTRY_FREE)
           in if entry AND HEAP_BLOCK_HAS_NEXT = 0 then m
              else heap_mark_free_loop m ents tot (i + 1)
      else m)"
  by pat_completeness auto
termination
  by (relation "measure (\<lambda>(m, ents, n, i). nat (n - i))") auto

definition heap_mark_blocks_free :: "mem \<Rightarrow> heap \<Rightarrow> u32 \<Rightarrow> mem" where
  "heap_mark_blocks_free m heap starting_block =
     heap_mark_free_loop m (entries (table heap)) (sint (total (table heap))) (sint starting_block)"

text \<open>The address difference is an \<open>int\<close>, and \<open>int\<close> division truncates.\<close>

definition heap_address_to_block :: "heap \<Rightarrow> addr \<Rightarrow> u32" where
  "heap_address_to_block heap address =
     word_of_int (sint (address - saddr heap) sdiv sint LIBREWIN_HEAP_BLOCK_SIZE)"

definition heap_free :: "mem \<Rightarrow> heap \<Rightarrow> addr \<Rightarrow> mem" where
  "heap_free m heap ptr = heap_mark_blocks_free m heap (heap_address_to_block heap ptr)"

declare heap_get_start_block_loop.simps [simp del] heap_mark_taken_loop.simps [simp del]
  heap_mark_free_loop.simps [simp del]

section \<open>The search for free blocks\<close>

text \<open>The search on natural numbers: \<open>c\<close> free blocks end just below \<open>k\<close>.\<close>

function scan :: "(nat \<Rightarrow> bool) \<Rightarrow> nat \<Rightarrow> nat \<Rightarrow> nat \<Rightarrow> nat \<Rightarrow> nat option" where
  "scan F n N c k =
     (if k < N
      then if \<not> F k then scan F n N 0 (Suc k)
           else if Suc c = n then Some (k - c) else scan F n N (Suc c) (Suc k)
      else if c = 0 then None else Some (k - c))"
  by pat_completeness auto
termination
  by (relation "measure (\<lambda>(F, n, N, c, k). N - k)") auto

declare scan.simps [simp del]

definition fits :: "(nat \<Rightarrow> bool) \<Rightarrow> nat \<Rightarrow> nat \<Rightarrow> nat \<Rightarrow> bool" where
  "fits F n N s \<longleftrightarrow> s + n \<le> N \<and> (\<forall>j<n. F (s + j))"

text \<open>How many blocks at the end of the table are free.\<close>

fun free_tail :: "(nat \<Rightarrow> bool) \<Rightarrow> nat \<Rightarrow> nat" where
  "free_tail F 0 = 0"
| "free_tail F (Suc N) = (if F N then Suc (free_tail F N) else 0)"

lemma free_tail_le: "free_tail F N \<le> N"
  by (induction N) auto

lemma free_tail_free: "j < free_tail F N \<Longrightarrow> F (N - Suc j)"
proof (induction N arbitrary: j)
  case (Suc N)
  then show ?case by (cases j) (auto split: if_splits)
qed simp

lemma free_tail_stop: "free_tail F N < N \<Longrightarrow> \<not> F (N - Suc (free_tail F N))"
  by (induction N) (auto split: if_splits)

lemma scan_correct:
  assumes "0 < n" "k \<le> N" "c = free_tail F k" "c < n" "\<And>s. s + n \<le> k \<Longrightarrow> \<not> fits F n N s"
  shows "scan F n N c k = (if \<exists>s. fits F n N s then Some (LEAST s. fits F n N s)
    else if free_tail F N = 0 then None else Some (N - free_tail F N))"
  using assms
proof (induction F n N c k rule: scan.induct)
  case (1 F n N c k)
  show ?case
  proof (cases "k < N")
    case False
    then have "k = N" using "1.prems" by simp
    moreover have "\<not> fits F n N s" for s
      using "1.prems"(5) [of s] \<open>k = N\<close> by (auto simp: fits_def)
    ultimately show ?thesis unfolding scan.simps [of F n N c k] using "1.prems"(3) by simp
  next
    case True
    note step = scan.simps [of F n N c k]
    show ?thesis
    proof (cases "F k")
      case False
      have "\<not> fits F n N s" if "s + n \<le> Suc k" for s
      proof
        assume fit: "fits F n N s"
        then have "s + n = Suc k" using that "1.prems"(5) by (metis le_SucE)
        then have "s + (n - 1) = k" using \<open>0 < n\<close> by simp
        moreover have "F (s + (n - 1))"
          using fit \<open>0 < n\<close> unfolding fits_def by (meson diff_less zero_less_one)
        ultimately show False using False by simp
      qed
      then show ?thesis
        using "1.IH"(1) [OF True False] False True \<open>0 < n\<close> by (simp add: step)
    next
      case F: True
      show ?thesis
      proof (cases "Suc c = n")
        case True
        have c: "c \<le> k" using "1.prems"(3) free_tail_le by simp
        have "F (k - c + j)" if "j < n" for j
        proof (cases "j = c")
          case False
          then have "c - Suc j < free_tail F k" using that True "1.prems"(3) by simp
          then have "F (k - Suc (c - Suc j))" by (rule free_tail_free)
          moreover have "k - Suc (c - Suc j) = k - c + j" using False that True c by simp
          ultimately show ?thesis by simp
        qed (use F c in simp)
        then have "fits F n N (k - c)" using \<open>k < N\<close> c True by (auto simp: fits_def)
        moreover have "k - c \<le> s" if "fits F n N s" for s
          using "1.prems"(5) [of s] that True c by linarith
        ultimately have "(LEAST s. fits F n N s) = k - c" by (intro Least_equality)
        then show ?thesis using \<open>fits F n N (k - c)\<close> F \<open>k < N\<close> True by (auto simp: step)
      next
        case False
        then have "Suc c < n" using "1.prems"(4) by simp
        have "\<not> fits F n N s" if "s + n \<le> Suc k" for s
        proof
          assume fit: "fits F n N s"
          then have eq: "s + n = Suc k" using that "1.prems"(5) by (metis le_SucE)
          then have "c < k" using \<open>Suc c < n\<close> by simp
          then have "\<not> F (k - Suc c)" using free_tail_stop [of F k] "1.prems"(3) by simp
          moreover have "k - Suc c - s < n" and "s + (k - Suc c - s) = k - Suc c"
            using eq \<open>Suc c < n\<close> by simp_all
          then have "F (k - Suc c)" using fit unfolding fits_def by metis
          ultimately show False by simp
        qed
        then show ?thesis unfolding step
          using "1.IH"(2) [OF True _ False] F False True \<open>0 < n\<close> \<open>Suc c < n\<close> "1.prems"(3)
          by simp
      qed
    qed
  qed
qed

text \<open>The table byte of block \<open>i\<close>, and whether the search takes the block for free.\<close>

definition tb :: "mem \<Rightarrow> heap_table \<Rightarrow> nat \<Rightarrow> byte" where
  "tb m t i = m (entries t + word_of_nat i)"

definition block_free :: "mem \<Rightarrow> heap_table \<Rightarrow> nat \<Rightarrow> bool" where
  "block_free m t i \<longleftrightarrow> tb m t i AND 0x0f = 0"

lemma heap_get_entry_type_free:
  "heap_get_entry_type e = ucast HEAP_BLOCK_TABLE_ENTRY_FREE \<longleftrightarrow> e AND 0x0f = 0"
proof -
  have "heap_get_entry_type e = ucast (e AND 0x0f)"
    by (simp add: heap_get_entry_type_def unsigned_and_eq)
  then show ?thesis
    using ucast_byte_eq_0 [of "e AND 0x0f"] by (simp add: HEAP_BLOCK_TABLE_ENTRY_FREE_def)
qed

lemma heap_get_start_block_loop_scan:
  assumes "k \<le> unat (total t)" "c \<le> k"
  shows "heap_get_start_block_loop m t n (word_of_nat c)
      (if c = 0 then - 1 else word_of_nat (k - c)) (word_of_nat k) =
    (case scan (block_free m t) (unat n) (unat (total t)) c k of None \<Rightarrow> - 1 | Some s \<Rightarrow> word_of_nat s)"
  using assms
proof (induction "unat (total t) - k" arbitrary: k c)
  case 0
  then have "k = unat (total t)" by simp
  then have "\<not> (word_of_nat k :: u32) < total t" by simp
  with 0 show ?case
    by (simp add: heap_get_start_block_loop.simps [of m t n] scan.simps [of _ _ _ c k])
next
  case (Suc d)
  have k: "k < unat (total t)" using Suc.hyps(2) by simp
  then have k32: "Suc k < 2 ^ 32" using unat_u32 [of "total t"] by simp
  then have less: "(word_of_nat k :: u32) < total t" using k by (simp add: word_less_nat_alt unat_of_nat)
  note loop = heap_get_start_block_loop.simps [of m t n]
    and step = scan.simps [of "block_free m t" "unat n" "unat (total t)" c k]
  note free = heap_get_entry_type_free
  have d: "d = unat (total t) - Suc k" using Suc.hyps(2) by simp
  show ?case
  proof (cases "block_free m t k")
    case False
    then show ?thesis
      using Suc.hyps(1) [OF d, of 0] k less
      by (simp add: loop step free block_free_def tb_def ac_simps)
  next
    case True
    have bs: "(if (if c = 0 then - 1 else word_of_nat (k - c)) = (- 1 :: u32) then word_of_nat k
        else (if c = 0 then - 1 else word_of_nat (k - c))) = (word_of_nat (k - c) :: u32)"
    proof -
      have "unat (word_of_nat (k - c) :: u32) = k - c"
        using k32 by (simp add: unat_of_nat)
      then have "(word_of_nat (k - c) :: u32) \<noteq> - 1"
        using unat_minus_one k32 by auto
      then show ?thesis by simp
    qed
    have full: "word_of_nat c + 1 = n \<longleftrightarrow> Suc c = unat n"
      using k32 Suc.prems(2) unat_u32 [of n] word_of_nat_inject_u32 [of "Suc c" "unat n"]
      by (simp add: ac_simps)
    show ?thesis
      using Suc.hyps(1) [OF d, of "Suc c"] Suc.prems k less True bs full
      by (simp add: loop step free block_free_def tb_def ac_simps)
  qed
qed

lemma heap_get_start_block_first_fit:
  fixes m :: mem and h :: heap and total_blocks :: u32
  assumes "0 < total_blocks"
  defines "F \<equiv> block_free m (table h)" and "N \<equiv> unat (total (table h))"
  shows "heap_get_start_block m h total_blocks =
    (if \<exists>s. fits F (unat total_blocks) N s then word_of_nat (LEAST s. fits F (unat total_blocks) N s)
     else if free_tail F N = 0 then - ENOMEM else word_of_nat (N - free_tail F N))"
proof -
  let ?n = "unat total_blocks"
  have n: "0 < ?n" using assms(1) by (simp add: word_less_nat_alt)
  have scan: "scan F ?n N 0 0 = (if \<exists>s. fits F ?n N s then Some (LEAST s. fits F ?n N s)
    else if free_tail F N = 0 then None else Some (N - free_tail F N))"
    by (rule scan_correct) (use n in auto)
  have loop: "heap_get_start_block_loop m (table h) total_blocks 0 (- 1) 0 =
      (case scan F ?n N 0 0 of None \<Rightarrow> - 1 | Some s \<Rightarrow> word_of_nat s)"
    using heap_get_start_block_loop_scan [of 0 "table h" 0 m total_blocks] by (simp add: F_def N_def)
  have small: "(word_of_nat s :: u32) \<noteq> - 1" if "s < N" for s
  proof -
    have "unat (word_of_nat s :: u32) < 4294967295"
      using that unat_u32 [of "total (table h)"] by (simp add: unat_of_nat N_def)
    then show ?thesis using unat_minus_one by (metis less_irrefl)
  qed
  have "(LEAST s. fits F ?n N s) < N" if "\<exists>s. fits F ?n N s"
    using LeastI_ex [OF that] n by (auto simp: fits_def)
  moreover have "N - free_tail F N < N" if "free_tail F N \<noteq> 0"
    using that free_tail_le [of F N] by simp
  ultimately show ?thesis
    using small by (auto simp: heap_get_start_block_def loop scan Let_def)
qed

section \<open>What marking and freeing do to the table\<close>

lemma uint_step_down: "d \<noteq> 0 \<Longrightarrow> uint (d - 1) = uint d - 1" for d :: u32
proof -
  assume d: "d \<noteq> 0"
  then have "0 < unat d" by (simp add: unat_gt_0)
  with unat_dec [OF d] have "int (unat (d - 1)) = int (unat d) - 1" by linarith
  then show ?thesis by simp
qed

lemma heap_mark_taken_loop_apply:
  assumes "e - i < 2 ^ 32 - 1"
  shows "heap_mark_taken_loop m ents e entry i a =
    (let d = uint (a - (ents + word_of_int i)) in
     if d \<le> e - i
     then (if d = 0 then entry
           else HEAP_BLOCK_TABLE_ENTRY_TAKEN OR (if i + d \<noteq> e then HEAP_BLOCK_HAS_NEXT else 0))
     else m a)"
  using assms
proof (induction "nat (e + 1 - i)" arbitrary: m i entry)
  case 0
  have "0 \<le> uint (a - (ents + word_of_int i))" by simp
  with 0 have "\<not> uint (a - (ents + word_of_int i)) \<le> e - i" by linarith
  with 0 show ?case by (simp add: heap_mark_taken_loop.simps [of m ents e entry i])
next
  case (Suc x)
  let ?d = "a - (ents + word_of_int i)"
  let ?entry = "HEAP_BLOCK_TABLE_ENTRY_TAKEN OR (if i \<noteq> e - 1 then HEAP_BLOCK_HAS_NEXT else 0)"
  from Suc.hyps(2) have "i \<le> e" by simp
  show ?case
  proof -
    have unfold: "heap_mark_taken_loop m ents e entry i a =
        heap_mark_taken_loop (m(ents + word_of_int i := entry)) ents e ?entry (i + 1) a"
      using \<open>i \<le> e\<close> by (simp add: heap_mark_taken_loop.simps [of m ents e entry i])
    have IH: "heap_mark_taken_loop (m(ents + word_of_int i := entry)) ents e ?entry (i + 1) a =
      (let d = uint (a - (ents + word_of_int (i + 1))) in
       if d \<le> e - (i + 1)
       then (if d = 0 then ?entry
             else HEAP_BLOCK_TABLE_ENTRY_TAKEN OR (if i + 1 + d \<noteq> e then HEAP_BLOCK_HAS_NEXT else 0))
       else (m(ents + word_of_int i := entry)) a)"
      by (rule Suc.hyps(1)) (use Suc.hyps(2) Suc.prems in simp_all)
    have shift: "a - (ents + word_of_int (i + 1)) = ?d - 1" by simp
    show ?thesis
    proof (cases "?d = 0")
      case True
      then have "a = ents + word_of_int i" by simp
      moreover have "uint (?d - 1) = 2 ^ 32 - 1"
        using True unat_minus_one by (simp add: uint_nat)
      ultimately show ?thesis
        using unfold IH shift Suc.prems \<open>i \<le> e\<close> True by (simp add: Let_def)
    next
      case False
      have d1: "uint (a - (ents + word_of_int (i + 1))) = uint ?d - 1"
        unfolding shift using False by (rule uint_step_down)
      have d0: "uint ?d \<noteq> 0" using False by (simp add: uint_0_iff)
      have a: "a \<noteq> ents + word_of_int i" using False by auto
      obtain D where D: "uint ?d = D" by blast
      have c: "(D - 1 \<le> e - (i + 1)) = (D \<le> e - i)"
        "(D - 1 = 0) = (D = 1)" "i + 1 + (D - 1) = i + D" by arith+
      have upd: "(m(ents + word_of_int i := entry)) a = m a" using a by (rule fun_upd_other)
      show ?thesis
        unfolding unfold IH d1 Let_def D c upd using d0 [unfolded D]
        by (cases "D = 1") (auto simp add: eq_diff_eq)
    qed
  qed
qed

text \<open>The table byte of the \<open>j\<close>-th block of an allocation of \<open>n\<close> blocks.\<close>

definition entry_code :: "nat \<Rightarrow> nat \<Rightarrow> byte" where
  "entry_code n j = HEAP_BLOCK_TABLE_ENTRY_TAKEN OR (if j = 0 then HEAP_BLOCK_IS_FIRST else 0)
     OR (if Suc j < n then HEAP_BLOCK_HAS_NEXT else 0)"

lemma heap_mark_taken_loop_nat:
  assumes "0 < n" "s + n < 2 ^ 31"
  shows "heap_mark_taken_loop m ents (int (s + n - 1)) entry (int s) a =
    (let k = unat (a - ents) in
     if s \<le> k \<and> k < s + n
     then (if k = s then entry
           else HEAP_BLOCK_TABLE_ENTRY_TAKEN OR (if Suc (k - s) < n then HEAP_BLOCK_HAS_NEXT else 0))
     else m a)"
proof -
  define k where "k = unat (a - ents)"
  have s: "unat (word_of_nat s :: u32) = s" using assms by (simp add: unat_of_nat)
  have "a - (ents + word_of_int (int s)) = (a - ents) - word_of_nat s" by simp
  then have d: "uint (a - (ents + word_of_int (int s))) =
      (if s \<le> k then int (k - s) else int (k + 2 ^ 32 - s))"
    by (simp only: uint_minus_u32 [of "a - ents" "word_of_nat s"] s k_def)
  have "int (s + n - 1) - int s < 2 ^ 32 - 1" using assms by simp
  note loop = heap_mark_taken_loop_apply [OF this, of m ents entry a, unfolded d]
  show ?thesis
  proof (cases "s \<le> k")
    case True
    then show ?thesis
      unfolding loop k_def [symmetric] Let_def using assms by auto
  next
    case False
    moreover have "\<not> int (k + 2 ^ 32 - s) \<le> int (s + n - 1) - int s" using assms by simp
    ultimately show ?thesis
      unfolding loop k_def [symmetric] Let_def by simp
  qed
qed

lemma heap_mark_blocks_taken_apply:
  assumes "0 < unat n" "unat s + unat n < 2 ^ 31"
  shows "heap_mark_blocks_taken m h s n a =
    (let k = unat (a - entries (table h)) in
     if unat s \<le> k \<and> k < unat s + unat n then entry_code (unat n) (k - unat s) else m a)"
proof -
  have s31: "sint s = int (unat s)" using assms by (simp add: sint_unat)
  have n31: "sint n = int (unat n)" using assms by (simp add: sint_unat)
  have "unat (s + n) = unat s + unat n" using assms by (simp add: unat_word_ariths)
  moreover from this have "s + n \<noteq> 0" using assms(1) by (auto simp flip: unat_eq_0)
  ultimately have "unat (s + n - 1) = unat s + unat n - 1" by (simp add: unat_dec)
  moreover from this have "unat (s + n - 1) < 2 ^ 31" using assms by linarith
  ultimately have e31: "sint (s + n - 1) = int (unat s + unat n - 1)"
    by (simp add: sint_unat)
  have one: "(1 <s n) = (Suc 0 < unat n)"
  proof -
    have "sint (1 :: u32) = 1" by simp
    then show ?thesis unfolding word_sless_alt n31 by linarith
  qed
  have first: "(if 1 <s n then (HEAP_BLOCK_TABLE_ENTRY_TAKEN OR HEAP_BLOCK_IS_FIRST) OR HEAP_BLOCK_HAS_NEXT
      else HEAP_BLOCK_TABLE_ENTRY_TAKEN OR HEAP_BLOCK_IS_FIRST) = entry_code (unat n) 0"
    unfolding one entry_code_def by (simp add: or.assoc)
  show ?thesis
    unfolding heap_mark_blocks_taken_def Let_def first e31 s31 heap_mark_taken_loop_nat [OF assms]
    by (auto simp: entry_code_def)
qed

lemma heap_mark_free_loop_apply:
  assumes "0 < n" "s + n \<le> N" "N < 2 ^ 31"
    and "\<And>j. j < n \<Longrightarrow> (m (ents + word_of_nat (s + j)) AND HEAP_BLOCK_HAS_NEXT = 0) = (Suc j = n)"
  shows "heap_mark_free_loop m ents (int N) (int s) a =
    (let k = unat (a - ents) in if s \<le> k \<and> k < s + n then 0 else m a)"
  using assms
proof (induction n arbitrary: s m)
  case (Suc n)
  let ?m = "m(ents + word_of_int (int s) := HEAP_BLOCK_TABLE_ENTRY_FREE)"
  have "int s < int N" using Suc.prems by simp
  then have step: "heap_mark_free_loop m ents (int N) (int s) =
      (if m (ents + word_of_nat s) AND HEAP_BLOCK_HAS_NEXT = 0 then ?m
       else heap_mark_free_loop ?m ents (int N) (int (Suc s)))"
    by (subst heap_mark_free_loop.simps) (simp add: Let_def ac_simps)
  have s: "unat (word_of_nat s :: u32) = s" using Suc.prems by (simp add: unat_of_nat)
  have at_s: "a = ents + word_of_nat s \<longleftrightarrow> unat (a - ents) = s"
  proof -
    have "a = ents + word_of_nat s \<longleftrightarrow> a - ents = word_of_nat s" by (auto simp: algebra_simps)
    then show ?thesis using s by (simp add: word_unat_eq_iff)
  qed
  have upd: "?m a = (if unat (a - ents) = s then 0 else m a)"
    using at_s by (simp add: HEAP_BLOCK_TABLE_ENTRY_FREE_def)
  have first: "(m (ents + word_of_nat s) AND HEAP_BLOCK_HAS_NEXT = 0) = (n = 0)"
    using Suc.prems(4) [of 0] by simp
  show ?case
  proof (cases "n = 0")
    case True
    then have "heap_mark_free_loop m ents (int N) (int s) = ?m" unfolding step first by simp
    then show ?thesis using upd True by (auto simp: Let_def)
  next
    case False
    have next_codes: "(?m (ents + word_of_nat (Suc s + j)) AND HEAP_BLOCK_HAS_NEXT = 0) = (Suc j = n)"
      if "j < n" for j
    proof -
      have "(word_of_nat (Suc s + j) :: u32) \<noteq> word_of_nat s"
        using Suc.prems that by (subst word_of_nat_inject_u32) auto
      then have "ents + word_of_nat (Suc s + j) \<noteq> ents + word_of_int (int s)"
        by (metis add_left_imp_eq of_int_of_nat_eq)
      then have "?m (ents + word_of_nat (Suc s + j)) = m (ents + word_of_nat (s + Suc j))"
        by (simp only: fun_upd_apply if_False add_Suc_right add_Suc)
      then show ?thesis using Suc.prems(4) [of "Suc j"] that by (simp only: ) simp
    qed
    have "heap_mark_free_loop ?m ents (int N) (int (Suc s)) a =
      (let k = unat (a - ents) in if Suc s \<le> k \<and> k < Suc s + n then 0 else ?m a)"
      by (rule Suc.IH) (use Suc.prems False next_codes in auto)
    then show ?thesis unfolding step first upd using False by (auto simp: Let_def)
  qed
qed simp

section \<open>The allocation map\<close>

text \<open>What the table says: \<open>A s = Some n\<close> when an allocation of \<open>n\<close> blocks starts at block \<open>s\<close>.\<close>

definition in_chunk :: "(nat \<Rightarrow> nat option) \<Rightarrow> nat \<Rightarrow> bool" where
  "in_chunk A i \<longleftrightarrow> (\<exists>s n. A s = Some n \<and> s \<le> i \<and> i < s + n)"

definition heap_rep :: "mem \<Rightarrow> heap_table \<Rightarrow> (nat \<Rightarrow> nat option) \<Rightarrow> bool" where
  "heap_rep m t A \<longleftrightarrow>
     (\<forall>s n. A s = Some n \<longrightarrow> 0 < n \<and> s + n \<le> unat (total t) \<and> (\<forall>j<n. tb m t (s + j) = entry_code n j)) \<and>
     (\<forall>i<unat (total t). \<not> in_chunk A i \<longrightarrow> tb m t i = 0)"

lemma heap_repD:
  assumes "heap_rep m t A" "A s = Some n"
  shows "0 < n" "s + n \<le> unat (total t)" "j < n \<Longrightarrow> tb m t (s + j) = entry_code n j"
  using assms by (auto simp: heap_rep_def)

lemma heap_rep_free: "heap_rep m t A \<Longrightarrow> i < unat (total t) \<Longrightarrow> \<not> in_chunk A i \<Longrightarrow> tb m t i = 0"
  by (auto simp: heap_rep_def)

lemma entry_code_taken: "entry_code n j AND 0x0f = 1"
  by (simp add: entry_code_def status_defs)

lemma entry_code_first: "entry_code n j AND HEAP_BLOCK_IS_FIRST = 0 \<longleftrightarrow> j \<noteq> 0"
  by (simp add: entry_code_def status_defs)

lemma entry_code_next: "entry_code n j AND HEAP_BLOCK_HAS_NEXT = 0 \<longleftrightarrow> n \<le> Suc j"
  by (auto simp add: entry_code_def status_defs)

lemma block_free_iff:
  assumes "heap_rep m t A" "i < unat (total t)"
  shows "block_free m t i \<longleftrightarrow> \<not> in_chunk A i"
proof
  assume "block_free m t i"
  moreover have "tb m t i AND 0x0f = 1" if "A s = Some n" "s \<le> i" "i < s + n" for s n
    using heap_repD(3) [OF assms(1) that(1), of "i - s"] that entry_code_taken by simp
  ultimately show "\<not> in_chunk A i" by (auto simp: in_chunk_def block_free_def)
qed (use heap_rep_free [OF assms] in \<open>simp add: block_free_def\<close>)

lemma heap_rep_disjoint:
  assumes "heap_rep m t A" "A s = Some n" "A s' = Some n'" "s \<noteq> s'"
  shows "s + n \<le> s' \<or> s' + n' \<le> s"
proof -
  have no: False if "A s = Some n" "A s' = Some n'" "s < s'" "s' < s + n" for s n s' n'
  proof -
    have "tb m t (s + (s' - s)) = entry_code n (s' - s)"
      using heap_repD(3) [OF assms(1) that(1), of "s' - s"] that by simp
    moreover have "tb m t (s' + 0) = entry_code n' 0"
      using heap_repD [OF assms(1) that(2)] by blast
    ultimately have "entry_code n (s' - s) = entry_code n' 0" using that by simp
    then show False
      using entry_code_first [of n "s' - s"] entry_code_first [of n' 0] that by simp
  qed
  show ?thesis using no [OF assms(2,3)] no [OF assms(3,2)] assms(4) by (metis linorder_neqE_nat not_le_imp_less)
qed

abbreviation unused :: "(nat \<Rightarrow> nat option) \<Rightarrow> nat \<Rightarrow> bool" where
  "unused A i \<equiv> \<not> in_chunk A i"

definition in_table :: "heap_table \<Rightarrow> addr \<Rightarrow> bool" where
  "in_table t a \<longleftrightarrow> unat (a - entries t) < unat (total t)"

definition blocks_for :: "u32 \<Rightarrow> nat" where
  "blocks_for sz = (unat sz + 4095) div 4096"

lemma heap_rep_taken:
  assumes rep: "heap_rep m t A" and fit: "fits (unused A) n (unat (total t)) s" and n: "0 < n"
    and tb': "\<And>i. i < unat (total t) \<Longrightarrow>
      tb m' t i = (if s \<le> i \<and> i < s + n then entry_code n (i - s) else tb m t i)"
  shows "heap_rep m' t (A(s \<mapsto> n))"
proof -
  have free: "unused A (s + j)" if "j < n" for j using fit that by (simp add: fits_def)
  have range: "s + n \<le> unat (total t)" using fit by (simp add: fits_def)
  have old: "0 < n' \<and> s' + n' \<le> unat (total t) \<and> (\<forall>j<n'. tb m' t (s' + j) = entry_code n' j)"
    if A: "A s' = Some n'" for s' n'
  proof -
    have "tb m' t (s' + j) = entry_code n' j" if "j < n'" for j
    proof -
      have "in_chunk A (s' + j)" unfolding in_chunk_def using A that
        by (intro exI [of _ s'] exI [of _ n']) simp
      then have "\<not> (s \<le> s' + j \<and> s' + j < s + n)"
        using free [of "s' + j - s"] by (auto simp: less_diff_conv2 add.commute)
      then show ?thesis
        using tb' [of "s' + j"] heap_repD [OF rep A] that by (simp only: if_False)
    qed
    then show ?thesis using heap_repD(1,2) [OF rep A] by blast
  qed
  have fresh: "A s = None"
  proof (cases "A s")
    case (Some k)
    then show ?thesis using free [of 0] n heap_repD(1) [OF rep Some] by (auto simp: in_chunk_def)
  qed
  have chunk: "in_chunk (A(s \<mapsto> n)) i \<longleftrightarrow> in_chunk A i \<or> (s \<le> i \<and> i < s + n)" for i
  proof
    assume "in_chunk (A(s \<mapsto> n)) i"
    then obtain s' n' where c: "(A(s \<mapsto> n)) s' = Some n'" "s' \<le> i" "i < s' + n'"
      by (auto simp only: in_chunk_def)
    then show "in_chunk A i \<or> (s \<le> i \<and> i < s + n)"
      by (cases "s' = s") (auto simp: in_chunk_def)
  next
    assume "in_chunk A i \<or> (s \<le> i \<and> i < s + n)"
    then show "in_chunk (A(s \<mapsto> n)) i"
    proof
      assume "in_chunk A i"
      then obtain s' n' where c: "A s' = Some n'" "s' \<le> i" "i < s' + n'" by (auto simp only: in_chunk_def)
      then have "(A(s \<mapsto> n)) s' = Some n'" using fresh by auto
      with c(2,3) show ?thesis unfolding in_chunk_def by blast
    next
      assume "s \<le> i \<and> i < s + n"
      then show ?thesis unfolding in_chunk_def by (intro exI [of _ s] exI [of _ n]) simp
    qed
  qed
  show ?thesis
    unfolding heap_rep_def
  proof (intro conjI allI impI)
    fix s' n' assume "(A(s \<mapsto> n)) s' = Some n'"
    then consider "s' = s" "n' = n" | "A s' = Some n'" by (cases "s' = s") simp_all
    then have "0 < n' \<and> s' + n' \<le> unat (total t) \<and> (\<forall>j<n'. tb m' t (s' + j) = entry_code n' j)"
    proof cases
      case 1
      then show ?thesis using n range tb' by simp
    qed (rule old)
    then show "0 < n'" "s' + n' \<le> unat (total t)" "\<And>j. j < n' \<Longrightarrow> tb m' t (s' + j) = entry_code n' j"
      by simp_all
  next
    fix i assume "i < unat (total t)" "\<not> in_chunk (A(s \<mapsto> n)) i"
    then show "tb m' t i = 0"
      using tb' [of i] heap_rep_free [OF rep, of i] unfolding chunk by (simp only: de_Morgan_disj if_False simp_thms)
  qed
qed

lemma heap_rep_released:
  assumes rep: "heap_rep m t A" and A: "A s = Some n"
    and tb': "\<And>i. i < unat (total t) \<Longrightarrow> tb m' t i = (if s \<le> i \<and> i < s + n then 0 else tb m t i)"
  shows "heap_rep m' t (A(s := None))"
  unfolding heap_rep_def
proof (intro conjI allI impI)
  fix s' n' assume "(A(s := None)) s' = Some n'"
  then have s': "s' \<noteq> s" "A s' = Some n'" by (auto split: if_splits)
  note D = heap_repD [OF rep s'(2)]
  from D show "0 < n'" "s' + n' \<le> unat (total t)" by blast+
  fix j assume "j < n'"
  moreover have "s' + n' \<le> s \<or> s + n \<le> s'" using heap_rep_disjoint [OF rep s'(2) A s'(1)] .
  ultimately show "tb m' t (s' + j) = entry_code n' j"
    using tb' [of "s' + j"] D by auto
next
  fix i assume i: "i < unat (total t)" and out: "\<not> in_chunk (A(s := None)) i"
  show "tb m' t i = 0"
  proof (cases "s \<le> i \<and> i < s + n")
    case False
    have "\<not> in_chunk A i"
    proof
      assume "in_chunk A i"
      then obtain s' n' where c: "A s' = Some n'" "s' \<le> i" "i < s' + n'" by (auto simp: in_chunk_def)
      then have "(A(s := None)) s' = Some n'" using A False by auto
      then show False using out c by (auto simp: in_chunk_def)
    qed
    then show ?thesis using tb' [OF i] heap_rep_free [OF rep i] False by simp
  qed (use tb' [OF i] in simp)
qed

lemma unat_numeral_4096: "unat (4096 :: u32) = 4096"
  by simp

lemma align_up_nat:
  fixes k :: nat
  assumes "k mod 4096 \<noteq> 0"
  shows "(k - k mod 4096 + 4096) div 4096 = (k + 4095) div 4096"
proof -
  obtain q r where "k = q * 4096 + r" "k mod 4096 = r" "r < 4096"
    using div_mult_mod_eq [of k 4096] by (metis mod_less_divisor zero_less_numeral)
  moreover from this have "(k + 4095) div 4096 = q + (r + 4095) div 4096" by simp
  moreover have "(r + 4095) div 4096 = 1" using calculation assms by (intro div_nat_eqI) auto
  ultimately show ?thesis by simp
qed

lemma align_up_bound:
  fixes k :: nat
  assumes "k \<le> 4294963200" "k mod 4096 \<noteq> 0"
  shows "k - k mod 4096 + 4096 < 4294967296"
proof -
  have "k \<noteq> 4294963200" using assms(2) by auto
  then show ?thesis using assms by linarith
qed

lemma align_exact_nat:
  fixes k :: nat
  assumes "k mod 4096 = 0"
  shows "(k + 4095) div 4096 = k div 4096"
proof -
  from assms obtain q where "k = q * 4096" by (metis mod_eq_0_iff_dvd dvd_def mult.commute)
  then show ?thesis by simp
qed

lemma heap_align_value_to_upper_blocks:
  assumes "sz \<le> 0xFFFFF000"
  shows "unat (heap_align_value_to_upper sz div LIBREWIN_HEAP_BLOCK_SIZE) = blocks_for sz"
proof -
  have le: "unat sz \<le> 4294963200" using assms by (simp add: word_le_nat_alt)
  have md: "unat (sz mod 4096) = unat sz mod 4096" by (simp add: unat_mod)
  show ?thesis
  proof (cases "unat sz mod 4096 = 0")
    case True
    then have "sz mod 4096 = 0" using md by (metis unat_eq_zero)
    then show ?thesis
      using align_exact_nat [OF True]
      by (simp add: heap_align_value_to_upper_def LIBREWIN_HEAP_BLOCK_SIZE_def unat_div blocks_for_def)
  next
    case False
    then have "sz mod 4096 \<noteq> 0" using md by (metis unat_0)
    have "unat (sz - sz mod 4096) = unat sz - unat sz mod 4096"
      by (subst unat_sub) (simp_all add: md word_le_nat_alt)
    then have up: "unat (sz - sz mod 4096 + 4096) = unat sz - unat sz mod 4096 + 4096"
      using align_up_bound [OF le False] by (simp only: unat_word_ariths) simp
    show ?thesis using \<open>sz mod 4096 \<noteq> 0\<close>
      by (simp only: heap_align_value_to_upper_def LIBREWIN_HEAP_BLOCK_SIZE_def unat_div
        blocks_for_def Let_def if_False up unat_numeral_4096)
        (simp only: align_up_nat [OF False] unat_numeral_4096)
  qed
qed

lemma tb_taken:
  assumes "0 < n" "s + n < 2 ^ 31" "i < 2 ^ 32"
  shows "tb (heap_mark_blocks_taken m h (word_of_nat s) (word_of_nat n)) (table h) i =
    (if s \<le> i \<and> i < s + n then entry_code n (i - s) else tb m (table h) i)"
proof -
  have u: "unat (word_of_nat k :: u32) = k" if "k < 2 ^ 32" for k
    using that by (simp add: unat_of_nat)
  have "unat (entries (table h) + word_of_nat i - entries (table h)) = i" using u [OF assms(3)] by simp
  moreover have "unat (word_of_nat s :: u32) = s" "unat (word_of_nat n :: u32) = n"
    using u assms by simp_all
  ultimately show ?thesis
    unfolding tb_def using assms
    by (subst heap_mark_blocks_taken_apply) (simp_all only: Let_def)
qed

lemma in_table_nth: "in_table t a \<longleftrightarrow> (\<exists>i<unat (total t). a = entries t + word_of_nat i)"
proof
  assume "in_table t a"
  then show "\<exists>i<unat (total t). a = entries t + word_of_nat i"
    by (intro exI [of _ "unat (a - entries t)"]) (simp add: in_table_def)
next
  assume "\<exists>i<unat (total t). a = entries t + word_of_nat i"
  then obtain i where i: "i < unat (total t)" "a = entries t + word_of_nat i" by blast
  then have "i < 2 ^ 32" using unat_u32 [of "total t"] by simp
  then show "in_table t a" using i by (simp add: in_table_def unat_of_nat)
qed

lemma heap_rep_cong:
  assumes rep: "heap_rep m t A" and same: "\<And>a. in_table t a \<Longrightarrow> m' a = m a"
  shows "heap_rep m' t A"
proof -
  have tb: "tb m' t i = tb m t i" if "i < unat (total t)" for i
    using that same unfolding tb_def in_table_nth by blast
  show ?thesis
    unfolding heap_rep_def
  proof (intro conjI allI impI)
    fix s n assume A: "A s = Some n"
    note D = heap_repD [OF rep A]
    from D show "0 < n" "s + n \<le> unat (total t)" by blast+
    fix j assume "j < n"
    then show "tb m' t (s + j) = entry_code n j" using D tb [of "s + j"] by simp
  qed (use tb heap_rep_free [OF rep] in simp)
qed

lemma fits_cong:
  assumes "\<And>i. i < N \<Longrightarrow> F i = G i"
  shows "fits F n N s = fits G n N s"
  using assms unfolding fits_def by (metis add_less_cancel_left less_le_trans)

lemma heap_get_start_block_rep:
  assumes rep: "heap_rep m (table h) A" and n: "0 < total_blocks"
  shows "heap_get_start_block m h total_blocks =
    (if \<exists>s. fits (unused A) (unat total_blocks) (unat (total (table h))) s
     then word_of_nat (LEAST s. fits (unused A) (unat total_blocks) (unat (total (table h))) s)
     else if free_tail (unused A) (unat (total (table h))) = 0 then - ENOMEM
     else word_of_nat (unat (total (table h)) - free_tail (unused A) (unat (total (table h)))))"
proof -
  have fit: "fits (block_free m (table h)) k (unat (total (table h))) s =
      fits (unused A) k (unat (total (table h))) s" for k s
    by (rule fits_cong) (use block_free_iff [OF rep] in blast)
  have tail: "free_tail (block_free m (table h)) k = free_tail (unused A) k"
    if "k \<le> unat (total (table h))" for k
    using that block_free_iff [OF rep] by (induction k) auto
  show ?thesis
    unfolding heap_get_start_block_first_fit [OF n] fit tail [OF order_refl] by (rule refl)
qed

lemma blocks_for_pos: "0 < sz \<Longrightarrow> 0 < blocks_for sz"
  by (simp add: blocks_for_def word_less_nat_alt div_greater_zero_iff)

lemma blocks_for_covers: "unat sz \<le> blocks_for sz * 4096"
proof -
  have "(unat sz + 4095) mod 4096 < 4096" by simp
  moreover have "(unat sz + 4095) div 4096 * 4096 + (unat sz + 4095) mod 4096 = unat sz + 4095"
    by (rule div_mult_mod_eq)
  ultimately show ?thesis unfolding blocks_for_def by linarith
qed

lemma heap_malloc_unfold:
  assumes "sz \<le> 0xFFFFF000"
  shows "heap_malloc m h sz = heap_malloc_blocks m h (word_of_nat (blocks_for sz))"
  unfolding heap_malloc_def Let_def heap_align_value_to_upper_blocks [OF assms, symmetric] by simp

lemma fits_Least:
  assumes "\<exists>s. fits F n N s" "0 < n"
  shows "fits F n N (LEAST s. fits F n N s)" "(LEAST s. fits F n N s) + n \<le> N"
  using LeastI_ex [OF assms(1)] by (simp_all add: fits_def)

text \<open>The state in which the allocator's contract holds. Below \<open>2 ^ 19\<close> blocks the pool is smaller
  than 2 GB, so the \<open>int\<close> address difference of \<open>heap_address_to_block\<close> does not wrap.\<close>

definition heap_ok :: "mem \<Rightarrow> heap \<Rightarrow> (nat \<Rightarrow> nat option) \<Rightarrow> bool" where
  "heap_ok m h A \<longleftrightarrow> heap_rep m (table h) A \<and> unat (total (table h)) < 2 ^ 19"

lemma heap_malloc_success:
  assumes ok: "heap_ok m h A" and sz: "0 < sz" "sz \<le> 0xFFFFF000"
    and room: "\<exists>s. fits (unused A) (blocks_for sz) (unat (total (table h))) s"
  defines "s \<equiv> LEAST s. fits (unused A) (blocks_for sz) (unat (total (table h))) s"
  shows "heap_malloc m h sz = (saddr h + word_of_nat s * 4096,
      heap_mark_blocks_taken m h (word_of_nat s) (word_of_nat (blocks_for sz)))" (is ?run)
    and "heap_rep (snd (heap_malloc m h sz)) (table h) (A(s \<mapsto> blocks_for sz))" (is ?rep)
    and "\<not> in_table (table h) a \<Longrightarrow> snd (heap_malloc m h sz) a = m a" (is "PROP ?frame")
proof -
  let ?N = "unat (total (table h))" and ?n = "blocks_for sz"
  have rep: "heap_rep m (table h) A" and N: "?N < 2 ^ 31" using ok by (simp_all add: heap_ok_def)
  have n: "0 < ?n" using sz(1) by (rule blocks_for_pos)
  note S = fits_Least [OF room n, folded s_def]
  have sn: "s + ?n < 2 ^ 31" using S(2) N by linarith
  have u: "unat (word_of_nat k :: u32) = k" if "k < 2 ^ 31" for k
    using that by (simp add: unat_of_nat)
  have un: "unat (word_of_nat ?n :: u32) = ?n" "unat (word_of_nat s :: u32) = s" using sn by (simp_all add: u)
  then have n0: "(0 :: u32) < word_of_nat ?n" using n by (simp add: word_less_nat_alt)
  have start: "heap_get_start_block m h (word_of_nat ?n) = word_of_nat s"
    using room unfolding heap_get_start_block_rep [OF rep n0] un s_def by (simp only: if_True)
  have pos: "\<not> (word_of_nat s :: u32) <s 0" unfolding sless_zero_unat un using sn by simp
  show run: ?run
    unfolding heap_malloc_unfold [OF sz(2)] heap_malloc_blocks_def start Let_def
    using pos by (simp add: heap_block_to_address_def LIBREWIN_HEAP_BLOCK_SIZE_def)
  show ?rep
    unfolding run snd_conv
    by (rule heap_rep_taken [OF rep S(1) n], rule tb_taken [OF n sn]) (use N in simp)
  show "PROP ?frame"
    unfolding run snd_conv by (subst heap_mark_blocks_taken_apply)
      (use n sn S(2) in \<open>auto simp: un in_table_def Let_def\<close>)
qed

lemma heap_malloc_full:
  assumes ok: "heap_ok m h A" and sz: "0 < sz" "sz \<le> 0xFFFFF000"
    and full: "\<nexists>s. fits (unused A) (blocks_for sz) (unat (total (table h))) s"
    and tail: "free_tail (unused A) (unat (total (table h))) = 0"
  shows "heap_malloc m h sz = (0, m)"
proof -
  have rep: "heap_rep m (table h) A" using ok by (simp add: heap_ok_def)
  have "blocks_for sz < 2 ^ 32"
    using heap_align_value_to_upper_blocks [OF sz(2)]
      unat_u32 [of "heap_align_value_to_upper sz div LIBREWIN_HEAP_BLOCK_SIZE"] by simp
  then have u: "unat (word_of_nat (blocks_for sz) :: u32) = blocks_for sz" by (simp add: unat_of_nat)
  then have "(0 :: u32) < word_of_nat (blocks_for sz)"
    using blocks_for_pos [OF sz(1)] by (simp add: word_less_nat_alt)
  from heap_get_start_block_rep [OF rep this, unfolded u]
  have "heap_get_start_block m h (word_of_nat (blocks_for sz)) = - ENOMEM"
    using full tail by simp
  moreover have "(- ENOMEM) <s 0" by (simp add: status_defs word_sless_alt)
  ultimately show ?thesis
    unfolding heap_malloc_unfold [OF sz(2)] heap_malloc_blocks_def by simp
qed

lemma heap_address_to_block_address:
  assumes "s < 2 ^ 19"
  shows "heap_address_to_block h (saddr h + word_of_nat s * 4096) = word_of_nat s"
proof -
  have "(word_of_nat s * 4096 :: u32) = word_of_nat (s * 4096)" by simp
  then have "sint (saddr h + word_of_nat s * 4096 - saddr h) = int (s * 4096)"
    using assms sint_word_of_nat [of "s * 4096"] by simp
  then show ?thesis
    by (simp add: heap_address_to_block_def LIBREWIN_HEAP_BLOCK_SIZE_def signed_divide_int_def sgn_if)
qed

lemma heap_free_success:
  assumes ok: "heap_ok m h A" and A: "A s = Some n"
  shows "heap_rep (heap_free m h (saddr h + word_of_nat s * 4096)) (table h) (A(s := None))" (is ?rep)
    and "\<not> in_table (table h) a \<Longrightarrow> heap_free m h (saddr h + word_of_nat s * 4096) a = m a" (is "PROP ?frame")
proof -
  let ?N = "unat (total (table h))"
  have rep: "heap_rep m (table h) A" and N: "?N < 2 ^ 19" using ok by (simp_all add: heap_ok_def)
  note D = heap_repD [OF rep A]
  have sN: "s < 2 ^ 19" using D N by linarith
  have "sint (total (table h)) = int ?N" using N by (simp add: sint_unat del: of_nat_unat)
  moreover have "sint (word_of_nat s :: u32) = int s" using sN by (intro sint_word_of_nat) simp
  ultimately have free: "heap_free m h (saddr h + word_of_nat s * 4096) =
      heap_mark_free_loop m (entries (table h)) (int ?N) (int s)"
    unfolding heap_free_def heap_mark_blocks_free_def heap_address_to_block_address [OF sN]
    by (simp only:)
  have codes: "(m (entries (table h) + word_of_nat (s + j)) AND HEAP_BLOCK_HAS_NEXT = 0) = (Suc j = n)"
    if "j < n" for j
    using D(3) [OF that] that entry_code_next [of n j] unfolding tb_def by (simp only:) auto
  have N31: "?N < 2 ^ 31" using N by simp
  have apply': "heap_free m h (saddr h + word_of_nat s * 4096) a =
      (let k = unat (a - entries (table h)) in if s \<le> k \<and> k < s + n then 0 else m a)" for a
    unfolding free by (rule heap_mark_free_loop_apply [OF D(1,2) N31 codes])
  show ?rep
  proof (rule heap_rep_released [OF rep A])
    fix i assume "i < ?N"
    then have "unat (word_of_nat i :: u32) = i" using N by (simp add: unat_of_nat)
    then show "tb (heap_free m h (saddr h + word_of_nat s * 4096)) (table h) i =
      (if s \<le> i \<and> i < s + n then 0 else tb m (table h) i)"
      unfolding tb_def apply' Let_def by simp
  qed
  show "PROP ?frame" unfolding apply' using D(2) by (auto simp: in_table_def Let_def)
qed

section \<open>Creation, exhaustion and sizes without blocks\<close>

lemma heap_create_rep:
  assumes "ptr mod 4096 = 0" "pend mod 4096 = 0" "total tbl = (pend - ptr) div 4096"
  shows "\<exists>m'. heap_create m h ptr pend tbl = (0, \<lparr>table = tbl, saddr = ptr\<rparr>, m') \<and>
    heap_rep m' tbl (\<lambda>_. None) \<and> (\<forall>a. \<not> in_table tbl a \<longrightarrow> m' a = m a)"
proof -
  let ?m = "memset m (entries tbl) 0 (total tbl)"
  have "heap_rep ?m tbl (\<lambda>_. None)"
    unfolding heap_rep_def tb_def memset_apply
    using in_range_offset [of "unat (total tbl)"] unat_u32 [of "total tbl"] by simp
  moreover have "?m a = m a" if "\<not> in_table tbl a" for a
    using that by (simp add: memset_apply in_table_def in_range_def)
  ultimately show ?thesis
    using assms by (simp add: heap_create_def heap_validate_alignment_def heap_validate_table_def
      LIBREWIN_HEAP_BLOCK_SIZE_def HEAP_BLOCK_TABLE_ENTRY_FREE_def)
qed

text \<open>At exhaustion the search returns the last run of free blocks, too short as it is: the blocks
  marked reach beyond the table.\<close>

lemma heap_malloc_overrun:
  assumes ok: "heap_ok m h A" and sz: "0 < sz" "sz \<le> 0xFFFFF000"
    and full: "\<nexists>s. fits (unused A) (blocks_for sz) (unat (total (table h))) s"
    and tail: "0 < free_tail (unused A) (unat (total (table h)))"
  shows "heap_malloc m h sz =
    (saddr h + word_of_nat (unat (total (table h)) - free_tail (unused A) (unat (total (table h)))) * 4096,
     heap_mark_blocks_taken m h
       (word_of_nat (unat (total (table h)) - free_tail (unused A) (unat (total (table h)))))
       (word_of_nat (blocks_for sz)))"
    and "snd (heap_malloc m h sz) (entries (table h) + total (table h)) =
      entry_code (blocks_for sz) (free_tail (unused A) (unat (total (table h))))"
proof -
  let ?N = "unat (total (table h))" and ?n = "blocks_for sz"
  let ?s = "?N - free_tail (unused A) ?N"
  have rep: "heap_rep m (table h) A" and N: "?N < 2 ^ 19" using ok by (simp_all add: heap_ok_def)
  have n: "0 < ?n" using sz(1) by (rule blocks_for_pos)
  have n20: "?n \<le> 2 ^ 20"
  proof -
    have "unat sz + 4095 \<le> 4294967295" using sz(2) by (simp add: word_le_nat_alt)
    then have "?n \<le> 4294967295 div 4096" unfolding blocks_for_def by (rule div_le_mono)
    then show ?thesis by simp
  qed
  have le: "free_tail (unused A) ?N \<le> ?N" by (rule free_tail_le)
  have short: "free_tail (unused A) ?N < ?n"
  proof (rule ccontr)
    assume "\<not> ?thesis"
    then have long: "?n \<le> free_tail (unused A) ?N" by simp
    have "unused A (?N - ?n + j)" if "j < ?n" for j
    proof -
      have "?n - Suc j < free_tail (unused A) ?N" using long n by linarith
      then have "unused A (?N - Suc (?n - Suc j))" by (rule free_tail_free)
      moreover have "?N - Suc (?n - Suc j) = ?N - ?n + j" using that long le by simp
      ultimately show ?thesis by simp
    qed
    then have "fits (unused A) ?n ?N (?N - ?n)" using long le by (simp add: fits_def)
    then show False using full by blast
  qed
  have u: "unat (word_of_nat ?n :: u32) = ?n" "unat (word_of_nat ?s :: u32) = ?s"
    using n20 N by (simp_all add: unat_of_nat)
  then have n0: "(0 :: u32) < word_of_nat ?n" using n by (simp add: word_less_nat_alt)
  have start: "heap_get_start_block m h (word_of_nat ?n) = word_of_nat ?s"
    using full tail unfolding heap_get_start_block_rep [OF rep n0] u by (simp only: if_False) simp
  have pos: "\<not> (word_of_nat ?s :: u32) <s 0" unfolding sless_zero_unat u using N by simp
  show run: "heap_malloc m h sz = (saddr h + word_of_nat ?s * 4096,
      heap_mark_blocks_taken m h (word_of_nat ?s) (word_of_nat ?n))"
    unfolding heap_malloc_unfold [OF sz(2)] heap_malloc_blocks_def start Let_def
    using pos by (simp add: heap_block_to_address_def LIBREWIN_HEAP_BLOCK_SIZE_def)
  have "?s + ?n < 2 ^ 31" using N n20 by simp
  then show "snd (heap_malloc m h sz) (entries (table h) + total (table h)) =
      entry_code ?n (free_tail (unused A) ?N)"
    unfolding run snd_conv using n short le
    by (subst heap_mark_blocks_taken_apply) (simp_all only: u Let_def add_diff_cancel_left', auto)
qed

text \<open>A request whose rounded size is no block at all, which are 0 and the sizes above
  \<open>0xFFFFF000\<close>: the address of the last run of free blocks is returned and nothing is marked.\<close>

lemma heap_align_wraps:
  assumes "sz = 0 \<or> 0xFFFFF000 < sz"
  shows "heap_align_value_to_upper sz div LIBREWIN_HEAP_BLOCK_SIZE = 0"
  using assms
proof
  assume big: "0xFFFFF000 < sz"
  then have u: "4294963200 < unat sz" "unat sz < 4294967296"
    using unat_u32 [of sz] by (simp_all add: word_less_nat_alt)
  obtain r where r: "unat sz = 1048575 * 4096 + r" "r < 4096"
    using u le_Suc_ex [of 4294963200 "unat sz"] by auto
  then have "unat sz mod 4096 = unat sz - 4294963200" by (simp only: mod_mult_self3) simp
  then have m: "unat (sz mod 4096) = unat sz - 4294963200" by (simp add: unat_mod)
  have "sz mod 4096 = sz - 0xFFFFF000"
  proof -
    have "unat (sz - 0xFFFFF000) = unat sz - 4294963200"
      using unat_sub [OF order.strict_implies_order [OF big]] by simp
    with m show ?thesis by (simp only: word_unat_eq_iff)
  qed
  moreover have "sz - 0xFFFFF000 \<noteq> 0" using big by auto
  ultimately show ?thesis
    by (simp only: heap_align_value_to_upper_def LIBREWIN_HEAP_BLOCK_SIZE_def if_False Let_def) simp
qed (simp add: heap_align_value_to_upper_def LIBREWIN_HEAP_BLOCK_SIZE_def)

lemma scan_zero:
  assumes "k \<le> N" "c = free_tail F k"
  shows "scan F 0 N c k = (if free_tail F N = 0 then None else Some (N - free_tail F N))"
  using assms
proof (induction "N - k" arbitrary: k c)
  case 0
  then show ?case unfolding scan.simps [of F 0 N c k] by simp
next
  case (Suc d)
  then have k: "k < N" "d = N - Suc k" by simp_all
  then show ?case
    using Suc.hyps(1) [of "Suc k" "free_tail F (Suc k)"] Suc.prems
    unfolding scan.simps [of F 0 N c k] by (cases "F k") simp_all
qed

lemma heap_malloc_no_blocks:
  assumes ok: "heap_ok m h A" and sz: "sz = 0 \<or> 0xFFFFF000 < sz"
    and tail: "0 < free_tail (unused A) (unat (total (table h)))"
  shows "heap_malloc m h sz = (saddr h +
    word_of_nat (unat (total (table h)) - free_tail (unused A) (unat (total (table h)))) * 4096, m)"
proof -
  let ?N = "unat (total (table h))" and ?F = "block_free m (table h)"
  have rep: "heap_rep m (table h) A" and N: "?N < 2 ^ 19" using ok by (simp_all add: heap_ok_def)
  have "free_tail ?F k = free_tail (unused A) k" if "k \<le> ?N" for k
    using that block_free_iff [OF rep] by (induction k) auto
  then have eq: "free_tail ?F ?N = free_tail (unused A) ?N" by blast
  have "scan ?F 0 ?N 0 0 = Some (?N - free_tail (unused A) ?N)"
    using scan_zero [of 0 ?N 0 ?F] tail eq by simp
  then have loop: "heap_get_start_block_loop m (table h) 0 0 (- 1) 0 =
      word_of_nat (?N - free_tail (unused A) ?N)"
    using heap_get_start_block_loop_scan [of 0 "table h" 0 m 0] by simp
  let ?s = "word_of_nat (?N - free_tail (unused A) ?N) :: u32"
  have s: "sint ?s = int (?N - free_tail (unused A) ?N)"
    using N by (intro sint_word_of_nat) simp
  then have "?s \<noteq> - 1" by auto
  then have start: "heap_get_start_block m h 0 = ?s"
    unfolding heap_get_start_block_def loop by (simp add: Let_def)
  have pos: "\<not> ?s <s 0" unfolding word_sless_alt s by simp
  have down: "sint (v + 0 - 1) < sint v" if "0 \<le> sint v" for v :: u32
  proof (cases "v = 0")
    case False
    then have "0 <s v" using that by (metis order_le_less signed_word_eqI sint_0 word_sless_alt)
    then show ?thesis by (simp add: sint_dec)
  qed simp
  have "0 \<le> sint ?s" unfolding s by (rule of_nat_0_le_iff)
  from down [OF this] have "\<not> sint ?s \<le> sint (?s + 0 - 1)" by simp
  then have "heap_mark_blocks_taken m h ?s 0 = m"
    unfolding heap_mark_blocks_taken_def Let_def
    by (subst heap_mark_taken_loop.simps) (simp only: if_False)
  then show ?thesis
    unfolding heap_malloc_def Let_def heap_align_wraps [OF sz] heap_malloc_blocks_def start
    using pos by (simp add: heap_block_to_address_def LIBREWIN_HEAP_BLOCK_SIZE_def)
qed

end
