(* ===== verification/KHeap.thy ===== *)
theory KHeap
  imports Heap
begin

text \<open>
  \<^verbatim>\<open>ke/memory/heap/kheap.c\<close>: the kernel heap. \<open>kernel_heap\<close>, a global of the C code that only
  \<open>kheap_init\<close> writes, is an argument of the functions that use it. The locale
  \<open>page_allocator\<close> is the interface the rest of the kernel relies on; the kernel heap provides it.
\<close>

section \<open>The functions\<close>

definition LIBREWIN_HEAP_SIZE_BYTES :: u32 where [status_defs]: "LIBREWIN_HEAP_SIZE_BYTES = 104857600"
definition LIBREWIN_HEAP_ADDRESS :: addr where [status_defs]: "LIBREWIN_HEAP_ADDRESS = 0x01000000"
definition LIBREWIN_HEAP_TABLE_ADDRESS :: addr where
  [status_defs]: "LIBREWIN_HEAP_TABLE_ADDRESS = 0x00007E00"

text \<open>The result is the status of \<open>heap_create\<close>, on whose failure the code prints a message.\<close>

definition kheap_init :: "mem \<Rightarrow> heap \<Rightarrow> u32 \<times> heap \<times> mem" where
  "kheap_init m kernel_heap =
     (let total_table_entries = LIBREWIN_HEAP_SIZE_BYTES div LIBREWIN_HEAP_BLOCK_SIZE;
          kernel_heap_table = \<lparr>entries = LIBREWIN_HEAP_TABLE_ADDRESS, total = total_table_entries\<rparr>;
          pend = LIBREWIN_HEAP_ADDRESS + LIBREWIN_HEAP_SIZE_BYTES
      in heap_create m kernel_heap LIBREWIN_HEAP_ADDRESS pend kernel_heap_table)"

definition kmalloc :: "heap \<Rightarrow> mem \<Rightarrow> u32 \<Rightarrow> addr \<times> mem" where
  "kmalloc kernel_heap m sz = heap_malloc m kernel_heap sz"

definition kzalloc :: "heap \<Rightarrow> mem \<Rightarrow> u32 \<Rightarrow> addr \<times> mem" where
  "kzalloc kernel_heap m sz =
     (let (ptr, m) = kmalloc kernel_heap m sz in
      if ptr = 0 then (0, m) else (ptr, memset m ptr 0x00 sz))"

definition kfree :: "heap \<Rightarrow> mem \<Rightarrow> addr \<Rightarrow> mem" where
  "kfree kernel_heap m ptr = heap_free m kernel_heap ptr"

section \<open>Pages\<close>

definition aligned :: "addr \<Rightarrow> bool" where
  "aligned p \<longleftrightarrow> unat p mod 4096 = 0"

lemma unat_page_offset:
  assumes "aligned p" "k < 4096"
  shows "unat (p + word_of_nat k) = unat p + k"
proof -
  obtain q where q: "unat p = q * 4096" using assms(1) by (auto simp: aligned_def mod_eq_0_iff_dvd)
  then have "q < 1048576" using unat_u32 [of p] by simp
  then have "unat p + k < 2 ^ 32" using q assms(2) by simp
  moreover have "unat (word_of_nat k :: u32) = k" using assms(2) by (simp add: unat_of_nat)
  ultimately show ?thesis by (simp add: unat_word_ariths)
qed

lemma page_eq:
  assumes "aligned p" "aligned q" "i < 4096" "j < 4096" "p + word_of_nat i = q + word_of_nat j"
  shows "p = q \<and> i = j"
proof -
  have eq: "unat p + i = unat q + j"
    using assms unat_page_offset by metis
  then have "i = j" using assms(1-4)
    by (metis aligned_def mod_add_left_eq mod_less add_0)
  with eq show ?thesis by (simp add: word_unat_eq_iff)
qed

lemma apart_pages: "aligned p \<Longrightarrow> aligned q \<Longrightarrow> p \<noteq> q \<Longrightarrow> apart p 4096 q 4096"
  unfolding apart_def using page_eq by blast

lemma page_disjoint:
  "aligned p \<Longrightarrow> aligned q \<Longrightarrow> p \<noteq> q \<Longrightarrow> in_range p 4096 a \<Longrightarrow> \<not> in_range q 4096 a"
  using apart_pages apart_notin in_range_ex by metis

section \<open>The interface\<close>

text \<open>\<open>live m L k\<close>: the memory \<open>m\<close> holds the regions \<open>L\<close> (address and length in bytes) and \<open>k\<close>
  pages can still be allocated. \<open>own\<close> are the addresses the allocator keeps for itself and \<open>pool\<close> those it hands out.\<close>

locale page_allocator =
  fixes alloc :: "mem \<Rightarrow> u32 \<Rightarrow> addr \<times> mem"
    and release :: "mem \<Rightarrow> addr \<Rightarrow> mem"
    and live :: "mem \<Rightarrow> (addr \<Rightarrow> nat option) \<Rightarrow> nat \<Rightarrow> bool"
    and own :: "addr \<Rightarrow> bool"
    and pool :: "addr \<Rightarrow> bool"
  assumes alloc_page: "live m L (Suc k) \<Longrightarrow> 0 < sz \<Longrightarrow> sz \<le> 4096 \<Longrightarrow> alloc m sz = (p, m') \<Longrightarrow>
      p \<noteq> 0 \<and> aligned p \<and> L p = None \<and> live m' (L(p \<mapsto> 4096)) k"
    and alloc_zero: "live m L (Suc k) \<Longrightarrow> 0 < sz \<Longrightarrow> sz \<le> 4096 \<Longrightarrow> alloc m sz = (p, m') \<Longrightarrow>
      in_range p (unat sz) a \<Longrightarrow> m' a = 0"
    and alloc_frame: "live m L (Suc k) \<Longrightarrow> 0 < sz \<Longrightarrow> sz \<le> 4096 \<Longrightarrow> alloc m sz = (p, m') \<Longrightarrow>
      \<not> own a \<Longrightarrow> \<not> in_range p (unat sz) a \<Longrightarrow> m' a = m a"
    and release_live: "live m L k \<Longrightarrow> L p = Some n \<Longrightarrow> live (release m p) (L(p := None)) (k + n div 4096)"
    and release_frame: "live m L k \<Longrightarrow> L p = Some n \<Longrightarrow> \<not> own a \<Longrightarrow> release m p a = m a"
    and live_disjoint: "live m L k \<Longrightarrow> L p = Some n \<Longrightarrow> L q = Some n' \<Longrightarrow> p \<noteq> q \<Longrightarrow> apart p n q n'"
    and live_not_own: "live m L k \<Longrightarrow> L p = Some n \<Longrightarrow> in_range p n a \<Longrightarrow> \<not> own a"
    and live_aligned: "live m L k \<Longrightarrow> L p = Some n \<Longrightarrow> aligned p"
    and live_pool: "live m L k \<Longrightarrow> L p = Some n \<Longrightarrow> in_range p n a \<Longrightarrow> pool a"
    and live_stable: "live m L k \<Longrightarrow> (\<And>a. own a \<Longrightarrow> m' a = m a) \<Longrightarrow> live m' L k"
begin

text \<open>A region that is live keeps its contents when another page is allocated.\<close>

lemma alloc_keeps:
  assumes "live m L (Suc k)" "0 < sz" "sz \<le> 4096" "alloc m sz = (p, m')"
    and "L q = Some n" "in_range q n a"
  shows "m' a = m a"
proof -
  note A = alloc_page [OF assms(1-4)]
  have live: "live m' (L(p \<mapsto> 4096)) k" and "p \<noteq> q" using A assms(5) by auto
  then have "apart q n p 4096" using assms(5) by (intro live_disjoint [OF live]) auto
  moreover obtain i where "i < n" "a = q + word_of_nat i" using in_range_ex [OF assms(6)] by blast
  ultimately have "\<not> in_range p 4096 a" using apart_notin by blast
  moreover have "unat sz \<le> 4096" using assms(3) by (simp add: word_le_nat_alt)
  ultimately have "\<not> in_range p (unat sz) a" by (simp add: in_range_def)
  then show ?thesis
    using alloc_frame [OF assms(1-4)] live_not_own [OF assms(1,5,6)] by blast
qed

text \<open>The addresses a client may rely on: those outside the allocator's two areas and those in
  its live regions.\<close>

definition keeps :: "(addr \<Rightarrow> nat option) \<Rightarrow> addr \<Rightarrow> bool" where
  "keeps L a \<longleftrightarrow> \<not> own a \<and> (\<not> pool a \<or> (\<exists>q n. L q = Some n \<and> in_range q n a))"

lemma keeps_live: "live m L k \<Longrightarrow> L p = Some n \<Longrightarrow> in_range p n a \<Longrightarrow> keeps L a"
  using live_not_own by (auto simp: keeps_def)

lemma keeps_mono: "keeps L a \<Longrightarrow> (\<And>q n. L q = Some n \<Longrightarrow> L' q = Some n) \<Longrightarrow> keeps L' a"
  by (auto simp: keeps_def)

lemma keeps_new: "L p = None \<Longrightarrow> keeps L a \<Longrightarrow> keeps (L(p \<mapsto> n)) a"
  by (auto simp: keeps_def split: if_splits) (metis option.distinct(1))

lemma alloc_keeps_all:
  assumes "live m L (Suc k)" "0 < sz" "sz \<le> 4096" "alloc m sz = (p, m')" "keeps L a"
  shows "m' a = m a" "\<not> in_range p 4096 a"
proof -
  note A = alloc_page [OF assms(1-4)]
  then have live: "live m' (L(p \<mapsto> 4096)) k" by blast
  show out: "\<not> in_range p 4096 a"
  proof
    assume in_p: "in_range p 4096 a"
    then have "pool a" by (intro live_pool [OF live, of p 4096]) simp_all
    then obtain q n where q: "L q = Some n" "in_range q n a" using assms(5) by (auto simp: keeps_def)
    then have "q \<noteq> p" using A by auto
    then have "apart q n p 4096" using q(1) by (intro live_disjoint [OF live]) auto
    then show False using in_range_ex [OF q(2)] apart_notin in_p by blast
  qed
  have "unat sz \<le> 4096" using assms(3) by (simp add: word_le_nat_alt)
  then have "\<not> in_range p (unat sz) a" using out by (simp add: in_range_def)
  then show "m' a = m a"
    using alloc_frame [OF assms(1-4)] assms(5) by (auto simp: keeps_def)
qed

lemma alloc_release:
  assumes "live m L (Suc k)" "0 < sz" "sz \<le> 4096" "alloc m sz = (p, m')"
  shows "live (release m' p) L (Suc k)"
proof -
  note A = alloc_page [OF assms]
  then have "L(p := None) = L" by auto
  then show ?thesis
    using release_live [of m' "L(p \<mapsto> 4096)" k p 4096] A by simp
qed

text \<open>A store into a live region leaves the regions as they are.\<close>

lemma live_store:
  assumes "live m L k" "L p = Some n" "\<And>a. \<not> in_range p n a \<Longrightarrow> m' a = m a"
  shows "live m' L k"
  using live_stable [OF assms(1)] live_not_own [OF assms(1,2)] assms(3) by metis

end

section \<open>The kernel heap provides the interface\<close>

definition addr_map :: "heap \<Rightarrow> (nat \<Rightarrow> nat option) \<Rightarrow> addr \<Rightarrow> nat option" where
  "addr_map h A p = (let d = unat (p - saddr h) in
     if d mod 4096 = 0 then map_option (\<lambda>n. n * 4096) (A (d div 4096)) else None)"

definition free_count :: "(nat \<Rightarrow> nat option) \<Rightarrow> nat \<Rightarrow> nat" where
  "free_count A N = card {i. i < N \<and> unused A i}"

text \<open>The pool is page aligned, does not start at address 0, does not wrap, and does not
  overlap the table.\<close>

definition pool_ok :: "heap \<Rightarrow> bool" where
  "pool_ok h \<longleftrightarrow> aligned (saddr h) \<and> saddr h \<noteq> 0 \<and> unat (saddr h) + unat (total (table h)) * 4096 < 2 ^ 32 \<and>
     (\<forall>a. in_table (table h) a \<longrightarrow> \<not> in_range (saddr h) (unat (total (table h)) * 4096) a)"

definition kheap_live :: "heap \<Rightarrow> mem \<Rightarrow> (addr \<Rightarrow> nat option) \<Rightarrow> nat \<Rightarrow> bool" where
  "kheap_live h m L k \<longleftrightarrow> pool_ok h \<and>
     (\<exists>A. heap_ok m h A \<and> L = addr_map h A \<and> k \<le> free_count A (unat (total (table h))))"

lemma unat_block: "s < 2 ^ 20 \<Longrightarrow> unat (word_of_nat s * 4096 :: u32) = s * 4096"
proof -
  assume "s < 2 ^ 20"
  then have "s * 4096 < 2 ^ 32" by simp
  then have "unat (word_of_nat (s * 4096) :: u32) = s * 4096"
    by (metis unat_of_nat mod_less LENGTH_u32)
  moreover have "(word_of_nat (s * 4096) :: u32) = word_of_nat s * 4096" by simp
  ultimately show ?thesis by metis
qed

lemma block_address:
  assumes "s < 2 ^ 20"
  shows "p = saddr h + word_of_nat s * 4096 \<longleftrightarrow> unat (p - saddr h) = s * 4096"
proof -
  note unat_block [OF assms]
  moreover have "p = saddr h + word_of_nat s * 4096 \<longleftrightarrow> p - saddr h = word_of_nat s * 4096"
    by (auto simp: algebra_simps)
  ultimately show ?thesis by (metis word_unat_eq_iff)
qed

lemma addr_map_block: "s < 2 ^ 20 \<Longrightarrow> addr_map h A (saddr h + word_of_nat s * 4096) = map_option (\<lambda>n. n * 4096) (A s)"
  by (simp add: addr_map_def Let_def unat_block)

lemma addr_map_Some:
  assumes "addr_map h A p = Some k"
  obtains s n where "A s = Some n" "k = n * 4096" "p = saddr h + word_of_nat s * 4096" "s < 2 ^ 20"
proof -
  let ?d = "unat (p - saddr h)"
  from assms obtain n where d: "?d mod 4096 = 0" and n: "A (?d div 4096) = Some n" "k = n * 4096"
    by (auto simp: addr_map_def Let_def split: if_splits)
  have "?d div 4096 < 2 ^ 20" using unat_u32 [of "p - saddr h"] by (simp add: less_mult_imp_div_less)
  moreover from this d have "p = saddr h + word_of_nat (?d div 4096) * 4096"
    by (subst block_address) auto
  ultimately show ?thesis using that n by blast
qed

lemma addr_map_upd:
  assumes "s < 2 ^ 20"
  shows "addr_map h (A(s := r)) = (addr_map h A)(saddr h + word_of_nat s * 4096 := map_option (\<lambda>n. n * 4096) r)"
proof
  fix p
  show "addr_map h (A(s := r)) p =
    ((addr_map h A)(saddr h + word_of_nat s * 4096 := map_option (\<lambda>n. n * 4096) r)) p"
  proof (cases "p = saddr h + word_of_nat s * 4096")
    case True
    then show ?thesis using addr_map_block [OF assms, of h "A(s := r)"] by simp
  next
    case False
    then have "\<not> (unat (p - saddr h) mod 4096 = 0 \<and> unat (p - saddr h) div 4096 = s)"
      using block_address [OF assms, of p h] by auto
    with False show ?thesis by (auto simp: addr_map_def Let_def)
  qed
qed

lemma in_chunk_insert:
  assumes "A s = None"
  shows "in_chunk (A(s \<mapsto> n)) i \<longleftrightarrow> in_chunk A i \<or> (s \<le> i \<and> i < s + n)"
proof
  assume "in_chunk (A(s \<mapsto> n)) i"
  then obtain s' n' where "(A(s \<mapsto> n)) s' = Some n'" "s' \<le> i" "i < s' + n'"
    by (auto simp only: in_chunk_def)
  then show "in_chunk A i \<or> (s \<le> i \<and> i < s + n)"
    by (cases "s' = s") (auto simp: in_chunk_def)
next
  assume "in_chunk A i \<or> (s \<le> i \<and> i < s + n)"
  then show "in_chunk (A(s \<mapsto> n)) i"
  proof
    assume "in_chunk A i"
    then obtain s' n' where c: "A s' = Some n'" "s' \<le> i" "i < s' + n'" by (auto simp only: in_chunk_def)
    then have "(A(s \<mapsto> n)) s' = Some n'" using assms by auto
    with c(2,3) show ?thesis unfolding in_chunk_def by blast
  next
    assume "s \<le> i \<and> i < s + n"
    then show ?thesis unfolding in_chunk_def by (intro exI [of _ s] exI [of _ n]) simp
  qed
qed

lemma free_count_insert:
  assumes "A s = None" "s < N" "unused A s"
  shows "free_count A N = Suc (free_count (A(s \<mapsto> 1)) N)"
proof -
  have "{i. i < N \<and> unused A i} = insert s {i. i < N \<and> unused (A(s \<mapsto> 1)) i}"
    using assms by (auto simp: in_chunk_insert)
  then show ?thesis
    using assms(1) by (simp add: free_count_def in_chunk_insert card_insert_if)
qed

lemma free_count_remove:
  assumes rep: "heap_rep m t A" and A: "A s = Some n"
  shows "free_count (A(s := None)) (unat (total t)) = free_count A (unat (total t)) + n"
proof -
  let ?N = "unat (total t)"
  define B where "B = A(s := None)"
  have restore: "B(s \<mapsto> n) = A" using A by (auto simp: B_def)
  have chunk: "in_chunk A i \<longleftrightarrow> in_chunk B i \<or> (s \<le> i \<and> i < s + n)" for i
    using in_chunk_insert [of B s n i] unfolding restore by (simp add: B_def)
  have out: "\<not> in_chunk B i" if "s \<le> i" "i < s + n" for i
  proof
    assume "in_chunk B i"
    then obtain s' n' where c: "B s' = Some n'" "s' \<le> i" "i < s' + n'" by (auto simp only: in_chunk_def)
    then have "s' \<noteq> s" "A s' = Some n'" by (auto simp: B_def split: if_splits)
    then show False using heap_rep_disjoint [OF rep _ A, of s' n'] c that by linarith
  qed
  have "{i. i < ?N \<and> unused B i} = {i. i < ?N \<and> unused A i} \<union> {s..<s + n}"
  proof (rule set_eqI)
    fix i
    show "i \<in> {i. i < ?N \<and> unused B i} \<longleftrightarrow> i \<in> {i. i < ?N \<and> unused A i} \<union> {s..<s + n}"
    proof (cases "s \<le> i \<and> i < s + n")
      case True
      then show ?thesis using out [of i] heap_repD(2) [OF rep A] by simp
    next
      case False
      then have "in_chunk A i = in_chunk B i" unfolding chunk [of i] by (simp only: simp_thms)
      then show ?thesis using False by (simp only: mem_Collect_eq Un_iff atLeastLessThan_iff simp_thms)
    qed
  qed
  moreover have "{i. i < ?N \<and> unused A i} \<inter> {s..<s + n} = {}"
  proof (rule equals0I)
    fix i assume "i \<in> {i. i < ?N \<and> unused A i} \<inter> {s..<s + n}"
    then have "unused A i" "s \<le> i" "i < s + n" by simp_all
    then show False unfolding chunk by (simp only: simp_thms)
  qed
  ultimately have "card {i. i < ?N \<and> unused B i} = card {i. i < ?N \<and> unused A i} + card {s..<s + n}"
    by (metis card_Un_disjoint finite_atLeastLessThan finite_Collect_conjI finite_Collect_less_nat)
  then show ?thesis unfolding B_def free_count_def by simp
qed

lemma kmalloc_page:
  assumes live: "kheap_live h m L (Suc k)" and sz: "0 < sz" "sz \<le> 4096"
    and run: "kmalloc h m sz = (p, m')"
  shows "p \<noteq> 0 \<and> aligned p \<and> L p = None \<and> kheap_live h m' (L(p \<mapsto> 4096)) k"
    and "\<not> in_table (table h) a \<Longrightarrow> m' a = m a"
    and "\<exists>s<unat (total (table h)). p = saddr h + word_of_nat s * 4096"
proof -
  let ?N = "unat (total (table h))"
  from live obtain A where pool: "pool_ok h" and ok: "heap_ok m h A" and L: "L = addr_map h A"
    and k: "Suc k \<le> free_count A ?N" by (auto simp: kheap_live_def)
  have N: "?N < 2 ^ 19" and rep: "heap_rep m (table h) A" using ok by (simp_all add: heap_ok_def)
  have "unat sz \<le> 4096" "0 < unat sz" using sz by (simp_all add: word_le_nat_alt word_less_nat_alt)
  then have one: "blocks_for sz = 1" unfolding blocks_for_def by (intro div_nat_eqI) auto
  have "{i. i < ?N \<and> unused A i} \<noteq> {}"
    using k unfolding free_count_def by (metis card.empty not_less_eq_eq zero_le)
  then have room: "\<exists>s. fits (unused A) (blocks_for sz) ?N s" unfolding one by (auto simp: fits_def Suc_le_eq)
  have sz2: "sz \<le> 0xFFFFF000" using sz(2) by (rule order_trans) simp
  define s where "s = (LEAST s. fits (unused A) (blocks_for sz) ?N s)"
  note S = heap_malloc_success [OF ok sz(1) sz2 room, folded s_def]
  have p: "p = saddr h + word_of_nat s * 4096" and m': "m' = snd (heap_malloc m h sz)"
    using run S(1) by (simp_all add: kmalloc_def)
  have fit: "fits (unused A) 1 ?N s"
    using fits_Least(1) [OF room] unfolding one s_def [unfolded one] by simp
  then have s: "s < ?N" "unused A s" by (auto simp: fits_def)
  then have s20: "s < 2 ^ 20" using N by simp
  have None: "A s = None"
    using s(2) heap_repD(1) [OF rep, of s] by (cases "A s") (auto simp: in_chunk_def)
  have rep': "heap_rep m' (table h) (A(s \<mapsto> 1))" using S(2) unfolding m' one .
  have "kheap_live h m' (L(p \<mapsto> 4096)) k"
    unfolding kheap_live_def
  proof (intro conjI exI)
    show "heap_ok m' h (A(s \<mapsto> 1))" using rep' N by (simp add: heap_ok_def)
    show "L(p \<mapsto> 4096) = addr_map h (A(s \<mapsto> 1))" unfolding L p addr_map_upd [OF s20] by simp
    show "k \<le> free_count (A(s \<mapsto> 1)) ?N" using free_count_insert [of A s, OF None s] k by simp
  qed (rule pool)
  moreover have up: "unat p = unat (saddr h) + s * 4096"
  proof -
    have "s * 4096 \<le> ?N * 4096" using s(1) by simp
    then have "unat (saddr h) + s * 4096 < 2 ^ 32" using pool by (simp add: pool_ok_def)
    then show ?thesis unfolding p unat_word_ariths(1) unat_block [OF s20] by simp
  qed
  then have "p \<noteq> 0" using pool by (metis add_eq_0_iff_both_eq_0 pool_ok_def unat_0 unat_eq_zero)
  moreover have "aligned p" using up pool by (simp add: aligned_def pool_ok_def)
  moreover have "L p = None" unfolding L p addr_map_block [OF s20] None by simp
  ultimately show "p \<noteq> 0 \<and> aligned p \<and> L p = None \<and> kheap_live h m' (L(p \<mapsto> 4096)) k" by blast
  show "\<not> in_table (table h) a \<Longrightarrow> m' a = m a" unfolding m' by (rule S(3))
  show "\<exists>s<?N. p = saddr h + word_of_nat s * 4096" using s(1) p by blast
qed

lemma kheap_live_cong:
  assumes "kheap_live h m L k" "\<And>a. in_table (table h) a \<Longrightarrow> m' a = m a"
  shows "kheap_live h m' L k"
proof -
  from assms(1) obtain A where "pool_ok h" and ok: "heap_ok m h A" and "L = addr_map h A"
    and "k \<le> free_count A (unat (total (table h)))" by (auto simp: kheap_live_def)
  moreover have "heap_ok m' h A"
    using ok heap_rep_cong [of m "table h" A m'] assms(2) by (simp add: heap_ok_def)
  ultimately show ?thesis by (auto simp: kheap_live_def)
qed

lemma pool_region:
  assumes "s + n \<le> N" "N < 2 ^ 19" "in_range (saddr h + word_of_nat s * 4096) (n * 4096) a"
  shows "in_range (saddr h) (N * 4096) a"
proof -
  obtain i where i: "i < n * 4096" "a = saddr h + word_of_nat s * 4096 + word_of_nat i"
    using in_range_ex [OF assms(3)] by blast
  then have "a = saddr h + word_of_nat (s * 4096 + i)" by simp
  moreover have "s * 4096 + i < N * 4096" using i(1) assms(1) by linarith
  ultimately show ?thesis using assms(2) by (simp only:) (rule in_range_offset, simp_all)
qed

lemma kfree_live:
  assumes live: "kheap_live h m L k" and L: "L p = Some n"
  shows "kheap_live h (kfree h m p) (L(p := None)) (k + n div 4096)"
    and "\<not> in_table (table h) a \<Longrightarrow> kfree h m p a = m a"
proof -
  from live obtain A where pool: "pool_ok h" and ok: "heap_ok m h A" and LA: "L = addr_map h A"
    and k: "k \<le> free_count A (unat (total (table h)))" by (auto simp: kheap_live_def)
  from L [unfolded LA] obtain s b where sb: "A s = Some b" "n = b * 4096"
    and p: "p = saddr h + word_of_nat s * 4096" and s20: "s < 2 ^ 20" by (rule addr_map_Some)
  note F = heap_free_success [OF ok sb(1), folded p]
  show "kheap_live h (kfree h m p) (L(p := None)) (k + n div 4096)"
    unfolding kheap_live_def
  proof (intro conjI exI)
    show "heap_ok (kfree h m p) h (A(s := None))" using F(1) ok by (simp add: kfree_def heap_ok_def)
    show "L(p := None) = addr_map h (A(s := None))" unfolding LA p addr_map_upd [OF s20] by simp
    show "k + n div 4096 \<le> free_count (A(s := None)) (unat (total (table h)))"
      using k free_count_remove [of m "table h" A s b] ok sb by (simp add: heap_ok_def)
  qed (rule pool)
  show "\<not> in_table (table h) a \<Longrightarrow> kfree h m p a = m a" unfolding kfree_def by (rule F(2))
qed

lemma kheap_live_at:
  assumes "kheap_live h m L k" "L p = Some n"
  shows "\<exists>s. unat p = unat (saddr h) + s * 4096 \<and> pool_ok h"
proof -
  from assms(1) obtain A where pool: "pool_ok h" and rep: "heap_rep m (table h) A"
    and N: "unat (total (table h)) < 2 ^ 19" and LA: "L = addr_map h A"
    by (auto simp: kheap_live_def heap_ok_def)
  from assms(2) [unfolded LA] obtain s b where sb: "A s = Some b"
    and p: "p = saddr h + word_of_nat s * 4096" by (rule addr_map_Some)
  note D = heap_repD [OF rep sb]
  have s20: "s < 2 ^ 20" "s * 4096 \<le> unat (total (table h)) * 4096" using D(1,2) N by simp_all
  then have "unat (saddr h) + s * 4096 < 2 ^ 32" using pool by (simp add: pool_ok_def)
  then have "unat p = unat (saddr h) + s * 4096"
    unfolding p unat_word_ariths(1) unat_block [OF s20(1)] by simp
  then show ?thesis using pool by blast
qed

lemma kheap_live_nonzero: "kheap_live h m L k \<Longrightarrow> L p = Some n \<Longrightarrow> p \<noteq> 0"
  using kheap_live_at by (metis add_eq_0_iff_both_eq_0 pool_ok_def unat_0 unat_eq_zero)

lemma kheap_live_regions:
  assumes live: "kheap_live h m L k" and L: "L p = Some n"
  shows "in_range p n a \<Longrightarrow> \<not> in_table (table h) a"
    and "in_range p n a \<Longrightarrow> in_range (saddr h) (unat (total (table h)) * 4096) a"
    and "aligned p"
    and "L q = Some n' \<Longrightarrow> p \<noteq> q \<Longrightarrow> apart p n q n'"
proof -
  from live obtain A where pool: "pool_ok h" and rep: "heap_rep m (table h) A"
    and N: "unat (total (table h)) < 2 ^ 19" and LA: "L = addr_map h A"
    by (auto simp: kheap_live_def heap_ok_def)
  from L [unfolded LA] obtain s b where sb: "A s = Some b" "n = b * 4096"
    and p: "p = saddr h + word_of_nat s * 4096" by (rule addr_map_Some)
  note D = heap_repD [OF rep sb(1)]
  show "aligned p" using kheap_live_at [OF live L] by (auto simp: aligned_def pool_ok_def)
  {
    assume "in_range p n a"
    then show "in_range (saddr h) (unat (total (table h)) * 4096) a"
      using pool_region [OF D(2) N] unfolding p sb(2) by blast
    then show "\<not> in_table (table h) a" using pool by (auto simp: pool_ok_def)
  }
  {
    assume q: "L q = Some n'" and "p \<noteq> q"
    from q [unfolded LA] obtain s' b' where sb': "A s' = Some b'" "n' = b' * 4096"
      and q: "q = saddr h + word_of_nat s' * 4096" by (rule addr_map_Some)
    note D' = heap_repD [OF rep sb'(1)]
    have "s \<noteq> s'" using \<open>p \<noteq> q\<close> p q by auto
    then have dis: "s + b \<le> s' \<or> s' + b' \<le> s" using heap_rep_disjoint [OF rep sb(1) sb'(1)] by blast
    show "apart p n q n'"
      unfolding apart_def
    proof (intro allI impI notI)
      fix i j assume i: "i < n" and j: "j < n'" and "p + word_of_nat i = q + word_of_nat j"
      then have "(word_of_nat (s * 4096 + i) :: u32) = word_of_nat (s' * 4096 + j)"
        unfolding p q by simp
      moreover have "s * 4096 + i < 2 ^ 32" "s' * 4096 + j < 2 ^ 32"
        using i j sb(2) sb'(2) D(2) D'(2) N by simp_all
      ultimately have "s * 4096 + i = s' * 4096 + j" by (subst (asm) word_of_nat_inject_u32)
      then show False using dis i j sb(2) sb'(2) by linarith
    qed
  }
qed

interpretation kh: page_allocator "kzalloc h" "kfree h" "kheap_live h" "in_table (table h)"
    "in_range (saddr h) (unat (total (table h)) * 4096)" for h
proof
  fix m L k sz p m' a
  assume live: "kheap_live h m L (Suc k)" and sz: "0 < sz" "sz \<le> 4096" and run: "kzalloc h m sz = (p, m')"
  obtain m1 where m1: "kmalloc h m sz = (p, m1)" "m' = memset m1 p 0 sz"
    using kmalloc_page(1) [OF live sz] run
    by (cases "kmalloc h m sz") (auto simp: kzalloc_def split: if_splits)
  note A = kmalloc_page [OF live sz m1(1)]
  have sz': "unat sz \<le> 4096" using sz(2) by (simp add: word_le_nat_alt)
  have live1: "kheap_live h m1 (L(p \<mapsto> 4096)) k" using A(1) by blast
  have page: "\<not> in_table (table h) a" if "in_range p (unat sz) a" for a
    using that kheap_live_regions(1) [OF live1, of p 4096 a] sz' by (simp add: in_range_def)
  have "kheap_live h m' (L(p \<mapsto> 4096)) k"
    by (rule kheap_live_cong [OF live1]) (use page m1(2) in \<open>auto simp: memset_apply\<close>)
  then show "p \<noteq> 0 \<and> aligned p \<and> L p = None \<and> kheap_live h m' (L(p \<mapsto> 4096)) k" using A(1) by blast
  show "in_range p (unat sz) a \<Longrightarrow> m' a = 0" by (simp add: m1(2) memset_apply)
  show "\<not> in_table (table h) a \<Longrightarrow> \<not> in_range p (unat sz) a \<Longrightarrow> m' a = m a"
    using A(2) by (simp add: m1(2) memset_apply)
next
  fix m L k p n a m' q n'
  assume live: "kheap_live h m L k"
  show "kheap_live h m' L k" if "\<And>a. in_table (table h) a \<Longrightarrow> m' a = m a"
    using kheap_live_cong [OF live that] .
  assume L: "L p = Some n"
  show "kheap_live h (kfree h m p) (L(p := None)) (k + n div 4096)" by (rule kfree_live [OF live L])
  show "\<not> in_table (table h) a \<Longrightarrow> kfree h m p a = m a" by (rule kfree_live [OF live L])
  show "in_range p n a \<Longrightarrow> \<not> in_table (table h) a" by (rule kheap_live_regions [OF live L])
  show "aligned p" by (rule kheap_live_regions [OF live L])
  show "in_range p n a \<Longrightarrow> in_range (saddr h) (unat (total (table h)) * 4096) a"
    by (rule kheap_live_regions [OF live L])
  show "L q = Some n' \<Longrightarrow> p \<noteq> q \<Longrightarrow> apart p n q n'" by (rule kheap_live_regions [OF live L])
qed

abbreviation kept :: "heap \<Rightarrow> (addr \<Rightarrow> nat option) \<Rightarrow> addr \<Rightarrow> bool" where
  "kept h \<equiv> page_allocator.keeps (in_table (table h)) (in_range (saddr h) (unat (total (table h)) * 4096))"

text \<open>Regions added to a map, all of one page.\<close>

definition with_pages :: "(addr \<Rightarrow> nat option) \<Rightarrow> addr set \<Rightarrow> addr \<Rightarrow> nat option" where
  "with_pages L P = (\<lambda>p. if p \<in> P then Some 4096 else L p)"

lemma with_pages_in [simp]: "p \<in> P \<Longrightarrow> with_pages L P p = Some 4096"
  by (simp add: with_pages_def)

lemma with_pages_empty [simp]: "with_pages L {} = L"
  by (simp add: with_pages_def)

lemma with_pages_insert: "(with_pages L P)(p \<mapsto> 4096) = with_pages L (insert p P)"
  by (auto simp: with_pages_def)

lemma with_pages_fresh: "with_pages L P p = None \<Longrightarrow> p \<notin> P \<and> L p = None"
  by (auto simp: with_pages_def split: if_splits)

lemma with_pages_remove: "\<forall>q\<in>P. L q = None \<Longrightarrow> p \<in> P \<Longrightarrow> (with_pages L P)(p := None) = with_pages L (P - {p})"
  by (auto simp: with_pages_def)

section \<open>Initialisation\<close>

lemma free_count_empty: "free_count (\<lambda>_. None) N = N"
  by (simp add: free_count_def in_chunk_def)

text \<open>A heap whose table holds no taken block.\<close>

lemma fresh_heap_live:
  assumes "heap_rep m (table h) (\<lambda>_. None)" "pool_ok h" "unat (total (table h)) < 2 ^ 19"
  shows "kheap_live h m (\<lambda>_. None) (unat (total (table h)))"
  unfolding kheap_live_def
proof (intro conjI exI)
  show "heap_ok m h (\<lambda>_. None)" using assms(1,3) by (simp add: heap_ok_def)
  show "(\<lambda>_. None) = addr_map h (\<lambda>_. None)" by (auto simp: addr_map_def Let_def)
qed (use assms(2,3) free_count_empty in simp_all)

lemma kheap_init_heap:
  shows "fst (kheap_init m h) = 0" (is ?status)
    and "table (fst (snd (kheap_init m h))) = \<lparr>entries = 0x7E00, total = 25600\<rparr>" (is ?table)
    and "saddr (fst (snd (kheap_init m h))) = 0x01000000" (is ?saddr)
    and "kheap_live (fst (snd (kheap_init m h))) (snd (snd (kheap_init m h))) (\<lambda>_. None) 25600" (is ?live)
    and "\<not> in_range 0x7E00 25600 a \<Longrightarrow> snd (snd (kheap_init m h)) a = m a" (is "PROP ?frame")
proof -
  let ?t = "\<lparr>entries = 0x7E00, total = 25600\<rparr> :: heap_table" and ?h = "\<lparr>table = \<lparr>entries = 0x7E00, total = 25600\<rparr>, saddr = 0x01000000\<rparr> :: heap"
  have run: "kheap_init m h = heap_create m h 0x01000000 0x07400000 ?t"
    by (simp add: kheap_init_def status_defs Let_def)
  have "(0x01000000 :: u32) mod 4096 = 0" "(0x07400000 :: u32) mod 4096 = 0"
    "total ?t = (0x07400000 - 0x01000000) div 4096" by simp_all
  from heap_create_rep [OF this, of m h]
  obtain m' where m': "kheap_init m h = (0, ?h, m')" and rep: "heap_rep m' ?t (\<lambda>_. None)"
    and same: "\<And>a. \<not> in_table ?t a \<Longrightarrow> m' a = m a"
    unfolding run by auto
  from m' show ?status ?table ?saddr by simp_all
  show "PROP ?frame" using same unfolding m' by (simp add: in_table_def in_range_def)
  have pool: "pool_ok ?h"
    by (auto simp: pool_ok_def aligned_def in_table_def in_range_def unat_sub_if' split: if_splits)
  show ?live using fresh_heap_live [of m' ?h] rep pool by (simp add: m')
qed

end
