(* ===== verification/Paging.thy ===== *)
theory Paging
  imports KHeap
begin

text \<open>
  \<^verbatim>\<open>ke/memory/paging/paging.c\<close>: page directories of the i386. A directory is a page of 1024
  32-bit entries, each pointing at a page table of 1024 entries. \<open>pte\<close> is what the processor
  reads when it translates an address through a directory; \<open>paging_switch\<close> is in \<open>AddressSpace\<close>.
\<close>

section \<open>The functions\<close>

definition PAGING_CACHE_DISABLED :: u32 where [status_defs]: "PAGING_CACHE_DISABLED = 0b00010000"
definition PAGING_WRITE_THROUGH :: u32 where [status_defs]: "PAGING_WRITE_THROUGH = 0b00001000"
definition PAGING_ACCESS_FROM_ALL :: u32 where [status_defs]: "PAGING_ACCESS_FROM_ALL = 0b00000100"
definition PAGING_IS_WRITEABLE :: u32 where [status_defs]: "PAGING_IS_WRITEABLE = 0b00000010"
definition PAGING_IS_PRESENT :: u32 where [status_defs]: "PAGING_IS_PRESENT = 0b00000001"
definition PAGING_TOTAL_ENTRIES_PER_TABLE :: u32 where
  [status_defs]: "PAGING_TOTAL_ENTRIES_PER_TABLE = 1024"
definition PAGING_PAGE_SIZE :: u32 where [status_defs]: "PAGING_PAGE_SIZE = 4096"

text \<open>The loops run over constant bounds, \<open>n\<close> being \<open>PAGING_TOTAL_ENTRIES_PER_TABLE\<close>.\<close>

definition paging_fill_table :: "mem \<Rightarrow> addr \<Rightarrow> u32 \<Rightarrow> byte \<Rightarrow> nat \<Rightarrow> mem" where
  "paging_fill_table m entry offset flags n =
     fold (\<lambda>b m. write32 m (entry + 4 * word_of_nat b)
       ((offset + (word_of_nat b * PAGING_PAGE_SIZE)) OR ucast flags)) [0..<n] m"

definition paging_new_table :: "heap \<Rightarrow> addr \<Rightarrow> byte \<Rightarrow> nat \<Rightarrow> u32 \<times> mem \<Rightarrow> u32 \<times> mem" where
  "paging_new_table kernel_heap directory flags i = (\<lambda>(offset, m).
     let (entry, m) = kzalloc kernel_heap m (4 * PAGING_TOTAL_ENTRIES_PER_TABLE);
         m = paging_fill_table m entry offset flags (unat PAGING_TOTAL_ENTRIES_PER_TABLE);
         offset = offset + (PAGING_TOTAL_ENTRIES_PER_TABLE * PAGING_PAGE_SIZE)
     in (offset, write32 m (directory + 4 * word_of_nat i) (entry OR ucast flags OR PAGING_IS_WRITEABLE)))"

definition paging_new_4gb :: "heap \<Rightarrow> mem \<Rightarrow> byte \<Rightarrow> addr \<times> mem" where
  "paging_new_4gb kernel_heap m flags =
     (let (directory, m) = kzalloc kernel_heap m (4 * PAGING_TOTAL_ENTRIES_PER_TABLE);
          offset = 0;
          (offset, m) = fold (paging_new_table kernel_heap directory flags)
            [0..<unat PAGING_TOTAL_ENTRIES_PER_TABLE] (offset, m);
          (chunk_4gb, m) = kzalloc kernel_heap m 4;
          m = write32 m chunk_4gb directory
      in (chunk_4gb, m))"

definition paging_4gb_chunk_get_directory :: "mem \<Rightarrow> addr \<Rightarrow> addr" where
  "paging_4gb_chunk_get_directory m chunk = read32 m chunk"

definition paging_free_table :: "heap \<Rightarrow> addr \<Rightarrow> nat \<Rightarrow> mem \<Rightarrow> mem" where
  "paging_free_table kernel_heap chunk i m =
     (let entry = read32 m (read32 m chunk + 4 * word_of_nat i);
          table = entry AND 0xfffff000
      in kfree kernel_heap m table)"

definition paging_free_4gb :: "heap \<Rightarrow> mem \<Rightarrow> addr \<Rightarrow> mem" where
  "paging_free_4gb kernel_heap m chunk =
     (let m = fold (paging_free_table kernel_heap chunk) [0..<1024] m;
          m = kfree kernel_heap m (read32 m chunk)
      in kfree kernel_heap m chunk)"

definition paging_is_aligned :: "addr \<Rightarrow> bool" where
  "paging_is_aligned addr \<longleftrightarrow> addr mod PAGING_PAGE_SIZE = 0"

text \<open>The status and, where it is 0, what is stored through the two out pointers.\<close>

definition paging_get_indexes :: "addr \<Rightarrow> u32 + (u32 \<times> u32)" where
  "paging_get_indexes virtual_address =
     (if \<not> paging_is_aligned virtual_address then Inl (- EINVARG)
      else Inr (virtual_address div (PAGING_TOTAL_ENTRIES_PER_TABLE * PAGING_PAGE_SIZE),
                virtual_address mod (PAGING_TOTAL_ENTRIES_PER_TABLE * PAGING_PAGE_SIZE) div PAGING_PAGE_SIZE))"

definition paging_align_address :: "addr \<Rightarrow> addr" where
  "paging_align_address ptr =
     (if ptr mod PAGING_PAGE_SIZE \<noteq> 0 then ptr + PAGING_PAGE_SIZE - ptr mod PAGING_PAGE_SIZE else ptr)"

definition paging_set :: "mem \<Rightarrow> addr \<Rightarrow> addr \<Rightarrow> u32 \<Rightarrow> u32 \<times> mem" where
  "paging_set m directory virt val =
     (if \<not> paging_is_aligned virt then (- EINVARG, m)
      else case paging_get_indexes virt of
        Inl res \<Rightarrow> (res, m)
      | Inr (directory_index, table_index) \<Rightarrow>
          let entry = read32 m (directory + 4 * directory_index);
              table = entry AND 0xfffff000
          in (0, write32 m (table + 4 * table_index) val))"

definition paging_map :: "mem \<Rightarrow> addr \<Rightarrow> addr \<Rightarrow> addr \<Rightarrow> u32 \<Rightarrow> u32 \<times> mem" where
  "paging_map m directory virt phys flags =
     (if virt mod PAGING_PAGE_SIZE \<noteq> 0 \<or> phys mod PAGING_PAGE_SIZE \<noteq> 0 then (- EINVARG, m)
      else paging_set m directory virt (phys OR flags))"

function paging_map_range_loop ::
    "mem \<Rightarrow> addr \<Rightarrow> addr \<Rightarrow> addr \<Rightarrow> u32 \<Rightarrow> u32 \<Rightarrow> u32 \<Rightarrow> u32 \<Rightarrow> u32 \<times> mem" where
  "paging_map_range_loop m directory virt phys count flags res i =
     (if i <s count
      then let (res, m) = paging_map m directory virt phys flags in
           if res = 0 then (res, m)
           else paging_map_range_loop m directory (virt + PAGING_PAGE_SIZE) (phys + PAGING_PAGE_SIZE)
                  count flags res (i + 1)
      else (res, m))"
  by pat_completeness auto
termination
  by (relation "measure (\<lambda>(m, d, v, p, count, f, res, i). nat (sint count - sint i))")
    (auto simp: sint_inc word_sless_alt)

declare paging_map_range_loop.simps [simp del]

definition paging_map_range :: "mem \<Rightarrow> addr \<Rightarrow> addr \<Rightarrow> addr \<Rightarrow> u32 \<Rightarrow> u32 \<Rightarrow> u32 \<times> mem" where
  "paging_map_range m directory virt phys count flags =
     paging_map_range_loop m directory virt phys count flags 0 0"

definition paging_map_to :: "mem \<Rightarrow> addr \<Rightarrow> addr \<Rightarrow> addr \<Rightarrow> addr \<Rightarrow> u32 \<Rightarrow> u32 \<times> mem" where
  "paging_map_to m directory virt phys phys_end flags =
     (if virt mod PAGING_PAGE_SIZE \<noteq> 0 then (- EINVARG, m)
      else if phys mod PAGING_PAGE_SIZE \<noteq> 0 then (- EINVARG, m)
      else if phys_end mod PAGING_PAGE_SIZE \<noteq> 0 then (- EINVARG, m)
      else if phys_end < phys then (- EINVARG, m)
      else let total_bytes = phys_end - phys; total_pages = total_bytes div PAGING_PAGE_SIZE
           in paging_map_range m directory virt phys total_pages flags)"

section \<open>Entries of page-sized tables\<close>

abbreviation slot :: "addr \<Rightarrow> nat \<Rightarrow> addr" where
  "slot p i \<equiv> p + 4 * word_of_nat i"

lemma slot_offset: "slot p i + word_of_nat k = p + word_of_nat (4 * i + k)"
  by (simp add: algebra_simps)

lemma slot_in_page: "i < 1024 \<Longrightarrow> in_range (slot p i) 4 a \<Longrightarrow> in_range p 4096 a"
proof -
  assume i: "i < 1024" and "in_range (slot p i) 4 a"
  then obtain k where "k < 4" "a = slot p i + word_of_nat k" using in_range_ex by blast
  then have "a = p + word_of_nat (4 * i + k)" and "4 * i + k < 4096" using i slot_offset by auto
  then show ?thesis by (simp only:) (rule in_range_offset, simp_all)
qed

lemma read_slot_other:
  assumes "aligned p" "aligned q" "i < 1024" "j < 1024" "p \<noteq> q \<or> i \<noteq> j"
  shows "read32 (write32 m (slot p i) v) (slot q j) = read32 m (slot q j)"
proof (rule read32_other)
  fix k :: nat assume k: "k < 4"
  show "\<not> in_range (slot p i) 4 (slot q j + word_of_nat k)"
  proof
    assume "in_range (slot p i) 4 (slot q j + word_of_nat k)"
    then obtain k' where k': "k' < 4" "slot q j + word_of_nat k = slot p i + word_of_nat k'"
      using in_range_ex by blast
    then have "q + word_of_nat (4 * j + k) = p + word_of_nat (4 * i + k')"
      by (simp only: slot_offset)
    moreover have "4 * j + k < 4096" "4 * i + k' < 4096" using assms k k' by simp_all
    ultimately have "q = p" "4 * j + k = 4 * i + k'"
      using page_eq [OF assms(2,1)] by blast+
    then show False using assms(5) k k'(1) by presburger
  qed
qed

lemma read_slot_page:
  assumes "i < 1024" "\<And>a. in_range p 4096 a \<Longrightarrow> m' a = m a"
  shows "read32 m' (slot p i) = read32 m (slot p i)"
proof (rule read32_cong)
  fix k :: nat assume "k < 4"
  then have "in_range (slot p i) 4 (slot p i + word_of_nat k)" by (intro in_range_offset) simp_all
  then show "m' (slot p i + word_of_nat k) = m (slot p i + word_of_nat k)"
    using slot_in_page [OF assms(1)] assms(2) by blast
qed

lemma write_slot_frame: "i < 1024 \<Longrightarrow> \<not> in_range p 4096 a \<Longrightarrow> write32 m (slot p i) v a = m a"
  using slot_in_page write32_apply by blast

section \<open>Frames\<close>

abbreviation frame_of :: "u32 \<Rightarrow> addr" where
  "frame_of e \<equiv> e AND 0xfffff000"

lemma frame_bits: "bit (frame_of v) n \<longleftrightarrow> 12 \<le> n \<and> bit v n" if "n < 32" for v :: u32
proof -
  have eq: "(0xfffff000 :: u32) = NOT (mask 12)" by (simp add: mask_eq_exp_minus_1)
  show ?thesis unfolding eq using that by (auto simp: bit_and_iff bit_not_iff bit_mask_iff)
qed

lemma aligned_bits: "aligned p \<longleftrightarrow> (\<forall>n<12. \<not> bit p n)"
proof -
  have "aligned p \<longleftrightarrow> take_bit 12 (unat p) = 0" by (simp add: aligned_def take_bit_eq_mod)
  also have "\<dots> \<longleftrightarrow> (\<forall>n. \<not> bit (take_bit 12 (unat p)) n)"
    by (auto simp: bit_eq_iff)
  also have "\<dots> \<longleftrightarrow> (\<forall>n<12. \<not> bit p n)" by (auto simp: bit_take_bit_iff bit_unsigned_iff)
  finally show ?thesis .
qed

lemma frame_of_aligned: "aligned (frame_of v)"
  unfolding aligned_bits by (simp add: frame_bits)

lemma frame_of_entry:
  assumes "aligned p" "\<And>n. 12 \<le> n \<Longrightarrow> \<not> bit (f :: u32) n"
  shows "frame_of (p OR f) = p"
proof (rule bit_word_eqI)
  fix n assume "n < LENGTH(32)"
  then show "bit (frame_of (p OR f)) n = bit p n"
    using assms by (cases "12 \<le> n") (simp_all add: frame_bits bit_or_iff aligned_bits)
qed

lemma flags_bits: "12 \<le> n \<Longrightarrow> \<not> bit (ucast (f :: byte) OR PAGING_IS_WRITEABLE :: u32) n"
  "12 \<le> n \<Longrightarrow> \<not> bit (ucast (f :: byte) :: u32) n"
  using bit_imp_le_length [of f n]
  by (auto simp: bit_or_iff bit_unsigned_iff PAGING_IS_WRITEABLE_def bit_2_iff)

section \<open>Address translation\<close>

text \<open>The entry the processor uses for the address \<open>v\<close>: the top ten bits of \<open>v\<close> index the
  directory, the next ten the page table.\<close>

definition directory_index :: "addr \<Rightarrow> nat" where
  "directory_index v = unat v div 4194304"

definition table_index :: "addr \<Rightarrow> nat" where
  "table_index v = unat v div 4096 mod 1024"

definition pte :: "mem \<Rightarrow> addr \<Rightarrow> addr \<Rightarrow> u32" where
  "pte m directory v =
     read32 m (slot (frame_of (read32 m (slot directory (directory_index v)))) (table_index v))"

lemma index_bounds: "directory_index v < 1024" "table_index v < 1024"
  using unat_u32 [of v] by (auto simp: directory_index_def table_index_def less_mult_imp_div_less)

lemma page_of_indexes: "unat v div 4096 = directory_index v * 1024 + table_index v"
  unfolding directory_index_def table_index_def
  using div_mult2_eq [of "unat v" 4096 1024] div_mult_mod_eq [of "unat v div 4096" 1024] by simp

lemma same_page_iff: "unat v div 4096 = unat w div 4096 \<longleftrightarrow>
    directory_index v = directory_index w \<and> table_index v = table_index w"
proof
  assume eq: "unat v div 4096 = unat w div 4096"
  have "directory_index x = unat x div 4096 div 1024" for x
    using div_mult2_eq [of "unat x" 4096 1024] by (simp add: directory_index_def)
  then show "directory_index v = directory_index w \<and> table_index v = table_index w"
    unfolding table_index_def by (simp only: eq)
qed (simp add: page_of_indexes)

text \<open>A directory is well formed when it is page aligned, its page tables are pairwise different
  pages and none of them is the directory itself.\<close>

definition table_of :: "mem \<Rightarrow> addr \<Rightarrow> nat \<Rightarrow> addr" where
  "table_of m d i = frame_of (read32 m (slot d i))"

definition directory_ok :: "mem \<Rightarrow> addr \<Rightarrow> bool" where
  "directory_ok m d \<longleftrightarrow> aligned d \<and> inj_on (table_of m d) {..<1024} \<and> d \<notin> table_of m d ` {..<1024}"

lemma pte_table_of: "pte m d v = read32 m (slot (table_of m d (directory_index v)) (table_index v))"
  by (simp add: pte_def table_of_def)

lemma paging_get_indexes_aligned:
  assumes "aligned v"
  shows "paging_get_indexes v = Inr (word_of_nat (directory_index v), word_of_nat (table_index v))"
proof -
  have "v mod 4096 = 0" using assms unfolding aligned_def
    by (metis unat_eq_zero unat_mod unat_numeral_4096)
  moreover have "v div 4194304 = word_of_nat (directory_index v)"
    unfolding word_unat_eq_iff using index_bounds [of v]
    by (subst unat_word_of_nat) (simp_all add: directory_index_def unat_div)
  moreover have "v mod 4194304 div 4096 = word_of_nat (table_index v)"
  proof -
    have "unat v mod (4096 * 1024) div 4096 = table_index v"
      unfolding mod_mult2_eq table_index_def by simp
    then show ?thesis
      unfolding word_unat_eq_iff using index_bounds [of v]
      by (subst unat_word_of_nat) (simp_all add: unat_div unat_mod)
  qed
  ultimately show ?thesis
    by (simp add: paging_get_indexes_def paging_is_aligned_def status_defs)
qed

text \<open>What \<open>paging_set\<close> does to the translation.\<close>

lemma paging_set_aligned:
  assumes "aligned virt"
  shows "paging_set m d virt val =
    (0, write32 m (slot (table_of m d (directory_index virt)) (table_index virt)) val)"
proof -
  have "paging_is_aligned virt" using assms unfolding aligned_def paging_is_aligned_def PAGING_PAGE_SIZE_def
    by (metis unat_eq_zero unat_mod unat_numeral_4096)
  then show ?thesis
    by (simp add: paging_set_def paging_get_indexes_aligned [OF assms] table_of_def)
qed

lemma paging_set_unaligned: "\<not> aligned virt \<Longrightarrow> paging_set m d virt val = (- EINVARG, m)"
proof -
  assume "\<not> aligned virt"
  then have "\<not> paging_is_aligned virt" unfolding aligned_def paging_is_aligned_def PAGING_PAGE_SIZE_def
    by (metis unat_0 unat_mod unat_numeral_4096)
  then show ?thesis by (simp add: paging_set_def)
qed

lemma table_of_write:
  assumes ok: "directory_ok m d" and i: "i < 1024" "k < 1024" "j < 1024"
  shows "table_of (write32 m (slot (table_of m d i) j) val) d k = table_of m d k"
proof -
  have "table_of m d i \<noteq> d" "aligned d"
    using ok i unfolding directory_ok_def by (metis imageI lessThan_iff)+
  moreover have "aligned (table_of m d i)" unfolding table_of_def by (rule frame_of_aligned)
  ultimately show ?thesis
    using i read_slot_other [of "table_of m d i" d j k m val] by (simp add: table_of_def)
qed

lemma directory_ok_write:
  assumes ok: "directory_ok m d" and i: "i < 1024" "j < 1024"
  shows "directory_ok (write32 m (slot (table_of m d i) j) val) d"
proof -
  have "table_of (write32 m (slot (table_of m d i) j) val) d k = table_of m d k" if "k \<in> {..<1024}" for k
    using table_of_write [OF ok i(1) _ i(2)] that by simp
  then show ?thesis
    using ok inj_on_cong [of "{..<1024}" "table_of (write32 m (slot (table_of m d i) j) val) d" "table_of m d"]
    unfolding directory_ok_def by (metis (no_types, lifting) image_cong)
qed

lemma pte_write:
  assumes ok: "directory_ok m d"
  shows "pte (write32 m (slot (table_of m d (directory_index virt)) (table_index virt)) val) d v =
    (if unat v div 4096 = unat virt div 4096 then val else pte m d v)"
proof -
  let ?t = "table_of m d (directory_index virt)" and ?u = "table_of m d (directory_index v)"
  note b = index_bounds
  have t: "table_of (write32 m (slot ?t (table_index virt)) val) d (directory_index v) = ?u"
    by (rule table_of_write [OF ok]) (use b in blast)+
  have al: "aligned ?t" "aligned ?u" unfolding table_of_def by (rule frame_of_aligned)+
  have same: "?t = ?u \<longleftrightarrow> directory_index virt = directory_index v"
    using ok b unfolding directory_ok_def inj_on_def by (metis lessThan_iff)
  have page: "unat v div 4096 = unat virt div 4096 \<longleftrightarrow>
      directory_index v = directory_index virt \<and> table_index v = table_index virt"
    by (rule same_page_iff)
  show ?thesis
  proof (cases "unat v div 4096 = unat virt div 4096")
    case True
    then have "?t = ?u" "table_index virt = table_index v" using page by simp_all
    then show ?thesis unfolding pte_table_of t using True by (simp only: if_True read32_write32 simp_thms)
  next
    case False
    then have "?t \<noteq> ?u \<or> table_index virt \<noteq> table_index v" using page same by metis
    from read_slot_other [OF al b(2) b(2) this] show ?thesis
      unfolding pte_table_of t using False by (simp only: if_False)
  qed
qed

lemma pte_paging_set:
  assumes "directory_ok m d" "aligned virt" "paging_set m d virt val = (res, m')"
  shows "res = 0 \<and> directory_ok m' d \<and>
    (\<forall>v. pte m' d v = (if unat v div 4096 = unat virt div 4096 then val else pte m d v))"
  using assms(3) pte_write [OF assms(1)] directory_ok_write [OF assms(1) index_bounds(1,2)]
  unfolding paging_set_aligned [OF assms(2)] by auto

lemma entries_1024: "unat PAGING_TOTAL_ENTRIES_PER_TABLE = 1024"
  by (simp add: PAGING_TOTAL_ENTRIES_PER_TABLE_def)

section \<open>A new directory maps every address to itself\<close>

lemma frame_of_nat: "frame_of v = word_of_nat (unat v div 4096) * 4096"
proof -
  have "frame_of v = push_bit 12 (drop_bit 12 v)"
  proof (rule bit_word_eqI)
    fix n assume "n < LENGTH(32)"
    then show "bit (frame_of v) n = bit (push_bit 12 (drop_bit 12 v)) n"
      by (auto simp: frame_bits bit_push_bit_iff bit_drop_bit_eq)
  qed
  also have "\<dots> = (v div 4096) * 4096" by (simp add: push_bit_eq_mult drop_bit_eq_div)
  also have "v div 4096 = word_of_nat (unat v div 4096)"
  proof -
    have "word_of_nat (unat (v div 4096)) = v div 4096" by (rule unat_eq_nat_uint [THEN ssubst]) simp
    then show ?thesis unfolding unat_div unat_numeral_4096 by (rule sym)
  qed
  finally show ?thesis .
qed

lemma paging_fill_table_entries:
  assumes "aligned e" "n \<le> 1024"
  shows "b < 1024 \<Longrightarrow> read32 (paging_fill_table m e off f n) (slot e b) =
      (if b < n then (off + word_of_nat b * 4096) OR ucast f else read32 m (slot e b))"
    and "\<not> in_range e 4096 a \<Longrightarrow> paging_fill_table m e off f n a = m a"
proof -
  have step: "paging_fill_table m e off f (Suc n) =
      write32 (paging_fill_table m e off f n) (slot e n) ((off + word_of_nat n * 4096) OR ucast f)" for n
    by (simp add: paging_fill_table_def PAGING_PAGE_SIZE_def)
  have zero: "paging_fill_table m e off f 0 = m" by (simp add: paging_fill_table_def)
  show "read32 (paging_fill_table m e off f n) (slot e b) =
      (if b < n then (off + word_of_nat b * 4096) OR ucast f else read32 m (slot e b))" if "b < 1024"
    using assms(2)
  proof (induction n)
    case (Suc n)
    show ?case
    proof (cases "b = n")
      case False
      then have "read32 (paging_fill_table m e off f (Suc n)) (slot e b) =
          read32 (paging_fill_table m e off f n) (slot e b)"
        unfolding step using Suc.prems that by (intro read_slot_other assms(1)) simp_all
      then show ?thesis using Suc False by simp
    qed (simp add: step)
  qed (simp add: zero)
  show "paging_fill_table m e off f n a = m a" if "\<not> in_range e 4096 a"
    using assms(2)
  proof (induction n)
    case (Suc n)
    then show ?case unfolding step using write_slot_frame [of n e a] that by simp
  qed (simp add: zero)
qed

text \<open>The state after \<open>i\<close> page tables: \<open>L\<close> are the regions before, \<open>Li\<close> those now.\<close>

definition tables_done ::
    "heap \<Rightarrow> (addr \<Rightarrow> nat option) \<Rightarrow> addr \<Rightarrow> byte \<Rightarrow> nat \<Rightarrow> nat \<Rightarrow> mem \<Rightarrow> bool" where
  "tables_done h L d f i k m \<longleftrightarrow>
     kheap_live h m (\<lambda>p. if p = d \<or> p \<in> table_of m d ` {..<i} then Some 4096 else L p) k \<and>
     aligned d \<and> L d = None \<and> (\<forall>p\<in>table_of m d ` {..<i}. L p = None) \<and>
     inj_on (table_of m d) {..<i} \<and> d \<notin> table_of m d ` {..<i} \<and>
     (\<forall>j<i. \<forall>b<1024. read32 m (slot (table_of m d j) b) =
        (word_of_nat j * 4194304 + word_of_nat b * 4096) OR ucast f)"

lemma tables_done_step:
  assumes inv: "tables_done h L d f i (Suc k) m" and i: "i < 1024"
    and run: "paging_new_table h d f i (word_of_nat i * 4194304, m) = (off, m')"
  shows "off = word_of_nat (Suc i) * 4194304 \<and> tables_done h L d f (Suc i) k m' \<and>
    (\<forall>p n a. L p = Some n \<longrightarrow> in_range p n a \<longrightarrow> m' a = m a)"
proof -
  let ?T = "table_of m d" and ?T' = "table_of m' d"
  define Li where "Li = (\<lambda>p. if p = d \<or> p \<in> ?T ` {..<i} then Some 4096 else L p)"
  note I = inv [unfolded tables_done_def, folded Li_def]
  have live: "kheap_live h m Li (Suc k)" using I by (rule conjunct1)
  have d: "aligned d" "L d = None" using I by blast+
  have new: "L p = None" if "p \<in> ?T ` {..<i}" for p
    using I that by (elim conjE) (rule bspec)
  have inj: "inj_on ?T {..<i}" using I by (elim conjE)
  have dT: "d \<notin> ?T ` {..<i}" using I by (elim conjE)
  have pages: "read32 m (slot (?T j) b) = (word_of_nat j * 4194304 + word_of_nat b * 4096) OR ucast f"
    if "j < i" "b < 1024" for j b
    using I that by (elim conjE) simp
  obtain e m1 where alloc: "kzalloc h m 4096 = (e, m1)" by fastforce
  define m2 where "m2 = paging_fill_table m1 e (word_of_nat i * 4194304) f 1024"
  have off: "off = word_of_nat (Suc i) * 4194304"
    and m': "m' = write32 m2 (slot d i) (e OR ucast f OR PAGING_IS_WRITEABLE)"
    using run alloc unfolding paging_new_table_def entries_1024
    unfolding PAGING_TOTAL_ENTRIES_PER_TABLE_def
    by (simp_all add: PAGING_PAGE_SIZE_def m2_def add.commute)
  have sz: "(0 :: u32) < 4096" "(4096 :: u32) \<le> 4096" by simp_all
  note A = kh.alloc_page [OF live sz alloc] and keep = kh.alloc_keeps [OF live sz alloc]
  have e: "aligned e" "Li e = None" and live1: "kheap_live h m1 (Li(e \<mapsto> 4096)) k" using A by auto
  have ed: "e \<noteq> d" "e \<notin> ?T ` {..<i}" "L e = None" using e(2) by (auto simp: Li_def split: if_splits)
  have far: "m2 a = m1 a" if "\<not> in_range e 4096 a" for a
    unfolding m2_def by (rule paging_fill_table_entries(2) [OF e(1) order_refl that])
  have live2: "kheap_live h m2 (Li(e \<mapsto> 4096)) k"
    by (rule kh.live_store [OF live1, of e 4096]) (simp_all add: far)
  have live': "kheap_live h m' (Li(e \<mapsto> 4096)) k"
    by (rule kh.live_store [OF live2, of d 4096])
      (use ed in \<open>simp_all add: Li_def m' write_slot_frame [OF i]\<close>)
  have out: "\<not> in_range e 4096 a" if "Li p = Some n" "in_range p n a" for p n a
  proof -
    have "p \<noteq> e" using that(1) e(2) by auto
    then have "apart p n e 4096" using that(1) by (intro kh.live_disjoint [OF live1]) auto
    then show ?thesis using in_range_ex [OF that(2)] apart_notin by blast
  qed
  have same2: "m2 a = m a" if "Li p = Some n" "in_range p n a" for p n a
    using far [OF out [OF that]] keep [OF that] by simp
  have page2: "read32 m2 (slot p b) = read32 m (slot p b)" if "Li p = Some 4096" "b < 1024" for p b
    by (rule read_slot_page [OF that(2)]) (rule same2 [OF that(1)])
  have Lid: "Li d = Some 4096" by (simp add: Li_def)
  have T': "?T' j = ?T j" if "j < i" for j
    unfolding table_of_def m' using that i page2 [OF Lid, of j]
    by (subst read_slot_other [OF d(1) d(1)]) simp_all
  have Ti: "?T' i = e"
    using frame_of_entry [OF e(1) flags_bits(1)] by (simp add: table_of_def m' or.assoc)
  have img: "?T' ` {..<Suc i} = insert e (?T ` {..<i})"
    using T' Ti by (auto simp: lessThan_Suc)
  have L': "Li(e \<mapsto> 4096) = (\<lambda>p. if p = d \<or> p \<in> ?T' ` {..<Suc i} then Some 4096 else L p)"
    unfolding img by (auto simp: Li_def)
  have injT': "inj_on ?T' {..<Suc i}"
    using inj_on_cong [of "{..<i}" ?T' ?T] T' inj ed(2) by (simp add: lessThan_Suc Ti)
  have pages': "read32 m' (slot (?T' j) b) = (word_of_nat j * 4194304 + word_of_nat b * 4096) OR ucast f"
    if j: "j < Suc i" and b: "b < 1024" for j b
  proof (cases "j = i")
    case True
    have "read32 m' (slot e b) = read32 m2 (slot e b)"
      unfolding m' using ed(1) b i by (intro read_slot_other [OF d(1) e(1)]) auto
    then show ?thesis
      using paging_fill_table_entries(1) [OF e(1) order_refl b] b by (simp add: True Ti m2_def)
  next
    case False
    then have j: "j < i" "?T j \<in> ?T ` {..<i}" using j by auto
    then have LT: "Li (?T j) = Some 4096" by (simp add: Li_def)
    have "?T j \<noteq> d" using dT j(2) by metis
    moreover have "aligned (?T j)" unfolding table_of_def by (rule frame_of_aligned)
    ultimately have keep: "read32 m' (slot (?T j) b) = read32 m2 (slot (?T j) b)"
      unfolding m' using b i by (intro read_slot_other [OF d(1)]) auto
    show ?thesis using keep page2 [OF LT b] pages [OF j(1) b] T' [OF j(1)] by simp
  qed
  have "tables_done h L d f (Suc i) k m'"
    unfolding tables_done_def L' [symmetric]
    using live' d injT' pages' new dT ed unfolding img by auto
  moreover have "m' a = m a" if "L p = Some n" "in_range p n a" for p n a
  proof -
    have LiP: "Li p = Some n" and "p \<noteq> d" using that(1) d new by (auto simp: Li_def)
    then have "apart p n d 4096" by (intro kh.live_disjoint [OF live _ Lid])
    then have "\<not> in_range d 4096 a" using in_range_ex [OF that(2)] apart_notin by blast
    then show ?thesis using same2 [OF LiP that(2)] write_slot_frame [OF i] by (simp add: m')
  qed
  ultimately show ?thesis using off by blast
qed

lemma tables_done_loop:
  assumes "tables_done h L d f 0 (k + n) m" "n \<le> 1024"
    and "fold (paging_new_table h d f) [0..<n] (0, m) = (off, m')"
  shows "off = word_of_nat n * 4194304 \<and> tables_done h L d f n k m' \<and>
    (\<forall>p q a. L p = Some q \<longrightarrow> in_range p q a \<longrightarrow> m' a = m a)"
  using assms
proof (induction n arbitrary: k off m')
  case (Suc n)
  obtain off1 m1 where one: "fold (paging_new_table h d f) [0..<n] (0, m) = (off1, m1)" by fastforce
  have IH: "off1 = word_of_nat n * 4194304 \<and> tables_done h L d f n (Suc k) m1 \<and>
      (\<forall>p q a. L p = Some q \<longrightarrow> in_range p q a \<longrightarrow> m1 a = m a)"
    by (rule Suc.IH [OF _ _ one]) (use Suc.prems in simp_all)
  have "paging_new_table h d f n (word_of_nat n * 4194304, m1) = (off, m')"
    using Suc.prems(3) one IH by simp
  from tables_done_step [OF conjunct1 [OF conjunct2 [OF IH]] _ this] Suc.prems(2) IH show ?case by auto
qed simp

lemma identity_entry:
  "word_of_nat (directory_index v) * 4194304 + word_of_nat (table_index v) * 4096 = frame_of v"
proof -
  have "(word_of_nat (directory_index v * 1024 + table_index v) * 4096 :: u32) = frame_of v"
    unfolding frame_of_nat page_of_indexes by (rule refl)
  then show ?thesis by (simp add: algebra_simps)
qed

text \<open>The regions of a directory: the chunk structure, the directory and the 1024 page tables.\<close>

definition directory_regions :: "mem \<Rightarrow> addr \<Rightarrow> addr set" where
  "directory_regions m c = {c, read32 m c} \<union> table_of m (read32 m c) ` {..<1024}"

lemma paging_new_4gb_works:
  assumes live: "kheap_live h m L (k + 1026)" and run: "paging_new_4gb h m f = (c, m')"
  defines "d \<equiv> paging_4gb_chunk_get_directory m' c"
  shows "directory_ok m' d" "pte m' d v = frame_of v OR ucast f"
    and "kheap_live h m' (\<lambda>p. if p \<in> directory_regions m' c then Some 4096 else L p) k"
    and "\<forall>p\<in>directory_regions m' c. L p = None" "c \<noteq> d" "c \<notin> table_of m' d ` {..<1024}"
    and "L p = Some n \<Longrightarrow> in_range p n a \<Longrightarrow> m' a = m a"
proof -
  have "k + 1026 = Suc (Suc k + 1024)" by simp
  then have live0: "kheap_live h m L (Suc (Suc k + 1024))" using live by metis
  obtain dir m0 where a0: "kzalloc h m 4096 = (dir, m0)" by fastforce
  have sz: "(0 :: u32) < 4096" "(4096 :: u32) \<le> 4096" "(0 :: u32) < 4" "(4 :: u32) \<le> 4096" by simp_all
  note A = kh.alloc_page [OF live0 sz(1,2) a0] and keepA = kh.alloc_keeps [OF live0 sz(1,2) a0]
  obtain off m1 where a1: "fold (paging_new_table h dir f) [0..<1024] (0, m0) = (off, m1)" by fastforce
  have "L(dir \<mapsto> 4096) = (\<lambda>p. if p = dir \<or> p \<in> table_of m0 dir ` {..<0} then Some 4096 else L p)"
    by auto
  then have "tables_done h L dir f 0 (Suc k + 1024) m0"
    using A unfolding tables_done_def by simp
  note T = tables_done_loop [OF this order_refl a1]
  define L1 where "L1 = (\<lambda>p. if p = dir \<or> p \<in> table_of m1 dir ` {..<1024} then Some 4096 else L p)"
  from T have D: "tables_done h L dir f 1024 (Suc k) m1" by blast
  note I = D [unfolded tables_done_def, folded L1_def]
  have live1: "kheap_live h m1 L1 (Suc k)" using I by (rule conjunct1)
  obtain ch m2 where a2: "kzalloc h m1 4 = (ch, m2)" by fastforce
  note C = kh.alloc_page [OF live1 sz(3,4) a2] and keepC = kh.alloc_keeps [OF live1 sz(3,4) a2]
  have "paging_new_4gb h m f = (ch, write32 m2 ch dir)"
    unfolding paging_new_4gb_def entries_1024
    unfolding PAGING_TOTAL_ENTRIES_PER_TABLE_def using a0 a1 a2 by simp
  then have "(c, m') = (ch, write32 m2 ch dir)" using run by metis
  then have res: "c = ch" "m' = write32 m2 ch dir" by (simp_all only: prod.inject)
  have d: "d = dir" by (simp add: d_def paging_4gb_chunk_get_directory_def res)
  have live2: "kheap_live h m2 (L1(ch \<mapsto> 4096)) k" and fresh: "L1 ch = None" and al: "aligned ch"
    using C by blast+
  have out: "\<not> in_range ch 4096 a" if "L1 p = Some n" "in_range p n a" for p n a
  proof -
    have "p \<noteq> ch" using that(1) fresh by auto
    then have "apart p n ch 4096" using that(1) by (intro kh.live_disjoint [OF live2]) auto
    then show ?thesis using in_range_ex [OF that(2)] apart_notin by blast
  qed
  have w: "m' a = m2 a" if "\<not> in_range ch 4096 a" for a
    using write_slot_frame [of 0 ch a m2 dir] that by (simp add: res)
  have same: "m' a = m1 a" if "L1 p = Some n" "in_range p n a" for p n a
    using w [OF out [OF that]] keepC [OF that] by simp
  have page: "read32 m' (slot p b) = read32 m1 (slot p b)" if "L1 p = Some 4096" "b < 1024" for p b
    by (rule read_slot_page [OF that(2)]) (rule same [OF that(1)])
  have L1d: "L1 dir = Some 4096" by (simp add: L1_def)
  have tab: "table_of m' dir j = table_of m1 dir j" if "j < 1024" for j
    unfolding table_of_def page [OF L1d that] by (rule refl)
  then have img: "table_of m' dir ` {..<1024} = table_of m1 dir ` {..<1024}" by (intro image_cong) auto
  have regions: "directory_regions m' c = {ch, dir} \<union> table_of m1 dir ` {..<1024}"
    unfolding directory_regions_def using img by (simp add: res)
  have inj: "inj_on (table_of m1 dir) {..<1024}" using I by (elim conjE)
  have dirT: "dir \<notin> table_of m1 dir ` {..<1024}" using I by (elim conjE)
  show "directory_ok m' d"
  proof -
    have "inj_on (table_of m' dir) {..<1024}"
    proof (rule inj_onI)
      fix x y assume x: "x \<in> {..<1024}" and y: "y \<in> {..<1024}"
        and eq: "table_of m' dir x = table_of m' dir y"
      have "table_of m1 dir x = table_of m1 dir y"
        using eq x y unfolding lessThan_iff by (simp only: tab)
      then show "x = y" by (rule inj_onD [OF inj _ x y])
    qed
    then show ?thesis unfolding directory_ok_def d img using A dirT by blast
  qed
  show "pte m' d v = frame_of v OR ucast f"
  proof -
    let ?t = "table_of m1 dir (directory_index v)"
    have "L1 ?t = Some 4096" using index_bounds [of v] by (simp add: L1_def)
    from page [OF this index_bounds(2)] have "pte m' d v = read32 m1 (slot ?t (table_index v))"
      unfolding pte_table_of d tab [OF index_bounds(1)] .
    also have "\<dots> = (word_of_nat (directory_index v) * 4194304 + word_of_nat (table_index v) * 4096) OR ucast f"
      using I index_bounds by (elim conjE) simp
    finally show ?thesis unfolding identity_entry .
  qed
  have "kheap_live h m' (L1(ch \<mapsto> 4096)) k"
    by (rule kh.live_store [OF live2, of ch 4096]) (simp_all add: w)
  moreover have "L1(ch \<mapsto> 4096) = (\<lambda>p. if p \<in> directory_regions m' c then Some 4096 else L p)"
    unfolding regions by (auto simp: L1_def)
  ultimately show "kheap_live h m' (\<lambda>p. if p \<in> directory_regions m' c then Some 4096 else L p) k" by simp
  have newT: "L p = None" if "p \<in> table_of m1 dir ` {..<1024}" for p
    using I that by (elim conjE) (rule bspec)
  have Ldir: "L dir = None" using A by (elim conjE)
  have ch: "ch \<noteq> dir" "ch \<notin> table_of m1 dir ` {..<1024}" "L ch = None"
    using fresh unfolding L1_def by (auto split: if_splits)
  show "\<forall>p\<in>directory_regions m' c. L p = None"
  proof
    fix p assume "p \<in> directory_regions m' c"
    then consider "p = ch" | "p = dir" | "p \<in> table_of m1 dir ` {..<1024}" unfolding regions by blast
    then show "L p = None" by cases (simp_all only: ch Ldir newT)
  qed
  show "c \<noteq> d" unfolding d res(1) by (rule ch)
  show "c \<notin> table_of m' d ` {..<1024}" unfolding d img res(1) by (rule ch)
  show "m' a = m a" if "L p = Some n" "in_range p n a"
  proof -
    have "L1 p = Some n"
      using that(1) Ldir newT [of p] unfolding L1_def by (metis option.distinct(1))
    then have "m' a = m1 a" using same that(2) by blast
    also have "\<dots> = m0 a" using T that by blast
    also have "\<dots> = m a" by (rule keepA [OF that])
    finally show ?thesis .
  qed
qed

section \<open>Freeing a directory\<close>

lemma kfree_tables:
  assumes live: "kheap_live h m L k" and n: "n \<le> 1024"
    and c: "L c = Some 4096" "aligned c" "c \<notin> table_of m (read32 m c) ` {..<1024}"
    and d: "L (read32 m c) = Some 4096" "read32 m c \<notin> table_of m (read32 m c) ` {..<1024}"
    and tabs: "inj_on (table_of m (read32 m c)) {..<1024}"
      "\<forall>i<1024. L (table_of m (read32 m c) i) = Some 4096"
  defines "F \<equiv> paging_free_table h c"
  shows "kheap_live h (fold F [0..<n] m)
      (\<lambda>p. if p \<in> table_of m (read32 m c) ` {..<n} then None else L p) (k + n)
    \<and> (\<forall>a. \<not> in_table (table h) a \<longrightarrow> fold F [0..<n] m a = m a)"
  using n
proof (induction n)
  case 0
  then show ?case using live by simp
next
  case (Suc n)
  let ?T = "table_of m (read32 m c)" and ?m = "fold F [0..<n] m"
  let ?L = "\<lambda>p. if p \<in> ?T ` {..<n} then None else L p"
  have liven: "kheap_live h ?m ?L (k + n)" and same: "\<And>a. \<not> in_table (table h) a \<Longrightarrow> ?m a = m a"
    using Suc by simp_all
  have page: "?m a = m a" if "L p = Some 4096" "in_range p 4096 a" for p a
    using same kh.live_not_own [OF live that] by blast
  have dir: "read32 ?m c = read32 m c"
    using read_slot_page [of 0 c ?m m] page [OF c(1)] by simp
  have tab: "read32 ?m (slot (read32 m c) n) = read32 m (slot (read32 m c) n)"
    using Suc.prems by (intro read_slot_page page [OF d(1)]) simp_all
  have F: "F n x = paging_free_table h c n x" for x by (simp add: F_def)
  have step: "fold F [0..<Suc n] m = kfree h ?m (?T n)"
    by (simp add: F paging_free_table_def dir tab table_of_def Let_def)
  have "?T n \<notin> ?T ` {..<n}"
  proof
    assume "?T n \<in> ?T ` {..<n}"
    then obtain x where "x < n" "?T n = ?T x" by blast
    then show False using inj_onD [OF tabs(1), of n x] Suc.prems by simp
  qed
  then have Ln: "?L (?T n) = Some 4096" using tabs(2) Suc.prems by simp
  have "?L(?T n := None) = (\<lambda>p. if p \<in> ?T ` {..<Suc n} then None else L p)"
    by (auto simp: lessThan_Suc)
  then have "kheap_live h (kfree h ?m (?T n)) (\<lambda>p. if p \<in> ?T ` {..<Suc n} then None else L p) (k + Suc n)"
    using kh.release_live [OF liven Ln] by simp
  moreover have "kfree h ?m (?T n) a = m a" if "\<not> in_table (table h) a" for a
    using kh.release_frame [OF liven Ln that] same [OF that] by simp
  ultimately show ?case unfolding step by blast
qed

lemma paging_free_4gb_works:
  assumes live: "kheap_live h m (\<lambda>p. if p \<in> directory_regions m c then Some 4096 else L p) k"
    and ok: "directory_ok m (read32 m c)" "aligned c" "c \<noteq> read32 m c" "c \<notin> table_of m (read32 m c) ` {..<1024}"
    and L: "\<forall>p\<in>directory_regions m c. L p = None"
  shows "kheap_live h (paging_free_4gb h m c) L (k + 1026)"
    and "\<not> in_table (table h) a \<Longrightarrow> paging_free_4gb h m c a = m a"
proof -
  let ?d = "read32 m c" let ?T = "table_of m ?d ` {..<1024}"
  let ?L0 = "\<lambda>p. if p \<in> directory_regions m c then Some 4096 else L p"
  define m1 where "m1 = fold (paging_free_table h c) [0..<1024] m"
  have c: "?L0 c = Some 4096" and d: "?L0 ?d = Some 4096" "?d \<notin> ?T" and inj: "inj_on (table_of m ?d) {..<1024}"
    and tabs: "\<forall>i<1024. ?L0 (table_of m ?d i) = Some 4096"
    using ok by (simp_all add: directory_regions_def directory_ok_def)
  from kfree_tables [OF live order_refl c ok(2,4) d inj tabs, folded m1_def]
  have live1: "kheap_live h m1 (\<lambda>p. if p \<in> ?T then None else ?L0 p) (k + 1024)"
    and same1: "\<And>a. \<not> in_table (table h) a \<Longrightarrow> m1 a = m a" by blast+
  have dir: "read32 m1 c = ?d"
    using read_slot_page [of 0 c m1 m] same1 kh.live_not_own [OF live c] by simp
  have L1d: "(\<lambda>p. if p \<in> ?T then None else ?L0 p) ?d = Some 4096" using d by simp
  define m2 where "m2 = kfree h m1 ?d"
  note R1 = kh.release_live [OF live1 L1d, folded m2_def] and F1 = kh.release_frame [OF live1 L1d, folded m2_def]
  have L2c: "((\<lambda>p. if p \<in> ?T then None else ?L0 p)(?d := None)) c = Some 4096" using c ok by simp
  have m3: "paging_free_4gb h m c = kfree h m2 c"
    unfolding paging_free_4gb_def m1_def [symmetric] Let_def dir m2_def by (rule refl)
  have E: "((\<lambda>p. if p \<in> ?T then None else ?L0 p)(?d := None, c := None)) = L"
  proof
    fix p
    show "((\<lambda>p. if p \<in> ?T then None else ?L0 p)(?d := None, c := None)) p = L p"
      using L by (cases "p \<in> directory_regions m c") (auto simp: directory_regions_def)
  qed
  have K: "k + 1024 + 4096 div 4096 + 4096 div 4096 = k + 1026" by simp
  show "kheap_live h (paging_free_4gb h m c) L (k + 1026)"
    using kh.release_live [OF R1 L2c] unfolding m3 E K .
  show "paging_free_4gb h m c a = m a" if "\<not> in_table (table h) a"
    unfolding m3 using kh.release_frame [OF R1 L2c that] F1 [OF that] same1 [OF that] by simp
qed

section \<open>Mapping ranges\<close>

lemma aligned_mod: "aligned p \<longleftrightarrow> p mod PAGING_PAGE_SIZE = 0"
proof -
  have "unat (p mod 4096) = unat p mod 4096" by (simp add: unat_mod)
  then show ?thesis
    unfolding aligned_def PAGING_PAGE_SIZE_def by (metis unat_0 unat_eq_zero)
qed

lemma paging_map_aligned:
  "aligned virt \<Longrightarrow> aligned phys \<Longrightarrow> paging_map m d virt phys flags = paging_set m d virt (phys OR flags)"
  by (simp add: paging_map_def aligned_mod)

lemma paging_map_unaligned:
  "\<not> (aligned virt \<and> aligned phys) \<Longrightarrow> paging_map m d virt phys flags = (- EINVARG, m)"
  by (auto simp add: paging_map_def aligned_mod)

lemma aligned_next: "aligned (p + PAGING_PAGE_SIZE) \<longleftrightarrow> aligned p"
proof -
  have "unat (p + 4096) mod 4096 = (unat p + 4096) mod 2 ^ 32 mod 4096"
    by (simp only: unat_word_ariths unat_numeral_4096 LENGTH_u32)
  also have "\<dots> = unat p mod 4096" by (subst mod_mod_cancel) simp_all
  finally show ?thesis by (simp only: aligned_def PAGING_PAGE_SIZE_def)
qed

lemma paging_map_range_unaligned:
  "\<not> (aligned virt \<and> aligned phys) \<Longrightarrow> i <s count \<Longrightarrow>
    paging_map_range_loop m d virt phys count flags res i = (- EINVARG, m)"
proof (induction "nat (sint count - sint i)" arbitrary: virt phys res i rule: less_induct)
  case less
  let ?v = "virt + PAGING_PAGE_SIZE" and ?p = "phys + PAGING_PAGE_SIZE"
  have "(- EINVARG) \<noteq> 0" by (simp add: EINVARG_def)
  then have step: "paging_map_range_loop m d virt phys count flags res i =
      paging_map_range_loop m d ?v ?p count flags (- EINVARG) (i + 1)"
    unfolding paging_map_range_loop.simps [of m d virt] paging_map_unaligned [OF less.prems(1)]
    using less.prems(2) by simp
  show ?case
  proof (cases "i + 1 <s count")
    case True
    have "paging_map_range_loop m d ?v ?p count flags (- EINVARG) (i + 1) = (- EINVARG, m)"
      by (rule less.hyps [OF measure_up_signed [OF less.prems(2)]])
        (use True less.prems in \<open>simp_all add: aligned_next\<close>)
    then show ?thesis unfolding step .
  next
    case False
    then show ?thesis unfolding step paging_map_range_loop.simps [of m d ?v] by simp
  qed
qed

text \<open>The loop leaves on the first page that is mapped.\<close>

lemma paging_map_range_eq:
  "paging_map_range m d virt phys count flags =
    (if \<not> 0 <s count then (0, m)
     else if aligned virt \<and> aligned phys then paging_set m d virt (phys OR flags)
     else (- EINVARG, m))"
proof (cases "0 <s count \<and> aligned virt \<and> aligned phys")
  case True
  have "fst (paging_set m d virt (phys OR flags)) = 0"
    using True paging_set_aligned by simp
  then show ?thesis
    using True unfolding paging_map_range_def paging_map_range_loop.simps [of m d virt]
    by (auto simp: paging_map_aligned split: prod.splits)
next
  case False
  then show ?thesis
    using paging_map_range_unaligned [of virt phys 0 count m d flags 0]
    unfolding paging_map_range_def by (auto simp: paging_map_range_loop.simps [of m d virt])
qed

lemma paging_align_address_spec:
  assumes "ptr \<le> 0xFFFFF000"
  shows "aligned (paging_align_address ptr)" "unat (paging_align_address ptr) = blocks_for ptr * 4096"
proof -
  have le: "unat ptr \<le> 4294963200" using assms by (simp add: word_le_nat_alt)
  have md: "unat (ptr mod 4096) = unat ptr mod 4096" by (simp add: unat_mod)
  show u: "unat (paging_align_address ptr) = blocks_for ptr * 4096"
  proof (cases "unat ptr mod 4096 = 0")
    case True
    then have "ptr mod 4096 = 0" using md by (metis unat_eq_zero)
    moreover have "unat ptr = (unat ptr + 4095) div 4096 * 4096"
      using align_exact_nat [OF True] True div_mult_mod_eq [of "unat ptr" 4096] by simp
    ultimately show ?thesis by (simp add: paging_align_address_def PAGING_PAGE_SIZE_def blocks_for_def)
  next
    case False
    then have ne: "ptr mod 4096 \<noteq> 0" using md by (metis unat_0)
    have dvd: "unat ptr - unat ptr mod 4096 + 4096 = blocks_for ptr * 4096"
    proof -
      have "4096 dvd unat ptr - unat ptr mod 4096 + 4096"
        by (intro dvd_add dvd_minus_mod dvd_refl)
      then show ?thesis using align_up_nat [OF False] unfolding blocks_for_def
        by (metis dvd_div_mult_self)
    qed
    have "ptr + 4096 - ptr mod 4096 = ptr - ptr mod 4096 + 4096" by simp
    moreover have "unat (ptr - ptr mod 4096) = unat ptr - unat ptr mod 4096"
      by (subst unat_sub) (simp_all add: md word_le_nat_alt)
    ultimately have "unat (ptr + 4096 - ptr mod 4096) = unat ptr - unat ptr mod 4096 + 4096"
      using align_up_bound [OF le False] by (simp only: unat_word_ariths) simp
    then show ?thesis using ne dvd by (simp add: paging_align_address_def PAGING_PAGE_SIZE_def)
  qed
  show "aligned (paging_align_address ptr)" unfolding aligned_def u by simp
qed

end
