(* ===== verification/PathParser.thy ===== *)
theory PathParser
  imports Paging
begin

text \<open>
  \<^verbatim>\<open>ke/fs/pparser.c\<close>: a path such as \<open>0:/dir/file\<close> becomes a linked list on the kernel heap.
  \<open>struct path_root\<close> is \<open>drive_no\<close> at offset 0 and \<open>first\<close> at 4, \<open>struct path_part\<close> is \<open>part\<close>
  at 0 and \<open>next\<close> at 4. The functions with a \<open>const char** path\<close> return the new value of
  \<open>*path\<close>, which is a local variable of \<open>pathparser_parse\<close>.
\<close>

section \<open>The functions\<close>

definition LIBREWIN_MAX_PATH :: u32 where [status_defs]: "LIBREWIN_MAX_PATH = 108"

abbreviation slash :: byte where "slash \<equiv> 0x2F"
abbreviation colon :: byte where "colon \<equiv> 0x3A"

text \<open>The \<open>memcmp\<close> with the literal \<open>":/"\<close> is 0 when the two bytes are these.\<close>

definition pathparser_path_valid_format :: "mem \<Rightarrow> addr \<Rightarrow> bool" where
  "pathparser_path_valid_format m filename =
     (let len = strnlen m filename LIBREWIN_MAX_PATH in
      3 \<le>s len \<and> isdigit (m filename) \<and> bytes m (filename + 1) 2 = [colon, slash])"

definition pathparser_get_drive_by_path :: "mem \<Rightarrow> addr \<Rightarrow> u32 \<times> addr" where
  "pathparser_get_drive_by_path m path =
     (if \<not> pathparser_path_valid_format m path then (- EBADPATH, path)
      else let drive_no = tonumericdigit (m path) in (drive_no, path + 3))"

definition pathparser_create_root :: "heap \<Rightarrow> mem \<Rightarrow> u32 \<Rightarrow> addr \<times> mem" where
  "pathparser_create_root kernel_heap m drive_number =
     (let (path_r, m) = kzalloc kernel_heap m 8;
          m = write32 m path_r drive_number;
          m = write32 m (path_r + 4) 0
      in (path_r, m))"

partial_function (option) pathparser_copy_part :: "mem \<Rightarrow> addr \<Rightarrow> addr \<Rightarrow> u32 \<Rightarrow> (u32 \<times> addr \<times> mem) option" where
  "pathparser_copy_part m result_path_part path i =
     (if m path \<noteq> slash \<and> m path \<noteq> 0
      then pathparser_copy_part (m(result_path_part + i := m path)) result_path_part (path + 1) (i + 1)
      else Some (i, path, m))"

definition pathparser_get_path_part :: "heap \<Rightarrow> mem \<Rightarrow> addr \<Rightarrow> (addr \<times> addr \<times> mem) option" where
  "pathparser_get_path_part kernel_heap m path = do {
     let (result_path_part, m) = kzalloc kernel_heap m LIBREWIN_MAX_PATH;
     (i, path, m) \<leftarrow> pathparser_copy_part m result_path_part path 0;
     let path = (if m path = slash then path + 1 else path);
     if i = 0 then Some (0, path, kfree kernel_heap m result_path_part)
     else Some (result_path_part, path, m)
   }"

definition pathparser_parse_path_part :: "heap \<Rightarrow> mem \<Rightarrow> addr \<Rightarrow> addr \<Rightarrow> (addr \<times> addr \<times> mem) option" where
  "pathparser_parse_path_part kernel_heap m last_part path = do {
     (path_part_str, path, m) \<leftarrow> pathparser_get_path_part kernel_heap m path;
     if path_part_str = 0 then Some (0, path, m)
     else do {
       let (part, m) = kzalloc kernel_heap m 8;
       let m = write32 m part path_part_str;
       let m = write32 m (part + 4) 0x00;
       let m = (if last_part \<noteq> 0 then write32 m (last_part + 4) part else m);
       Some (part, path, m)
     }
   }"

partial_function (option) pathparser_free_parts :: "heap \<Rightarrow> mem \<Rightarrow> addr \<Rightarrow> mem option" where
  "pathparser_free_parts kernel_heap m part =
     (if part \<noteq> 0
      then let next_part = read32 m (part + 4);
               m = kfree kernel_heap m (read32 m part);
               m = kfree kernel_heap m part
           in pathparser_free_parts kernel_heap m next_part
      else Some m)"

definition pathparser_free :: "heap \<Rightarrow> mem \<Rightarrow> addr \<Rightarrow> mem option" where
  "pathparser_free kernel_heap m root = do {
     m \<leftarrow> pathparser_free_parts kernel_heap m (read32 m (root + 4));
     Some (kfree kernel_heap m root)
   }"

partial_function (option) pathparser_parse_loop :: "heap \<Rightarrow> mem \<Rightarrow> addr \<Rightarrow> addr \<Rightarrow> mem option" where
  "pathparser_parse_loop kernel_heap m part tmp_path =
     (if part \<noteq> 0
      then do {
        (part, tmp_path, m) \<leftarrow> pathparser_parse_path_part kernel_heap m part tmp_path;
        pathparser_parse_loop kernel_heap m part tmp_path
      }
      else Some m)"

text \<open>The second argument of the C function, \<open>current_directory_path\<close>, is not used by it.\<close>

definition pathparser_parse :: "heap \<Rightarrow> mem \<Rightarrow> addr \<Rightarrow> (addr \<times> mem) option" where
  "pathparser_parse kernel_heap m path = do {
     len \<leftarrow> strlen m path;
     if LIBREWIN_MAX_PATH <s len then Some (0, m)
     else
       let (res, tmp_path) = pathparser_get_drive_by_path m path in
       if res <s 0 then Some (0, m)
       else
         let (path_root, m) = pathparser_create_root kernel_heap m res in
         if path_root = 0 then Some (0, m)
         else do {
           (first_part, tmp_path, m) \<leftarrow> pathparser_parse_path_part kernel_heap m 0 tmp_path;
           if first_part = 0 then Some (path_root, m)
           else do {
             let m = write32 m (path_root + 4) first_part;
             (part, tmp_path, m) \<leftarrow> pathparser_parse_path_part kernel_heap m first_part tmp_path;
             m \<leftarrow> pathparser_parse_loop kernel_heap m part tmp_path;
             Some (path_root, m)
           }
         }
   }"

section \<open>What a path stands for\<close>

text \<open>The parts of a path, up to the first empty one.\<close>

definition first_part :: "byte list \<Rightarrow> byte list" where
  "first_part s = takeWhile (\<lambda>c. c \<noteq> slash) s"

function path_parts :: "byte list \<Rightarrow> byte list list" where
  "path_parts s = (if first_part s = [] then []
     else first_part s # path_parts (drop (Suc (length (first_part s))) s))"
  by pat_completeness auto
termination
proof (relation "measure length")
  fix s assume "first_part s \<noteq> []"
  then show "(drop (Suc (length (first_part s))) s, s) \<in> measure length"
    by (cases s) (simp_all add: first_part_def)
qed simp

declare path_parts.simps [simp del]

text \<open>A list of parts in memory: the nodes \<open>ns\<close> are linked in this order, node \<open>i\<close> points at the
  string \<open>strs ! i\<close> and the C string there is \<open>ps ! i\<close>.\<close>

definition parts_at :: "mem \<Rightarrow> addr list \<Rightarrow> addr list \<Rightarrow> byte list list \<Rightarrow> bool" where
  "parts_at m ns strs ps \<longleftrightarrow> length strs = length ns \<and> length ps = length ns \<and>
     (\<forall>i<length ns. read32 m (ns ! i) = strs ! i \<and> cstr m (strs ! i) (ps ! i) \<and> length (ps ! i) < 4096 \<and>
        read32 m (ns ! i + 4) = (if Suc i < length ns then ns ! Suc i else 0))"

section \<open>Copying one part\<close>

lemma copy_part_cstr:
  assumes "cstr m path s" "apart (r + i) (length (first_part s)) path (Suc (length s))"
    "length s < 2 ^ 32"
  shows "pathparser_copy_part m r path i =
    Some (i + word_of_nat (length (first_part s)), path + word_of_nat (length (first_part s)),
      write_bytes m (r + i) (first_part s))"
  using assms
proof (induction s arbitrary: m path i)
  case Nil
  then show ?case unfolding pathparser_copy_part.simps [of m] by (simp add: first_part_def)
next
  case (Cons c s)
  show ?case
  proof (cases "c = slash")
    case True
    with Cons.prems(1) show ?thesis
      unfolding pathparser_copy_part.simps [of m] by (simp add: first_part_def)
  next
    case False
    let ?m = "m(r + i := c)"
    have fp: "first_part (c # s) = c # first_part s" using False by (simp add: first_part_def)
    have c: "m path = c" "c \<noteq> 0" "cstr m (path + 1) s" using Cons.prems(1) by simp_all
    have "path + 1 + word_of_nat k \<noteq> r + i" if "k \<le> length s" for k
    proof -
      have "r + i + word_of_nat 0 \<noteq> path + word_of_nat (Suc k)"
        by (rule apartD [OF Cons.prems(2)]) (use that in \<open>simp_all add: fp\<close>)
      then show ?thesis by (simp add: add.assoc)
    qed
    then have c': "cstr ?m (path + 1) s" by (intro apart_cstr_upd [OF c(3)])
    have ap: "apart (r + (i + 1)) (length (first_part s)) (path + 1) (Suc (length s))"
      using apart_Suc_left [of "r + i" "length (first_part s)" path "Suc (Suc (length s))"]
        apart_Suc_right [of "r + i + 1" "length (first_part s)" path "Suc (length s)"] Cons.prems(2)
      by (simp add: fp add.assoc)
    have "pathparser_copy_part m r path i = pathparser_copy_part ?m r (path + 1) (i + 1)"
      unfolding pathparser_copy_part.simps [of m r path i] using c False by simp
    also have "\<dots> = Some (i + 1 + word_of_nat (length (first_part s)),
        path + 1 + word_of_nat (length (first_part s)), write_bytes ?m (r + (i + 1)) (first_part s))"
      using Cons.prems(3) by (intro Cons.IH [OF c' ap]) simp
    finally show ?thesis by (simp add: fp add.assoc)
  qed
qed

lemma drop_first_part: "s = first_part s @ drop (length (first_part s)) s"
  unfolding first_part_def by (metis append_eq_conv_conj takeWhile_dropWhile_id)

lemma after_first_part:
  "drop (length (first_part s)) s = [] \<or>
   (\<exists>t. drop (length (first_part s)) s = slash # t \<and> t = drop (Suc (length (first_part s))) s)"
proof (cases "drop (length (first_part s)) s")
  case (Cons x t)
  have "drop (length (first_part s)) s = dropWhile (\<lambda>c. c \<noteq> slash) s"
    by (metis append_eq_conv_conj dropWhile_eq_drop first_part_def)
  then have "dropWhile (\<lambda>c. c \<noteq> slash) s = x # t" using Cons by simp
  moreover from this have "\<not> (\<lambda>c. c \<noteq> slash) (hd (dropWhile (\<lambda>c. c \<noteq> slash) s))"
    using hd_dropWhile [of "\<lambda>c. c \<noteq> slash" s] by simp
  ultimately have "x = slash" by simp
  moreover have "t = drop (Suc (length (first_part s))) s"
    using Cons by (metis drop_Suc list.sel(3) tl_drop)
  ultimately show ?thesis using Cons by simp
qed simp

lemma first_part_nonzero: "cstr m p s \<Longrightarrow> 0 \<notin> set (first_part s)"
  using cstr_nonzero set_takeWhileD unfolding first_part_def by fastforce

text \<open>Where the parser stands in the string after a part: past the slash, or at the end.\<close>

lemma cstr_after_part:
  assumes "cstr m p s"
  shows "cstr m (p + word_of_nat (length (first_part s)) +
      (if m (p + word_of_nat (length (first_part s))) = slash then 1 else 0)) (drop (Suc (length (first_part s))) s)"
proof -
  let ?n = "length (first_part s)"
  have rest: "cstr m (p + word_of_nat ?n) (drop ?n s)"
    using assms drop_first_part [of s] cstr_append [of m p "first_part s" "drop ?n s"] by metis
  from after_first_part [of s] show ?thesis
  proof
    assume e: "drop ?n s = []"
    then have "m (p + word_of_nat ?n) = 0" and "drop (Suc ?n) s = []" using rest by simp_all
    then show ?thesis by simp
  next
    assume "\<exists>t. drop ?n s = slash # t \<and> t = drop (Suc ?n) s"
    then show ?thesis using rest by auto
  qed
qed

abbreviation next_path :: "mem \<Rightarrow> addr \<Rightarrow> byte list \<Rightarrow> addr" where
  "next_path m p s \<equiv> p + word_of_nat (length (first_part s)) +
     (if m (p + word_of_nat (length (first_part s))) = slash then 1 else 0)"

lemma length_first_part: "length (first_part s) \<le> length s"
  unfolding first_part_def by (rule length_takeWhile_le)

lemma get_path_part_works:
  assumes live: "kheap_live h m M (Suc k)" and str: "cstr m path s" "length (first_part s) < 108" "length s < 2 ^ 32"
    and kept: "\<And>i. i \<le> length s \<Longrightarrow> kept h M (path + word_of_nat i)"
  shows "\<exists>r m'. pathparser_get_path_part h m path = Some (if first_part s = [] then 0 else r, next_path m path s, m') \<and>
    r \<noteq> 0 \<and> aligned r \<and> M r = None \<and> (\<forall>a. kept h M a \<longrightarrow> m' a = m a) \<and>
    (if first_part s = [] then kheap_live h m' M (Suc k)
     else kheap_live h m' (M(r \<mapsto> 4096)) k \<and> cstr m' r (first_part s))"
proof -
  let ?fp = "first_part s" and ?n = "length (first_part s)"
  have sz: "(0 :: u32) < LIBREWIN_MAX_PATH" "LIBREWIN_MAX_PATH \<le> 4096" "unat LIBREWIN_MAX_PATH = 108"
    by (simp_all add: LIBREWIN_MAX_PATH_def)
  obtain r m1 where alloc: "kzalloc h m LIBREWIN_MAX_PATH = (r, m1)" by fastforce
  note A = kh.alloc_page [OF live sz(1,2) alloc] and zero = kh.alloc_zero [OF live sz(1,2) alloc]
    and keep = kh.alloc_keeps_all [OF live sz(1,2) alloc]
  have r: "r \<noteq> 0" "aligned r" "M r = None" and live1: "kheap_live h m1 (M(r \<mapsto> 4096)) k" using A by auto
  have str1: "cstr m1 path s" by (rule cstr_cong [OF str(1)]) (use keep(1) kept in blast)
  have ap: "apart (r + 0) ?n path (Suc (length s))"
    unfolding apart_def
  proof (intro allI impI notI)
    fix i j assume i: "i < ?n" and "j < Suc (length s)" and "r + 0 + word_of_nat i = path + word_of_nat j"
    moreover have "in_range r 4096 (r + word_of_nat i)" using i str(2) by (intro in_range_offset) simp_all
    ultimately show False using keep(2) [OF kept [of j]] by (metis add.right_neutral less_Suc_eq_le)
  qed
  have copy: "pathparser_copy_part m1 r path 0 =
      Some (word_of_nat ?n, path + word_of_nat ?n, write_bytes m1 r ?fp)"
    using copy_part_cstr [OF str1 ap str(3)] by simp
  define m2 where "m2 = write_bytes m1 r ?fp"
  have far: "m2 a = m1 a" if "\<not> in_range r 4096 a" for a
    using that str(2) unfolding m2_def by (subst write_bytes_other) (simp_all add: in_range_def)
  have live2: "kheap_live h m2 (M(r \<mapsto> 4096)) k"
    by (rule kh.live_store [OF live1, of r 4096]) (simp_all add: far)
  have same2: "m2 a = m a" if "kept h M a" for a
    using far [OF keep(2) [OF that]] keep(1) [OF that] by simp
  have at: "m2 (path + word_of_nat ?n) = m (path + word_of_nat ?n)"
    by (rule same2 [OF kept [OF length_first_part]])
  have n0: "(word_of_nat ?n :: u32) = 0 \<longleftrightarrow> ?fp = []"
    using word_of_nat_inject_u32 [of ?n 0] str(2) by simp
  show ?thesis
  proof (cases "?fp = []")
    case True
    then have "m2 = m1" by (simp add: m2_def)
    have run: "pathparser_get_path_part h m path = Some (0, next_path m path s, kfree h m2 r)"
      using True at unfolding pathparser_get_path_part_def alloc \<open>m2 = m1\<close>
      by (simp add: copy)
    have "(M(r \<mapsto> 4096))(r := None) = M" using r(3) by auto
    then have "kheap_live h (kfree h m2 r) M (Suc k)"
      using kh.release_live [OF live2, of r 4096] by simp
    moreover have "kfree h m2 r a = m a" if "kept h M a" for a
    proof -
      have "\<not> in_table (table h) a" using that by (simp add: kh.keeps_def)
      then show ?thesis using kh.release_frame [OF live2, of r 4096 a] same2 [OF that] by simp
    qed
    ultimately show ?thesis using run r True by auto
  next
    case False
    have run: "pathparser_get_path_part h m path = Some (r, next_path m path s, m2)"
      using False n0 at unfolding pathparser_get_path_part_def alloc
      by (simp add: copy m2_def [symmetric] Let_def)
    have "cstr m2 r ?fp"
      unfolding cstr_iff
    proof (intro conjI)
      show "0 \<notin> set ?fp" by (rule first_part_nonzero [OF str(1)])
      show "bytes m2 r ?n = ?fp" unfolding m2_def using str(2) by (intro bytes_write_bytes) simp
      have "\<not> in_range r ?n (r + word_of_nat ?n)" using str(2) by (simp add: in_range_def unat_of_nat)
      then have "m2 (r + word_of_nat ?n) = m1 (r + word_of_nat ?n)"
        unfolding m2_def using str(2) by (intro write_bytes_other) simp_all
      also have "\<dots> = 0" by (rule zero) (use str(2) sz(3) in \<open>simp add: in_range_def unat_of_nat\<close>)
      finally show "m2 (r + word_of_nat ?n) = 0" .
    qed
    then show ?thesis using run r False live2 same2 by auto
  qed
qed

section \<open>Appending a part\<close>

lemma read32_page:
  assumes "\<And>a. in_range p 4096 a \<Longrightarrow> m' a = m a"
  shows "read32 m' p = read32 m p" "read32 m' (p + 4) = read32 m (p + 4)"
  using read_slot_page [of 0 p m' m] read_slot_page [of 1 p m' m] assms by simp_all

lemma cstr_page:
  assumes "cstr m p x" "length x < 4096" "\<And>a. in_range p 4096 a \<Longrightarrow> m' a = m a"
  shows "cstr m' p x"
proof (rule cstr_cong [OF assms(1)])
  fix i assume "i \<le> length x"
  then have "in_range p 4096 (p + word_of_nat i)" using assms(2) by (intro in_range_offset) simp_all
  then show "m' (p + word_of_nat i) = m (p + word_of_nat i)" by (rule assms(3))
qed

lemma parts_at_cong:
  assumes parts: "parts_at m ns strs ps"
    and same: "\<And>p a. p \<in> set ns \<union> set strs \<Longrightarrow> in_range p 4096 a \<Longrightarrow> m' a = m a"
  shows "parts_at m' ns strs ps"
  unfolding parts_at_def
proof (intro conjI allI impI)
  show len: "length strs = length ns" "length ps = length ns" using parts by (simp_all add: parts_at_def)
  fix i assume i: "i < length ns"
  then have "ns ! i \<in> set ns \<union> set strs" "strs ! i \<in> set ns \<union> set strs" using len by simp_all
  note page = same [OF this(1)] same [OF this(2)]
  have old: "read32 m (ns ! i) = strs ! i" "cstr m (strs ! i) (ps ! i)" "length (ps ! i) < 4096"
      "read32 m (ns ! i + 4) = (if Suc i < length ns then ns ! Suc i else 0)"
    using parts i by (simp_all add: parts_at_def)
  show "read32 m' (ns ! i) = strs ! i" using read32_page(1) [OF page(1)] old by simp
  show "cstr m' (strs ! i) (ps ! i)" by (rule cstr_page [OF old(2,3) page(2)])
  show "length (ps ! i) < 4096" by (rule old)
  show "read32 m' (ns ! i + 4) = (if Suc i < length ns then ns ! Suc i else 0)"
    using read32_page(2) [OF page(1)] old by simp
qed

definition link_part :: "mem \<Rightarrow> addr \<Rightarrow> addr \<Rightarrow> addr \<Rightarrow> mem" where
  "link_part m last_part part str =
     (let m = write32 (write32 m part str) (part + 4) 0
      in if last_part \<noteq> 0 then write32 m (last_part + 4) part else m)"

lemma link_part_far:
  assumes "\<not> in_range part 4096 a" "last_part \<noteq> 0 \<Longrightarrow> \<not> in_range last_part 4096 a"
  shows "link_part m last_part part str a = m a"
  using assms write_slot_frame [of 0 part a m str] write_slot_frame [of 1 part a "write32 m part str" 0]
    write_slot_frame [of 1 last_part a "write32 (write32 m part str) (part + 4) 0" part]
  by (simp add: link_part_def Let_def)

lemma read_slots:
  assumes "aligned p" "aligned q"
  shows "read32 (write32 m (p + 4) v) (p + 4) = v" "read32 (write32 m (p + 4) v) p = read32 m p"
    "q \<noteq> p \<Longrightarrow> read32 (write32 m (p + 4) v) (q + 4) = read32 m (q + 4)"
    "read32 (write32 m (p + 4) v) q = read32 m q"
  using read_slot_other [OF assms(1,1), of 1 0 m v] read_slot_other [OF assms, of 1 1 m v]
    read_slot_other [OF assms, of 1 0 m v] by simp_all

lemma parts_at_snoc:
  assumes parts: "parts_at m ns strs ps" and dis: "distinct ((ns @ [part]) @ (strs @ [str]))"
    and al: "\<forall>p \<in> set (ns @ [part]) \<union> set (strs @ [str]). aligned p \<and> p \<noteq> 0"
    and str: "cstr m str x" "length x < 4096"
  defines "last_part \<equiv> if ns = [] then 0 else last ns"
  shows "parts_at (link_part m last_part part str) (ns @ [part]) (strs @ [str]) (ps @ [x])"
proof -
  let ?m = "link_part m last_part part str" and ?m2 = "write32 (write32 m part str) (part + 4) 0"
  have len: "length strs = length ns" "length ps = length ns" using parts by (simp_all add: parts_at_def)
  have alp: "aligned part" "aligned str" using al by simp_all
  have last: "ns \<noteq> [] \<Longrightarrow> last_part \<in> set ns \<and> aligned last_part \<and> last_part \<noteq> 0 \<and> last_part \<noteq> part"
    using al dis by (auto simp: last_part_def)
  have m: "?m = (if ns = [] then ?m2 else write32 ?m2 (last_part + 4) part)"
    using last by (auto simp: link_part_def last_part_def Let_def)
  have far: "?m a = m a" if "in_range p 4096 a" "aligned p" "p \<noteq> part" "p \<notin> set ns" for p a
  proof (rule link_part_far)
    show "\<not> in_range part 4096 a" by (rule page_disjoint [OF that(2) alp(1) that(3,1)])
    assume "last_part \<noteq> 0"
    then have "ns \<noteq> []" by (auto simp: last_part_def)
    then have "aligned last_part" "p \<noteq> last_part" using last that(4) by auto
    then show "\<not> in_range last_part 4096 a" by (rule page_disjoint [OF that(2) _ _ that(1)])
  qed
  have m2_far: "?m2 a = m a" if "in_range p 4096 a" "aligned p" "p \<noteq> part" for p a
    using page_disjoint [OF that(2) alp(1) that(3,1)] write_slot_frame [of 0 part a m str]
      write_slot_frame [of 1 part a "write32 m part str" 0] by simp
  have new: "read32 ?m part = str" "read32 ?m (part + 4) = 0"
    using last alp by (auto simp: m read_slots)
  have "str \<noteq> part" "str \<notin> set ns" using dis by auto
  then have new_str: "cstr ?m str x" by (intro cstr_page [OF str]) (use far alp in blast)
  have old: "read32 ?m (ns ! i) = strs ! i" "cstr ?m (strs ! i) (ps ! i)" "length (ps ! i) < 4096"
      "read32 ?m (ns ! i + 4) = (if Suc i < length ns then ns ! Suc i else part)" if i: "i < length ns" for i
  proof -
    have p: "read32 m (ns ! i) = strs ! i" "cstr m (strs ! i) (ps ! i)" "length (ps ! i) < 4096"
        "read32 m (ns ! i + 4) = (if Suc i < length ns then ns ! Suc i else 0)"
      using parts i by (simp_all add: parts_at_def)
    have in_set: "ns ! i \<in> set ns" "strs ! i \<in> set strs" using i len by simp_all
    then have ne: "aligned (ns ! i)" "ns ! i \<noteq> part" "aligned (strs ! i)" "strs ! i \<noteq> part" "strs ! i \<notin> set ns"
      using al dis by auto
    have ne': "ns \<noteq> []" using i by auto
    note page = read32_page [of "ns ! i" ?m2 m, OF m2_far [OF _ ne(1,2)]]
    show "read32 ?m (ns ! i) = strs ! i"
      using last [OF ne'] ne' ne(1) p(1) page by (simp add: m read_slots)
    show "cstr ?m (strs ! i) (ps ! i)" by (rule cstr_page [OF p(2,3) far [OF _ ne(3-5)]])
    show "length (ps ! i) < 4096" by (rule p(3))
    have last_nth: "last_part = ns ! (length ns - 1)" using ne' by (simp add: last_part_def last_conv_nth)
    show "read32 ?m (ns ! i + 4) = (if Suc i < length ns then ns ! Suc i else part)"
    proof (cases "Suc i < length ns")
      case True
      then have "ns ! i \<noteq> last_part"
        using dis i unfolding last_nth by (auto simp: nth_eq_iff_index_eq)
      then show ?thesis using last [OF ne'] ne' ne(1) p(4) page True by (simp add: m read_slots)
    next
      case False
      then have "i = length ns - 1" using i by simp
      then have "ns ! i = last_part" using last_nth by simp
      then show ?thesis using last [OF ne'] ne' False by (simp add: m read_slots)
    qed
  qed
  show ?thesis
    unfolding parts_at_def
    using len old new new_str str(2) by (auto simp: nth_append less_Suc_eq)
qed

section \<open>Parsing\<close>

text \<open>The memory holds a list of parts whose nodes and strings are pages of the kernel heap, all
  of them added to the regions \<open>L\<close>; \<open>k\<close> pages are left.\<close>

definition parsed ::
    "heap \<Rightarrow> (addr \<Rightarrow> nat option) \<Rightarrow> addr list \<Rightarrow> addr list \<Rightarrow> byte list list \<Rightarrow> nat \<Rightarrow> mem \<Rightarrow> bool" where
  "parsed h L ns strs ps k m \<longleftrightarrow>
     kheap_live h m (with_pages L (set (ns @ strs))) k \<and> distinct (ns @ strs) \<and>
     (\<forall>p\<in>set (ns @ strs). L p = None \<and> aligned p \<and> p \<noteq> 0) \<and> parts_at m ns strs ps"

lemma parse_path_part_works:
  assumes inv: "parsed h L ns strs ps (Suc (Suc k)) m"
    and str: "cstr m path s" "length (first_part s) < 108" "length s < 2 ^ 32"
    and kept: "\<And>i. i \<le> length s \<Longrightarrow> kept h L (path + word_of_nat i)"
  shows "\<exists>part m'. pathparser_parse_path_part h m (if ns = [] then 0 else last ns) path =
      Some (if first_part s = [] then 0 else part, next_path m path s, m') \<and> part \<noteq> 0 \<and>
    (\<forall>a. kept h L a \<longrightarrow> m' a = m a) \<and>
    (if first_part s = [] then parsed h L ns strs ps (Suc (Suc k)) m'
     else \<exists>str. parsed h L (ns @ [part]) (strs @ [str]) (ps @ [first_part s]) k m')"
proof -
  let ?P = "set (ns @ strs)" and ?lp = "if ns = [] then 0 else last ns"
  let ?M = "with_pages L ?P"
  note I = inv [unfolded parsed_def]
  have live: "kheap_live h m ?M (Suc (Suc k))" using I by (elim conjE)
  have dis: "distinct (ns @ strs)" using I by (elim conjE)
  have new: "L p = None \<and> aligned p \<and> p \<noteq> 0" if "p \<in> ?P" for p using I that by (elim conjE) (rule bspec)
  have parts: "parts_at m ns strs ps" using I by (elim conjE)
  have mono: "kept h ?M a" if "kept h L a" for a
    by (rule kh.keeps_mono [OF that]) (use new in \<open>auto simp: with_pages_def\<close>)
  obtain r m1 where run1: "pathparser_get_path_part h m path =
        Some (if first_part s = [] then 0 else r, next_path m path s, m1)"
    and r: "r \<noteq> 0" "aligned r" "?M r = None" and same1: "\<And>a. kept h ?M a \<Longrightarrow> m1 a = m a"
    and end1: "if first_part s = [] then kheap_live h m1 ?M (Suc (Suc k))
      else kheap_live h m1 (?M(r \<mapsto> 4096)) (Suc k) \<and> cstr m1 r (first_part s)"
    using get_path_part_works [OF live str mono [OF kept]] by blast
  have page: "kept h ?M a" if "p \<in> ?P" "in_range p 4096 a" for p a
    by (rule kh.keeps_live [OF live with_pages_in [OF that(1)] that(2)])
  have parts1: "parts_at m1 ns strs ps"
    by (rule parts_at_cong [OF parts]) (use page same1 in \<open>simp add: Un_iff\<close>)
  show ?thesis
  proof (cases "first_part s = []")
    case True
    have "pathparser_parse_path_part h m ?lp path = Some (0, next_path m path s, m1)"
      using run1 True by (simp add: pathparser_parse_path_part_def)
    moreover have "parsed h L ns strs ps (Suc (Suc k)) m1"
      unfolding parsed_def using end1 True dis new parts1 by simp
    ultimately show ?thesis using True same1 mono r(1) by (intro exI [of _ r] exI [of _ m1]) simp
  next
    case False
    have live1: "kheap_live h m1 (with_pages L (insert r ?P)) (Suc k)" and cr: "cstr m1 r (first_part s)"
      using end1 False by (simp_all add: with_pages_insert)
    have rP: "r \<notin> ?P" "L r = None" using with_pages_fresh [OF r(3)] by auto
    obtain part m2 where alloc: "kzalloc h m1 8 = (part, m2)" by fastforce
    have sz: "(0 :: u32) < 8" "(8 :: u32) \<le> 4096" by simp_all
    note A = kh.alloc_page [OF live1 sz alloc] and keep = kh.alloc_keeps_all [OF live1 sz alloc]
    have part: "part \<noteq> 0" "aligned part" "with_pages L (insert r ?P) part = None" using A by auto
    have partP: "part \<notin> insert r ?P" "L part = None" using with_pages_fresh [OF part(3)] by auto
    have live2: "kheap_live h m2 (with_pages L (insert part (insert r ?P))) k"
      using A by (simp add: with_pages_insert)
    have page2: "m2 a = m1 a" if "p \<in> insert r ?P" "in_range p 4096 a" for p a
      by (rule keep(1), rule kh.keeps_live [OF live1 with_pages_in [OF that(1)] that(2)])
    have parts2: "parts_at m2 ns strs ps"
      by (rule parts_at_cong [OF parts1], rule page2) auto
    have cr2: "cstr m2 r (first_part s)"
      by (rule cstr_page [OF cr _ page2]) (use str(2) in simp_all)
    define m3 where "m3 = link_part m2 ?lp part r"
    have run: "pathparser_parse_path_part h m ?lp path = Some (part, next_path m path s, m3)"
      using run1 False r(1) by (simp add: pathparser_parse_path_part_def alloc m3_def link_part_def Let_def)
    have set': "set ((ns @ [part]) @ (strs @ [r])) = insert part (insert r ?P)" by auto
    have all: "\<forall>p\<in>insert part (insert r ?P). L p = None \<and> aligned p \<and> p \<noteq> 0"
      using new rP r part partP by simp
    have dis': "distinct ((ns @ [part]) @ (strs @ [r]))" using dis rP(1) partP(1) by auto
    have parts3: "parts_at m3 (ns @ [part]) (strs @ [r]) (ps @ [first_part s])"
      unfolding m3_def
    proof (rule parts_at_snoc [OF parts2 dis' _ cr2])
      show "\<forall>p\<in>set (ns @ [part]) \<union> set (strs @ [r]). aligned p \<and> p \<noteq> 0"
        using all unfolding set_append [symmetric] set' by blast
    qed (use str(2) in simp)
    have lp: "?lp \<noteq> 0 \<Longrightarrow> ?lp \<in> ?P" by auto
    have far3: "m3 a = m2 a" if "\<not> in_range part 4096 a" "\<And>p. p \<in> ?P \<Longrightarrow> \<not> in_range p 4096 a" for a
      unfolding m3_def by (rule link_part_far [OF that(1) that(2) [OF lp]])
    have live3: "kheap_live h m3 (with_pages L (insert part (insert r ?P))) k"
    proof (rule kh.live_stable [OF live2])
      fix a assume own: "in_table (table h) a"
      have "\<not> in_range p 4096 a" if "p \<in> insert part (insert r ?P)" for p
        using kh.live_not_own [OF live2 with_pages_in [OF that], of a] own by blast
      then show "m3 a = m2 a" by (intro far3) simp_all
    qed
    have "parsed h L (ns @ [part]) (strs @ [r]) (ps @ [first_part s]) k m3"
      unfolding parsed_def set' using live3 dis' all parts3 by blast
    moreover have "m3 a = m a" if "kept h L a" for a
    proof -
      have k1: "kept h (with_pages L (insert r ?P)) a"
        by (rule kh.keeps_mono [OF that]) (use new rP in \<open>auto simp: with_pages_def\<close>)
      have no: "\<not> in_range p 4096 a" if "p \<in> ?P" for p
      proof
        assume in_p: "in_range p 4096 a"
        have pool: "in_range (saddr h) (unat (total (table h)) * 4096) a"
          by (rule kh.live_pool [OF live with_pages_in [OF that] in_p])
        then obtain q n where q: "L q = Some n" "in_range q n a"
          using \<open>kept h L a\<close> by (auto simp: kh.keeps_def)
        then have "q \<noteq> p" and "?M q = Some n" using new [OF that] new [of q] by (auto simp: with_pages_def)
        then have "apart q n p 4096" using that by (intro kh.live_disjoint [OF live]) auto
        then show False using in_range_ex [OF q(2)] apart_notin in_p by blast
      qed
      have "m3 a = m2 a" by (rule far3 [OF keep(2) [OF k1] no])
      also have "\<dots> = m1 a" by (rule keep(1) [OF k1])
      also have "\<dots> = m a" by (rule same1 [OF mono [OF that]])
      finally show ?thesis .
    qed
    ultimately show ?thesis using run False part(1) by auto
  qed
qed

lemma next_path_inside:
  assumes "cstr m path s"
  shows "\<exists>d. next_path m path s = path + word_of_nat d \<and> d + length (drop (Suc (length (first_part s))) s) \<le> length s"
proof -
  let ?n = "length (first_part s)"
  have rest: "cstr m (path + word_of_nat ?n) (drop ?n s)"
    using assms drop_first_part [of s] cstr_append [of m path "first_part s" "drop ?n s"] by metis
  show ?thesis
  proof (cases "drop ?n s")
    case Nil
    then have "m (path + word_of_nat ?n) = 0" "length s \<le> ?n" using rest by simp_all
    then show ?thesis using length_first_part [of s] by (intro exI [of _ ?n]) simp
  next
    case (Cons c t)
    then have "?n < length s" by (metis drop_all list.distinct(1) not_less)
    then show ?thesis
      by (cases "m (path + word_of_nat ?n) = slash")
        (intro exI [of _ "Suc ?n"], simp, intro exI [of _ ?n], simp)
  qed
qed

lemma kept_next:
  assumes "cstr m path s" "\<And>i. i \<le> length s \<Longrightarrow> P (path + word_of_nat i)"
    and "i \<le> length (drop (Suc (length (first_part s))) s)"
  shows "P (next_path m path s + word_of_nat i)"
proof -
  obtain d where d: "next_path m path s = path + word_of_nat d"
    "d + length (drop (Suc (length (first_part s))) s) \<le> length s"
    using next_path_inside [OF assms(1)] by blast
  have "next_path m path s + word_of_nat i = path + word_of_nat (d + i)" unfolding d(1) by simp
  moreover have "d + i \<le> length s" using d(2) assms(3) by linarith
  ultimately show ?thesis using assms(2) by metis
qed

lemma length_after_part: "first_part s \<noteq> [] \<Longrightarrow> length (drop (Suc (length (first_part s))) s) < length s"
  by (cases s) (simp_all add: first_part_def)

lemma parse_loop_works:
  assumes "parsed h L ns strs ps (2 * length (path_parts s) + Suc (Suc k)) m" "ns \<noteq> []"
    and "cstr m path s" "length s < 108"
    and "\<And>i. i \<le> length s \<Longrightarrow> kept h L (path + word_of_nat i)"
  shows "\<exists>m' ns' strs'. (do { (part, tmp_path, m) \<leftarrow> pathparser_parse_path_part h m (last ns) path;
        pathparser_parse_loop h m part tmp_path }) = Some m' \<and>
      parsed h L (ns @ ns') (strs @ strs') (ps @ path_parts s) (Suc (Suc k)) m' \<and>
      (\<forall>a. kept h L a \<longrightarrow> m' a = m a)"
  using assms
proof (induction "length s" arbitrary: s m path ns strs ps rule: less_induct)
  case less
  let ?s = "drop (Suc (length (first_part s))) s"
  have fp: "length (first_part s) < 108" "length s < 2 ^ 32"
    using length_first_part [of s] less.prems(4) by simp_all
  have inv: "parsed h L ns strs ps (Suc (Suc (2 * length (path_parts s) + k))) m"
    using less.prems(1) by simp
  from parse_path_part_works [OF inv less.prems(3) fp less.prems(5)] less.prems(2)
  obtain part m1 where run: "pathparser_parse_path_part h m (last ns) path =
      Some (if first_part s = [] then 0 else part, next_path m path s, m1)"
    and part: "part \<noteq> 0" and same: "\<forall>a. kept h L a \<longrightarrow> m1 a = m a"
    and end1: "if first_part s = [] then parsed h L ns strs ps (Suc (Suc (2 * length (path_parts s) + k))) m1
      else \<exists>str. parsed h L (ns @ [part]) (strs @ [str]) (ps @ [first_part s]) (2 * length (path_parts s) + k) m1"
    by auto
  show ?case
  proof (cases "first_part s = []")
    case True
    then have "path_parts s = []" by (simp add: path_parts.simps [of s])
    then have "parsed h L (ns @ []) (strs @ []) (ps @ path_parts s) (Suc (Suc k)) m1"
      using end1 True by simp
    moreover have "pathparser_parse_loop h m1 0 (next_path m path s) = Some m1"
      unfolding pathparser_parse_loop.simps [of h m1 0] by simp
    ultimately show ?thesis using run True same
      by (intro exI [of _ m1] exI [of _ "[]"]) (simp del: append_Nil2)
  next
    case False
    then have pp: "path_parts s = first_part s # path_parts ?s" by (simp add: path_parts.simps [of s])
    obtain str where p1: "parsed h L (ns @ [part]) (strs @ [str]) (ps @ [first_part s])
        (2 * length (path_parts ?s) + Suc (Suc k)) m1"
      using end1 False by (auto simp: pp)
    have c1: "cstr m1 (next_path m path s) ?s"
      by (rule cstr_cong [OF cstr_after_part [OF less.prems(3)]])
        (use same kept_next [of m path s "kept h L", OF less.prems(3,5)] in blast)
    have "length ?s < 108" using length_after_part [OF False] less.prems(4) by linarith
    from less.hyps [OF length_after_part [OF False] p1 _ c1 this
        kept_next [of m path s "kept h L", OF less.prems(3,5)]]
    obtain m2 ns2 strs2 where run2: "(do { (part, tmp_path, m) \<leftarrow>
          pathparser_parse_path_part h m1 (last (ns @ [part])) (next_path m path s);
          pathparser_parse_loop h m part tmp_path }) = Some m2"
      and p2: "parsed h L ((ns @ [part]) @ ns2) ((strs @ [str]) @ strs2)
          ((ps @ [first_part s]) @ path_parts ?s) (Suc (Suc k)) m2"
      and same2: "\<forall>a. kept h L a \<longrightarrow> m2 a = m1 a" by auto
    have "pathparser_parse_loop h m1 part (next_path m path s) = Some m2"
      unfolding pathparser_parse_loop.simps [of h m1 part] using part run2 by simp
    then have "(do { (part, tmp_path, m) \<leftarrow> pathparser_parse_path_part h m (last ns) path;
        pathparser_parse_loop h m part tmp_path }) = Some m2" using run False by simp
    moreover have "parsed h L (ns @ (part # ns2)) (strs @ (str # strs2)) (ps @ path_parts s) (Suc (Suc k)) m2"
      using p2 by (simp add: pp)
    ultimately show ?thesis using same same2
      by (intro exI [of _ m2] exI [of _ "part # ns2"] exI [of _ "str # strs2"]) simp
  qed
qed

text \<open>A store into another live region leaves the list alone.\<close>

lemma parsed_store:
  assumes "parsed h L ns strs ps k m" "L p = Some n" "\<And>a. \<not> in_range p n a \<Longrightarrow> m' a = m a"
  shows "parsed h L ns strs ps k m'"
proof -
  let ?P = "set (ns @ strs)"
  note I = assms(1) [unfolded parsed_def]
  have live: "kheap_live h m (with_pages L ?P) k" using I by (elim conjE)
  have new: "L q = None" if "q \<in> ?P" for q using I that by (elim conjE) (drule (1) bspec, simp)
  then have "p \<notin> ?P" using assms(2) by auto
  then have Lp: "with_pages L ?P p = Some n" using assms(2) by (simp add: with_pages_def)
  have same: "m' a = m a" if "q \<in> ?P" "in_range q 4096 a" for q a
  proof -
    have "q \<noteq> p" using that(1) \<open>p \<notin> ?P\<close> by auto
    then have "apart q 4096 p n" by (intro kh.live_disjoint [OF live with_pages_in [OF that(1)] Lp])
    then show ?thesis using assms(3) apart_notin in_range_ex [OF that(2)] by blast
  qed
  have "parts_at m' ns strs ps"
    by (rule parts_at_cong [of m]) (use I same in \<open>auto simp: \<close>)
  moreover have "kheap_live h m' (with_pages L ?P) k" by (rule kh.live_store [OF live Lp assms(3)])
  ultimately show ?thesis using I unfolding parsed_def by blast
qed

lemma valid_format_iff:
  assumes "cstr m path s"
  shows "pathparser_path_valid_format m path \<longleftrightarrow> (\<exists>d rest. s = d # colon # slash # rest \<and> isdigit d)"
proof -
  have len: "strnlen m path LIBREWIN_MAX_PATH = word_of_nat (min (length s) 108)"
    using strnlen_cstr [OF assms, of LIBREWIN_MAX_PATH] by (simp add: LIBREWIN_MAX_PATH_def)
  have "sint (word_of_nat (min (length s) 108) :: u32) = int (min (length s) 108)"
    by (rule sint_word_of_nat) simp
  then have three: "3 \<le>s strnlen m path LIBREWIN_MAX_PATH \<longleftrightarrow> 3 \<le> length s"
    unfolding len word_sle_eq by (simp del: of_nat_min)
  have two: "bytes m (path + 1) 2 = [m (path + 1), m (path + 2)]"
    by (simp add: bytes_def upt_rec numeral_2_eq_2 add.assoc)
  show ?thesis
  proof (cases "3 \<le> length s")
    case True
    then obtain d c e rest where s: "s = d # c # e # rest" by (auto simp: numeral_3_eq_3 Suc_le_length_iff)
    then have "m path = d" "m (path + 1) = c" "m (path + 2) = e" using assms by (simp_all add: add.assoc)
    then show ?thesis using s by (auto simp: pathparser_path_valid_format_def three two Let_def)
  next
    case False
    then show ?thesis by (auto simp: pathparser_path_valid_format_def three Let_def)
  qed
qed

lemma digit_value:
  assumes "isdigit d"
  shows "sint (tonumericdigit d) = sint d - 48" "\<not> tonumericdigit d <s 0"
proof -
  have d: "48 \<le> sint d" "sint d \<le> 57" using assms by (simp_all add: isdigit_def word_sle_eq)
  have eq: "tonumericdigit d = word_of_int (sint d - 48)"
    unfolding tonumericdigit_def scast_eq by (simp only: of_int_diff of_int_numeral)
  show val: "sint (tonumericdigit d) = sint d - 48"
    using d unfolding eq signed_of_int by (simp add: signed_take_bit_int_eq_self)
  show "\<not> tonumericdigit d <s 0" unfolding word_sless_alt val using d by simp
qed

text \<open>A path that is too long or does not start with a digit, a colon and a slash: no list, and
  the memory is as before.\<close>

lemma pathparser_parse_invalid:
  assumes "cstr m path s" "length s < 2 ^ 31"
    and "108 < length s \<or> (\<nexists>d rest. s = d # colon # slash # rest \<and> isdigit d)"
  shows "pathparser_parse h m path = Some (0, m)"
proof -
  have len: "LIBREWIN_MAX_PATH <s word_of_nat (length s) \<longleftrightarrow> 108 < length s"
    unfolding word_sless_alt sint_word_of_nat [OF assms(2)] by (simp add: LIBREWIN_MAX_PATH_def)
  have "(- EBADPATH) <s 0" by (simp add: EBADPATH_def word_sless_alt)
  then show ?thesis
    using assms(3) valid_format_iff [OF assms(1)]
    by (auto simp: pathparser_parse_def strlen_cstr [OF assms(1)] len pathparser_get_drive_by_path_def)
qed

lemma pathparser_parse_valid:
  assumes live: "kheap_live h m L (Suc (2 * length (path_parts rest) + Suc (Suc k)))"
    and str: "cstr m path s" "length s \<le> 108" "s = d # colon # slash # rest" "isdigit d"
    and kept: "\<And>i. i \<le> length s \<Longrightarrow> kept h L (path + word_of_nat i)"
  shows "\<exists>root m' ns strs. pathparser_parse h m path = Some (root, m') \<and> root \<noteq> 0 \<and> aligned root \<and> L root = None \<and>
    read32 m' root = tonumericdigit d \<and> read32 m' (root + 4) = (if ns = [] then 0 else hd ns) \<and>
    parsed h (L(root \<mapsto> 4096)) ns strs (path_parts rest) (Suc (Suc k)) m' \<and>
    (\<forall>a. kept h L a \<longrightarrow> m' a = m a)"
proof -
  let ?n = "2 * length (path_parts rest) + Suc (Suc k)"
  have "\<not> LIBREWIN_MAX_PATH <s word_of_nat (length s)"
    using str(2) sint_word_of_nat [of "length s"] by (simp add: LIBREWIN_MAX_PATH_def word_sless_alt)
  moreover have "pathparser_path_valid_format m path" using valid_format_iff [OF str(1)] str(3,4) by blast
  moreover have "m path = d" using str(1,3) by simp
  ultimately have start: "pathparser_parse h m path =
      (let (path_root, m) = pathparser_create_root h m (tonumericdigit d) in
         if path_root = 0 then Some (0, m)
         else do {
           (first_part, tmp_path, m) \<leftarrow> pathparser_parse_path_part h m 0 (path + 3);
           if first_part = 0 then Some (path_root, m)
           else do {
             let m = write32 m (path_root + 4) first_part;
             (part, tmp_path, m) \<leftarrow> pathparser_parse_path_part h m first_part tmp_path;
             m \<leftarrow> pathparser_parse_loop h m part tmp_path;
             Some (path_root, m)
           }
         })"
    using digit_value(2) [OF str(4)]
    by (simp add: pathparser_parse_def strlen_cstr [OF str(1)] pathparser_get_drive_by_path_def Let_def)
  obtain root m1 where alloc: "kzalloc h m 8 = (root, m1)" by fastforce
  have sz: "(0 :: u32) < 8" "(8 :: u32) \<le> 4096" by simp_all
  note A = kh.alloc_page [OF live sz alloc] and keep = kh.alloc_keeps_all [OF live sz alloc]
  let ?L = "L(root \<mapsto> 4096)"
  have root: "root \<noteq> 0" "aligned root" "L root = None" and live1: "kheap_live h m1 ?L ?n" using A by auto
  define m2 where "m2 = write32 (write32 m1 root (tonumericdigit d)) (root + 4) 0"
  have create: "pathparser_create_root h m (tonumericdigit d) = (root, m2)"
    by (simp add: pathparser_create_root_def alloc m2_def)
  have far2: "m2 a = m1 a" if "\<not> in_range root 4096 a" for a
    using that write_slot_frame [of 0 root a m1] write_slot_frame [of 1 root a "write32 m1 root (tonumericdigit d)" 0]
    by (simp add: m2_def)
  have live2: "kheap_live h m2 ?L ?n" by (rule kh.live_store [OF live1, of root 4096]) (simp_all add: far2)
  have same2: "m2 a = m a" if "kept h L a" for a
    using far2 [OF keep(2) [OF that]] keep(1) [OF that] by simp
  have mono: "kept h ?L a" if "kept h L a" for a by (rule kh.keeps_new [OF root(3) that])
  have inv2: "parsed h ?L [] [] [] ?n m2"
    unfolding parsed_def using live2 by (simp add: parts_at_def)
  have drive2: "read32 m2 root = tonumericdigit d" "read32 m2 (root + 4) = 0"
    unfolding m2_def using read_slots [OF root(2,2)] by simp_all
  have rest3: "path + 3 = path + word_of_nat 3" by simp
  have keptL: "kept h L (path + 3 + word_of_nat i)" if "i \<le> length rest" for i
    using kept [of "3 + i"] str(3) that by (simp add: add.assoc)
  have kept2: "kept h ?L (path + 3 + word_of_nat i)" if "i \<le> length rest" for i
    by (rule mono [OF keptL [OF that]])
  have c2: "cstr m2 (path + 3) rest"
  proof (rule cstr_cong [of m])
    show "cstr m (path + 3) rest" using str(1,3) by (simp add: add.assoc)
  qed (rule same2 [OF keptL])
  have short: "length rest < 108" using str(2,3) by simp
  then have fp: "length (first_part rest) < 108" "length rest < 2 ^ 32"
    using length_first_part [of rest] by simp_all
  have n: "?n = Suc (Suc (2 * length (path_parts rest) + k))" by simp
  from parse_path_part_works [OF inv2 [unfolded n] c2 fp kept2, unfolded append_Nil simp_thms if_True]
  obtain part m3 where run3: "pathparser_parse_path_part h m2 0 (path + 3) =
      Some (if first_part rest = [] then 0 else part, next_path m2 (path + 3) rest, m3)"
    and part: "part \<noteq> 0" and same3: "\<And>a. kept h ?L a \<Longrightarrow> m3 a = m2 a"
    and end3: "if first_part rest = [] then parsed h ?L [] [] [] ?n m3
      else \<exists>str. parsed h ?L [part] [str] [first_part rest] (2 * length (path_parts rest) + k) m3"
    unfolding n by blast
  have root_page: "kept h ?L a" if "in_range root 4096 a" for a
    by (rule kh.keeps_live [OF live2 _ that]) simp
  have drive3: "read32 m3 root = tonumericdigit d" "read32 m3 (root + 4) = 0"
    using read32_page [of root m3 m2] same3 root_page drive2 by simp_all
  show ?thesis
  proof (cases "first_part rest = []")
    case True
    then have pp: "path_parts rest = []" by (simp add: path_parts.simps [of rest])
    have "pathparser_parse h m path = Some (root, m3)"
      unfolding start create using root(1) run3 True by simp
    moreover have "parsed h ?L [] [] (path_parts rest) (Suc (Suc k)) m3" using end3 True pp by simp
    ultimately show ?thesis
      using root drive3 same3 [OF mono] same2
      by (intro exI [of _ root] exI [of _ m3] exI [of _ "[]"]) simp
  next
    case False
    let ?s = "drop (Suc (length (first_part rest))) rest"
    have pp: "path_parts rest = first_part rest # path_parts ?s"
      using False by (simp add: path_parts.simps [of rest])
    obtain str where inv3: "parsed h ?L [part] [str] [first_part rest] (2 * length (path_parts ?s) + Suc (Suc k)) m3"
      using end3 False by (auto simp: pp)
    define m4 where "m4 = write32 m3 (root + 4) part"
    have far4: "m4 a = m3 a" if "\<not> in_range root 4096 a" for a
      using that write_slot_frame [of 1 root a m3 part] by (simp add: m4_def)
    have Lroot: "?L root = Some 4096" by simp
    have inv4: "parsed h ?L [part] [str] [first_part rest] (2 * length (path_parts ?s) + Suc (Suc k)) m4"
      by (rule parsed_store [OF inv3 Lroot far4])
    have drive4: "read32 m4 root = tonumericdigit d" "read32 m4 (root + 4) = part"
      unfolding m4_def using read_slots [OF root(2,2)] drive3 by simp_all
    have outside: "\<not> in_range root 4096 a" if "kept h L a" for a by (rule keep(2) [OF that])
    have same4: "m4 a = m a" if "kept h L a" for a
      using far4 [OF outside [OF that]] same3 [OF mono [OF that]] same2 [OF that] by simp
    note next_kept = kept_next [of m2 "path + 3" rest, OF c2]
    have c4: "cstr m4 (next_path m2 (path + 3) rest) ?s"
    proof (rule cstr_cong [OF cstr_after_part [OF c2]])
      fix i assume "i \<le> length ?s"
      then have "kept h L (next_path m2 (path + 3) rest + word_of_nat i)"
        using next_kept [of "kept h L" i] keptL by blast
      then show "m4 (next_path m2 (path + 3) rest + word_of_nat i) = m2 (next_path m2 (path + 3) rest + word_of_nat i)"
        using same4 same2 by simp
    qed
    have s108: "length ?s < 108" using length_after_part [OF False] short by linarith
    from parse_loop_works [OF inv4 _ c4 s108 next_kept [of "kept h ?L", OF kept2]]
    obtain m5 ns strs where run5: "(do { (part, tmp_path, m) \<leftarrow>
          pathparser_parse_path_part h m4 part (next_path m2 (path + 3) rest);
          pathparser_parse_loop h m part tmp_path }) = Some m5"
      and inv5: "parsed h ?L (part # ns) (str # strs) (path_parts rest) (Suc (Suc k)) m5"
      and same5: "\<And>a. kept h ?L a \<Longrightarrow> m5 a = m4 a"
      by (auto simp: pp)
    have drive5: "read32 m5 root = tonumericdigit d" "read32 m5 (root + 4) = part"
      using read32_page [of root m5 m4] same5 root_page drive4 by simp_all
    have "pathparser_parse h m path = Some (root, m5)"
      unfolding start create using root(1) run3 part False run5
      by (auto simp: m4_def [symmetric] bind_eq_Some_conv split: prod.splits)
    then show ?thesis
      using root drive5 inv5 same5 [OF mono] same4
      by (intro exI [of _ root] exI [of _ m5] exI [of _ "part # ns"] exI [of _ "str # strs"]) simp
  qed
qed

section \<open>Freeing a parsed path\<close>

lemma parts_at_Cons:
  assumes "parts_at m (n # ns) (r # strs) (p # ps)"
  shows "read32 m n = r" "read32 m (n + 4) = (if ns = [] then 0 else hd ns)" "parts_at m ns strs ps"
proof -
  have all: "read32 m ((n # ns) ! i) = (r # strs) ! i \<and> cstr m ((r # strs) ! i) ((p # ps) ! i) \<and>
      length ((p # ps) ! i) < 4096 \<and>
      read32 m ((n # ns) ! i + 4) = (if Suc i < Suc (length ns) then (n # ns) ! Suc i else 0)"
    if "i < Suc (length ns)" for i
    using assms that by (simp add: parts_at_def)
  show "read32 m n = r" using all [of 0] by simp
  show "read32 m (n + 4) = (if ns = [] then 0 else hd ns)"
    using all [of 0] by (cases ns) auto
  show "parts_at m ns strs ps"
    unfolding parts_at_def
  proof (intro conjI allI impI)
    show "length strs = length ns" "length ps = length ns" using assms by (simp_all add: parts_at_def)
    fix i assume "i < length ns"
    then show "read32 m (ns ! i) = strs ! i" "cstr m (strs ! i) (ps ! i)" "length (ps ! i) < 4096"
      "read32 m (ns ! i + 4) = (if Suc i < length ns then ns ! Suc i else 0)"
      using all [of "Suc i"] by simp_all
  qed
qed

lemma free_parts_works:
  assumes "parsed h L ns strs ps k m"
  shows "\<exists>m'. pathparser_free_parts h m (if ns = [] then 0 else hd ns) = Some m' \<and>
    kheap_live h m' L (k + 2 * length ns) \<and> (\<forall>a. \<not> in_table (table h) a \<longrightarrow> m' a = m a)"
  using assms
proof (induction ns arbitrary: strs ps k m)
  case Nil
  then have "strs = []" by (simp add: parsed_def parts_at_def)
  then show ?case using Nil
    unfolding pathparser_free_parts.simps [of h m] by (simp add: parsed_def)
next
  case (Cons n ns)
  then obtain r strs' p ps' where eq: "strs = r # strs'" "ps = p # ps'"
    unfolding parsed_def parts_at_def by (metis length_Suc_conv)
  let ?P = "set ((n # ns) @ (r # strs'))"
  note I = Cons.prems [unfolded parsed_def eq]
  have live: "kheap_live h m (with_pages L ?P) k" using I by (elim conjE)
  have dis: "distinct ((n # ns) @ (r # strs'))" using I by (elim conjE)
  have new: "\<forall>q\<in>?P. L q = None \<and> aligned q \<and> q \<noteq> 0" using I by (elim conjE)
  have parts: "parts_at m (n # ns) (r # strs') (p # ps')" using I by (elim conjE)
  note tail = parts_at_Cons [OF parts]
  have n: "n \<noteq> 0" using new by simp
  have none: "\<forall>q\<in>?P. L q = None" using new by blast
  define m1 where "m1 = kfree h m r"
  have r: "with_pages L ?P r = Some 4096" by simp
  have live1: "kheap_live h m1 (with_pages L (?P - {r})) (Suc k)"
    using kh.release_live [OF live r] with_pages_remove [OF none, of r] by (simp add: m1_def)
  have nr: "n \<noteq> r" using dis by auto
  have n1: "with_pages L (?P - {r}) n = Some 4096" using nr by simp
  define m2 where "m2 = kfree h m1 n"
  have none1: "\<forall>q\<in>?P - {r}. L q = None" using none by blast
  have "?P - {r} - {n} = set (ns @ strs')" using dis by auto
  then have live2: "kheap_live h m2 (with_pages L (set (ns @ strs'))) (Suc (Suc k))"
    using kh.release_live [OF live1 n1] with_pages_remove [OF none1, of n] nr by (simp add: m2_def)
  have same: "m2 a = m a" if "\<not> in_table (table h) a" for a
    using kh.release_frame [OF live1 n1 that] kh.release_frame [OF live r that] by (simp add: m1_def m2_def)
  have page: "m2 a = m a" if "q \<in> ?P" "in_range q 4096 a" for q a
    by (rule same, rule kh.live_not_own [OF live with_pages_in [OF that(1)] that(2)])
  have "parts_at m2 ns strs' ps'"
    by (rule parts_at_cong [OF tail(3)], rule page) auto
  then have "parsed h L ns strs' ps' (Suc (Suc k)) m2"
    unfolding parsed_def using live2 dis new by auto
  from Cons.IH [OF this] obtain m' where
    m': "pathparser_free_parts h m2 (if ns = [] then 0 else hd ns) = Some m'"
    and live': "kheap_live h m' L (Suc (Suc k) + 2 * length ns)"
    and same': "\<forall>a. \<not> in_table (table h) a \<longrightarrow> m' a = m2 a" by blast
  have "pathparser_free_parts h m n = Some m'"
    unfolding pathparser_free_parts.simps [of h m n] Let_def tail(1,2)
    using n m' by (simp add: m1_def m2_def)
  then show ?case using live' same same' by (intro exI [of _ m']) simp
qed

lemma pathparser_free_works:
  assumes "parsed h (L(root \<mapsto> 4096)) ns strs ps k m" "L root = None"
    and "read32 m (root + 4) = (if ns = [] then 0 else hd ns)"
  shows "\<exists>m'. pathparser_free h m root = Some m' \<and> kheap_live h m' L (k + 2 * length ns + 1) \<and>
    (\<forall>a. \<not> in_table (table h) a \<longrightarrow> m' a = m a)"
proof -
  obtain m1 where m1: "pathparser_free_parts h m (read32 m (root + 4)) = Some m1"
    and live: "kheap_live h m1 (L(root \<mapsto> 4096)) (k + 2 * length ns)"
    and same: "\<forall>a. \<not> in_table (table h) a \<longrightarrow> m1 a = m a"
    using free_parts_works [OF assms(1)] assms(3) by auto
  have "(L(root \<mapsto> 4096))(root := None) = L" using assms(2) by auto
  then have "kheap_live h (kfree h m1 root) L (k + 2 * length ns + 1)"
    using kh.release_live [OF live, of root 4096] by simp
  moreover have "kfree h m1 root a = m a" if "\<not> in_table (table h) a" for a
    using kh.release_frame [OF live, of root 4096 a] same that by simp
  ultimately show ?thesis by (simp add: pathparser_free_def m1)
qed

end
