(* ===== verification/Disk.thy ===== *)
theory Disk
  imports KHeap
begin

text \<open>
  \<^verbatim>\<open>ke/disk/disk.c\<close> and \<^verbatim>\<open>ke/disk/streamer.c\<close>: reading sectors through the ATA ports, and streams
  over them. The controller is not part of the kernel: it is a state \<open>'d\<close> with the four port
  operations of \<open>io.h\<close>, a parameter of the functions. A function that stores through a pointer to
  its caller's buffer returns the bytes it stores.
\<close>

section \<open>Ports and sectors\<close>

record 'd ports =
  outb :: "u16 \<Rightarrow> byte \<Rightarrow> 'd \<Rightarrow> 'd"
  insb :: "u16 \<Rightarrow> 'd \<Rightarrow> byte \<times> 'd"
  insw :: "u16 \<Rightarrow> 'd \<Rightarrow> u16 \<times> 'd"
  outw :: "u16 \<Rightarrow> u16 \<Rightarrow> 'd \<Rightarrow> 'd"

definition LIBREWIN_SECTOR_SIZE :: u32 where [status_defs]: "LIBREWIN_SECTOR_SIZE = 512"

text \<open>The six port writes that start a read; \<open>lba >> 24\<close> is an arithmetic shift.\<close>

definition disk_command :: "'d ports \<Rightarrow> u32 \<Rightarrow> u32 \<Rightarrow> 'd \<Rightarrow> 'd" where
  "disk_command io lba tot d =
     (let d = outb io 0x1F6 (ucast (signed_drop_bit 24 lba OR 0xE0)) d;
          d = outb io 0x1F2 (ucast tot) d;
          d = outb io 0x1F3 (ucast (lba AND 0xff)) d;
          d = outb io 0x1F4 (ucast (signed_drop_bit 8 lba)) d;
          d = outb io 0x1F5 (ucast (signed_drop_bit 16 lba)) d
      in outb io 0x1F7 0x20 d)"

partial_function (option) disk_wait :: "'d ports \<Rightarrow> byte \<Rightarrow> 'd \<Rightarrow> 'd option" where
  "disk_wait io c d =
     (if c AND 0x08 = 0 then let (c, d) = insb io 0x1F7 d in disk_wait io c d else Some d)"

text \<open>The bytes the loop over \<open>insw\<close> stores, the low byte of each word first.\<close>

fun disk_read_words :: "'d ports \<Rightarrow> nat \<Rightarrow> 'd \<Rightarrow> byte list \<times> 'd" where
  "disk_read_words io 0 d = ([], d)"
| "disk_read_words io (Suc n) d =
     (let (w, d) = insw io 0x1F0 d; (bs, d) = disk_read_words io n d
      in (ucast w # ucast (drop_bit 8 w) # bs, d))"

partial_function (option) disk_read_blocks :: "'d ports \<Rightarrow> u32 \<Rightarrow> u32 \<Rightarrow> 'd \<Rightarrow> (byte list \<times> 'd) option" where
  "disk_read_blocks io tot b d =
     (if b <s tot
      then do {
        let (c, d) = insb io 0x1F7 d;
        d \<leftarrow> disk_wait io c d;
        let (bs, d) = disk_read_words io 256 d;
        (rest, d) \<leftarrow> disk_read_blocks io tot (b + 1) d;
        Some (bs @ rest, d)
      }
      else Some ([], d))"

text \<open>The status (always 0), what is stored from \<open>buf\<close> on, and the controller afterwards.\<close>

definition disk_read_sector :: "'d ports \<Rightarrow> u32 \<Rightarrow> u32 \<Rightarrow> 'd \<Rightarrow> (u32 \<times> byte list \<times> 'd) option" where
  "disk_read_sector io lba tot d = do {
     let d = disk_command io lba tot d;
     (bs, d) \<leftarrow> disk_read_blocks io tot 0 d;
     Some (0, bs, d)
   }"

text \<open>The global \<open>disk\<close> is at the address \<open>disk\<close>.\<close>

definition GetDisk :: "addr \<Rightarrow> u32 \<Rightarrow> addr" where
  "GetDisk disk index = (if index \<noteq> 0 then 0 else disk)"

definition DiskReadBlk :: "addr \<Rightarrow> 'd ports \<Rightarrow> addr \<Rightarrow> u32 \<Rightarrow> u32 \<Rightarrow> 'd \<Rightarrow> (u32 \<times> byte list \<times> 'd) option" where
  "DiskReadBlk disk io idisk lba tot d =
     (if idisk \<noteq> disk then Some (- EIO, [], d) else disk_read_sector io lba tot d)"

section \<open>Streams\<close>

text \<open>\<open>struct disk_stream\<close> is \<open>pos\<close> at offset 0 and \<open>disk\<close> at 4.\<close>

definition diskstreamer_new :: "heap \<Rightarrow> addr \<Rightarrow> mem \<Rightarrow> u32 \<Rightarrow> addr \<times> mem" where
  "diskstreamer_new kernel_heap disk m disk_id =
     (let idisk = GetDisk disk disk_id in
      if idisk = 0 then (0, m)
      else let (streamer, m) = kzalloc kernel_heap m 8;
               m = write32 m streamer 0
           in (streamer, write32 m (streamer + 4) idisk))"

definition diskstreamer_seek :: "mem \<Rightarrow> addr \<Rightarrow> u32 \<Rightarrow> u32 \<times> mem" where
  "diskstreamer_seek m stream pos = (0, write32 m stream pos)"

text \<open>\<open>buf[j]\<close> for the local array \<open>buf\<close> of 512 bytes. What lies around it on the stack is a
  parameter, \<open>around\<close>.\<close>

definition buf_at :: "(int \<Rightarrow> byte) \<Rightarrow> byte list \<Rightarrow> int \<Rightarrow> byte" where
  "buf_at around buf j = (if 0 \<le> j \<and> j < 512 then buf ! nat j else around j)"

text \<open>The result is the status, the bytes stored from \<open>out\<close> on, the memory (in which only the
  position of the stream has changed) and the controller. \<open>out\<close> does not overlap the stream.\<close>

partial_function (option) diskstreamer_read ::
    "addr \<Rightarrow> 'd ports \<Rightarrow> (int \<Rightarrow> byte) \<Rightarrow> addr \<Rightarrow> u32 \<Rightarrow> mem \<Rightarrow> 'd \<Rightarrow> (u32 \<times> byte list \<times> mem \<times> 'd) option" where
  "diskstreamer_read disk io around stream tot m d = do {
     let sector = sdiv32 (read32 m stream) LIBREWIN_SECTOR_SIZE;
     let offset = sint (smod32 (read32 m stream) LIBREWIN_SECTOR_SIZE);
     (res, buf, d) \<leftarrow> DiskReadBlk disk io (read32 m (stream + 4)) sector 1 d;
     if res <s 0 then Some (res, [], m, d)
     else do {
       let total_to_read = (if LIBREWIN_SECTOR_SIZE <s tot then LIBREWIN_SECTOR_SIZE else tot);
       let bs = map (\<lambda>i. buf_at around buf (offset + int i)) [0..<nat (sint total_to_read)];
       let m = write32 m stream (read32 m stream + total_to_read);
       if LIBREWIN_SECTOR_SIZE <s tot
       then do {
         (res, rest, m, d) \<leftarrow> diskstreamer_read disk io around stream (tot - LIBREWIN_SECTOR_SIZE) m d;
         Some (res, bs @ rest, m, d)
       }
       else Some (res, bs, m, d)
     }
   }"

definition diskstreamer_close :: "heap \<Rightarrow> mem \<Rightarrow> addr \<Rightarrow> mem" where
  "diskstreamer_close kernel_heap m stream = kfree kernel_heap m stream"

section \<open>The controller\<close>

text \<open>What the ATA specification promises of the controller, for a read of one sector: after the
  command it is busy for some polls of the status port, then data is requested and the 256 words
  of the sector arrive. \<open>idle\<close> are the states in which a command is accepted, \<open>phase lba n k\<close>
  those of a read of sector \<open>lba\<close> with \<open>n\<close> polls to go and \<open>k\<close> words delivered, \<open>img\<close> the bytes
  of the disk.\<close>

definition ata_serves ::
    "'d ports \<Rightarrow> ('d \<Rightarrow> bool) \<Rightarrow> (nat \<Rightarrow> nat \<Rightarrow> nat \<Rightarrow> 'd \<Rightarrow> bool) \<Rightarrow> (nat \<Rightarrow> byte) \<Rightarrow> bool" where
  "ata_serves io idle phase img \<longleftrightarrow>
     (\<forall>d lba. idle d \<and> lba < 2 ^ 22 \<longrightarrow> (\<exists>n. phase lba n 0 (disk_command io (word_of_nat lba) 1 d))) \<and>
     (\<forall>d lba n. phase lba n 0 d \<longrightarrow>
        (fst (insb io 0x1F7 d) AND 0x08 = 0) = (n \<noteq> 0) \<and> phase lba (n - 1) 0 (snd (insb io 0x1F7 d))) \<and>
     (\<forall>d lba k. phase lba 0 k d \<and> k < 256 \<longrightarrow>
        ucast (fst (insw io 0x1F0 d)) = img (lba * 512 + 2 * k) \<and>
        ucast (drop_bit 8 (fst (insw io 0x1F0 d))) = img (lba * 512 + 2 * k + 1) \<and>
        (if k = 255 then idle (snd (insw io 0x1F0 d)) else phase lba 0 (Suc k) (snd (insw io 0x1F0 d))))"

lemma ata_command: "ata_serves io idle phase img \<Longrightarrow> idle d \<Longrightarrow> lba < 2 ^ 22 \<Longrightarrow>
    \<exists>n. phase lba n 0 (disk_command io (word_of_nat lba) 1 d)"
  unfolding ata_serves_def by blast

lemma ata_poll:
  assumes "ata_serves io idle phase img" "phase lba n 0 d" "insb io 0x1F7 d = (c, d')"
  shows "(c AND 0x08 = 0) = (n \<noteq> 0)" "phase lba (n - 1) 0 d'"
proof -
  have "(fst (insb io 0x1F7 d) AND 0x08 = 0) = (n \<noteq> 0) \<and> phase lba (n - 1) 0 (snd (insb io 0x1F7 d))"
    using assms(1,2) unfolding ata_serves_def by (elim conjE) (erule allE, erule allE, erule allE, erule mp)
  then show "(c AND 0x08 = 0) = (n \<noteq> 0)" "phase lba (n - 1) 0 d'" by (simp_all add: assms(3))
qed

lemma ata_data:
  assumes "ata_serves io idle phase img" "phase lba 0 k d" "k < 256" "insw io 0x1F0 d = (w, d')"
  shows "ucast w = img (lba * 512 + 2 * k)" "ucast (drop_bit 8 w) = img (lba * 512 + 2 * k + 1)"
    "if k = 255 then idle d' else phase lba 0 (Suc k) d'"
proof -
  have "ucast (fst (insw io 0x1F0 d)) = img (lba * 512 + 2 * k) \<and>
      ucast (drop_bit 8 (fst (insw io 0x1F0 d))) = img (lba * 512 + 2 * k + 1) \<and>
      (if k = 255 then idle (snd (insw io 0x1F0 d)) else phase lba 0 (Suc k) (snd (insw io 0x1F0 d)))"
    using assms(1-3) unfolding ata_serves_def
    by (elim conjE) (erule_tac x = d in allE, erule_tac x = d in allE, erule_tac x = d in allE, blast)
  then show "ucast w = img (lba * 512 + 2 * k)" "ucast (drop_bit 8 w) = img (lba * 512 + 2 * k + 1)"
    "if k = 255 then idle d' else phase lba 0 (Suc k) d'" by (simp_all add: assms(4) split: if_splits)
qed

lemma disk_wait_step:
  "c AND 0x08 = 0 \<Longrightarrow> insb io 0x1F7 d = (c', d') \<Longrightarrow> disk_wait io c d = disk_wait io c' d'"
  "c AND 0x08 \<noteq> 0 \<Longrightarrow> disk_wait io c d = Some d"
  unfolding disk_wait.simps [of io c d] by simp_all

lemma ata_polls:
  assumes ata: "ata_serves io idle phase img" and "phase lba n 0 d" "c AND 0x08 = 0"
  shows "\<exists>d'. disk_wait io c d = Some d' \<and> phase lba 0 0 d'"
  using assms(2,3)
proof (induction n arbitrary: c d)
  case 0
  obtain c' d' where poll: "insb io 0x1F7 d = (c', d')" by fastforce
  note P = ata_poll [OF ata 0(1) poll]
  have "disk_wait io c d = Some d'"
    unfolding disk_wait_step(1) [OF 0(2) poll] using P(1) by (intro disk_wait_step(2)) simp
  then show ?case using P(2) by simp
next
  case (Suc n)
  obtain c' d' where poll: "insb io 0x1F7 d = (c', d')" by fastforce
  note P = ata_poll [OF ata Suc.prems(1) poll]
  have "phase lba n 0 d'" "c' AND 0x08 = 0" using P by simp_all
  from Suc.IH [OF this] show ?case unfolding disk_wait_step(1) [OF Suc.prems(2) poll] .
qed

lemma map_upt_pairs: "map f [0..<2 * Suc n] = f 0 # f 1 # map (\<lambda>i. f (i + 2)) [0..<2 * n]"
proof -
  have "[0..<2 * Suc n] = 0 # 1 # [2..<2 * n + 2]" by (simp add: upt_conv_Cons numeral_2_eq_2)
  also have "[2..<2 * n + 2] = map (\<lambda>i. i + 2) [0..<2 * n]"
    using map_add_upt [of 2 "2 * n"] by simp
  finally show ?thesis by (simp only: list.map map_map comp_def)
qed

lemma ata_words:
  assumes ata: "ata_serves io idle phase img" and "phase lba 0 k d" "k + Suc n = 256"
    "disk_read_words io (Suc n) d = (bs, d')"
  shows "bs = map (\<lambda>i. img (lba * 512 + 2 * k + i)) [0..<2 * Suc n] \<and> idle d'"
  using assms(2-)
proof (induction n arbitrary: k d bs)
  case 0
  obtain w d1 where w: "insw io 0x1F0 d = (w, d1)" by fastforce
  note D = ata_data [OF ata 0(1) _ w]
  have "k = 255" using 0 by simp
  then show ?case using D 0(3) w unfolding map_upt_pairs by auto
next
  case (Suc n)
  obtain w d1 where w: "insw io 0x1F0 d = (w, d1)" by fastforce
  note D = ata_data [OF ata Suc.prems(1) _ w]
  obtain rest where rest: "disk_read_words io (Suc n) d1 = (rest, d')"
    and bs: "bs = ucast w # ucast (drop_bit 8 w) # rest"
    using Suc.prems(3) w unfolding disk_read_words.simps(2) [of io "Suc n"]
    by (cases "disk_read_words io (Suc n) d1") (simp only: Let_def prod.case, blast)
  have "phase lba 0 (Suc k) d1" using D(3) Suc.prems(2) by simp
  from Suc.IH [OF this _ rest] Suc.prems(2)
  have IH: "rest = map (\<lambda>i. img (lba * 512 + 2 * Suc k + i)) [0..<2 * Suc n]" "idle d'" by simp_all
  have "k < 256" using Suc.prems(2) by simp
  then show ?case
    unfolding map_upt_pairs [of _ "Suc n"] bs using IH D(1,2) by (simp add: ac_simps)
qed

lemma disk_read_sector_works:
  assumes ata: "ata_serves io idle phase img" and "idle d" "lba < 2 ^ 22"
  shows "\<exists>d'. disk_read_sector io (word_of_nat lba) 1 d = Some (0, map (\<lambda>i. img (lba * 512 + i)) [0..<512], d') \<and> idle d'"
proof -
  obtain n where n: "phase lba n 0 (disk_command io (word_of_nat lba) 1 d)"
    using ata_command [OF ata assms(2,3)] by blast
  let ?d = "disk_command io (word_of_nat lba) 1 d"
  obtain c d1 where poll: "insb io 0x1F7 ?d = (c, d1)" by fastforce
  have p: "(c AND 0x08 = 0) = (n \<noteq> 0) \<and> phase lba (n - 1) 0 d1"
    using ata_poll [OF ata n poll] by blast
  have "\<exists>d2. disk_wait io c d1 = Some d2 \<and> phase lba 0 0 d2"
  proof (cases "n = 0")
    case True
    then show ?thesis using p by (simp add: disk_wait.simps [of io c])
  next
    case False
    then show ?thesis using ata_polls [OF ata] p by blast
  qed
  then obtain d2 where d2: "disk_wait io c d1 = Some d2" "phase lba 0 0 d2" by blast
  obtain bs d3 where "disk_read_words io (Suc 255) d2 = (bs, d3)" by fastforce
  moreover from ata_words [OF ata d2(2) _ this]
  have bs: "bs = map (\<lambda>i. img (lba * 512 + i)) [0..<512]" "idle d3" by simp_all
  ultimately have words: "disk_read_words io 256 d2 = (bs, d3)" by simp
  have one: "(0 :: u32) <s 1" "\<not> (1 :: u32) <s 1" by (simp_all add: word_sless_alt)
  have rest: "disk_read_blocks io 1 (0 + 1) d3 = Some ([], d3)" for d3
    unfolding disk_read_blocks.simps [of io 1 "0 + 1"] using one by simp
  have "disk_read_blocks io 1 0 ?d = Some (bs, d3)"
    unfolding disk_read_blocks.simps [of io 1 0] poll using one d2(1) rest words by simp
  then show ?thesis using bs by (simp add: disk_read_sector_def)
qed

section \<open>What a stream delivers\<close>

lemma read32_write32_next: "read32 (write32 m p v) (p + 4) = read32 m (p + 4)"
proof (rule read32_other)
  fix i :: nat assume i: "i < 4"
  have "p + 4 + word_of_nat i - p = word_of_nat (4 + i)" by simp
  moreover have "unat (word_of_nat (4 + i) :: u32) = 4 + i" using i by (intro unat_word_of_nat) simp
  ultimately show "\<not> in_range p 4 (p + 4 + word_of_nat i)" unfolding in_range_def by simp
qed

lemma write32_write32: "write32 (write32 m p v) p w = write32 m p w"
  by (auto simp: write32_def)

lemma signed_pos: "P < 2 ^ 31 \<Longrightarrow> sdiv32 (word_of_nat P) LIBREWIN_SECTOR_SIZE = word_of_nat (P div 512)"
  "P < 2 ^ 31 \<Longrightarrow> smod32 (word_of_nat P) LIBREWIN_SECTOR_SIZE = word_of_nat (P mod 512)"
  using sdiv32_nat [of P 512] smod32_nat [of P 512] by (simp_all add: LIBREWIN_SECTOR_SIZE_def)

text \<open>Byte \<open>i\<close> of a read at position \<open>P\<close>. Each round of the read covers 512 bytes from the same
  offset into its sector; the bytes past the end of the sector do not come from the disk.\<close>

definition stream_byte :: "(int \<Rightarrow> byte) \<Rightarrow> (nat \<Rightarrow> byte) \<Rightarrow> nat \<Rightarrow> nat \<Rightarrow> byte" where
  "stream_byte around img P i =
     (let j = P mod 512 + i mod 512 in if j < 512 then img (P + i) else around (int j))"

lemma stream_byte_chunk:
  assumes "i < 512"
  shows "buf_at around (map (\<lambda>i. img (P div 512 * 512 + i)) [0..<512]) (int (P mod 512) + int i) =
    stream_byte around img P i"
proof (cases "P mod 512 + i < 512")
  case True
  have "P div 512 * 512 + (P mod 512 + i) = P + i" by simp
  moreover have "nat (int (P mod 512) + int i) = P mod 512 + i" by linarith
  ultimately show ?thesis using True assms by (simp add: buf_at_def stream_byte_def)
next
  case False
  then show ?thesis using assms by (simp add: buf_at_def stream_byte_def)
qed

lemma stream_byte_next: "stream_byte around img (P + 512) i = stream_byte around img P (512 + i)"
  unfolding stream_byte_def Let_def by (simp add: add.assoc)

lemma diskstreamer_read_works:
  assumes ata: "ata_serves io idle phase img" and d: "idle d" and "read32 m stream = word_of_nat P"
    "read32 m (stream + 4) = disk" "P + n < 2 ^ 31"
  shows "\<exists>d'. diskstreamer_read disk io around stream (word_of_nat n) m d =
    Some (0, map (stream_byte around img P) [0..<n], write32 m stream (word_of_nat (P + n)), d') \<and> idle d'"
  using assms(2-)
proof (induction n arbitrary: P m d rule: less_induct)
  case (less n)
  have P31: "P < 2 ^ 31" "n < 2 ^ 31" using less.prems(4) by simp_all
  have sector: "sdiv32 (read32 m stream) LIBREWIN_SECTOR_SIZE = word_of_nat (P div 512)"
    unfolding less.prems(2) by (rule signed_pos(1) [OF P31(1)])
  have "P mod 512 < 2 ^ 31" by (rule less_trans [of _ 512]) simp_all
  then have offset: "sint (smod32 (read32 m stream) LIBREWIN_SECTOR_SIZE) = int (P mod 512)"
    unfolding less.prems(2) signed_pos(2) [OF P31(1)] by (rule sint_word_of_nat)
  have "P div 512 < 2 ^ 22" using P31(1) by (simp add: less_mult_imp_div_less)
  from disk_read_sector_works [OF ata less.prems(1) this] less.prems(3)
  obtain d1 where blk: "DiskReadBlk disk io (read32 m (stream + 4)) (word_of_nat (P div 512)) 1 d =
      Some (0, map (\<lambda>i. img (P div 512 * 512 + i)) [0..<512], d1)" and d1: "idle d1"
    by (auto simp: DiskReadBlk_def)
  have big: "LIBREWIN_SECTOR_SIZE <s word_of_nat n \<longleftrightarrow> 512 < n"
    unfolding word_sless_alt sint_word_of_nat [OF P31(2)] by (simp add: LIBREWIN_SECTOR_SIZE_def)
  have chunk: "map (\<lambda>i. buf_at around (map (\<lambda>i. img (P div 512 * 512 + i)) [0..<512]) (int (P mod 512) + int i)) [0..<k] =
      map (stream_byte around img P) [0..<k]" if "k \<le> 512" for k
    using that stream_byte_chunk by (intro map_cong) auto
  have ok: "\<not> (0 :: u32) <s 0" by simp
  show ?case
  proof (cases "512 < n")
    case False
    have "nat (sint (word_of_nat n :: u32)) = n" unfolding sint_word_of_nat [OF P31(2)] by simp
    then show ?thesis
      unfolding diskstreamer_read.simps [of disk io around stream "word_of_nat n"] Let_def sector offset
      using False blk big chunk [OF leI [OF False]] d1 less.prems(2) by simp
  next
    case True
    let ?m = "write32 m stream (word_of_nat (P + 512))"
    have n: "word_of_nat n - LIBREWIN_SECTOR_SIZE = (word_of_nat (n - 512) :: u32)"
      using True by (simp add: LIBREWIN_SECTOR_SIZE_def of_nat_diff)
    have "n - 512 < n" using True by simp
    from less.IH [OF this d1, of ?m "P + 512"] less.prems(3,4) True
    obtain d2 where rest: "diskstreamer_read disk io around stream (word_of_nat (n - 512)) ?m d1 =
        Some (0, map (stream_byte around img (P + 512)) [0..<n - 512],
          write32 ?m stream (word_of_nat (P + 512 + (n - 512))), d2)" and d2: "idle d2"
      by (auto simp: read32_write32_next)
    have all: "map (stream_byte around img P) [0..<512] @ map (stream_byte around img (P + 512)) [0..<n - 512] =
        map (stream_byte around img P) [0..<n]"
    proof -
      have "map (stream_byte around img (P + 512)) [0..<n - 512] =
          map (stream_byte around img P) (map (\<lambda>i. i + 512) [0..<n - 512])"
        by (simp add: stream_byte_next add.commute)
      also have "map (\<lambda>i. i + 512) [0..<n - 512] = [512..<n]"
        using map_add_upt [of 512 "n - 512"] True by simp
      finally have "map (stream_byte around img (P + 512)) [0..<n - 512] = map (stream_byte around img P) [512..<n]" .
      then show ?thesis using True upt_add_eq_append [of 0 512 "n - 512"] by simp
    qed
    have 512: "nat (sint LIBREWIN_SECTOR_SIZE) = 512" by (simp add: LIBREWIN_SECTOR_SIZE_def)
    have pos: "read32 m stream + LIBREWIN_SECTOR_SIZE = word_of_nat (P + 512)"
      unfolding less.prems(2) by (simp add: LIBREWIN_SECTOR_SIZE_def)
    have end_pos: "P + 512 + (n - 512) = P + n" using True by simp
    show ?thesis
      unfolding diskstreamer_read.simps [of disk io around stream "word_of_nat n"] Let_def sector offset
      using True blk big rest d2 all [folded chunk [OF order_refl]]
      by (simp add: 512 pos n end_pos write32_write32)
  qed
qed

section \<open>A controller\<close>

text \<open>A controller that meets the contract, with the position of a byte as its value. Its state is
  the sector number it has received and one more than the number of words delivered, or 0 when it
  is idle.\<close>

definition example_img :: "nat \<Rightarrow> byte" where
  "example_img i = word_of_nat (i + i div 512)"

definition example_ata :: "(nat \<times> nat) ports" where
  "example_ata = \<lparr>
     outb = (\<lambda>port b (lba, k).
       if port = 0x1F3 then (unat b, k) else if port = 0x1F4 then (lba + 256 * unat b, k)
       else if port = 0x1F5 then (lba + 65536 * unat b, k) else if port = 0x1F7 then (lba, 1) else (lba, k)),
     insb = (\<lambda>port d. (0x08, d)),
     insw = (\<lambda>port (lba, k).
       (ucast (example_img (lba * 512 + 2 * (k - 1))) OR push_bit 8 (ucast (example_img (lba * 512 + 2 * (k - 1) + 1))),
        (lba, if k = 256 then 0 else Suc k))),
     outw = (\<lambda>port w d. d)\<rparr>"

lemma lba_byte:
  assumes "lba < 2 ^ 22" "k < 32"
  shows "unat (ucast (signed_drop_bit k (word_of_nat lba :: u32)) :: byte) = lba div 2 ^ k mod 256"
proof -
  have "sint (signed_drop_bit k (word_of_nat lba :: u32)) = int (lba div 2 ^ k)"
    using assms by (simp add: sint_signed_drop_bit_eq drop_bit_eq_div sint_word_of_nat zdiv_int)
  then have "signed_drop_bit k (word_of_nat lba :: u32) = word_of_nat (lba div 2 ^ k)"
    by (auto dest: arg_cong [of _ _ "of_int :: int \<Rightarrow> u32"])
  then show ?thesis by (simp add: unsigned_ucast_eq unsigned_of_nat take_bit_eq_mod mod_mod_cancel)
qed

lemma word_bytes:
  "ucast (ucast a OR push_bit 8 (ucast b) :: u16) = a" "ucast (drop_bit 8 (ucast a OR push_bit 8 (ucast b) :: u16)) = b"
  for a b :: byte
  by (rule bit_word_eqI, auto simp: bit_simps dest: bit_imp_le_length)+

lemma example_ata_serves:
  "ata_serves example_ata (\<lambda>d. snd d = 0) (\<lambda>lba n k d. n = 0 \<and> d = (lba, Suc k)) example_img"
proof -
  have "disk_command example_ata (word_of_nat lba) 1 d = (lba, 1)" if "lba < 2 ^ 22" for lba d
  proof -
    have "unat (ucast (word_of_nat lba AND 0xff :: u32) :: byte) = lba mod 256"
    proof -
      have "(word_of_nat lba AND 0xff :: u32) = take_bit 8 (word_of_nat lba)"
        by (simp add: take_bit_eq_mask mask_eq_exp_minus_1)
      then show ?thesis
        by (simp only: unsigned_ucast_eq unsigned_take_bit_eq unsigned_of_nat) (simp add: take_bit_eq_mod mod_mod_cancel)
    qed
    moreover have "lba mod 256 + 256 * (lba div 256 mod 256) + 65536 * (lba div 65536) = lba"
    proof -
      have "lba div 65536 = lba div 256 div 256" by (simp add: div_mult2_eq [symmetric])
      then show ?thesis
        using mult_div_mod_eq [of 256 lba] mult_div_mod_eq [of 256 "lba div 256"] by linarith
    qed
    moreover have "lba div 65536 mod 256 = lba div 65536"
      by (rule mod_less) (use that in \<open>simp add: div_less_iff_less_mult\<close>)
    moreover note lba_byte [OF that, of 8] lba_byte [OF that, of 16]
    ultimately show ?thesis
      unfolding disk_command_def example_ata_def Let_def by (cases d) (simp add: power2_eq_square)
  qed
  then show ?thesis
    by (auto simp: ata_serves_def example_ata_def word_bytes simp del: drop_bit_or)
qed

section \<open>Properties\<close>



text \<open>C28: \<open>diskstreamer_read\<close> of \<open>n\<close> bytes at position \<open>P\<close> terminates with success, delivers the
  bytes \<open>stream_byte\<close> names and leaves the stream at position \<open>P + n\<close>. These are the bytes of the
  disk from \<open>P\<close> on as far as a round of 512 bytes stays within one sector; past the end of the
  sector they are what lies behind the buffer on the stack.\<close>

theorem diskstreamer_read_delivers:
  assumes "ata_serves io idle phase img" "idle d" "read32 m stream = word_of_nat P"
    "read32 m (stream + 4) = disk" "P + n < 2 ^ 31"
  shows "\<exists>d'. diskstreamer_read disk io around stream (word_of_nat n) m d =
    Some (0, map (\<lambda>i. if P mod 512 + i mod 512 < 512 then img (P + i) else around (int (P mod 512 + i mod 512))) [0..<n],
      write32 m stream (word_of_nat (P + n)), d') \<and> idle d'"
  using diskstreamer_read_works [OF assms] by (simp add: stream_byte_def [abs_def] Let_def)

theorem diskstreamer_read_delivers_witness:
  "\<exists>d'. diskstreamer_read 0x5000 example_ata (\<lambda>_. 0xEE) 0x6000 (word_of_nat 3)
      (write32 (write32 (\<lambda>_. 0) 0x6004 0x5000) 0x6000 (word_of_nat 510)) (0, 0) =
    Some (0, [example_img 510, example_img 511, 0xEE],
      write32 (write32 (write32 (\<lambda>_. 0) 0x6004 0x5000) 0x6000 (word_of_nat 510)) 0x6000 (word_of_nat 513), d')"
proof -
  let ?m = "write32 (write32 (\<lambda>_. 0) 0x6004 0x5000) 0x6000 (word_of_nat 510)"
  have disk: "read32 ?m (0x6000 + 4) = 0x5000" by (subst read32_write32_next) simp
  have pos: "read32 ?m 0x6000 = word_of_nat 510" by (rule read32_write32)
  have "(510 :: nat) + 3 < 2 ^ 31" "snd (0 :: nat, 0 :: nat) = 0" by simp_all
  from diskstreamer_read_delivers [OF example_ata_serves this(2) pos disk this(1), of "\<lambda>_. 0xEE"]
  show ?thesis by (simp add: upt_rec [of _ 3] upt_rec [of _ "Suc _"] numeral_3_eq_3) auto
qed

end
