(* ===== verification/Fat16.thy ===== *)
theory Fat16
  imports PathParser Disk
begin

text \<open>
  \<^verbatim>\<open>ke/fs/fat/fat16.c\<close>: the FAT16 driver. Its structures are bytes of the memory; the packed ones
  have the layout of the disk. Offsets: \<open>struct disk\<close> has \<open>sector_size\<close> at 4, \<open>id\<close> at 8,
  \<open>filesystem\<close> at 12, \<open>fs_private\<close> at 16; \<open>struct fat_private\<close> (92 bytes) has the 62 bytes of
  the header at 0, \<open>root_directory\<close> at 64 and the three streams at 80, 84 and 88;
  \<open>struct fat_directory\<close> has \<open>item\<close>, \<open>total\<close>, \<open>sector_pos\<close>, \<open>ending_sector_pos\<close> at 0, 4, 8, 12;
  \<open>struct fat_item\<close> has the union at 0 and \<open>type\<close> at 4; \<open>struct fat_file_descriptor\<close> has \<open>item\<close>
  at 0 and \<open>pos\<close> at 4.
\<close>

section \<open>What the driver runs in\<close>

text \<open>The kernel heap, the addresses of the globals \<open>disk\<close> and \<open>fat16_fs\<close>, the address of the local
  array \<open>tmp_filename\<close> of \<open>fat16_find_item_in_directory\<close>, the port operations, and what lies on
  the stack around the sector buffer of a stream.\<close>

record 'd env =
  kernel_heap :: heap
  disk_addr :: addr
  fat16_fs :: addr
  tmp_filename :: addr
  ports_of :: "'d ports"
  around_buf :: "int \<Rightarrow> byte"

abbreviation stream_read :: "'d env \<Rightarrow> addr \<Rightarrow> u32 \<Rightarrow> mem \<Rightarrow> 'd \<Rightarrow> (u32 \<times> byte list \<times> mem \<times> 'd) option" where
  "stream_read e \<equiv> diskstreamer_read (disk_addr e) (ports_of e) (around_buf e)"

definition FAT_ITEM_TYPE_DIRECTORY :: u32 where [status_defs]: "FAT_ITEM_TYPE_DIRECTORY = 0"
definition FAT_ITEM_TYPE_FILE :: u32 where [status_defs]: "FAT_ITEM_TYPE_FILE = 1"
definition FAT_FILE_SUBDIRECTORY :: byte where [status_defs]: "FAT_FILE_SUBDIRECTORY = 0x10"
definition LIBREWIN_FAT16_FAT_ENTRY_SIZE :: u32 where [status_defs]: "LIBREWIN_FAT16_FAT_ENTRY_SIZE = 2"
definition LIBREWIN_FAT16_BAD_SECTOR :: u32 where [status_defs]: "LIBREWIN_FAT16_BAD_SECTOR = 0xFF7"

text \<open>Fields, as functions of the memory and the address of the structure.\<close>

definition sector_size :: "mem \<Rightarrow> addr \<Rightarrow> u32" where "sector_size m disk = read32 m (disk + 4)"
definition disk_id :: "mem \<Rightarrow> addr \<Rightarrow> u32" where "disk_id m disk = read32 m (disk + 8)"
definition fs_private :: "mem \<Rightarrow> addr \<Rightarrow> addr" where "fs_private m disk = read32 m (disk + 16)"
definition sectors_per_cluster :: "mem \<Rightarrow> addr \<Rightarrow> u32" where "sectors_per_cluster m fp = ucast (m (fp + 13))"
definition reserved_sectors :: "mem \<Rightarrow> addr \<Rightarrow> u32" where "reserved_sectors m fp = ucast (read16 m (fp + 14))"
definition fat_copies :: "mem \<Rightarrow> addr \<Rightarrow> u32" where "fat_copies m fp = ucast (m (fp + 16))"
definition root_dir_entries :: "mem \<Rightarrow> addr \<Rightarrow> u32" where "root_dir_entries m fp = ucast (read16 m (fp + 17))"
definition sectors_per_fat :: "mem \<Rightarrow> addr \<Rightarrow> u32" where "sectors_per_fat m fp = ucast (read16 m (fp + 22))"
definition ending_sector_pos :: "mem \<Rightarrow> addr \<Rightarrow> u32" where "ending_sector_pos m fp = read32 m (fp + 64 + 12)"

section \<open>Directories\<close>

definition fat16_init_private :: "'d env \<Rightarrow> mem \<Rightarrow> addr \<Rightarrow> addr \<Rightarrow> mem" where
  "fat16_init_private e m disk private =
     (let m = memset m private 0 92;
          (s, m) = diskstreamer_new (kernel_heap e) (disk_addr e) m (disk_id m disk);
          m = write32 m (private + 80) s;
          (s, m) = diskstreamer_new (kernel_heap e) (disk_addr e) m (disk_id m disk);
          m = write32 m (private + 84) s;
          (s, m) = diskstreamer_new (kernel_heap e) (disk_addr e) m (disk_id m disk)
      in write32 m (private + 88) s)"

definition fat16_sector_to_absolute :: "mem \<Rightarrow> addr \<Rightarrow> u32 \<Rightarrow> u32" where
  "fat16_sector_to_absolute m disk sector = sector * sector_size m disk"

text \<open>The loop over the 32-byte items, each read into a local variable.\<close>

partial_function (option) fat16_count_items ::
    "'d env \<Rightarrow> addr \<Rightarrow> u32 \<Rightarrow> mem \<Rightarrow> 'd \<Rightarrow> (u32 \<times> mem \<times> 'd) option" where
  "fat16_count_items e stream i m d = do {
     (res, item, m, d) \<leftarrow> stream_read e stream 32 m d;
     if res \<noteq> LIBREWIN_ALL_OK then Some (- EIO, m, d)
     else if item ! 0 = 0x00 then Some (i, m, d)
     else if item ! 0 = 0xE5 then fat16_count_items e stream i m d
     else fat16_count_items e stream (i + 1) m d
   }"

definition fat16_get_total_items_for_directory ::
    "'d env \<Rightarrow> addr \<Rightarrow> u32 \<Rightarrow> mem \<Rightarrow> 'd \<Rightarrow> (u32 \<times> mem \<times> 'd) option" where
  "fat16_get_total_items_for_directory e disk directory_start_sector m d =
     (let directory_start_pos = directory_start_sector * sector_size m disk;
          stream = read32 m (fs_private m disk + 88);
          (res, m) = diskstreamer_seek m stream directory_start_pos
      in if res \<noteq> LIBREWIN_ALL_OK then Some (- EIO, m, d)
         else fat16_count_items e stream 0 m d)"

text \<open>The variable \<open>total_sectors\<close> of the C function is not used by it.\<close>

definition fat16_get_root_directory ::
    "'d env \<Rightarrow> addr \<Rightarrow> addr \<Rightarrow> addr \<Rightarrow> mem \<Rightarrow> 'd \<Rightarrow> (u32 \<times> mem \<times> 'd) option" where
  "fat16_get_root_directory e disk fat_private directory m d = do {
     let root_dir_sector_pos = (fat_copies m fat_private * sectors_per_fat m fat_private) + reserved_sectors m fat_private;
     let root_dir_size = root_dir_entries m fat_private * 32;
     (total_items, m, d) \<leftarrow> fat16_get_total_items_for_directory e disk root_dir_sector_pos m d;
     let (dir, m) = kzalloc (kernel_heap e) m root_dir_size;
     if dir = 0 then Some (- ENOMEM, m, d)
     else do {
       let stream = read32 m (fat_private + 88);
       let (res, m) = diskstreamer_seek m stream (fat16_sector_to_absolute m disk root_dir_sector_pos);
       if res \<noteq> LIBREWIN_ALL_OK then Some (- EIO, m, d)
       else do {
         (res, bs, m, d) \<leftarrow> stream_read e stream root_dir_size m d;
         let m = write_bytes m dir bs;
         if res \<noteq> LIBREWIN_ALL_OK then Some (- EIO, m, d)
         else
           let m = write32 m directory dir;
               m = write32 m (directory + 4) total_items;
               m = write32 m (directory + 8) root_dir_sector_pos;
               m = write32 m (directory + 12) (root_dir_sector_pos + sdiv32 root_dir_size (sector_size m disk))
           in Some (0, m, d)
       }
     }
   }"

definition fat16_resolve :: "'d env \<Rightarrow> addr \<Rightarrow> mem \<Rightarrow> 'd \<Rightarrow> (u32 \<times> mem \<times> 'd) option" where
  "fat16_resolve e disk m d = do {
     let (fat_private, m) = kzalloc (kernel_heap e) m 92;
     let m = fat16_init_private e m disk fat_private;
     let m = write32 m (disk + 16) fat_private;
     let m = write32 m (disk + 12) (fat16_fs e);
     let (stream, m) = diskstreamer_new (kernel_heap e) (disk_addr e) m (disk_id m disk);
     (res, m, d) \<leftarrow>
       (if stream = 0 then Some (- ENOMEM, m, d)
        else do {
          (res, bs, m, d) \<leftarrow> stream_read e stream 62 m d;
          let m = write_bytes m fat_private bs;
          if res \<noteq> LIBREWIN_ALL_OK then Some (- EIO, m, d)
          else if m (fat_private + 38) \<noteq> 0x29 then Some (- EFSNOTUS, m, d)
          else do {
            (res, m, d) \<leftarrow> fat16_get_root_directory e disk fat_private (fat_private + 64) m d;
            if res \<noteq> LIBREWIN_ALL_OK then Some (- EIO, m, d) else Some (0, m, d)
          }
        });
     let m = (if stream \<noteq> 0 then diskstreamer_close (kernel_heap e) m stream else m);
     let m = (if res <s 0 then write32 (kfree (kernel_heap e) m fat_private) (disk + 16) 0 else m);
     Some (res, m, d)
   }"

section \<open>Names\<close>

text \<open>The new value of \<open>*out\<close> and the address at which the input stops.\<close>

partial_function (option) fat16_proper_copy :: "mem \<Rightarrow> addr \<Rightarrow> addr \<Rightarrow> (addr \<times> addr \<times> mem) option" where
  "fat16_proper_copy m out inp =
     (if m inp \<noteq> 0x00 \<and> m inp \<noteq> 0x20
      then fat16_proper_copy (m(out := m inp)) (out + 1) (inp + 1)
      else Some (out, inp, m))"

definition fat16_to_proper_string :: "mem \<Rightarrow> addr \<Rightarrow> addr \<Rightarrow> (addr \<times> mem) option" where
  "fat16_to_proper_string m out inp = do {
     (out, inp, m) \<leftarrow> fat16_proper_copy m out inp;
     Some (out, if m inp = 0x20 then m(out := 0x00) else m)
   }"

definition fat16_get_full_relative_filename :: "mem \<Rightarrow> addr \<Rightarrow> addr \<Rightarrow> u32 \<Rightarrow> mem option" where
  "fat16_get_full_relative_filename m item out max_len = do {
     let m = memset m out 0x00 max_len;
     (out_tmp, m) \<leftarrow> fat16_to_proper_string m out item;
     if m (item + 8) \<noteq> 0x00 \<and> m (item + 8) \<noteq> 0x20
     then do {
       let m = m(out_tmp := 0x2E);
       (out_tmp, m) \<leftarrow> fat16_to_proper_string m (out_tmp + 1) (item + 8);
       Some m
     }
     else Some m
   }"

definition fat16_clone_directory_item :: "heap \<Rightarrow> mem \<Rightarrow> addr \<Rightarrow> u32 \<Rightarrow> addr \<times> mem" where
  "fat16_clone_directory_item kh m item sz =
     (if sz < 32 then (0, m)
      else let (item_copy, m) = kzalloc kh m sz in
           if item_copy = 0 then (0, m) else (item_copy, memcpy m item_copy item sz))"

section \<open>Clusters\<close>

definition fat16_get_first_cluster :: "mem \<Rightarrow> addr \<Rightarrow> u32" where
  "fat16_get_first_cluster m item = ucast (read16 m (item + 20)) OR ucast (read16 m (item + 26))"

definition fat16_cluster_to_sector :: "mem \<Rightarrow> addr \<Rightarrow> u32 \<Rightarrow> u32" where
  "fat16_cluster_to_sector m private cluster =
     ending_sector_pos m private + ((cluster - 2) * sectors_per_cluster m private)"

definition fat16_get_first_fat_sector :: "mem \<Rightarrow> addr \<Rightarrow> u32" where
  "fat16_get_first_fat_sector m private = reserved_sectors m private"

text \<open>The position is the product of the start of the table and the offset of the entry.\<close>

definition fat16_get_fat_entry :: "'d env \<Rightarrow> addr \<Rightarrow> u32 \<Rightarrow> mem \<Rightarrow> 'd \<Rightarrow> (u32 \<times> mem \<times> 'd) option" where
  "fat16_get_fat_entry e disk cluster m d =
     (let private = fs_private m disk; stream = read32 m (private + 84) in
      if stream = 0 then Some (- 1, m, d)
      else
        let fat_table_position = fat16_get_first_fat_sector m private * sector_size m disk;
            (res, m) = diskstreamer_seek m stream (fat_table_position * (cluster * LIBREWIN_FAT16_FAT_ENTRY_SIZE))
        in if res <s 0 then Some (res, m, d)
           else do {
             (res, bs, m, d) \<leftarrow> stream_read e stream 2 m d;
             if res <s 0 then Some (res, m, d)
             else Some (ucast (bs ! 0) OR push_bit 8 (ucast (bs ! 1)), m, d)
           })"

partial_function (option) fat16_walk_clusters ::
    "'d env \<Rightarrow> addr \<Rightarrow> u32 \<Rightarrow> u32 \<Rightarrow> u32 \<Rightarrow> mem \<Rightarrow> 'd \<Rightarrow> (u32 \<times> mem \<times> 'd) option" where
  "fat16_walk_clusters e disk clusters_ahead i cluster_to_use m d =
     (if i <s clusters_ahead
      then do {
        (entry, m, d) \<leftarrow> fat16_get_fat_entry e disk cluster_to_use m d;
        if entry = 0xFF8 \<or> entry = 0xFFF then Some (- EIO, m, d)
        else if entry = LIBREWIN_FAT16_BAD_SECTOR then Some (- EIO, m, d)
        else if entry = 0xFF0 \<or> entry = 0xFF6 then Some (- EIO, m, d)
        else if entry = 0x00 then Some (- EIO, m, d)
        else fat16_walk_clusters e disk clusters_ahead (i + 1) entry m d
      }
      else Some (cluster_to_use, m, d))"

definition size_of_cluster_bytes :: "mem \<Rightarrow> addr \<Rightarrow> u32" where
  "size_of_cluster_bytes m disk = sectors_per_cluster m (fs_private m disk) * sector_size m disk"

definition fat16_get_cluster_for_offset ::
    "'d env \<Rightarrow> addr \<Rightarrow> u32 \<Rightarrow> u32 \<Rightarrow> mem \<Rightarrow> 'd \<Rightarrow> (u32 \<times> mem \<times> 'd) option" where
  "fat16_get_cluster_for_offset e disk starting_cluster offset m d =
     fat16_walk_clusters e disk (sdiv32 offset (size_of_cluster_bytes m disk)) 0 starting_cluster m d"

text \<open>The status, the bytes stored from \<open>out\<close> on, the memory and the controller.\<close>

partial_function (option) fat16_read_internal_from_stream ::
    "'d env \<Rightarrow> addr \<Rightarrow> addr \<Rightarrow> u32 \<Rightarrow> u32 \<Rightarrow> u32 \<Rightarrow> mem \<Rightarrow> 'd \<Rightarrow> (u32 \<times> byte list \<times> mem \<times> 'd) option" where
  "fat16_read_internal_from_stream e disk stream cluster offset tot m d = do {
     let private = fs_private m disk;
     let cluster_bytes = size_of_cluster_bytes m disk;
     (cluster_to_use, m, d) \<leftarrow> fat16_get_cluster_for_offset e disk cluster offset m d;
     if cluster_to_use <s 0 then Some (cluster_to_use, [], m, d)
     else do {
       let offset_from_cluster = smod32 offset cluster_bytes;
       let starting_sector = fat16_cluster_to_sector m private cluster_to_use;
       let starting_pos = (starting_sector * sector_size m disk) + offset_from_cluster;
       let total_to_read = (if cluster_bytes <s tot then cluster_bytes else tot);
       let (res, m) = diskstreamer_seek m stream starting_pos;
       if res \<noteq> LIBREWIN_ALL_OK then Some (res, [], m, d)
       else do {
         (res, bs, m, d) \<leftarrow> stream_read e stream total_to_read m d;
         if res \<noteq> LIBREWIN_ALL_OK then Some (res, bs, m, d)
         else
           let tot = tot - total_to_read in
           if 0 <s tot
           then do {
             (res, rest, m, d) \<leftarrow>
               fat16_read_internal_from_stream e disk stream cluster (offset + total_to_read) tot m d;
             Some (res, bs @ rest, m, d)
           }
           else Some (res, bs, m, d)
       }
     }
   }"

definition fat16_read_internal ::
    "'d env \<Rightarrow> addr \<Rightarrow> u32 \<Rightarrow> u32 \<Rightarrow> u32 \<Rightarrow> mem \<Rightarrow> 'd \<Rightarrow> (u32 \<times> byte list \<times> mem \<times> 'd) option" where
  "fat16_read_internal e disk starting_cluster offset tot m d =
     fat16_read_internal_from_stream e disk (read32 m (fs_private m disk + 80)) starting_cluster offset tot m d"

section \<open>Items\<close>

definition fat16_free_directory :: "heap \<Rightarrow> mem \<Rightarrow> addr \<Rightarrow> mem" where
  "fat16_free_directory kh m directory =
     (if directory = 0 then m
      else let m = (if read32 m directory \<noteq> 0 then kfree kh m (read32 m directory) else m)
           in kfree kh m directory)"

definition fat16_fat_item_free :: "heap \<Rightarrow> mem \<Rightarrow> addr \<Rightarrow> mem" where
  "fat16_fat_item_free kh m item =
     (let m = (if read32 m (item + 4) = FAT_ITEM_TYPE_DIRECTORY then fat16_free_directory kh m (read32 m item)
               else if read32 m (item + 4) = FAT_ITEM_TYPE_FILE then kfree kh m (read32 m item)
               else m)
      in kfree kh m item)"

text \<open>On an error the directory is freed, and its address is returned all the same.\<close>

definition fat16_load_fat_directory :: "'d env \<Rightarrow> addr \<Rightarrow> addr \<Rightarrow> mem \<Rightarrow> 'd \<Rightarrow> (addr \<times> mem \<times> 'd) option" where
  "fat16_load_fat_directory e disk item m d = do {
     let fat_private = fs_private m disk;
     (res, directory, m, d) \<leftarrow>
       (if m (item + 11) AND FAT_FILE_SUBDIRECTORY = 0 then Some (- EINVARG, 0, m, d)
        else
          let (directory, m) = kzalloc (kernel_heap e) m 16 in
          if directory = 0 then Some (- ENOMEM, directory, m, d)
          else do {
            let cluster = fat16_get_first_cluster m item;
            let cluster_sector = fat16_cluster_to_sector m fat_private cluster;
            (total_items, m, d) \<leftarrow> fat16_get_total_items_for_directory e disk cluster_sector m d;
            let m = write32 m (directory + 4) total_items;
            let directory_size = total_items * 32;
            let (items, m) = kzalloc (kernel_heap e) m directory_size;
            let m = write32 m directory items;
            if items = 0 then Some (- ENOMEM, directory, m, d)
            else do {
              (res, bs, m, d) \<leftarrow> fat16_read_internal e disk cluster 0x00 directory_size m d;
              Some (res, directory, write_bytes m items bs, d)
            }
          });
     let m = (if res \<noteq> LIBREWIN_ALL_OK then fat16_free_directory (kernel_heap e) m directory else m);
     Some (directory, m, d)
   }"

definition fat16_new_fat_item_for_directory_item ::
    "'d env \<Rightarrow> addr \<Rightarrow> addr \<Rightarrow> mem \<Rightarrow> 'd \<Rightarrow> (addr \<times> mem \<times> 'd) option" where
  "fat16_new_fat_item_for_directory_item e disk item m d = do {
     let (f_item, m) = kzalloc (kernel_heap e) m 8;
     if f_item = 0 then Some (0, m, d)
     else do {
       (m, d) \<leftarrow>
         (if m (item + 11) AND FAT_FILE_SUBDIRECTORY \<noteq> 0
          then do {
            (directory, m, d) \<leftarrow> fat16_load_fat_directory e disk item m d;
            let m = write32 m f_item directory;
            Some (write32 m (f_item + 4) FAT_ITEM_TYPE_DIRECTORY, d)
          }
          else Some (m, d));
       let m = write32 m (f_item + 4) FAT_ITEM_TYPE_FILE;
       let (item_copy, m) = fat16_clone_directory_item (kernel_heap e) m item 32;
       Some (f_item, write32 m f_item item_copy, d)
     }
   }"

text \<open>The loop goes on after a match; \<open>sizeof(tmp_filename)\<close> is 108.\<close>

partial_function (option) fat16_find_loop ::
    "'d env \<Rightarrow> addr \<Rightarrow> addr \<Rightarrow> addr \<Rightarrow> addr \<Rightarrow> u32 \<Rightarrow> mem \<Rightarrow> 'd \<Rightarrow> (addr \<times> mem \<times> 'd) option" where
  "fat16_find_loop e disk directory name f_item i m d =
     (if i <s read32 m (directory + 4)
      then do {
        m \<leftarrow> fat16_get_full_relative_filename m (read32 m directory + i * 32) (tmp_filename e) LIBREWIN_MAX_PATH;
        (f_item, m, d) \<leftarrow>
          (if istrncmp m (tmp_filename e) name LIBREWIN_MAX_PATH = 0
           then fat16_new_fat_item_for_directory_item e disk (read32 m directory + i * 32) m d
           else Some (f_item, m, d));
        fat16_find_loop e disk directory name f_item (i + 1) m d
      }
      else Some (f_item, m, d))"

definition fat16_find_item_in_directory ::
    "'d env \<Rightarrow> addr \<Rightarrow> addr \<Rightarrow> addr \<Rightarrow> mem \<Rightarrow> 'd \<Rightarrow> (addr \<times> mem \<times> 'd) option" where
  "fat16_find_item_in_directory e disk directory name m d = fat16_find_loop e disk directory name 0 0 m d"

section \<open>Opening and reading\<close>

partial_function (option) fat16_descend ::
    "'d env \<Rightarrow> addr \<Rightarrow> addr \<Rightarrow> addr \<Rightarrow> mem \<Rightarrow> 'd \<Rightarrow> (addr \<times> mem \<times> 'd) option" where
  "fat16_descend e disk current_item next_part m d =
     (if next_part \<noteq> 0
      then if read32 m (current_item + 4) \<noteq> FAT_ITEM_TYPE_DIRECTORY then Some (0, m, d)
           else do {
             (tmp_item, m, d) \<leftarrow>
               fat16_find_item_in_directory e disk (read32 m current_item) (read32 m next_part) m d;
             let m = fat16_fat_item_free (kernel_heap e) m current_item;
             fat16_descend e disk tmp_item (read32 m (next_part + 4)) m d
           }
      else Some (current_item, m, d))"

definition fat16_get_directory_entry :: "'d env \<Rightarrow> addr \<Rightarrow> addr \<Rightarrow> mem \<Rightarrow> 'd \<Rightarrow> (addr \<times> mem \<times> 'd) option" where
  "fat16_get_directory_entry e disk path m d = do {
     (root_item, m, d) \<leftarrow>
       fat16_find_item_in_directory e disk (fs_private m disk + 64) (read32 m path) m d;
     if root_item = 0 then Some (0, m, d)
     else fat16_descend e disk root_item (read32 m (path + 4)) m d
   }"

definition FILE_MODE_READ :: u32 where [status_defs]: "FILE_MODE_READ = 0"
definition FILE_MODE_WRITE :: u32 where [status_defs]: "FILE_MODE_WRITE = 1"
definition FILE_MODE_APPEND :: u32 where [status_defs]: "FILE_MODE_APPEND = 2"
definition FILE_MODE_INVALID :: u32 where [status_defs]: "FILE_MODE_INVALID = 3"

text \<open>\<open>ERROR(value)\<close> casts the value to a pointer.\<close>

definition fat16_open :: "'d env \<Rightarrow> addr \<Rightarrow> addr \<Rightarrow> u32 \<Rightarrow> mem \<Rightarrow> 'd \<Rightarrow> (addr \<times> mem \<times> 'd) option" where
  "fat16_open e disk path mode m d =
     (if mode \<noteq> FILE_MODE_READ then Some (- ERDONLY, m, d)
      else
        let (descriptor, m) = kzalloc (kernel_heap e) m 8 in
        if descriptor = 0 then Some (- ENOMEM, m, d)
        else do {
          (item, m, d) \<leftarrow> fat16_get_directory_entry e disk path m d;
          let m = write32 m descriptor item;
          if item = 0 then Some (- EIO, m, d)
          else Some (descriptor, write32 m (descriptor + 4) 0, d)
        })"

partial_function (option) fat16_read_loop ::
    "'d env \<Rightarrow> addr \<Rightarrow> addr \<Rightarrow> u32 \<Rightarrow> u32 \<Rightarrow> u32 \<Rightarrow> u32 \<Rightarrow> mem \<Rightarrow> 'd \<Rightarrow> (u32 \<times> byte list \<times> mem \<times> 'd) option" where
  "fat16_read_loop e disk item offset sz nmemb i m d =
     (if i < nmemb
      then do {
        (res, bs, m, d) \<leftarrow> fat16_read_internal e disk (fat16_get_first_cluster m item) offset sz m d;
        if ISERR res then Some (res, bs, m, d)
        else do {
          (res, rest, m, d) \<leftarrow> fat16_read_loop e disk item (offset + sz) sz nmemb (i + 1) m d;
          Some (res, bs @ rest, m, d)
        }
      }
      else Some (nmemb, [], m, d))"

text \<open>\<open>pos\<close> of the descriptor is read and never written.\<close>

definition fat16_read ::
    "'d env \<Rightarrow> addr \<Rightarrow> addr \<Rightarrow> u32 \<Rightarrow> u32 \<Rightarrow> mem \<Rightarrow> 'd \<Rightarrow> (u32 \<times> byte list \<times> mem \<times> 'd) option" where
  "fat16_read e disk descriptor sz nmemb m d =
     (let item = read32 m (read32 m descriptor); offset = read32 m (descriptor + 4)
      in fat16_read_loop e disk item offset sz nmemb 0 m d)"

section \<open>Reading within the first cluster\<close>

text \<open>A mounted volume: sectors of 512 bytes, \<open>spc\<close> sectors to the cluster, the data clusters from
  sector \<open>start\<close> on, and the stream for cluster reads on the disk.\<close>

definition mounted :: "'d env \<Rightarrow> mem \<Rightarrow> addr \<Rightarrow> nat \<Rightarrow> nat \<Rightarrow> bool" where
  "mounted e m disk spc start \<longleftrightarrow> disk = disk_addr e \<and> sector_size m disk = 512 \<and>
     sectors_per_cluster m (fs_private m disk) = word_of_nat spc \<and> 0 < spc \<and> spc \<le> 128 \<and>
     ending_sector_pos m (fs_private m disk) = word_of_nat start \<and>
     read32 m (read32 m (fs_private m disk + 80) + 4) = disk"

abbreviation cluster_stream :: "mem \<Rightarrow> addr \<Rightarrow> addr" where
  "cluster_stream m disk \<equiv> read32 m (fs_private m disk + 80)"

definition cluster_byte :: "nat \<Rightarrow> nat \<Rightarrow> nat \<Rightarrow> nat" where
  "cluster_byte spc start c = (start + (c - 2) * spc) * 512"

lemma fat16_get_cluster_first:
  assumes "size_of_cluster_bytes m disk = word_of_nat B" "off < B" "B < 2 ^ 31"
  shows "fat16_get_cluster_for_offset e disk c (word_of_nat off) m d = Some (c, m, d)"
proof -
  have "sdiv32 (word_of_nat off) (word_of_nat B) = 0" using assms(2,3) by (simp add: sdiv32_nat)
  then show ?thesis
    by (simp add: fat16_get_cluster_for_offset_def assms(1) fat16_walk_clusters.simps [of e disk 0 0])
qed

lemma fat16_read_internal_within:
  assumes ata: "ata_serves (ports_of e) idle phase img" and "idle d" and vol: "mounted e m disk spc start"
    and "2 \<le> c" "c < 2 ^ 31" "off + n \<le> spc * 512" "off < spc * 512" "cluster_byte spc start c + off + n < 2 ^ 31"
  shows "\<exists>d'. fat16_read_internal e disk (word_of_nat c) (word_of_nat off) (word_of_nat n) m d =
    Some (0, map (stream_byte (around_buf e) img (cluster_byte spc start c + off)) [0..<n],
      write32 m (cluster_stream m disk) (word_of_nat (cluster_byte spc start c + off + n)), d') \<and> idle d'"
proof -
  let ?B = "spc * 512" and ?s = "cluster_stream m disk" and ?P = "cluster_byte spc start c + off"
  let ?m = "write32 m ?s (word_of_nat ?P)"
  have v: "disk = disk_addr e" "sector_size m disk = 512" "sectors_per_cluster m (fs_private m disk) = word_of_nat spc"
    "0 < spc" "spc \<le> 128" "ending_sector_pos m (fs_private m disk) = word_of_nat start" "read32 m (?s + 4) = disk"
    using vol unfolding mounted_def by blast+
  have B: "size_of_cluster_bytes m disk = word_of_nat ?B" by (simp add: size_of_cluster_bytes_def v(2,3))
  have B31: "?B < 2 ^ 31" using v(5) by simp
  have n31: "n < 2 ^ 31" using assms(8) by simp
  note first = fat16_get_cluster_first [OF B assms(7) B31]
  have "word_of_nat c - 2 = (word_of_nat (c - 2) :: u32)" using assms(4) by (simp add: of_nat_diff)
  then have pos: "(fat16_cluster_to_sector m (fs_private m disk) (word_of_nat c) * sector_size m disk) + word_of_nat off = word_of_nat ?P"
    by (simp add: fat16_cluster_to_sector_def cluster_byte_def v(2,3,6))
  have off: "smod32 (word_of_nat off) (word_of_nat ?B) = word_of_nat off"
    using assms(7) B31 by (simp only: smod32_nat [OF less_trans [OF assms(7) B31] B31] mod_less)
  have c: "\<not> (word_of_nat c :: u32) <s 0"
    using assms(5) by (simp add: word_sless_alt sint_word_of_nat)
  have total: "\<not> (word_of_nat ?B :: u32) <s word_of_nat n"
    unfolding word_sless_alt sint_word_of_nat [OF B31] sint_word_of_nat [OF n31] using assms(6) by simp
  have "read32 ?m ?s = word_of_nat ?P" "read32 ?m (?s + 4) = disk" by (simp_all only: read32_write32 read32_write32_next v(7))
  moreover have "?P + n < 2 ^ 31" using assms(8) by simp
  ultimately obtain d' where read: "diskstreamer_read disk (ports_of e) (around_buf e) ?s (word_of_nat n) ?m d =
      Some (0, map (stream_byte (around_buf e) img ?P) [0..<n], write32 ?m ?s (word_of_nat (?P + n)), d')" "idle d'"
    using diskstreamer_read_works [OF ata assms(2)] by blast
  have read': "stream_read e ?s (word_of_nat n) ?m d =
      Some (0, map (stream_byte (around_buf e) img ?P) [0..<n], write32 ?m ?s (word_of_nat (?P + n)), d')"
    using read(1) by (simp only: v(1))
  have "fat16_read_internal e disk (word_of_nat c) (word_of_nat off) (word_of_nat n) m d =
      Some (0, map (stream_byte (around_buf e) img ?P) [0..<n], write32 m ?s (word_of_nat (?P + n)), d')"
    unfolding fat16_read_internal_def
      fat16_read_internal_from_stream.simps [of e disk ?s "word_of_nat c" "word_of_nat off" "word_of_nat n" m d]
    using c total read'
    by (simp only: Let_def B first off Option.bind.bind_lunit prod.case if_False pos diskstreamer_seek_def)
      (simp add: LIBREWIN_ALL_OK_def write32_write32)
  then show ?thesis using read(2) by blast
qed

text \<open>The whole read of one member, through the descriptor.\<close>

lemma fat16_read_within:
  assumes "ata_serves (ports_of e) idle phase img" "idle d" "mounted e m disk spc start"
    and "fat16_get_first_cluster m (read32 m (read32 m descriptor)) = word_of_nat c" "2 \<le> c" "c < 2 ^ 31"
    and "read32 m (descriptor + 4) = word_of_nat off"
    and "off + n \<le> spc * 512" "off < spc * 512" "cluster_byte spc start c + off + n < 2 ^ 31"
  shows "\<exists>d'. fat16_read e disk descriptor (word_of_nat n) 1 m d =
    Some (1, map (stream_byte (around_buf e) img (cluster_byte spc start c + off)) [0..<n],
      write32 m (cluster_stream m disk) (word_of_nat (cluster_byte spc start c + off + n)), d') \<and> idle d'"
proof -
  from fat16_read_internal_within [OF assms(1-3,5,6,8-10)]
  obtain d' where d': "fat16_read_internal e disk (word_of_nat c) (word_of_nat off) (word_of_nat n) m d =
      Some (0, map (stream_byte (around_buf e) img (cluster_byte spc start c + off)) [0..<n],
        write32 m (cluster_stream m disk) (word_of_nat (cluster_byte spc start c + off + n)), d')" "idle d'" by blast
  have last: "fat16_read_loop e disk item off sz 1 1 m d = Some (1, [], m, d)" for item off sz m d
    by (simp add: fat16_read_loop.simps [of e disk item off sz 1 1])
  show ?thesis
    unfolding fat16_read_def Let_def assms(7)
      fat16_read_loop.simps [of e disk "read32 m (read32 m descriptor)" "word_of_nat off" "word_of_nat n" 1 0] assms(4)
    using d' last by (simp add: ISERR_def)
qed

section \<open>The file allocation table\<close>

lemma fat16_get_fat_entry_reads:
  assumes ata: "ata_serves (ports_of e) idle phase img" and "idle d" and "disk = disk_addr e" "sector_size m disk = 512"
    and stream: "read32 m (fs_private m disk + 84) = s" "s \<noteq> 0" "read32 m (s + 4) = disk"
    and table: "reserved_sectors m (fs_private m disk) = word_of_nat r"
    and P: "P = r * 512 * (c * 2)" "P + 2 < 2 ^ 31"
  shows "\<exists>d'. fat16_get_fat_entry e disk (word_of_nat c) m d =
    Some (ucast (img P) OR push_bit 8 (ucast (img (P + 1))), write32 m s (word_of_nat (P + 2)), d') \<and> idle d'"
proof -
  let ?m = "write32 m s (word_of_nat P)"
  have "read32 ?m s = word_of_nat P" "read32 ?m (s + 4) = disk" by (simp_all only: read32_write32 read32_write32_next stream(3))
  from diskstreamer_read_works [OF ata assms(2) this P(2), of "around_buf e"] obtain d' where
    read: "stream_read e s (word_of_nat 2) ?m d =
      Some (0, map (stream_byte (around_buf e) img P) [0..<2], write32 ?m s (word_of_nat (P + 2)), d')" "idle d'"
    unfolding assms(3) by blast
  have "P mod 512 = 0" unfolding P(1) by (simp add: mult.commute [of _ 512] mult.assoc)
  then have bytes: "map (stream_byte (around_buf e) img P) [0..<2] = [img P, img (P + 1)]"
    by (simp add: stream_byte_def upt_rec [of _ 2] upt_rec [of _ "Suc _"] numeral_2_eq_2)
  have pos: "fat16_get_first_fat_sector m (fs_private m disk) * sector_size m disk *
      (word_of_nat c * LIBREWIN_FAT16_FAT_ENTRY_SIZE) = word_of_nat P"
    by (simp add: fat16_get_first_fat_sector_def assms(4) table P(1) LIBREWIN_FAT16_FAT_ENTRY_SIZE_def)
  show ?thesis
    unfolding fat16_get_fat_entry_def Let_def stream(1) pos diskstreamer_seek_def
    using stream(2) read by (simp add: bytes write32_write32)
qed

section \<open>Names on the disk\<close>

text \<open>A field is read up to a null or a space.\<close>

fun field_at :: "mem \<Rightarrow> addr \<Rightarrow> byte list \<Rightarrow> bool" where
  "field_at m p [] \<longleftrightarrow> m p = 0 \<or> m p = 0x20"
| "field_at m p (c # cs) \<longleftrightarrow> c \<noteq> 0 \<and> c \<noteq> 0x20 \<and> m p = c \<and> field_at m (p + 1) cs"

lemma field_at_cong:
  "field_at m p s \<Longrightarrow> (\<And>i. i \<le> length s \<Longrightarrow> m' (p + word_of_nat i) = m (p + word_of_nat i)) \<Longrightarrow> field_at m' p s"
proof (induction s arbitrary: p)
  case Nil
  then show ?case using Nil.prems(2) [of 0] by simp
next
  case (Cons c s)
  have "m' (p + 1 + word_of_nat i) = m (p + 1 + word_of_nat i)" if "i \<le> length s" for i
    using Cons.prems(2) [of "Suc i"] that by (simp add: ac_simps)
  then show ?case using Cons.IH [of "p + 1"] Cons.prems(1) Cons.prems(2) [of 0] by simp
qed

lemma field_nonzero: "field_at m p s \<Longrightarrow> 0 \<notin> set s"
  by (induction s arbitrary: p) auto

lemma fat16_proper_copy_field:
  "field_at m inp s \<Longrightarrow> apart out (length s) inp (Suc (length s)) \<Longrightarrow>
   fat16_proper_copy m out inp = Some (out + word_of_nat (length s), inp + word_of_nat (length s), write_bytes m out s)"
proof (induction s arbitrary: m out inp)
  case Nil
  then show ?case by (auto simp: fat16_proper_copy.simps [of m out inp])
next
  case (Cons c s)
  have far: "inp + 1 + word_of_nat i \<noteq> out" if "i \<le> length s" for i
    using apartD [OF Cons.prems(2), of 0 "Suc i"] that by (auto simp: add.assoc)
  have "field_at m (inp + 1) s" using Cons.prems(1) by simp
  then have "field_at (m(out := c)) (inp + 1) s" by (rule field_at_cong) (rule fun_upd_other [OF far])
  moreover have "apart (out + 1) (length s) (inp + 1) (Suc (length s))"
    using Cons.prems(2) by (intro apart_Suc_left apart_Suc_right) simp
  ultimately have IH: "fat16_proper_copy (m(out := c)) (out + 1) (inp + 1) =
      Some (out + 1 + word_of_nat (length s), inp + 1 + word_of_nat (length s), write_bytes (m(out := c)) (out + 1) s)"
    by (rule Cons.IH)
  have c: "m inp = c" "c \<noteq> 0 \<and> c \<noteq> 0x20" using Cons.prems(1) by simp_all
  show ?case
    unfolding fat16_proper_copy.simps [of m out inp] c(1) if_P [OF c(2)] IH by (simp add: add.assoc)
qed

lemma fat16_to_proper_string_field:
  assumes "field_at m inp s" "apart out (length s) inp (Suc (length s))" "length s < 2 ^ 32"
    and "m (out + word_of_nat (length s)) = 0" "field_at (write_bytes m out s) inp s"
  shows "fat16_to_proper_string m out inp = Some (out + word_of_nat (length s), write_bytes m out s)"
proof -
  have "\<not> in_range out (length s) (out + word_of_nat (length s))"
    using assms(3) by (simp add: in_range_def unat_of_nat)
  then have "write_bytes m out s (out + word_of_nat (length s)) = 0"
    using assms(3,4) by (simp add: write_bytes_other)
  then have "(write_bytes m out s)(out + word_of_nat (length s) := 0) = write_bytes m out s"
    by (metis fun_upd_triv)
  then show ?thesis
    using fat16_proper_copy_field [OF assms(1,2)] by (simp add: fat16_to_proper_string_def)
qed

text \<open>The name of an item: the first field, and the second after a dot unless it is empty. For a
  name that fills its 8 bytes the first field runs on into the extension.\<close>

definition display_name :: "byte list \<Rightarrow> byte list \<Rightarrow> byte list" where
  "display_name s t = s @ (if t = [] then [] else 0x2E # t)"

lemma fat16_full_name:
  assumes "field_at m item s" "field_at m (item + 8) t" "length s \<le> 23" "length t \<le> 23"
    and far: "apart out 108 item 32"
  shows "\<exists>m'. fat16_get_full_relative_filename m item out 108 = Some m' \<and> cstr m' out (display_name s t) \<and>
    (\<forall>a. \<not> in_range out 108 a \<longrightarrow> m' a = m a)"
proof -
  define m0 where "m0 = memset m out 0 108"
  have out: "in_range out 108 (out + word_of_nat i)" if "i < 108" for i
    using that by (intro in_range_offset) simp_all
  have zero: "m0 (out + word_of_nat i) = 0" if "i < 108" for i
    using out [OF that] by (simp add: m0_def memset_apply)
  have item: "\<not> in_range out 108 (item + word_of_nat i)" if "i < 32" for i
    using that far by (intro apart_notin) (simp_all add: apart_sym)
  have keep: "write_bytes m0 out w (item + word_of_nat i) = m (item + word_of_nat i)" if "length w \<le> 108" "i < 32" for w i
  proof -
    have "\<not> in_range out (length w) (item + word_of_nat i)"
      using item [OF that(2)] that(1) by (auto simp: in_range_def)
    then show ?thesis using that item [OF that(2)] by (simp add: write_bytes_other m0_def memset_apply)
  qed
  have s: "field_at (write_bytes m0 out w) item s" if "length w \<le> 108" for w
    by (rule field_at_cong [OF assms(1)], rule keep) (use that assms(3) in simp_all)
  have t: "field_at (write_bytes m0 out w) (item + 8) t" if "length w \<le> 108" for w
  proof (rule field_at_cong [OF assms(2)])
    fix i assume "i \<le> length t"
    then show "write_bytes m0 out w (item + 8 + word_of_nat i) = m (item + 8 + word_of_nat i)"
      using keep [OF that, of "8 + i"] assms(4) by (simp add: add.assoc)
  qed
  have apart_s: "apart out (length s) item (Suc (length s))" using assms(3) by (intro apart_mono [OF far]) simp_all
  have first: "fat16_to_proper_string m0 out item = Some (out + word_of_nat (length s), write_bytes m0 out s)"
    using s [of "[]"] s [of s] assms(3) zero by (intro fat16_to_proper_string_field apart_s) simp_all
  let ?m1 = "write_bytes m0 out s"
  have ext: "?m1 (item + 8) \<noteq> 0 \<and> ?m1 (item + 8) \<noteq> 0x20 \<longleftrightarrow> t \<noteq> []"
    using t [of s] assms(3) by (cases t) auto
  have tail: "write_bytes m0 out w (out + word_of_nat (length w)) = 0" if "length w < 108" for w
    using zero [OF that] that by (subst write_bytes_other) (simp_all add: in_range_def unat_of_nat)
  have str: "cstr (write_bytes m0 out w) out w" if "length w < 108" "0 \<notin> set w" for w
    using that tail [OF that(1)] bytes_write_bytes [of w m0 out] by (simp add: cstr_iff)
  have frame: "write_bytes m0 out w a = m a" if "length w < 108" "\<not> in_range out 108 a" for w a
    using that by (subst write_bytes_other) (auto simp: in_range_def m0_def memset_apply)
  have run: "fat16_get_full_relative_filename m item out 108 =
      (if t \<noteq> [] then fat16_to_proper_string (?m1(out + word_of_nat (length s) := 0x2E))
         (out + word_of_nat (length s) + 1) (item + 8) \<bind> (\<lambda>(out_tmp, m). Some m) else Some ?m1)"
    unfolding fat16_get_full_relative_filename_def Let_def m0_def [symmetric]
    by (simp only: first Option.bind.bind_lunit prod.case ext)
  show ?thesis
  proof (cases "t = []")
    case True
    then show ?thesis
      unfolding run using str [of s] frame [of s] field_nonzero [OF assms(1)] assms(3) by (simp add: display_name_def)
  next
    case False
    let ?out = "out + word_of_nat (length s) + 1" and ?m2 = "write_bytes m0 out (s @ [0x2E])"
    have m2: "?m1(out + word_of_nat (length s) := 0x2E) = ?m2" by (simp add: write_bytes_append)
    have all: "write_bytes ?m2 ?out w = write_bytes m0 out (s @ 0x2E # w)" for w
      using write_bytes_append [of m0 out "s @ [0x2E]" w] by (simp add: ac_simps)
    have "fat16_to_proper_string ?m2 ?out (item + 8) = Some (?out + word_of_nat (length t), write_bytes ?m2 ?out t)"
    proof (rule fat16_to_proper_string_field)
      show "field_at ?m2 (item + 8) t" by (rule t) (use assms(3) in simp)
      show "apart ?out (length t) (item + 8) (Suc (length t))"
        unfolding apart_def
      proof (intro allI impI)
        fix i j assume "i < length t" "j < Suc (length t)"
        then have "out + word_of_nat (length s + 1 + i) \<noteq> item + word_of_nat (8 + j)"
          using assms(3,4) by (intro apartD [OF far]) simp_all
        then show "?out + word_of_nat i \<noteq> item + 8 + word_of_nat j" by (simp add: ac_simps)
      qed
      show "?m2 (?out + word_of_nat (length t)) = 0"
      proof -
        have eq: "?out + word_of_nat (length t) = out + word_of_nat (length s + 1 + length t)" by (simp add: ac_simps)
        have "unat (word_of_nat (length s + 1 + length t) :: u32) = length s + 1 + length t"
          using assms(3,4) by (intro unat_word_of_nat) simp
        then have "\<not> in_range out (length (s @ [0x2E])) (out + word_of_nat (length s + 1 + length t))"
          by (simp only: in_range_def add_diff_cancel_left') simp
        then show ?thesis
          unfolding eq using assms(3,4) zero [of "length s + 1 + length t"] by (subst write_bytes_other) simp_all
      qed
      show "field_at (write_bytes ?m2 ?out t) (item + 8) t"
        unfolding all by (rule t) (use assms(3,4) in simp)
    qed (use assms(4) in simp)
    then show ?thesis
      unfolding run m2
      using False str [of "s @ 0x2E # t"] frame [of "s @ 0x2E # t"] field_nonzero [OF assms(1)] field_nonzero [OF assms(2)] assms(3,4)
      by (simp add: display_name_def all)
  qed
qed

section \<open>An example\<close>

text \<open>A volume mounted by hand: the disk at \<open>0x5000\<close>, its private data at \<open>0x6000\<close>, the streams at
  \<open>0x7000\<close> and \<open>0x7100\<close>, a descriptor table at \<open>0x8000\<close> with one open file, whose item at \<open>0xC000\<close>
  starts in cluster 5.\<close>

definition example_volume :: mem where
  "example_volume = (\<lambda>_. 0)(0x5005 := 2, 0x5011 := 0x60, 0x600D := 4, 0x600E := 1, 0x604C := 100, 0x6051 := 0x70, 0x6055 := 0x71,
     0x7005 := 0x50, 0x7105 := 0x50, 0x8001 := 0x90, 0x9004 := 0x34, 0x900D := 0x50, 0x9009 := 0xA0, 0xA001 := 0xB0, 0xB001 := 0xC0,
     0xC01A := 5)"

definition example_env :: "(nat \<times> nat) env" where
  "example_env = \<lparr>kernel_heap = \<lparr>table = \<lparr>entries = 0, total = 0\<rparr>, saddr = 0\<rparr>, disk_addr = 0x5000, fat16_fs = 0x1200,
     tmp_filename = 0x3000, ports_of = example_ata, around_buf = (\<lambda>_. 0)\<rparr>"

lemma example_words:
  "read32 example_volume 0x5004 = 512" "read32 example_volume 0x5010 = 0x6000" "read32 example_volume 0x604C = 100"
  "read32 example_volume 0x6050 = 0x7000" "read32 example_volume 0x7004 = 0x5000" "read32 example_volume 0x8000 = 0x9000"
  "read32 example_volume 0x9004 = 0x34" "read32 example_volume 0x900C = 0x5000" "read32 example_volume 0x9008 = 0xA000"
  "read32 example_volume 0xA000 = 0xB000" "read32 example_volume 0xA004 = 0" "read32 example_volume 0xB000 = 0xC000"
  "read32 example_volume 0x6054 = 0x7100" "read32 example_volume 0x7104 = 0x5000"
  "read16 example_volume 0xC014 = 0" "read16 example_volume 0xC01A = 5" "read16 example_volume 0x600E = 1"
  "example_volume 0x600D = 4"
  by (simp_all add: example_volume_def read32_def read16_def)

lemma example_mounted: "mounted example_env example_volume 0x5000 4 100"
  by (simp add: mounted_def example_env_def sector_size_def sectors_per_cluster_def fs_private_def ending_sector_pos_def
    example_words)

section \<open>Properties\<close>

text \<open>\<open>fat16_get_fat_entry\<close> delivers the two bytes at the product of the position of the table,
  \<open>r * 512\<close>, and the offset of the entry in it, \<open>2 * c\<close>: it takes the place of their sum.\<close>

theorem fat16_get_fat_entry_position:
  assumes "ata_serves (ports_of e) idle phase img" "idle d" "disk = disk_addr e" "sector_size m disk = 512"
    and "read32 m (fs_private m disk + 84) = s" "s \<noteq> 0" "read32 m (s + 4) = disk"
    and "reserved_sectors m (fs_private m disk) = word_of_nat r" "r * 512 * (c * 2) + 2 < 2 ^ 31"
  shows "\<exists>d'. fat16_get_fat_entry e disk (word_of_nat c) m d =
    Some (ucast (img (r * 512 * (c * 2))) OR push_bit 8 (ucast (img (r * 512 * (c * 2) + 1))),
      write32 m s (word_of_nat (r * 512 * (c * 2) + 2)), d') \<and> idle d'"
  by (rule fat16_get_fat_entry_reads [OF assms(1-8) refl assms(9)])

theorem fat16_get_fat_entry_position_witness:
  "\<exists>d'. fat16_get_fat_entry example_env 0x5000 (word_of_nat 5) example_volume (0, 0) =
    Some (ucast (example_img 5120) OR push_bit 8 (ucast (example_img 5121)),
      write32 example_volume 0x7100 (word_of_nat 5122), d')"
proof -
  have "reserved_sectors example_volume (fs_private example_volume 0x5000) = word_of_nat 1"
    "read32 example_volume (fs_private example_volume 0x5000 + 84) = 0x7100" "read32 example_volume (0x7100 + 4) = 0x5000"
    "sector_size example_volume 0x5000 = 512"
    by (simp_all add: reserved_sectors_def fs_private_def sector_size_def example_words)
  moreover have "ports_of example_env = example_ata" "0x5000 = disk_addr example_env" "snd (0 :: nat, 0 :: nat) = 0"
    by (simp_all add: example_env_def)
  ultimately show ?thesis
    using fat16_get_fat_entry_position [where e = example_env and d = "(0, 0)" and disk = "0x5000" and m = example_volume
      and s = "0x7100" and r = 1 and c = 5, unfolded \<open>ports_of example_env = example_ata\<close>, OF example_ata_serves]
    by auto
qed

text \<open>C29: the name \<open>fat16_get_full_relative_filename\<close> builds for an item. A field is read up to
  its first space: a base name of less than 8 characters and its extension are joined with a dot.
  A base name that fills its 8 bytes is read on into the extension, which then appears twice.\<close>

theorem fat16_item_name:
  assumes "field_at m (item + 8) ext" "length ext \<le> 3" "apart out 108 item 32" "length base \<le> 8"
    and "if length base < 8 then field_at m item base else field_at m item (base @ ext)"
  shows "\<exists>m'. fat16_get_full_relative_filename m item out 108 = Some m' \<and>
    cstr m' out ((if length base < 8 then base else base @ ext) @ (if ext = [] then [] else 0x2E # ext))"
proof (cases "length base < 8")
  case True
  then show ?thesis
    using fat16_full_name [OF _ assms(1) _ _ assms(3), of base] assms(2,5) by (auto simp: display_name_def)
next
  case False
  then show ?thesis
    using fat16_full_name [OF _ assms(1) _ _ assms(3), of "base @ ext"] assms(2,4,5) by (auto simp: display_name_def)
qed

text \<open>The item \<open>KERNEL32.DLL\<close>, with the attribute byte \<open>0x20\<close> of an ordinary file.\<close>

definition example_item :: mem where
  "example_item = write_bytes (\<lambda>_. 0) 0x1000 [0x4B, 0x45, 0x52, 0x4E, 0x45, 0x4C, 0x33, 0x32, 0x44, 0x4C, 0x4C, 0x20]"

theorem fat16_item_name_witness:
  "\<exists>m'. fat16_get_full_relative_filename example_item 0x1000 0x2000 108 = Some m' \<and>
    cstr m' 0x2000 [0x4B, 0x45, 0x52, 0x4E, 0x45, 0x4C, 0x33, 0x32, 0x44, 0x4C, 0x4C, 0x2E, 0x44, 0x4C, 0x4C]"
proof -
  have far: "apart 0x2000 108 0x1000 32"
    unfolding apart_def
  proof (intro allI impI)
    fix i j :: nat assume "i < 108" "j < 32"
    then have "(word_of_nat (0x2000 + i) :: u32) \<noteq> word_of_nat (0x1000 + j)" by (subst word_of_nat_inject_u32) simp_all
    then show "0x2000 + word_of_nat i \<noteq> (0x1000 :: u32) + word_of_nat j" by simp
  qed
  have "field_at example_item (0x1000 + 8) [0x44, 0x4C, 0x4C]"
    "field_at example_item 0x1000 ([0x4B, 0x45, 0x52, 0x4E, 0x45, 0x4C, 0x33, 0x32] @ [0x44, 0x4C, 0x4C])"
    by (simp_all add: example_item_def)
  then show ?thesis
    using fat16_item_name [OF _ _ far, of example_item "[0x44, 0x4C, 0x4C]" "[0x4B, 0x45, 0x52, 0x4E, 0x45, 0x4C, 0x33, 0x32]"]
    by simp
qed

end
