(* ===== verification/Vfs.thy ===== *)
theory Vfs
  imports Fat16
begin

text \<open>
  \<^verbatim>\<open>ke/fs/file.c\<close>: the virtual file system, and \<open>DiskInit\<close> of \<^verbatim>\<open>ke/disk/disk.c\<close>. The two global
  arrays are pointers in memory. A \<open>struct filesystem\<close> holds three function pointers; \<open>ops\<close> gives
  the functions behind the structure at an address. \<open>struct file_descriptor\<close> has \<open>index\<close>,
  \<open>filesystem\<close>, \<open>private\<close> and \<open>disk\<close> at 0, 4, 8 and 12.
\<close>

section \<open>State and interface\<close>

record 'd fs_ops =
  resolve :: "addr \<Rightarrow> mem \<Rightarrow> 'd \<Rightarrow> (u32 \<times> mem \<times> 'd) option"
  fs_open :: "addr \<Rightarrow> addr \<Rightarrow> u32 \<Rightarrow> mem \<Rightarrow> 'd \<Rightarrow> (addr \<times> mem \<times> 'd) option"
  fs_read :: "addr \<Rightarrow> addr \<Rightarrow> u32 \<Rightarrow> u32 \<Rightarrow> mem \<Rightarrow> 'd \<Rightarrow> (u32 \<times> byte list \<times> mem \<times> 'd) option"

record vfs =
  filesystems :: addr
  file_descriptors :: addr

definition LIBREWIN_MAX_FILESYSTEMS :: nat where [status_defs]: "LIBREWIN_MAX_FILESYSTEMS = 12"
definition LIBREWIN_MAX_FILE_DESCRIPTORS :: nat where [status_defs]: "LIBREWIN_MAX_FILE_DESCRIPTORS = 512"

text \<open>The one file system of the kernel.\<close>

definition fat16_ops :: "'d env \<Rightarrow> 'd fs_ops" where
  "fat16_ops e = \<lparr>resolve = fat16_resolve e, fs_open = fat16_open e, fs_read = fat16_read e\<rparr>"

section \<open>File systems\<close>

text \<open>The address of the first null entry of \<open>filesystems\<close>, or 0.\<close>

fun fs_free_from :: "mem \<Rightarrow> addr \<Rightarrow> nat \<Rightarrow> nat \<Rightarrow> addr" where
  "fs_free_from m a i 0 = 0"
| "fs_free_from m a i (Suc n) =
     (if read32 m (a + 4 * word_of_nat i) = 0 then a + 4 * word_of_nat i else fs_free_from m a (Suc i) n)"

definition fs_get_free_filesystem :: "vfs \<Rightarrow> mem \<Rightarrow> addr" where
  "fs_get_free_filesystem v m = fs_free_from m (filesystems v) 0 LIBREWIN_MAX_FILESYSTEMS"

text \<open>With no entry left the function prints a message and loops for ever.\<close>

definition fs_insert_filesystem :: "vfs \<Rightarrow> mem \<Rightarrow> addr \<Rightarrow> mem option" where
  "fs_insert_filesystem v m filesystem =
     (let fs = fs_get_free_filesystem v m in if fs = 0 then None else Some (write32 m fs filesystem))"

text \<open>\<open>strcpy(fat16_fs.name, "FAT16")\<close>; the name is at offset 12.\<close>

definition fat16_init :: "'d env \<Rightarrow> mem \<Rightarrow> addr \<times> mem" where
  "fat16_init e m = (fat16_fs e, write_bytes m (fat16_fs e + 12) [0x46, 0x41, 0x54, 0x31, 0x36, 0])"

definition fs_static_load :: "'d env \<Rightarrow> vfs \<Rightarrow> mem \<Rightarrow> mem option" where
  "fs_static_load e v m = (let (fs, m) = fat16_init e m in fs_insert_filesystem v m fs)"

definition fs_load :: "'d env \<Rightarrow> vfs \<Rightarrow> mem \<Rightarrow> mem option" where
  "fs_load e v m = fs_static_load e v (memset m (filesystems v) 0 48)"

definition fs_init :: "'d env \<Rightarrow> vfs \<Rightarrow> mem \<Rightarrow> mem option" where
  "fs_init e v m = fs_load e v (memset m (file_descriptors v) 0 2048)"

text \<open>The result is the file system, the memory and the controller.\<close>

fun fs_resolve_from ::
    "(addr \<Rightarrow> 'd fs_ops) \<Rightarrow> addr \<Rightarrow> addr \<Rightarrow> nat \<Rightarrow> nat \<Rightarrow> mem \<Rightarrow> 'd \<Rightarrow> (addr \<times> mem \<times> 'd) option" where
  "fs_resolve_from ops a disk i 0 m d = Some (0, m, d)"
| "fs_resolve_from ops a disk i (Suc n) m d =
     (let fs = read32 m (a + 4 * word_of_nat i) in
      if fs \<noteq> 0
      then do {
        (res, m, d) \<leftarrow> resolve (ops fs) disk m d;
        if res = 0 then Some (read32 m (a + 4 * word_of_nat i), m, d)
        else fs_resolve_from ops a disk (Suc i) n m d
      }
      else fs_resolve_from ops a disk (Suc i) n m d)"

definition fs_resolve :: "(addr \<Rightarrow> 'd fs_ops) \<Rightarrow> vfs \<Rightarrow> addr \<Rightarrow> mem \<Rightarrow> 'd \<Rightarrow> (addr \<times> mem \<times> 'd) option" where
  "fs_resolve ops v disk m d = fs_resolve_from ops (filesystems v) disk 0 LIBREWIN_MAX_FILESYSTEMS m d"

definition LIBREWIN_DISK_TYPE_REAL :: u32 where [status_defs]: "LIBREWIN_DISK_TYPE_REAL = 0"

definition DiskInit :: "(addr \<Rightarrow> 'd fs_ops) \<Rightarrow> vfs \<Rightarrow> addr \<Rightarrow> mem \<Rightarrow> 'd \<Rightarrow> (mem \<times> 'd) option" where
  "DiskInit ops v disk m d = do {
     let m = memset m disk 0 20;
     let m = write32 m disk LIBREWIN_DISK_TYPE_REAL;
     let m = write32 m (disk + 4) LIBREWIN_SECTOR_SIZE;
     (fs, m, d) \<leftarrow> fs_resolve ops v disk m d;
     let m = write32 m (disk + 12) fs;
     Some (write32 m (disk + 8) 0, d)
   }"

section \<open>Descriptors\<close>

text \<open>The status, \<open>*desc_out\<close> and the memory.\<close>

fun file_new_from :: "heap \<Rightarrow> addr \<Rightarrow> nat \<Rightarrow> nat \<Rightarrow> mem \<Rightarrow> u32 \<times> addr \<times> mem" where
  "file_new_from kh a i 0 m = (- ENOMEM, 0, m)"
| "file_new_from kh a i (Suc n) m =
     (if read32 m (a + 4 * word_of_nat i) = 0
      then let (desc, m) = kzalloc kh m 16;
               m = write32 m desc (word_of_nat i + 1)
           in (0, desc, write32 m (a + 4 * word_of_nat i) desc)
      else file_new_from kh a (Suc i) n m)"

definition file_new_descriptor :: "heap \<Rightarrow> vfs \<Rightarrow> mem \<Rightarrow> u32 \<times> addr \<times> mem" where
  "file_new_descriptor kh v m = file_new_from kh (file_descriptors v) 0 LIBREWIN_MAX_FILE_DESCRIPTORS m"

definition file_get_descriptor :: "vfs \<Rightarrow> mem \<Rightarrow> u32 \<Rightarrow> addr" where
  "file_get_descriptor v m fd =
     (if fd \<le>s 0 \<or> word_of_nat LIBREWIN_MAX_FILE_DESCRIPTORS \<le>s fd then 0
      else let index = fd - 1 in read32 m (file_descriptors v + 4 * index))"

text \<open>\<open>strncmp(str, "r", 1)\<close> is 0 when the first character is \<open>r\<close>.\<close>

definition file_get_mode_by_string :: "mem \<Rightarrow> addr \<Rightarrow> u32" where
  "file_get_mode_by_string m str =
     (if m str = 0x72 then FILE_MODE_READ
      else if m str = 0x77 then FILE_MODE_WRITE
      else if m str = 0x61 then FILE_MODE_APPEND
      else FILE_MODE_INVALID)"

definition fopen_status ::
    "'d env \<Rightarrow> (addr \<Rightarrow> 'd fs_ops) \<Rightarrow> vfs \<Rightarrow> addr \<Rightarrow> addr \<Rightarrow> mem \<Rightarrow> 'd \<Rightarrow> (u32 \<times> mem \<times> 'd) option" where
  "fopen_status e ops v filename mode_str m d = do {
     (root_path, m) \<leftarrow> pathparser_parse (kernel_heap e) m filename;
     if root_path = 0 then Some (- EINVARG, m, d)
     else if read32 m (root_path + 4) = 0 then Some (- EINVARG, m, d)
     else
       let disk = GetDisk (disk_addr e) (read32 m root_path) in
       if disk = 0 then Some (- EIO, m, d)
       else if read32 m (disk + 12) = 0 then Some (- EIO, m, d)
       else
         let mode = file_get_mode_by_string m mode_str in
         if mode = FILE_MODE_INVALID then Some (- EINVARG, m, d)
         else do {
           (data, m, d) \<leftarrow> fs_open (ops (read32 m (disk + 12))) disk (read32 m (root_path + 4)) mode m d;
           if ISERR data then Some (data, m, d)
           else
             let (res, desc, m) = file_new_descriptor (kernel_heap e) v m in
             if res <s 0 then Some (res, m, d)
             else
               let m = write32 m (desc + 4) (read32 m (disk + 12));
                   m = write32 m (desc + 8) data;
                   m = write32 m (desc + 12) disk
               in Some (read32 m desc, m, d)
         }
   }"

definition fopen ::
    "'d env \<Rightarrow> (addr \<Rightarrow> 'd fs_ops) \<Rightarrow> vfs \<Rightarrow> addr \<Rightarrow> addr \<Rightarrow> mem \<Rightarrow> 'd \<Rightarrow> (u32 \<times> mem \<times> 'd) option" where
  "fopen e ops v filename mode_str m d = do {
     (res, m, d) \<leftarrow> fopen_status e ops v filename mode_str m d;
     Some (if res <s 0 then 0 else res, m, d)
   }"

text \<open>The status, the bytes stored from \<open>ptr\<close> on, the memory and the controller.\<close>

definition fread ::
    "(addr \<Rightarrow> 'd fs_ops) \<Rightarrow> vfs \<Rightarrow> u32 \<Rightarrow> u32 \<Rightarrow> u32 \<Rightarrow> mem \<Rightarrow> 'd \<Rightarrow> (u32 \<times> byte list \<times> mem \<times> 'd) option" where
  "fread ops v sz nmemb fd m d =
     (if sz = 0 \<or> nmemb = 0 \<or> fd <s 1 then Some (- EINVARG, [], m, d)
      else
        let desc = file_get_descriptor v m fd in
        if desc = 0 then Some (- EINVARG, [], m, d)
        else fs_read (ops (read32 m (desc + 4))) (read32 m (desc + 12)) (read32 m (desc + 8)) sz nmemb m d)"

section \<open>A descriptor is found again\<close>

lemma file_new_from_first:
  assumes "read32 m (a + 4 * word_of_nat (j + k)) = 0" "k < n"
    and "\<And>i. i < k \<Longrightarrow> read32 m (a + 4 * word_of_nat (j + i)) \<noteq> 0"
  shows "file_new_from kh a j n m = (let (desc, m) = kzalloc kh m 16;
      m = write32 m desc (word_of_nat (j + k) + 1) in (0, desc, write32 m (a + 4 * word_of_nat (j + k)) desc))"
  using assms
proof (induction n arbitrary: j k)
  case (Suc n)
  show ?case
  proof (cases k)
    case 0
    then show ?thesis using Suc.prems(1) by simp
  next
    case (Suc k')
    have "read32 m (a + 4 * word_of_nat j) \<noteq> 0" using Suc.prems(3) [of 0] Suc by simp
    moreover have "read32 m (a + 4 * word_of_nat (Suc j + i)) \<noteq> 0" if "i < k'" for i
      using Suc.prems(3) [of "Suc i"] that Suc by simp
    ultimately show ?thesis
      using Suc.IH [where j = "Suc j" and k = k'] Suc.prems(1,2) Suc by simp
  qed
qed simp

lemma file_new_from_full:
  "(\<And>i. i < n \<Longrightarrow> read32 m (a + 4 * word_of_nat (j + i)) \<noteq> 0) \<Longrightarrow> file_new_from kh a j n m = (- ENOMEM, 0, m)"
proof (induction n arbitrary: j)
  case (Suc n)
  have "read32 m (a + 4 * word_of_nat j) \<noteq> 0" using Suc.prems [of 0] by simp
  moreover have "file_new_from kh a (Suc j) n m = (- ENOMEM, 0, m)"
  proof (rule Suc.IH)
    fix i assume "i < n"
    then show "read32 m (a + 4 * word_of_nat (Suc j + i)) \<noteq> 0" using Suc.prems [of "Suc i"] by simp
  qed
  ultimately show ?case by simp
qed simp

lemma file_new_descriptor_works:
  assumes live: "kheap_live kh m L (Suc k)" and kept: "\<And>i. i < 2048 \<Longrightarrow> kept kh L (file_descriptors v + word_of_nat i)"
    and free: "i < 512" "read32 m (file_descriptors v + 4 * word_of_nat i) = 0"
      "\<And>j. j < i \<Longrightarrow> read32 m (file_descriptors v + 4 * word_of_nat j) \<noteq> 0"
  shows "\<exists>desc m'. file_new_descriptor kh v m = (0, desc, m') \<and> desc \<noteq> 0 \<and> L desc = None \<and>
    kheap_live kh m' (L(desc \<mapsto> 4096)) k \<and> read32 m' desc = word_of_nat (Suc i) \<and>
    read32 m' (file_descriptors v + 4 * word_of_nat i) = desc \<and>
    (\<forall>a. kept kh L a \<and> \<not> in_range (file_descriptors v + 4 * word_of_nat i) 4 a \<longrightarrow> m' a = m a)"
proof -
  let ?a = "file_descriptors v"
  obtain desc m1 where alloc: "kzalloc kh m 16 = (desc, m1)" by fastforce
  have sz: "(0 :: u32) < 16" "(16 :: u32) \<le> 4096" by simp_all
  note A = kh.alloc_page [OF live sz alloc]
  let ?m = "write32 (write32 m1 desc (word_of_nat i + 1)) (?a + 4 * word_of_nat i) desc"
  have run: "file_new_descriptor kh v m = (0, desc, ?m)"
    using file_new_from_first [of m ?a 0 i 512 kh] free alloc
    by (simp add: file_new_descriptor_def LIBREWIN_MAX_FILE_DESCRIPTORS_def)
  have byte: "?a + 4 * word_of_nat i + word_of_nat l = ?a + word_of_nat (4 * i + l)" for l by simp
  have slot_kept: "kept kh L b" if b: "in_range (?a + 4 * word_of_nat i) 4 b" for b
  proof -
    obtain l where "l < 4" "b = ?a + 4 * word_of_nat i + word_of_nat l" using in_range_ex [OF b] by blast
    then show ?thesis using kept [of "4 * i + l"] free(1) unfolding byte by simp
  qed
  have out: "\<not> in_range desc 4096 b" if "in_range (?a + 4 * word_of_nat i) 4 b" for b
    by (rule kh.alloc_keeps_all(2) [OF live sz alloc slot_kept [OF that]])
  have in_page: "in_range desc 4096 (desc + word_of_nat l)" if "l < 4" for l
    using that by (intro in_range_offset) simp_all
  have "read32 ?m desc = read32 (write32 m1 desc (word_of_nat i + 1)) desc"
    by (rule read32_other) (use out in_page in blast)
  then have id: "read32 ?m desc = word_of_nat (Suc i)" by (simp add: add.commute)
  have live': "kheap_live kh ?m (L(desc \<mapsto> 4096)) k"
  proof (rule kh.live_stable)
    show "kheap_live kh m1 (L(desc \<mapsto> 4096)) k" using A by blast
    fix b assume own: "in_table (table kh) b"
    have "kept kh L b \<Longrightarrow> False" using own by (simp add: kh.keeps_def)
    moreover have "\<not> in_range desc 4 b"
    proof
      assume "in_range desc 4 b"
      then have "in_range desc 4096 b" by (simp add: in_range_def)
      then show False using kh.live_not_own [of kh m1 "L(desc \<mapsto> 4096)" k desc 4096 b] A own by simp
    qed
    ultimately show "?m b = m1 b" using slot_kept by (metis write32_apply)
  qed
  have "?m b = m b" if "kept kh L b" "\<not> in_range (?a + 4 * word_of_nat i) 4 b" for b
  proof -
    have "\<not> in_range desc 4 b" using kh.alloc_keeps_all(2) [OF live sz alloc that(1)] by (simp add: in_range_def)
    then show ?thesis using that kh.alloc_keeps_all(1) [OF live sz alloc that(1)] by (simp add: write32_apply)
  qed
  then show ?thesis using run A id live' by (intro exI conjI) (assumption | simp)+
qed

lemma file_get_descriptor_slot:
  assumes "i < 512"
  shows "file_get_descriptor v m (word_of_nat (Suc i)) =
    (if i < 511 then read32 m (file_descriptors v + 4 * word_of_nat i) else 0)"
proof -
  have "sint (word_of_nat (Suc i) :: u32) = int (Suc i)" using assms by (intro sint_word_of_nat) simp
  then show ?thesis
    by (simp add: file_get_descriptor_def word_sle_eq LIBREWIN_MAX_FILE_DESCRIPTORS_def del: of_nat_Suc)
      (simp add: of_nat_Suc)
qed

section \<open>Properties\<close>

text \<open>C31: while the descriptor table, outside the heap, has its first null entry at \<open>i\<close>,
  \<open>file_new_descriptor\<close> allocates a page for a descriptor with the number \<open>i + 1\<close> and enters it in
  the table. \<open>file_get_descriptor\<close> finds it again under that number, but for the last one, 512,
  which it takes to be out of range.\<close>

theorem file_descriptor_roundtrip:
  assumes "kheap_live kh m L (Suc k)" "\<And>i. i < 2048 \<Longrightarrow> kept kh L (file_descriptors v + word_of_nat i)"
    and "i < 512" "read32 m (file_descriptors v + 4 * word_of_nat i) = 0"
    and "\<And>j. j < i \<Longrightarrow> read32 m (file_descriptors v + 4 * word_of_nat j) \<noteq> 0"
  shows "\<exists>desc m'. file_new_descriptor kh v m = (0, desc, m') \<and> desc \<noteq> 0 \<and> kheap_live kh m' (L(desc \<mapsto> 4096)) k \<and>
    read32 m' desc = word_of_nat (Suc i) \<and>
    file_get_descriptor v m' (read32 m' desc) = (if i < 511 then desc else 0)"
proof -
  obtain desc m' where new: "file_new_descriptor kh v m = (0, desc, m')" "desc \<noteq> 0" "kheap_live kh m' (L(desc \<mapsto> 4096)) k"
      "read32 m' desc = word_of_nat (Suc i)" "read32 m' (file_descriptors v + 4 * word_of_nat i) = desc"
    using file_new_descriptor_works [OF assms] by blast
  have "file_get_descriptor v m' (read32 m' desc) = (if i < 511 then desc else 0)"
    unfolding new(4) file_get_descriptor_slot [OF assms(3)] new(5) ..
  then show ?thesis using new(1-4) by blast
qed

text \<open>A heap of three pages, and a descriptor table that is full but for its last entry.\<close>

definition table_heap :: heap where
  "table_heap = \<lparr>table = \<lparr>entries = 0x100, total = 3\<rparr>, saddr = 0x1000\<rparr>"

definition last_free :: mem where
  "last_free = (\<lambda>a. if 0x8000 \<le> a \<and> a < 0x87FC then 1 else 0)"

lemma table_heap_live: "kheap_live table_heap last_free (\<lambda>_. None) (Suc 2)"
proof -
  have "heap_rep last_free (table table_heap) (\<lambda>_. None)"
  proof -
    have "last_free (0x100 + word_of_nat i) = 0" if "i < 3" for i
      using that by (simp add: last_free_def word_le_nat_alt unat_word_ariths unat_word_of_nat)
    then show ?thesis by (simp add: heap_rep_def tb_def table_heap_def)
  qed
  moreover have "pool_ok table_heap"
    by (auto simp: table_heap_def pool_ok_def aligned_def in_table_def in_range_def unat_sub_if')
  moreover have "unat (total (table table_heap)) = Suc 2" by (simp add: table_heap_def)
  ultimately show ?thesis using fresh_heap_live [of last_free table_heap] by simp
qed

lemma last_free_entry: "j < 512 \<Longrightarrow> read32 last_free (0x8000 + 4 * word_of_nat j) = (if j < 511 then 0x01010101 else 0)"
proof -
  assume j: "j < 512"
  have byte: "last_free (0x8000 + 4 * word_of_nat j + word_of_nat l) = (if j < 511 then 1 else 0)" if "l < 4" for l
  proof -
    have "unat (word_of_nat (0x8000 + 4 * j + l) :: u32) = 0x8000 + 4 * j + l"
      using j that by (intro unat_word_of_nat) simp
    then have "unat (0x8000 + 4 * word_of_nat j + word_of_nat l :: u32) = 0x8000 + 4 * j + l" by simp
    then show ?thesis using j that by (auto simp: last_free_def word_le_nat_alt word_less_nat_alt)
  qed
  show ?thesis using byte [of 0] byte [of 1] byte [of 2] byte [of 3] by (simp add: read32_def)
qed

theorem file_descriptor_roundtrip_witness:
  "\<exists>desc m'. file_new_descriptor table_heap \<lparr>filesystems = 0, file_descriptors = 0x8000\<rparr> last_free = (0, desc, m') \<and>
    read32 m' desc = 512 \<and> file_get_descriptor \<lparr>filesystems = 0, file_descriptors = 0x8000\<rparr> m' (read32 m' desc) = 0"
proof -
  let ?v = "\<lparr>filesystems = 0, file_descriptors = 0x8000\<rparr>"
  have kept: "kept table_heap (\<lambda>_. None) (file_descriptors ?v + word_of_nat i)" if "i < 2048" for i
  proof -
    have "\<not> in_table (table table_heap) (0x8000 + word_of_nat i)"
      "\<not> in_range (saddr table_heap) (unat (total (table table_heap)) * 4096) (0x8000 + word_of_nat i)"
      using that by (simp_all add: in_table_def in_range_def table_heap_def unat_word_ariths unat_word_of_nat)
    then show ?thesis by (simp add: kh.keeps_def)
  qed
  have "(511 :: nat) < 512" by simp
  from file_descriptor_roundtrip [OF table_heap_live kept this] show ?thesis
    using last_free_entry [of 511] last_free_entry by force
qed

text \<open>\<open>fread\<close> of one member of \<open>n\<close> bytes from a file of a mounted volume, with the position of
  its descriptor at the start of the file and \<open>n\<close> not more than a cluster, delivers the bytes of
  the disk from the first cluster of the file on and returns 1. Of the memory only the position of
  the volume's stream changes: the position of the descriptor is not advanced.\<close>

lemma fread_first_cluster:
  assumes "ata_serves (ports_of e) idle phase img" "idle d" "mounted e m disk spc start"
    and "0 < fd" "fd < 512" "read32 m (file_descriptors v + 4 * word_of_nat (fd - 1)) = desc" "desc \<noteq> 0"
    and "ops (read32 m (desc + 4)) = fat16_ops e" "read32 m (desc + 12) = disk" "read32 m (desc + 8) = descriptor"
    and "fat16_get_first_cluster m (read32 m (read32 m descriptor)) = word_of_nat c" "2 \<le> c" "c < 2 ^ 31"
    and "read32 m (descriptor + 4) = 0" "0 < n" "n \<le> spc * 512" "cluster_byte spc start c + n < 2 ^ 31"
  shows "\<exists>d'. fread ops v (word_of_nat n) 1 (word_of_nat fd) m d =
    Some (1, map (\<lambda>i. img (cluster_byte spc start c + i)) [0..<n],
      write32 m (cluster_stream m disk) (word_of_nat (cluster_byte spc start c + n)), d') \<and> idle d'"
proof -
  have spc: "0 < spc" using assms(3) by (simp add: mounted_def)
  have "read32 m (descriptor + 4) = word_of_nat 0" "0 + n \<le> spc * 512" "0 < spc * 512"
    "cluster_byte spc start c + 0 + n < 2 ^ 31" using assms(14,16,17) spc by simp_all
  from fat16_read_within [OF assms(1-3,11-13) this]
  obtain d' where read: "fat16_read e disk descriptor (word_of_nat n) 1 m d =
      Some (1, map (stream_byte (around_buf e) img (cluster_byte spc start c)) [0..<n],
        write32 m (cluster_stream m disk) (word_of_nat (cluster_byte spc start c + n)), d')" "idle d'"
    by auto
  have "cluster_byte spc start c mod 512 = 0" by (simp add: cluster_byte_def)
  then have bytes: "stream_byte (around_buf e) img (cluster_byte spc start c) = (\<lambda>i. img (cluster_byte spc start c + i))"
    by (rule_tac ext) (simp add: stream_byte_def)
  have "n < 2 ^ 31" using assms(17) by simp
  then have n0: "(word_of_nat n :: u32) \<noteq> 0" using word_of_nat_inject_u32 [of n 0] assms(15) by simp
  have fd1: "\<not> (word_of_nat fd :: u32) <s 1"
    using assms(4,5) by (simp add: word_sless_alt sint_word_of_nat)
  have "file_get_descriptor v m (word_of_nat fd) = desc"
  proof -
    obtain k where k: "fd = Suc k" using assms(4) by (cases fd) auto
    then have "k < 511" "read32 m (file_descriptors v + 4 * word_of_nat k) = desc" using assms(5,6) by simp_all
    then show ?thesis unfolding k using file_get_descriptor_slot [of k v m] by simp
  qed
  then show ?thesis
    using read assms(7-10) n0 fd1 by (simp add: fread_def fat16_ops_def bytes)
qed

text \<open>\<open>fopen\<close> of a path that is not a digit, a colon and a slash followed by at most 105
  characters returns the descriptor 0 and has no effect.\<close>

theorem fopen_refuses:
  assumes "cstr m filename s" "length s < 2 ^ 31"
    and "108 < length s \<or> (\<nexists>d rest. s = d # colon # slash # rest \<and> isdigit d)"
  shows "fopen e ops v filename mode_str m d = Some (0, m, d)"
  using pathparser_parse_invalid [OF assms]
  by (simp add: fopen_def fopen_status_def status_defs word_sless_alt)

theorem fopen_refuses_witness:
  "fopen example_env (\<lambda>_. fat16_ops example_env) \<lparr>filesystems = 0, file_descriptors = 0x8000\<rparr> 0x1000 0x1010 example_item (0, 0) =
    Some (0, example_item, (0, 0))"
proof (rule fopen_refuses)
  show "cstr example_item 0x1000 [0x4B, 0x45, 0x52, 0x4E, 0x45, 0x4C, 0x33, 0x32, 0x44, 0x4C, 0x4C, 0x20]"
    by (simp add: example_item_def)
qed (simp_all add: isdigit_def)

end
