(* ===== verification/Files.thy ===== *)
theory Files
  imports Vfs
begin

text \<open>
  From the path to the bytes: what \<^verbatim>\<open>ke/fs/file.c\<close> and \<^verbatim>\<open>ke/fs/fat/fat16.c\<close> do together. A directory is a
  list of names; the search finds the entry with the wanted name, whatever the case of its letters,
  and \<open>fopen\<close> followed by \<open>fread\<close> delivers the bytes the disk holds for it.
\<close>

section \<open>A directory and the name that is looked for\<close>

definition item_named :: "mem \<Rightarrow> addr \<Rightarrow> byte list \<Rightarrow> bool" where
  "item_named m p s \<longleftrightarrow> (\<exists>base ext. field_at m p base \<and> field_at m (p + 8) ext \<and> length base \<le> 23 \<and> length ext \<le> 23 \<and>
     s = display_name base ext)"

definition item_addr :: "mem \<Rightarrow> addr \<Rightarrow> nat \<Rightarrow> addr" where
  "item_addr m dir i = read32 m dir + word_of_nat (32 * i)"

definition listing :: "mem \<Rightarrow> addr \<Rightarrow> byte list list \<Rightarrow> addr \<Rightarrow> byte list \<Rightarrow> bool" where
  "listing m dir names name nm \<longleftrightarrow> length names < 2 ^ 26 \<and> read32 m (dir + 4) = word_of_nat (length names) \<and>
     (\<forall>i<length names. item_named m (item_addr m dir i) (names ! i)) \<and> cstr m name nm \<and> length nm < 108"

text \<open>Two names are the same when they differ in the case of letters only.\<close>

definition same_name :: "byte list \<Rightarrow> byte list \<Rightarrow> bool" where
  "same_name s t \<longleftrightarrow> map tolower s = map tolower t"

text \<open>The bytes a search reads: the directory's fields, its items, and the name.\<close>

definition search_reads :: "mem \<Rightarrow> addr \<Rightarrow> nat \<Rightarrow> addr \<Rightarrow> byte list \<Rightarrow> addr \<Rightarrow> bool" where
  "search_reads m dir n name nm a \<longleftrightarrow>
     in_range dir 8 a \<or> in_range (read32 m dir) (32 * n) a \<or> in_range name (Suc (length nm)) a"

lemma search_readsI:
  "i < 8 \<Longrightarrow> search_reads m dir n name nm (dir + word_of_nat i)"
  "i < n \<Longrightarrow> n < 2 ^ 26 \<Longrightarrow> j < 32 \<Longrightarrow> search_reads m dir n name nm (item_addr m dir i + word_of_nat j)"
  "length nm < 108 \<Longrightarrow> i \<le> length nm \<Longrightarrow> search_reads m dir n name nm (name + word_of_nat i)"
proof -
  show "search_reads m dir n name nm (dir + word_of_nat i)" if "i < 8"
    using that by (simp add: search_reads_def in_range_offset)
  show "search_reads m dir n name nm (name + word_of_nat i)" if "length nm < 108" "i \<le> length nm"
    using that by (simp add: search_reads_def in_range_offset)
  show "search_reads m dir n name nm (item_addr m dir i + word_of_nat j)" if "i < n" "n < 2 ^ 26" "j < 32"
  proof -
    have "in_range (read32 m dir) (32 * n) (read32 m dir + word_of_nat (32 * i + j))"
      using that by (intro in_range_offset) simp_all
    then show ?thesis by (simp add: search_reads_def item_addr_def add.assoc)
  qed
qed

lemma item_named_cong:
  assumes "item_named m p s" "\<And>i. i < 32 \<Longrightarrow> m' (p + word_of_nat i) = m (p + word_of_nat i)"
  shows "item_named m' p s"
proof -
  obtain base ext where f: "field_at m p base" "field_at m (p + 8) ext" "length base \<le> 23" "length ext \<le> 23" "s = display_name base ext"
    using assms(1) by (auto simp: item_named_def)
  have "field_at m' p base" by (rule field_at_cong [OF f(1)]) (use assms(2) f(3) in simp)
  moreover have "field_at m' (p + 8) ext"
  proof (rule field_at_cong [OF f(2)])
    fix i assume "i \<le> length ext"
    then show "m' (p + 8 + word_of_nat i) = m (p + 8 + word_of_nat i)" using assms(2) [of "8 + i"] f(4) by (simp add: add.assoc)
  qed
  ultimately show ?thesis using f by (auto simp: item_named_def)
qed

lemma listing_cong:
  assumes "listing m dir names name nm" "\<And>a. search_reads m dir (length names) name nm a \<Longrightarrow> m' a = m a"
  shows "listing m' dir names name nm" "read32 m' dir = read32 m dir"
proof -
  have l: "length names < 2 ^ 26" "length nm < 108" using assms(1) by (simp_all add: listing_def)
  have dir: "m' (dir + word_of_nat i) = m (dir + word_of_nat i)" if "i < 8" for i
    using search_readsI(1) [OF that] by (rule assms(2))
  show same: "read32 m' dir = read32 m dir" by (rule read32_cong) (simp add: dir)
  have "read32 m' (dir + 4) = read32 m (dir + 4)"
    using dir [of "4 + _"] by (intro read32_cong) (simp add: add.assoc)
  moreover have "item_named m' (item_addr m' dir i) (names ! i)" if "i < length names" for i
  proof -
    have "item_named m (item_addr m dir i) (names ! i)" using assms(1) that by (simp add: listing_def)
    then have "item_named m' (item_addr m dir i) (names ! i)"
      by (rule item_named_cong) (intro assms(2) search_readsI(2) that l)
    then show ?thesis by (simp add: item_addr_def same)
  qed
  moreover have "cstr m' name nm"
    by (rule cstr_cong [of m]) (use assms(1) l in \<open>auto simp: listing_def intro: assms(2) search_readsI(3)\<close>)
  ultimately show "listing m' dir names name nm" using assms(1) by (simp add: listing_def)
qed

section \<open>The search\<close>

text \<open>The buffer for names lies apart from everything the search reads.\<close>

definition name_buffer_apart :: "'d env \<Rightarrow> mem \<Rightarrow> addr \<Rightarrow> nat \<Rightarrow> addr \<Rightarrow> byte list \<Rightarrow> bool" where
  "name_buffer_apart e m dir n name nm \<longleftrightarrow>
     (\<forall>a. search_reads m dir n name nm a \<longrightarrow> \<not> in_range (tmp_filename e) 108 a)"

lemma compare_item:
  assumes list: "listing m dir names name nm" and apart: "name_buffer_apart e m dir (length names) name nm" and i: "i < length names"
  shows "\<exists>m'. fat16_get_full_relative_filename m (read32 m dir + word_of_nat i * 32) (tmp_filename e) LIBREWIN_MAX_PATH = Some m' \<and>
    (istrncmp m' (tmp_filename e) name LIBREWIN_MAX_PATH = 0 \<longleftrightarrow> same_name (names ! i) nm) \<and>
    (\<forall>a. \<not> in_range (tmp_filename e) 108 a \<longrightarrow> m' a = m a)"
proof -
  let ?t = "tmp_filename e" and ?p = "item_addr m dir i"
  have l: "length names < 2 ^ 26" "length nm < 108" "cstr m name nm" using list by (simp_all add: listing_def)
  have p: "read32 m dir + word_of_nat i * 32 = ?p" by (simp add: item_addr_def mult.commute)
  obtain base ext where f: "field_at m ?p base" "field_at m (?p + 8) ext" "length base \<le> 23" "length ext \<le> 23"
    and name: "names ! i = display_name base ext"
    using list i by (auto simp: listing_def item_named_def)
  have "apart ?p 32 ?t 108"
    using apart search_readsI(2) [OF i l(1)] by (subst apart_iff) (simp_all add: name_buffer_apart_def)
  then have "apart ?t 108 ?p 32" by (simp add: apart_sym)
  from fat16_full_name [OF f this] obtain m' where m': "fat16_get_full_relative_filename m ?p ?t 108 = Some m'"
    "cstr m' ?t (names ! i)" "\<And>a. \<not> in_range ?t 108 a \<Longrightarrow> m' a = m a"
    unfolding name by blast
  have nm: "cstr m' name nm"
    by (rule cstr_cong [OF l(3)], rule m'(3)) (use apart l search_readsI(3) in \<open>auto simp: name_buffer_apart_def\<close>)
  have short: "length (names ! i) \<le> 47" using f(3,4) by (simp add: name display_name_def)
  have "istrncmp m' ?t name 108 = ibyte_cmp (names ! i) nm"
    using istrncmp_cstr [OF m'(2) nm, of 108] short l(2) by simp
  then have "istrncmp m' ?t name 108 = 0 \<longleftrightarrow> same_name (names ! i) nm"
    using ibyte_cmp_eq_0 m'(2) nm by (simp add: same_name_def cstr_iff)
  then show ?thesis using m'(1,3) by (simp add: p LIBREWIN_MAX_PATH_def)
qed

lemma buffer_apart_cong:
  "name_buffer_apart e m dir n name nm \<Longrightarrow> read32 m' dir = read32 m dir \<Longrightarrow> name_buffer_apart e m' dir n name nm"
  by (simp add: name_buffer_apart_def search_reads_def)

text \<open>Entries with other names are passed over.\<close>

lemma find_skips:
  assumes "listing m dir names name nm" "name_buffer_apart e m dir (length names) name nm"
    and "i \<le> k" "k \<le> length names" "\<And>j. i \<le> j \<Longrightarrow> j < k \<Longrightarrow> \<not> same_name (names ! j) nm"
  shows "\<exists>m'. fat16_find_loop e disk dir name f (word_of_nat i) m d = fat16_find_loop e disk dir name f (word_of_nat k) m' d \<and>
    (\<forall>a. \<not> in_range (tmp_filename e) 108 a \<longrightarrow> m' a = m a)"
  using assms
proof (induction "k - i" arbitrary: i m)
  case 0
  then have "i = k" by simp
  then show ?case by blast
next
  case (Suc n)
  then have i: "i < length names" "i < k" by simp_all
  obtain m1 where m1: "fat16_get_full_relative_filename m (read32 m dir + word_of_nat i * 32) (tmp_filename e) LIBREWIN_MAX_PATH = Some m1"
    "istrncmp m1 (tmp_filename e) name LIBREWIN_MAX_PATH \<noteq> 0" "\<And>a. \<not> in_range (tmp_filename e) 108 a \<Longrightarrow> m1 a = m a"
    using compare_item [OF Suc.prems(1,2) i(1)] Suc.prems(5) [of i] i(2) by auto
  have l: "length names < 2 ^ 26" "read32 m (dir + 4) = word_of_nat (length names)" using Suc.prems(1) by (simp_all add: listing_def)
  then have "word_of_nat i <s read32 m (dir + 4)"
    using i by (simp add: word_sless_alt sint_word_of_nat)
  then have step: "fat16_find_loop e disk dir name f (word_of_nat i) m d = fat16_find_loop e disk dir name f (word_of_nat (Suc i)) m1 d"
    using m1(1,2) by (subst fat16_find_loop.simps) (simp add: add.commute)
  have same: "m1 a = m a" if "search_reads m dir (length names) name nm a" for a
    using that Suc.prems(2) m1(3) by (simp add: name_buffer_apart_def)
  note cong = listing_cong [OF Suc.prems(1) same]
  have "\<exists>m'. fat16_find_loop e disk dir name f (word_of_nat (Suc i)) m1 d = fat16_find_loop e disk dir name f (word_of_nat k) m' d \<and>
      (\<forall>a. \<not> in_range (tmp_filename e) 108 a \<longrightarrow> m' a = m1 a)"
    using Suc.hyps(2) i(2) Suc.prems(4,5)
    by (intro Suc.hyps(1) cong(1) buffer_apart_cong [OF Suc.prems(2) cong(2)]) simp_all
  then show ?case using step m1(3) by auto
qed

lemma find_ends:
  assumes "listing m dir names name nm"
  shows "fat16_find_loop e disk dir name f (word_of_nat (length names)) m d = Some (f, m, d)"
  using assms by (subst fat16_find_loop.simps) (simp add: listing_def)

text \<open>The entry with the name, an ordinary file, is copied to the heap.\<close>

definition item_made :: "mem \<Rightarrow> addr \<Rightarrow> mem \<Rightarrow> addr \<Rightarrow> addr \<Rightarrow> bool" where
  "item_made m item m' f_item copy \<longleftrightarrow> read32 m' f_item = copy \<and> read32 m' (f_item + 4) = FAT_ITEM_TYPE_FILE \<and>
     (\<forall>i<32. m' (copy + word_of_nat i) = m (item + word_of_nat i))"

lemma new_item_works:
  assumes live: "kheap_live (kernel_heap e) m L (Suc (Suc k))" and plain: "m (item + 11) AND FAT_FILE_SUBDIRECTORY = 0"
    and kept: "\<And>i. i < 32 \<Longrightarrow> kept (kernel_heap e) L (item + word_of_nat i)"
  shows "\<exists>f_item copy m'. fat16_new_fat_item_for_directory_item e disk item m d = Some (f_item, m', d) \<and>
    f_item \<noteq> 0 \<and> L f_item = None \<and> L copy = None \<and> copy \<noteq> f_item \<and> item_made m item m' f_item copy \<and>
    kheap_live (kernel_heap e) m' (L(f_item \<mapsto> 4096, copy \<mapsto> 4096)) k \<and>
    (\<forall>a. kept (kernel_heap e) L a \<longrightarrow> m' a = m a)"
proof -
  let ?h = "kernel_heap e"
  obtain f m1 where f: "kzalloc ?h m 8 = (f, m1)" by fastforce
  have sz: "(0 :: u32) < 8" "(8 :: u32) \<le> 4096" "(0 :: u32) < 32" "(32 :: u32) \<le> 4096" by simp_all
  note F = kh.alloc_page [OF live sz(1,2) f]
  let ?L = "L(f \<mapsto> 4096)"
  let ?m2 = "write32 m1 (f + 4) FAT_ITEM_TYPE_FILE"
  have f_page: "in_range f 4096 a" if "in_range f 8 a" for a using that by (simp add: in_range_def)
  have slot: "in_range f 8 a" if "in_range (f + 4) 4 a" for a using in_range_sub [of f 4 4 a 8] that by simp
  have live2: "kheap_live ?h ?m2 ?L (Suc k)"
    by (rule kh.live_store [of _ m1 _ _ f 4096]) (use F f_page slot in \<open>auto intro!: write32_apply\<close>)
  obtain c m3 where c: "kzalloc ?h ?m2 32 = (c, m3)" by fastforce
  note C = kh.alloc_page [OF live2 sz(3,4) c]
  let ?m4 = "memcpy m3 c item 32" and ?m5 = "write32 (memcpy m3 c item 32) f c"
  have c_f: "c \<noteq> f" and L_c: "L c = None" using C by (auto split: if_splits)
  have keep1: "m1 a = m a" "\<not> in_range f 4096 a" if "kept ?h L a" for a
    using kh.alloc_keeps_all [OF live sz(1,2) f that] by simp_all
  have kept2: "kept ?h ?L a" if "kept ?h L a" for a using kh.keeps_new that F by blast
  have keep3: "m3 a = ?m2 a" "\<not> in_range c 4096 a" if "kept ?h ?L a" for a
    using kh.alloc_keeps_all [OF live2 sz(3,4) c that] by simp_all
  have src: "m3 (item + word_of_nat i) = m (item + word_of_nat i)" "\<not> in_range c 4096 (item + word_of_nat i)"
    "\<not> in_range f 4096 (item + word_of_nat i)" if "i < 32" for i
    using keep1 keep3 kept2 kept [OF that] f_page slot by (metis write32_apply)+
  have far: "apart c 4096 f 4096"
    using C c_f by (intro kheap_live_regions(4) [of ?h m3 "?L(c \<mapsto> 4096)" k]) auto
  have copied: "?m4 a = (if in_range c 32 a then m3 (item + (a - c)) else m3 a)" for a
  proof -
    have "c + word_of_nat j \<noteq> item + word_of_nat i" if "i < 32" "j < i" for i j
    proof -
      have "in_range c 4096 (c + word_of_nat j)" using that by (intro in_range_offset) simp_all
      then show ?thesis using src(2) [OF that(1)] by metis
    qed
    then show ?thesis using memcpy_apply [of 32 c item m3 a] by simp
  qed
  have c_page: "in_range c 4096 a" if "in_range c 32 a" for a using that by (simp add: in_range_def)
  have f_word: "in_range f 8 a" if "in_range f 4 a" for a using that by (simp add: in_range_def)
  have f_not_c: "\<not> in_range c 32 a" if "in_range f 8 a" for a
    using apart_outside [OF far] f_page c_page that by blast
  have type: "read32 ?m5 (f + 4) = FAT_ITEM_TYPE_FILE"
  proof -
    have "read32 ?m5 (f + 4) = read32 ?m2 (f + 4)"
      unfolding read32_write32_next
    proof (rule read32_cong)
      fix i :: nat assume "i < 4"
      then have at: "in_range f 8 (f + 4 + word_of_nat i)" by (intro slot in_range_offset) simp_all
      then have "kept ?h ?L (f + 4 + word_of_nat i)" using F f_page by (intro kh.keeps_live [of ?h m1 ?L "Suc k" f 4096]) auto
      then show "?m4 (f + 4 + word_of_nat i) = ?m2 (f + 4 + word_of_nat i)" using keep3 f_not_c [OF at] copied by simp
    qed
    then show ?thesis by simp
  qed
  have bytes: "?m5 (c + word_of_nat i) = m (item + word_of_nat i)" if "i < 32" for i
  proof -
    have c_i: "in_range c 32 (c + word_of_nat i)" using that by (simp add: in_range_offset)
    then have "\<not> in_range f 4 (c + word_of_nat i)" using f_not_c f_word by blast
    then show ?thesis using copied c_i src(1) that by (simp add: write32_apply)
  qed
  have made: "item_made m item ?m5 f c" using type bytes by (simp add: item_made_def)
  let ?L2 = "L(f \<mapsto> 4096, c \<mapsto> 4096)"
  have "kheap_live ?h ?m4 ?L2 k"
    by (rule kh.live_store [of _ m3 _ _ c 4096]) (use C copied c_page in auto)
  then have live5: "kheap_live ?h ?m5 ?L2 k"
    by (rule kh.live_store [of _ _ _ _ f 4096]) (use c_f f_word f_page in \<open>auto intro!: write32_apply\<close>)
  have frame: "?m5 a = m a" if "kept ?h L a" for a
  proof -
    have "\<not> in_range f 8 a" "\<not> in_range c 32 a" using keep1(2) [OF that] keep3(2) [OF kept2 [OF that]] f_page c_page by blast+
    then have "\<not> in_range f 4 a" "\<not> in_range (f + 4) 4 a" "?m4 a = m3 a" using f_word slot copied [of a] by auto
    then show ?thesis using keep3(1) [OF kept2 [OF that]] keep1(1) [OF that] by (simp only: write32_apply simp_thms)
  qed
  have "m1 (item + 11) = m (item + 11)" using keep1 kept [of 11] by simp
  then have "fat16_new_fat_item_for_directory_item e disk item m d = Some (f, ?m5, d)"
    using f c F C plain by (simp add: fat16_new_fat_item_for_directory_item_def fat16_clone_directory_item_def)
  then show ?thesis using F L_c c_f made live5 frame by blast
qed

text \<open>A fresh page holds nothing a client relied on before.\<close>

lemma kept_not_new:
  assumes "kheap_live h m L' k" "L' p = Some n" "L p = None" "kept h L a" "\<And>q l. L q = Some l \<Longrightarrow> L' q = Some l"
  shows "\<not> in_range p n a"
proof
  assume a: "in_range p n a"
  then have "in_range (saddr h) (unat (total (table h)) * 4096) a" by (rule kheap_live_regions(2) [OF assms(1,2)])
  then obtain q l where q: "L q = Some l" "in_range q l a" using assms(4) by (auto simp: kh.keeps_def)
  then have "apart p n q l" using assms(3,5) by (intro kheap_live_regions(4) [OF assms(1,2)]) auto
  then show False using apart_outside q(2) a by blast
qed

text \<open>Everything the search needs, for a client whose live regions are \<open>L\<close>.\<close>

definition directory_ready ::
    "'d env \<Rightarrow> (addr \<Rightarrow> nat option) \<Rightarrow> mem \<Rightarrow> addr \<Rightarrow> byte list list \<Rightarrow> addr \<Rightarrow> byte list \<Rightarrow> bool" where
  "directory_ready e L m dir names name nm \<longleftrightarrow> listing m dir names name nm \<and>
     name_buffer_apart e m dir (length names) name nm \<and>
     (\<forall>a. search_reads m dir (length names) name nm a \<longrightarrow> kept (kernel_heap e) L a) \<and>
     (\<forall>a. in_range (tmp_filename e) 108 a \<longrightarrow> kept (kernel_heap e) L a)"

lemma directory_ready_cong:
  assumes "directory_ready e L m dir names name nm"
    and "\<And>a. kept (kernel_heap e) L a \<Longrightarrow> \<not> in_range (tmp_filename e) 108 a \<Longrightarrow> m' a = m a"
    and "\<And>q l. L q = Some l \<Longrightarrow> L' q = Some l"
  shows "directory_ready e L' m' dir names name nm" "read32 m' dir = read32 m dir"
proof -
  have same: "m' a = m a" if "search_reads m dir (length names) name nm a" for a
    using that assms(1,2) by (simp add: directory_ready_def name_buffer_apart_def)
  have list: "listing m dir names name nm" using assms(1) by (simp add: directory_ready_def)
  show dir: "read32 m' dir = read32 m dir" by (rule listing_cong(2) [OF list same])
  have "kept (kernel_heap e) L' a" if "kept (kernel_heap e) L a" for a
    using kh.keeps_mono [OF that] assms(3) by blast
  then show "directory_ready e L' m' dir names name nm"
    using assms(1) listing_cong(1) [OF list same] dir
    by (auto simp: directory_ready_def name_buffer_apart_def search_reads_def)
qed

lemma live_outside_buffer:
  assumes "kheap_live (kernel_heap e) m L k" "directory_ready e L m dir names name nm"
    and "\<And>a. \<not> in_range (tmp_filename e) 108 a \<Longrightarrow> m' a = m a"
  shows "kheap_live (kernel_heap e) m' L k"
proof (rule kheap_live_cong [OF assms(1)])
  fix a assume "in_table (table (kernel_heap e)) a"
  then have "\<not> kept (kernel_heap e) L a" by (simp add: kh.keeps_def)
  then show "m' a = m a" using assms(2,3) by (auto simp: directory_ready_def)
qed

lemma item_made_cong:
  assumes "item_made m item m1 f c" "\<And>a. in_range f 4096 a \<or> in_range c 4096 a \<Longrightarrow> m2 a = m1 a"
  shows "item_made m item m2 f c"
proof -
  have "read32 m2 f = read32 m1 f" "read32 m2 (f + 4) = read32 m1 (f + 4)"
    using read32_page [of f m2 m1] assms(2) by blast+
  moreover have "m2 (c + word_of_nat i) = m1 (c + word_of_nat i)" if "i < 32" for i
    using that by (intro assms(2) disjI2 in_range_offset) simp_all
  ultimately show ?thesis using assms(1) by (simp add: item_made_def)
qed

definition only_match :: "byte list list \<Rightarrow> byte list \<Rightarrow> nat \<Rightarrow> bool" where
  "only_match names nm j \<longleftrightarrow> j < length names \<and> (\<forall>i<length names. same_name (names ! i) nm \<longleftrightarrow> i = j)"

lemma find_item_works:
  assumes live: "kheap_live (kernel_heap e) m L (Suc (Suc k))" and ready: "directory_ready e L m dir names name nm"
    and match: "only_match names nm j" and plain: "m (item_addr m dir j + 11) AND FAT_FILE_SUBDIRECTORY = 0"
  shows "\<exists>f c m'. fat16_find_item_in_directory e disk dir name m d = Some (f, m', d) \<and> f \<noteq> 0 \<and>
    L f = None \<and> L c = None \<and> c \<noteq> f \<and> item_made m (item_addr m dir j) m' f c \<and>
    kheap_live (kernel_heap e) m' (L(f \<mapsto> 4096, c \<mapsto> 4096)) k \<and>
    (\<forall>a. kept (kernel_heap e) L a \<and> \<not> in_range (tmp_filename e) 108 a \<longrightarrow> m' a = m a)"
proof -
  let ?h = "kernel_heap e" and ?t = "tmp_filename e" and ?n = "length names" and ?p = "item_addr m dir j"
  have j: "j < ?n" and hit: "same_name (names ! j) nm" and miss: "\<And>i. i < ?n \<Longrightarrow> i \<noteq> j \<Longrightarrow> \<not> same_name (names ! i) nm"
    using match by (auto simp: only_match_def)
  note parts = ready [unfolded directory_ready_def]
  have n26: "?n < 2 ^ 26" "read32 m (dir + 4) = word_of_nat ?n" using parts by (simp_all add: listing_def)
  have item: "search_reads m dir ?n name nm (?p + word_of_nat i)" if "i < 32" for i
    using search_readsI(2) [OF j n26(1) that] .
  obtain m1 where skip1: "fat16_find_loop e disk dir name 0 (word_of_nat 0) m d = fat16_find_loop e disk dir name 0 (word_of_nat j) m1 d"
    and m1: "\<And>a. \<not> in_range ?t 108 a \<Longrightarrow> m1 a = m a"
    using find_skips [of m dir names name nm e 0 j disk 0 d] parts j miss by auto
  have ready1: "directory_ready e L m1 dir names name nm" "read32 m1 dir = read32 m dir"
    using directory_ready_cong [OF ready, of m1 L] m1 by simp_all
  obtain m2 where m2: "fat16_get_full_relative_filename m1 (read32 m1 dir + word_of_nat j * 32) ?t LIBREWIN_MAX_PATH = Some m2"
    "istrncmp m2 ?t name LIBREWIN_MAX_PATH = 0" "\<And>a. \<not> in_range ?t 108 a \<Longrightarrow> m2 a = m1 a"
    using compare_item [of m1 dir names name nm e j] ready1(1) j hit by (auto simp: directory_ready_def)
  have m2m: "m2 a = m a" if "\<not> in_range ?t 108 a" for a using m1 m2(3) that by simp
  have live2: "kheap_live ?h m2 L (Suc (Suc k))" using live_outside_buffer [OF live ready m2m] .
  have at: "read32 m2 dir = read32 m dir" using directory_ready_cong(2) [OF ready, of m2 L] m2m by simp
  have p: "read32 m2 dir + word_of_nat j * 32 = ?p" by (simp add: at item_addr_def mult.commute)
  have item_m2: "m2 (?p + word_of_nat i) = m (?p + word_of_nat i)" if "i < 32" for i
    using item [OF that] parts m2m by (simp add: name_buffer_apart_def)
  have item_kept: "kept ?h L (?p + word_of_nat i)" if "i < 32" for i using item [OF that] parts by blast
  have "m2 (?p + 11) AND FAT_FILE_SUBDIRECTORY = 0" using plain item_m2 [of 11] by simp
  from new_item_works [OF live2 this item_kept, where disk = disk and d = d]
  obtain f c m3 where new: "fat16_new_fat_item_for_directory_item e disk ?p m2 d = Some (f, m3, d)" "f \<noteq> 0"
    "L f = None" "L c = None" "c \<noteq> f" and made: "item_made m2 ?p m3 f c"
    and live3: "kheap_live ?h m3 (L(f \<mapsto> 4096, c \<mapsto> 4096)) k" and m3: "\<And>a. kept ?h L a \<Longrightarrow> m3 a = m2 a"
    by blast
  let ?L = "L(f \<mapsto> 4096, c \<mapsto> 4096)"
  have more: "?L q = Some l" if "L q = Some l" for q l using that new(3,4) by auto
  have ready3: "directory_ready e ?L m3 dir names name nm"
    by (rule directory_ready_cong(1) [OF ready]) (use m3 m2m more in auto)
  have lt: "word_of_nat j <s read32 m1 (dir + 4)"
    using ready1(1) j n26 by (simp add: directory_ready_def listing_def word_sless_alt sint_word_of_nat)
  have step: "fat16_find_loop e disk dir name 0 (word_of_nat j) m1 d = fat16_find_loop e disk dir name f (word_of_nat (Suc j)) m3 d"
    using lt m2(1,2) new(1) p by (subst fat16_find_loop.simps) (simp add: add.commute)
  obtain m4 where skip2: "fat16_find_loop e disk dir name f (word_of_nat (Suc j)) m3 d = fat16_find_loop e disk dir name f (word_of_nat ?n) m4 d"
    and m4: "\<And>a. \<not> in_range ?t 108 a \<Longrightarrow> m4 a = m3 a"
    using find_skips [of m3 dir names name nm e "Suc j" ?n disk f d] ready3 [unfolded directory_ready_def] j miss by auto
  have "directory_ready e ?L m4 dir names name nm"
    by (rule directory_ready_cong(1) [OF ready3]) (use m4 in auto)
  then have run: "fat16_find_item_in_directory e disk dir name m d = Some (f, m4, d)"
    using find_ends [of m4 dir names name nm e disk f d] skip1 step skip2
    by (simp add: fat16_find_item_in_directory_def directory_ready_def)
  have fresh: "\<not> in_range ?t 108 a" if "in_range f 4096 a \<or> in_range c 4096 a" for a
    using that parts kept_not_new [OF live3, of f 4096 L a] kept_not_new [OF live3, of c 4096 L a] more new(3-5) by auto
  have "item_made m2 ?p m4 f c" by (rule item_made_cong [OF made]) (use m4 fresh in blast)
  then have "item_made m ?p m4 f c" using item_m2 by (simp add: item_made_def)
  moreover have "kheap_live ?h m4 ?L k" using live_outside_buffer [OF live3 ready3 m4] .
  moreover have "m4 a = m a" if "kept ?h L a" "\<not> in_range ?t 108 a" for a using that m4 m3 m2m by simp
  ultimately show ?thesis using run new(2-5) by blast
qed

text \<open>No entry, no item.\<close>

lemma find_item_fails:
  assumes ready: "directory_ready e L m dir names name nm" and miss: "\<forall>i<length names. \<not> same_name (names ! i) nm"
  shows "\<exists>m'. fat16_find_item_in_directory e disk dir name m d = Some (0, m', d) \<and>
    (\<forall>a. \<not> in_range (tmp_filename e) 108 a \<longrightarrow> m' a = m a)"
proof -
  let ?n = "length names"
  obtain m1 where skip: "fat16_find_loop e disk dir name 0 (word_of_nat 0) m d = fat16_find_loop e disk dir name 0 (word_of_nat ?n) m1 d"
    and m1: "\<And>a. \<not> in_range (tmp_filename e) 108 a \<Longrightarrow> m1 a = m a"
    using find_skips [of m dir names name nm e 0 ?n disk 0 d] ready [unfolded directory_ready_def] miss by auto
  have "directory_ready e L m1 dir names name nm"
    by (rule directory_ready_cong(1) [OF ready]) (use m1 in auto)
  then show ?thesis
    using find_ends [of m1 dir names name nm e disk 0 d] skip m1
    by (auto simp: fat16_find_item_in_directory_def directory_ready_def)
qed

section \<open>Opening\<close>

lemma read32_kept:
  assumes "\<And>a. in_range p n a \<Longrightarrow> m' a = m a" "i + 4 \<le> n" "n \<le> 2 ^ 32"
  shows "read32 m' (p + word_of_nat i) = read32 m (p + word_of_nat i)"
proof (rule read32_cong)
  fix j :: nat assume "j < 4"
  then have "in_range (p + word_of_nat i) 4 (p + word_of_nat i + word_of_nat j)" by (intro in_range_offset) simp_all
  then show "m' (p + word_of_nat i + word_of_nat j) = m (p + word_of_nat i + word_of_nat j)"
    by (intro assms(1) in_range_sub [OF _ assms(2,3)])
qed

lemma page_word: "in_range p 4 a \<Longrightarrow> in_range p 4096 a" "in_range (p + 4) 4 a \<Longrightarrow> in_range p 4096 a"
  "in_range (p + 8) 4 a \<Longrightarrow> in_range p 4096 a" "in_range (p + 12) 4 a \<Longrightarrow> in_range p 4096 a"
  using in_range_sub [of p 0 4 a 4096] in_range_sub [of p 4 4 a 4096] in_range_sub [of p 8 4 a 4096]
    in_range_sub [of p 12 4 a 4096] by simp_all

lemma fat16_open_works:
  assumes live: "kheap_live (kernel_heap e) m L (Suc (Suc (Suc k)))"
    and part: "read32 m path = name" "read32 m (path + 4) = 0"
    and ready: "directory_ready e L m (fs_private m disk + 64) names name nm"
    and safe: "\<And>a. in_range path 8 a \<or> in_range disk 20 a \<Longrightarrow> kept (kernel_heap e) L a \<and> \<not> in_range (tmp_filename e) 108 a"
    and match: "only_match names nm j"
    and plain: "m (item_addr m (fs_private m disk + 64) j + 11) AND FAT_FILE_SUBDIRECTORY = 0"
  shows "\<exists>s f c m'. fat16_open e disk path FILE_MODE_READ m d = Some (s, m', d) \<and> s \<noteq> 0 \<and> distinct [s, f, c] \<and>
    L s = None \<and> L f = None \<and> L c = None \<and> read32 m' s = f \<and> read32 m' (s + 4) = 0 \<and>
    item_made m (item_addr m (fs_private m disk + 64) j) m' f c \<and>
    kheap_live (kernel_heap e) m' (L(s \<mapsto> 4096, f \<mapsto> 4096, c \<mapsto> 4096)) k \<and>
    (\<forall>a. kept (kernel_heap e) L a \<and> \<not> in_range (tmp_filename e) 108 a \<longrightarrow> m' a = m a)"
proof -
  let ?h = "kernel_heap e" and ?t = "tmp_filename e" and ?dir = "fs_private m disk + 64"
  obtain s m1 where s: "kzalloc ?h m 8 = (s, m1)" by fastforce
  have sz: "(0 :: u32) < 8" "(8 :: u32) \<le> 4096" by simp_all
  note S = kh.alloc_page [OF live sz s]
  let ?L = "L(s \<mapsto> 4096)"
  have m1: "m1 a = m a" if "kept ?h L a" for a using kh.alloc_keeps_all(1) [OF live sz s that] .
  have more: "?L q = Some l" if "L q = Some l" for q l using that S by auto
  have disk16: "fs_private m' disk = fs_private m disk" if "\<And>a. in_range disk 20 a \<Longrightarrow> m' a = m a" for m'
    using read32_kept [of disk 20 m' m 16, OF that] by (simp add: fs_private_def)
  have dir1: "fs_private m1 disk = fs_private m disk" using disk16 m1 safe by blast
  have ready1: "directory_ready e ?L m1 ?dir names name nm" "read32 m1 ?dir = read32 m ?dir"
    using directory_ready_cong [OF ready, of m1 ?L] m1 more by blast+
  let ?p = "item_addr m ?dir j"
  have p1: "item_addr m1 ?dir j = ?p" by (simp add: item_addr_def ready1(2))
  have item: "m1 (?p + word_of_nat i) = m (?p + word_of_nat i)" if "i < 32" for i
    using ready match search_readsI(2) [of j "length names" i m ?dir name nm] that m1
    by (auto simp: directory_ready_def listing_def only_match_def)
  have "m1 (item_addr m1 ?dir j + 11) AND FAT_FILE_SUBDIRECTORY = 0" using plain item [of 11] p1 by simp
  from find_item_works [OF _ ready1(1) match this, where disk = disk and d = d and k = k] S
  obtain f c m2 where find: "fat16_find_item_in_directory e disk ?dir name m1 d = Some (f, m2, d)" "f \<noteq> 0"
    "?L f = None" "?L c = None" "c \<noteq> f" and made: "item_made m1 ?p m2 f c"
    and live2: "kheap_live ?h m2 (?L(f \<mapsto> 4096, c \<mapsto> 4096)) k"
    and m2: "\<And>a. kept ?h ?L a \<Longrightarrow> \<not> in_range ?t 108 a \<Longrightarrow> m2 a = m1 a"
    unfolding p1 by blast
  let ?L2 = "?L(f \<mapsto> 4096, c \<mapsto> 4096)"
  have fresh: "f \<noteq> s" "c \<noteq> s" "L f = None" "L c = None" using find(3,4) by (auto split: if_splits)
  have keep2: "m2 a = m a" if "kept ?h L a" "\<not> in_range ?t 108 a" for a
    using m2 [OF _ that(2)] kh.keeps_mono [OF that(1), of ?L] more m1 [OF that(1)] by auto
  have path: "read32 m1 path = name" "read32 m2 (path + 4) = 0"
    using part read32_kept [of path 8 m1 m 0] read32_kept [of path 8 m2 m 4] safe m1 keep2 by auto
  let ?m3 = "write32 (write32 m2 s f) (s + 4) 0"
  have same3: "?m3 a = m2 a" if "\<not> in_range s 4096 a" for a
  proof -
    have "\<not> in_range s 4 a" "\<not> in_range (s + 4) 4 a" using that page_word [of s a] by blast+
    then show ?thesis by (simp only: write32_apply simp_thms if_False)
  qed
  have "fat16_get_directory_entry e disk path m1 d = Some (f, m2, d)"
    using find(1,2) path by (simp add: fat16_get_directory_entry_def dir1 fat16_descend.simps [of e disk f 0])
  then have run: "fat16_open e disk path FILE_MODE_READ m d = Some (s, ?m3, d)"
    using s S find(2) by (simp add: fat16_open_def)
  have live3: "kheap_live ?h ?m3 ?L2 k"
    by (rule kh.live_store [OF live2, of s 4096]) (use fresh same3 in simp_all)
  have "apart s 4096 q 4096" if "q = f \<or> q = c" for q
    using that fresh find(5) by (intro kheap_live_regions(4) [OF live3]) auto
  then have "\<not> in_range s 4096 a" if "in_range f 4096 a \<or> in_range c 4096 a" for a
    using that apart_outside by blast
  then have "item_made m1 ?p ?m3 f c" using same3 by (intro item_made_cong [OF made]) simp
  then have "item_made m ?p ?m3 f c" using item by (simp add: item_made_def)
  moreover have "?m3 a = m a" if "kept ?h L a" "\<not> in_range ?t 108 a" for a
    using same3 kh.alloc_keeps_all(2) [OF live sz s that(1)] keep2 that by simp
  moreover have "read32 ?m3 s = f" using read_slots(2) [of s s "write32 m2 s f" 0] S by simp
  moreover have "read32 ?m3 (s + 4) = 0" by simp
  moreover have "distinct [s, f, c]" using fresh find(5) by auto
  moreover have "s \<noteq> 0" "L s = None" using S by blast+
  ultimately show ?thesis using run fresh(3,4) live3
    by (rule_tac x = s in exI, rule_tac x = f in exI, rule_tac x = c in exI, rule_tac x = ?m3 in exI) blast
qed

text \<open>No entry with the name: the page for the descriptor is not given back.\<close>

lemma fat16_open_misses:
  assumes live: "kheap_live (kernel_heap e) m L (Suc k)"
    and part: "read32 m path = name" and ready: "directory_ready e L m (fs_private m disk + 64) names name nm"
    and safe: "\<And>a. in_range path 8 a \<or> in_range disk 20 a \<Longrightarrow> kept (kernel_heap e) L a \<and> \<not> in_range (tmp_filename e) 108 a"
    and miss: "\<forall>i<length names. \<not> same_name (names ! i) nm"
  shows "\<exists>m'. fat16_open e disk path FILE_MODE_READ m d = Some (- EIO, m', d) \<and>
    (\<forall>a. kept (kernel_heap e) L a \<and> \<not> in_range (tmp_filename e) 108 a \<longrightarrow> m' a = m a)"
proof -
  let ?h = "kernel_heap e" and ?dir = "fs_private m disk + 64"
  obtain s m1 where s: "kzalloc ?h m 8 = (s, m1)" by fastforce
  have sz: "(0 :: u32) < 8" "(8 :: u32) \<le> 4096" by simp_all
  note S = kh.alloc_page [OF live sz s]
  have m1: "m1 a = m a" if "kept ?h L a" for a using kh.alloc_keeps_all(1) [OF live sz s that] .
  have dir1: "fs_private m1 disk = fs_private m disk"
    using read32_kept [of disk 20 m1 m 16] safe m1 by (simp add: fs_private_def)
  have name1: "read32 m1 path = name" using read32_kept [of path 8 m1 m 0] safe m1 part by simp
  have "directory_ready e L m1 ?dir names name nm"
    by (rule directory_ready_cong(1) [OF ready]) (use m1 in auto)
  from find_item_fails [OF this miss, of disk d]
  obtain m2 where m2: "fat16_find_item_in_directory e disk ?dir name m1 d = Some (0, m2, d)"
    "\<And>a. \<not> in_range (tmp_filename e) 108 a \<Longrightarrow> m2 a = m1 a" by blast
  have "fat16_get_directory_entry e disk path m1 d = Some (0, m2, d)"
    using m2(1) by (simp add: fat16_get_directory_entry_def dir1 name1)
  then have "fat16_open e disk path FILE_MODE_READ m d = Some (- EIO, write32 m2 s 0, d)"
    using s S by (simp add: fat16_open_def)
  moreover have "write32 m2 s 0 a = m a" if "kept ?h L a" "\<not> in_range (tmp_filename e) 108 a" for a
  proof -
    have "\<not> in_range s 4 a" using kh.alloc_keeps_all(2) [OF live sz s that(1)] page_word(1) by blast
    then show ?thesis using m2(2) m1 that by (simp add: write32_apply)
  qed
  ultimately show ?thesis by blast
qed

text \<open>A path with a second part is never opened: the item found for the first is marked as a file.\<close>

lemma fat16_descend_refuses:
  assumes "read32 m (item + 4) = FAT_ITEM_TYPE_FILE" "part \<noteq> 0"
  shows "fat16_descend e disk item part m d = Some (0, m, d)"
  using assms by (simp add: fat16_descend.simps [of e disk item] status_defs)

section \<open>From the path to the item\<close>

text \<open>A byte that neither the heap nor the search for a name changes.\<close>

definition safe :: "'d env \<Rightarrow> (addr \<Rightarrow> nat option) \<Rightarrow> addr \<Rightarrow> bool" where
  "safe e L a \<longleftrightarrow> kept (kernel_heap e) L a \<and> \<not> in_range (tmp_filename e) 108 a"

lemma safe_mono: "safe e L a \<Longrightarrow> (\<And>q l. L q = Some l \<Longrightarrow> L' q = Some l) \<Longrightarrow> safe e L' a"
  using kh.keeps_mono unfolding safe_def by blast

lemma new_page_safe:
  assumes "kheap_live (kernel_heap e) m' L' k" "L' p = Some 4096" "L p = None"
    and "\<And>q l. L q = Some l \<Longrightarrow> L' q = Some l" "directory_ready e L m dir names name nm" "in_range p 4096 a"
  shows "safe e L' a"
proof -
  have "\<not> kept (kernel_heap e) L a" using kept_not_new [OF assms(1), where L = L and p = p and a = a] assms(2-4,6) by blast
  then show ?thesis
    using kh.keeps_live [OF assms(1), of p _ a] assms(2,5,6) unfolding safe_def directory_ready_def by blast
qed

lemma directory_ready_rename:
  assumes "directory_ready e L m dir names name nm" "cstr m name' nm" "\<And>i. i \<le> length nm \<Longrightarrow> safe e L (name' + word_of_nat i)"
  shows "directory_ready e L m dir names name' nm"
proof -
  have "safe e L a" if "in_range name' (Suc (length nm)) a" for a
    using in_range_ex [OF that] assms(3) by auto
  then show ?thesis
    using assms(1,2) by (auto simp: directory_ready_def listing_def name_buffer_apart_def search_reads_def safe_def)
qed

lemma one_part_parses:
  assumes live: "kheap_live h m L (7 + k)"
    and path: "cstr m path (d # colon # slash # nm)" "isdigit d" "nm \<noteq> []" "slash \<notin> set nm" "length nm \<le> 105"
      "\<And>i. i \<le> length nm + 3 \<Longrightarrow> kept h L (path + word_of_nat i)"
  shows "\<exists>root n st m1 L'. pathparser_parse h m path = Some (root, m1) \<and> root \<noteq> 0 \<and>
    read32 m1 root = tonumericdigit d \<and> read32 m1 (root + 4) = n \<and> n \<noteq> 0 \<and>
    read32 m1 n = st \<and> cstr m1 st nm \<and> read32 m1 (n + 4) = 0 \<and>
    kheap_live h m1 L' (Suc (Suc (Suc (Suc k)))) \<and> (\<forall>q l. L q = Some l \<longrightarrow> L' q = Some l) \<and>
    (\<forall>q\<in>{n, st}. L q = None \<and> L' q = Some 4096) \<and> (\<forall>a. kept h L a \<longrightarrow> m1 a = m a)"
proof -
  let ?s = "d # colon # slash # nm"
  have fp: "first_part nm = nm" using path(4) by (auto simp: first_part_def takeWhile_eq_all_conv)
  have "path_parts [] = []" by (simp add: path_parts.simps [of "[]"] first_part_def)
  then have pp: "path_parts nm = [nm]" using path(3) fp by (simp add: path_parts.simps [of nm])
  have count: "7 + k = Suc (2 * length (path_parts nm) + Suc (Suc (Suc (Suc k))))" by (simp add: pp)
  have len: "length ?s \<le> 108" using path(5) by simp
  have kept_path: "kept h L (path + word_of_nat i)" if "i \<le> length ?s" for i using path(6) that by simp
  obtain root m1 ns strs where parse: "pathparser_parse h m path = Some (root, m1)" "root \<noteq> 0"
    "read32 m1 root = tonumericdigit d" "read32 m1 (root + 4) = (if ns = [] then 0 else hd ns)"
    and parsed: "parsed h (L(root \<mapsto> 4096)) ns strs [nm] (Suc (Suc (Suc (Suc k)))) m1" "L root = None"
    and m1: "\<forall>a. kept h L a \<longrightarrow> m1 a = m a"
    using pathparser_parse_valid [OF live [unfolded count] path(1) len refl path(2) kept_path] unfolding pp by blast
  note P = parsed(1) [unfolded parsed_def parts_at_def]
  have "length ns = 1" "length strs = 1" using P by auto
  then obtain n st where ns: "ns = [n]" "strs = [st]" by (metis length_0_conv length_Suc_conv One_nat_def)
  have node: "read32 m1 n = st" "cstr m1 st nm" "read32 m1 (n + 4) = 0" using P by (auto simp: ns)
  let ?L = "with_pages (L(root \<mapsto> 4096)) {n, st}"
  have live1: "kheap_live h m1 ?L (Suc (Suc (Suc (Suc k))))" and new: "\<forall>q\<in>{n, st}. L q = None" "n \<noteq> 0"
    using P by (auto simp: ns split: if_splits)
  then have "\<forall>q l. L q = Some l \<longrightarrow> ?L q = Some l" "\<forall>q\<in>{n, st}. L q = None \<and> ?L q = Some 4096"
    using parsed(2) by (auto simp: with_pages_def)
  moreover have "read32 m1 (root + 4) = n" using parse(4) ns(1) by simp
  ultimately show ?thesis using parse(1-3) node live1 new(2) m1 by blast
qed

lemma path_ready:
  assumes live: "kheap_live (kernel_heap e) m L (7 + k)"
    and path: "cstr m path (d # colon # slash # nm)" "isdigit d" "nm \<noteq> []" "slash \<notin> set nm" "length nm \<le> 105"
      "\<forall>i\<le>length nm + 3. kept (kernel_heap e) L (path + word_of_nat i)"
    and ready: "directory_ready e L m (fs_private m disk + 64) names (path + 3) nm"
    and disk: "\<forall>a. in_range disk 20 a \<longrightarrow> safe e L a"
  shows "\<exists>root n st m1 L1. pathparser_parse (kernel_heap e) m path = Some (root, m1) \<and> root \<noteq> 0 \<and>
    read32 m1 root = tonumericdigit d \<and> read32 m1 (root + 4) = n \<and> n \<noteq> 0 \<and> read32 m1 n = st \<and> read32 m1 (n + 4) = 0 \<and>
    kheap_live (kernel_heap e) m1 L1 (Suc (Suc (Suc (Suc k)))) \<and> (\<forall>q l. L q = Some l \<longrightarrow> L1 q = Some l) \<and>
    (\<forall>a. kept (kernel_heap e) L a \<longrightarrow> m1 a = m a) \<and>
    fs_private m1 disk = fs_private m disk \<and> read32 m1 (fs_private m disk + 64) = read32 m (fs_private m disk + 64) \<and>
    directory_ready e L1 m1 (fs_private m1 disk + 64) names st nm \<and>
    (\<forall>a. in_range n 8 a \<or> in_range disk 20 a \<longrightarrow> safe e L1 a)"
proof -
  let ?h = "kernel_heap e" and ?dir = "fs_private m disk + 64"
  obtain root n st m1 L1 where parse: "pathparser_parse ?h m path = Some (root, m1)" "root \<noteq> 0"
    "read32 m1 root = tonumericdigit d" "read32 m1 (root + 4) = n" "n \<noteq> 0"
    and node: "read32 m1 n = st" "cstr m1 st nm" "read32 m1 (n + 4) = 0"
    and live1: "kheap_live ?h m1 L1 (Suc (Suc (Suc (Suc k))))" and more: "\<And>q l. L q = Some l \<Longrightarrow> L1 q = Some l"
    and new: "\<And>q. q = n \<or> q = st \<Longrightarrow> L q = None \<and> L1 q = Some 4096" and m1: "\<And>a. kept ?h L a \<Longrightarrow> m1 a = m a"
    using one_part_parses [OF live path(1-5)] path(6) by blast
  have page: "safe e L1 a" if "in_range p 4096 a" "p = n \<or> p = st" for p a
    by (rule new_page_safe [OF live1 _ _ more ready that(1)]) (use new [OF that(2)] in simp_all)
  have dir1: "fs_private m1 disk = fs_private m disk"
    using read32_kept [of disk 20 m1 m 16] disk m1 by (simp add: fs_private_def safe_def)
  have ready1: "directory_ready e L1 m1 ?dir names (path + 3) nm" "read32 m1 ?dir = read32 m ?dir"
    using directory_ready_cong [OF ready, of m1 L1] m1 more by blast+
  have "in_range st 4096 (st + word_of_nat i)" if "i \<le> length nm" for i
    using that path(5) by (intro in_range_offset) simp_all
  then have "directory_ready e L1 m1 (fs_private m1 disk + 64) names st nm"
    unfolding dir1 using page by (intro directory_ready_rename [OF ready1(1) node(2)]) blast
  moreover have "safe e L1 a" if "in_range n 8 a \<or> in_range disk 20 a" for a
    using that page [of n a] disk safe_mono [of e L a L1] more by (auto simp: in_range_def)
  ultimately show ?thesis using parse node(1,3) live1 more m1 dir1 ready1(2) by blast
qed

lemma path_opens:
  assumes live: "kheap_live (kernel_heap e) m L (7 + k)"
    and path: "cstr m path (d # colon # slash # nm)" "isdigit d" "nm \<noteq> []" "slash \<notin> set nm" "length nm \<le> 105"
      "\<forall>i\<le>length nm + 3. kept (kernel_heap e) L (path + word_of_nat i)"
    and ready: "directory_ready e L m (fs_private m disk + 64) names (path + 3) nm"
    and disks: "\<forall>a. in_range disk 20 a \<longrightarrow> safe e L a"
    and match: "only_match names nm j" "m (item_addr m (fs_private m disk + 64) j + 11) AND FAT_FILE_SUBDIRECTORY = 0"
  shows "\<exists>root n m1 s f c m2 L'. pathparser_parse (kernel_heap e) m path = Some (root, m1) \<and> root \<noteq> 0 \<and>
    read32 m1 root = tonumericdigit d \<and> read32 m1 (root + 4) = n \<and> n \<noteq> 0 \<and>
    (\<forall>a. kept (kernel_heap e) L a \<longrightarrow> m1 a = m a) \<and>
    fat16_open e disk n FILE_MODE_READ m1 dv = Some (s, m2, dv) \<and> s \<noteq> 0 \<and>
    read32 m2 s = f \<and> read32 m2 (s + 4) = 0 \<and> item_made m (item_addr m (fs_private m disk + 64) j) m2 f c \<and>
    kheap_live (kernel_heap e) m2 L' (Suc k) \<and> (\<forall>q l. L q = Some l \<longrightarrow> L' q = Some l) \<and>
    (\<forall>q\<in>{s, f, c}. L q = None \<and> L' q = Some 4096) \<and> (\<forall>a. safe e L a \<longrightarrow> m2 a = m a)"
proof -
  let ?h = "kernel_heap e" and ?dir = "fs_private m disk + 64" and ?p = "item_addr m (fs_private m disk + 64) j"
  obtain root n st m1 L1 where parse: "pathparser_parse ?h m path = Some (root, m1)" "root \<noteq> 0"
    "read32 m1 root = tonumericdigit d" "read32 m1 (root + 4) = n" "n \<noteq> 0"
    and node: "read32 m1 n = st" "read32 m1 (n + 4) = 0"
    and live1: "kheap_live ?h m1 L1 (Suc (Suc (Suc (Suc k))))" and more: "\<And>q l. L q = Some l \<Longrightarrow> L1 q = Some l"
    and m1: "\<And>a. kept ?h L a \<Longrightarrow> m1 a = m a"
    and dir1: "fs_private m1 disk = fs_private m disk" "read32 m1 ?dir = read32 m ?dir"
    and ready1: "directory_ready e L1 m1 (fs_private m1 disk + 64) names st nm"
    and safe1: "\<And>a. in_range n 8 a \<or> in_range disk 20 a \<Longrightarrow> kept ?h L1 a \<and> \<not> in_range (tmp_filename e) 108 a"
    using path_ready [OF live path ready disks] unfolding safe_def by blast
  have p1: "item_addr m1 (fs_private m1 disk + 64) j = ?p" by (simp add: item_addr_def dir1)
  have item: "m1 (?p + word_of_nat i) = m (?p + word_of_nat i)" if "i < 32" for i
    using ready match(1) search_readsI(2) [of j "length names" i m ?dir "path + 3" nm] that m1
    by (auto simp: directory_ready_def listing_def only_match_def)
  have plain: "m1 (?p + 11) AND FAT_FILE_SUBDIRECTORY = 0" using match(2) item [of 11] by simp
  obtain s f c m2 where opened: "fat16_open e disk n FILE_MODE_READ m1 dv = Some (s, m2, dv)" "s \<noteq> 0" "distinct [s, f, c]"
    "L1 s = None" "L1 f = None" "L1 c = None" "read32 m2 s = f" "read32 m2 (s + 4) = 0"
    and made: "item_made m1 ?p m2 f c"
    and live2: "kheap_live ?h m2 (L1(s \<mapsto> 4096, f \<mapsto> 4096, c \<mapsto> 4096)) (Suc k)"
    and m2: "\<And>a. kept ?h L1 a \<and> \<not> in_range (tmp_filename e) 108 a \<Longrightarrow> m2 a = m1 a"
    using fat16_open_works [OF live1 node ready1 safe1 match(1), where d = dv] plain unfolding p1 by blast
  let ?L2 = "L1(s \<mapsto> 4096, f \<mapsto> 4096, c \<mapsto> 4096)"
  have old: "L q = None" if "L1 q = None" for q using more [of q] that by (cases "L q") auto
  have "item_made m ?p m2 f c" using made item by (simp add: item_made_def)
  moreover have "m2 a = m a" if "safe e L a" for a
    using m2 safe_mono [OF that more] m1 that by (simp add: safe_def)
  moreover have "\<forall>q l. L q = Some l \<longrightarrow> ?L2 q = Some l" using more opened(4-6) by auto
  moreover have "\<forall>q\<in>{s, f, c}. L q = None \<and> ?L2 q = Some 4096" using opened(3-6) old by auto
  ultimately show ?thesis using parse m1 opened(1,2,7,8) live2 by blast
qed

section \<open>A volume and a table that stay\<close>

text \<open>The bytes of the disk structure, of the private data of the file system and of the stream for
  clusters.\<close>

definition volume_cell :: "mem \<Rightarrow> addr \<Rightarrow> addr \<Rightarrow> bool" where
  "volume_cell m disk a \<longleftrightarrow> in_range disk 20 a \<or> in_range (fs_private m disk) 92 a \<or> in_range (cluster_stream m disk) 8 a"

lemma volume_cong:
  assumes "\<And>a. volume_cell m disk a \<Longrightarrow> m' a = m a"
  shows "mounted e m' disk spc start = mounted e m disk spc start" "cluster_stream m' disk = cluster_stream m disk"
    "fs_private m' disk = fs_private m disk" "read32 m' (disk + 12) = read32 m (disk + 12)"
proof -
  have dis: "read32 m' (disk + word_of_nat i) = read32 m (disk + word_of_nat i)" if "i + 4 \<le> 20" for i
    using read32_kept [of disk 20 m' m i] that assms by (simp add: volume_cell_def)
  show f: "fs_private m' disk = fs_private m disk" using dis [of 16] by (simp add: fs_private_def)
  show "read32 m' (disk + 12) = read32 m (disk + 12)" using dis [of 12] by simp
  have fp: "read32 m' (fs_private m disk + word_of_nat i) = read32 m (fs_private m disk + word_of_nat i)" if "i + 4 \<le> 92" for i
    using read32_kept [of "fs_private m disk" 92 m' m i] that assms by (simp add: volume_cell_def)
  have "m' (fs_private m disk + word_of_nat 13) = m (fs_private m disk + word_of_nat 13)"
    by (intro assms) (simp add: volume_cell_def in_range_offset del: of_nat_numeral)
  then have "sectors_per_cluster m' (fs_private m' disk) = sectors_per_cluster m (fs_private m disk)"
    by (simp add: sectors_per_cluster_def f)
  moreover show s: "cluster_stream m' disk = cluster_stream m disk" using fp [of 80] by (simp add: f)
  moreover have "read32 m' (cluster_stream m disk + 4) = read32 m (cluster_stream m disk + 4)"
    using read32_kept [of "cluster_stream m disk" 8 m' m 4] assms by (simp add: volume_cell_def)
  moreover have "sector_size m' disk = sector_size m disk" using dis [of 4] by (simp add: sector_size_def)
  moreover have "ending_sector_pos m' (fs_private m' disk) = ending_sector_pos m (fs_private m disk)"
    using fp [of 76] by (simp add: ending_sector_pos_def f add.assoc)
  ultimately show "mounted e m' disk spc start = mounted e m disk spc start"
    by (simp add: mounted_def)
qed

lemma item_made_cluster: "item_made m item m' f c \<Longrightarrow> fat16_get_first_cluster m' c = fat16_get_first_cluster m item"
proof -
  assume "item_made m item m' f c"
  then have "m' (c + word_of_nat i) = m (item + word_of_nat i)" if "i < 32" for i using that by (simp add: item_made_def)
  from this [of 20] this [of 21] this [of 26] this [of 27] show ?thesis
    by (simp add: fat16_get_first_cluster_def read16_def add.assoc)
qed

text \<open>A page that was not there before lies apart from the table of descriptors, and is not changed
  by the entry of a new one.\<close>

definition table_free :: "vfs \<Rightarrow> mem \<Rightarrow> nat \<Rightarrow> bool" where
  "table_free v m i \<longleftrightarrow> i < 511 \<and> read32 m (file_descriptors v + 4 * word_of_nat i) = 0 \<and>
     (\<forall>j<i. read32 m (file_descriptors v + 4 * word_of_nat j) \<noteq> 0)"

lemma table_free_cong:
  assumes "table_free v m i" "\<And>a. in_range (file_descriptors v) 2048 a \<Longrightarrow> m' a = m a"
  shows "table_free v m' i"
proof -
  have "read32 m' (file_descriptors v + 4 * word_of_nat j) = read32 m (file_descriptors v + 4 * word_of_nat j)" if "j < 512" for j
    using read32_kept [of "file_descriptors v" 2048 m' m "4 * j", OF assms(2)] that by simp
  then show ?thesis using assms(1) by (auto simp: table_free_def)
qed

lemma table_entry: "i < 512 \<Longrightarrow> in_range (file_descriptors v + 4 * word_of_nat i) 4 a \<Longrightarrow> in_range (file_descriptors v) 2048 a"
  using in_range_sub [of "file_descriptors v" "4 * i" 4 a 2048] by simp

text \<open>The descriptor that \<open>fopen\<close> enters and fills.\<close>

lemma descriptor_filled:
  assumes live: "kheap_live kh m L (Suc k)" and kept: "\<And>a. in_range (file_descriptors v) 2048 a \<Longrightarrow> kept kh L a"
    and free: "table_free v m i"
  shows "\<exists>desc m' m1. file_new_descriptor kh v m = (0, desc, m1) \<and> desc \<noteq> 0 \<and> L desc = None \<and>
    m' = write32 (write32 (write32 m1 (desc + 4) fs) (desc + 8) data) (desc + 12) disk \<and>
    read32 m' desc = word_of_nat (Suc i) \<and> read32 m' (desc + 4) = fs \<and> read32 m' (desc + 8) = data \<and> read32 m' (desc + 12) = disk \<and>
    file_get_descriptor v m' (word_of_nat (Suc i)) = desc \<and>
    (\<forall>a. kept kh L a \<and> \<not> in_range (file_descriptors v) 2048 a \<longrightarrow> m1 a = m a \<and> m' a = m a)"
proof -
  note F = free [unfolded table_free_def]
  have at: "kept kh L (file_descriptors v + word_of_nat l)" if "l < 2048" for l
    using that by (intro kept in_range_offset) simp_all
  have i: "i < 512" using F by simp
  obtain desc m1 where new: "file_new_descriptor kh v m = (0, desc, m1)" "desc \<noteq> 0" "L desc = None"
    and live1: "kheap_live kh m1 (L(desc \<mapsto> 4096)) k" and id: "read32 m1 desc = word_of_nat (Suc i)"
    and slot: "read32 m1 (file_descriptors v + 4 * word_of_nat i) = desc"
    and same: "\<And>a. kept kh L a \<and> \<not> in_range (file_descriptors v + 4 * word_of_nat i) 4 a \<Longrightarrow> m1 a = m a"
    using file_new_descriptor_works [OF live at i] F by blast
  let ?m = "write32 (write32 (write32 m1 (desc + 4) fs) (desc + 8) data) (desc + 12) disk"
  have out: "\<not> in_range desc 4096 a" if "kept kh L a" for a
    by (rule kept_not_new [OF live1 _ new(3) that]) (use new(3) in auto)
  have same': "?m a = m1 a" if "\<not> in_range desc 4096 a" for a
  proof -
    have "\<not> in_range (desc + 4) 4 a" "\<not> in_range (desc + 8) 4 a" "\<not> in_range (desc + 12) 4 a"
      using that page_word [of desc a] by blast+
    then show ?thesis by (simp only: write32_apply simp_thms if_False)
  qed
  have "read32 ?m (file_descriptors v + 4 * word_of_nat i) = desc"
    using read32_kept [of "file_descriptors v" 2048 ?m m1 "4 * i"] same' out kept i slot by simp
  moreover have "i < 511" using F by simp
  ultimately have found: "file_get_descriptor v ?m (word_of_nat (Suc i)) = desc"
    using file_get_descriptor_slot [OF i, of v ?m] by simp
  have "m1 a = m a \<and> ?m a = m a" if "kept kh L a" "\<not> in_range (file_descriptors v) 2048 a" for a
    using same [of a] same' [OF out [OF that(1)]] that table_entry [OF i] by metis
  moreover have "aligned desc" using kheap_live_regions(3) [OF live1, of desc 4096] by simp
  then have "read32 (write32 m (desc + 4 * word_of_nat j) w) (desc + 4 * word_of_nat l) = read32 m (desc + 4 * word_of_nat l)"
    if "l < 4" "j < 4" "j \<noteq> l" for m j l w using that by (intro read_slot_other) auto
  note word = this [of 0 1] this [of 0 2] this [of 0 3] this [of 1 2] this [of 1 3] this [of 2 3]
  have "read32 ?m desc = word_of_nat (Suc i)" "read32 ?m (desc + 4) = fs" "read32 ?m (desc + 8) = data"
    "read32 ?m (desc + 12) = disk" using id word by simp_all
  ultimately show ?thesis using new found
    by (rule_tac x = desc in exI, rule_tac x = ?m in exI, rule_tac x = m1 in exI) blast
qed

section \<open>Opening and reading\<close>

text \<open>A path that reaches a directory: it is the drive 0 and one name, the disk has the file system FAT16,
  and the path, the root directory, whose entries have the names \<open>names\<close>, and the disk structure are
  out of the reach of the heap.\<close>

definition reaches_directory ::
    "'d env \<Rightarrow> (addr \<Rightarrow> 'd fs_ops) \<Rightarrow> (addr \<Rightarrow> nat option) \<Rightarrow> mem \<Rightarrow> addr \<Rightarrow> byte list list \<Rightarrow> byte list \<Rightarrow> bool" where
  "reaches_directory e ops L m path names nm \<longleftrightarrow>
     cstr m path (0x30 # colon # slash # nm) \<and> nm \<noteq> [] \<and> slash \<notin> set nm \<and> length nm \<le> 105 \<and>
     (\<forall>i\<le>length nm + 3. kept (kernel_heap e) L (path + word_of_nat i)) \<and>
     directory_ready e L m (fs_private m (disk_addr e) + 64) names (path + 3) nm \<and>
     disk_addr e \<noteq> 0 \<and> read32 m (disk_addr e + 12) \<noteq> 0 \<and> ops (read32 m (disk_addr e + 12)) = fat16_ops e \<and>
     (\<forall>a. in_range (disk_addr e) 20 a \<longrightarrow> safe e L a)"

text \<open>A file that can be opened: entry \<open>j\<close> is the only one with the name of the path, its first cluster
  is \<open>c\<close>, and the structures of the volume and the table of descriptors stay as they are.\<close>

definition openable ::
    "'d env \<Rightarrow> (addr \<Rightarrow> 'd fs_ops) \<Rightarrow> vfs \<Rightarrow> (addr \<Rightarrow> nat option) \<Rightarrow> mem \<Rightarrow> addr \<Rightarrow> byte list list \<Rightarrow> byte list \<Rightarrow> nat \<Rightarrow> nat \<Rightarrow> bool"
  where
  "openable e ops v L m path names nm j c \<longleftrightarrow> reaches_directory e ops L m path names nm \<and> only_match names nm j \<and>
     (let item = item_addr m (fs_private m (disk_addr e) + 64) j in
        m (item + 11) AND FAT_FILE_SUBDIRECTORY = 0 \<and> fat16_get_first_cluster m item = word_of_nat c \<and> 2 \<le> c \<and> c < 2 ^ 31) \<and>
     (\<forall>a. volume_cell m (disk_addr e) a \<longrightarrow> safe e L a \<and> \<not> in_range (file_descriptors v) 2048 a) \<and>
     (\<forall>a. in_range (file_descriptors v) 2048 a \<longrightarrow> safe e L a)"

text \<open>What an open file looks like to \<open>fread\<close>.\<close>

definition opened_at :: "(addr \<Rightarrow> 'd fs_ops) \<Rightarrow> 'd fs_ops \<Rightarrow> vfs \<Rightarrow> mem \<Rightarrow> addr \<Rightarrow> nat \<Rightarrow> nat \<Rightarrow> bool" where
  "opened_at ops fat v m disk fd c \<longleftrightarrow>
     (let desc = file_get_descriptor v m (word_of_nat fd); data = read32 m (desc + 8)
      in desc \<noteq> 0 \<and> ops (read32 m (desc + 4)) = fat \<and> read32 m (desc + 12) = disk \<and> read32 m (data + 4) = 0 \<and>
        fat16_get_first_cluster m (read32 m (read32 m data)) = word_of_nat c)"

lemma volume_disk: "in_range disk 20 a \<Longrightarrow> volume_cell m disk a"
  by (simp add: volume_cell_def)

lemma low_page:
  assumes "kheap_live h m L k" "L s = Some 4096" "unat (saddr h) + 4096 * unat (total (table h)) \<le> 2 ^ 31"
  shows "\<not> ISERR s"
proof -
  have "in_range s 4096 s" by (simp add: in_range_def)
  then have pool: "unat (s - saddr h) < unat (total (table h)) * 4096"
    using kheap_live_regions(2) [OF assms(1,2), of s] by (simp add: in_range_def)
  then have "unat (saddr h + (s - saddr h)) = unat (saddr h) + unat (s - saddr h)"
    using assms(3) by (intro unat_add_lem [THEN iffD1]) simp
  then have "unat s < 2 ^ 31" using pool assms(3) by simp
  then have "sint s = int (unat s)" using sint_word_of_nat [of "unat s"] by simp
  then show ?thesis by (simp add: ISERR_def word_sless_alt)
qed

text \<open>The steps of \<open>fopen_status\<close> when nothing goes wrong.\<close>

lemma fopen_status_steps:
  assumes "pathparser_parse (kernel_heap e) m path = Some (root, m1)" "root \<noteq> 0" "read32 m1 root = 0" "read32 m1 (root + 4) = n" "n \<noteq> 0"
    and "disk_addr e \<noteq> 0" "read32 m1 (disk_addr e + 12) = fs" "fs \<noteq> 0" "m1 mode = 0x72"
    and "fs_open (ops fs) (disk_addr e) n FILE_MODE_READ m1 d = Some (s, m2, d')" "\<not> ISERR s"
    and "file_new_descriptor (kernel_heap e) v m2 = (0, desc, m3)" "read32 m3 (disk_addr e + 12) = fs"
    and "m4 = write32 (write32 (write32 m3 (desc + 4) fs) (desc + 8) s) (desc + 12) (disk_addr e)"
  shows "fopen_status e ops v path mode m d = Some (read32 m4 desc, m4, d')"
proof -
  have "file_get_mode_by_string m1 mode = FILE_MODE_READ" using assms(9) by (simp add: file_get_mode_by_string_def)
  moreover have "GetDisk (disk_addr e) 0 = disk_addr e" "FILE_MODE_READ \<noteq> FILE_MODE_INVALID" by (simp_all add: GetDisk_def status_defs)
  ultimately show ?thesis
    using assms(2,5,6,8,11) by (simp add: fopen_status_def assms(1,3,4,7,10,12,13) assms(14) [symmetric])
qed

lemma fopen_works:
  assumes live: "kheap_live (kernel_heap e) m L (7 + k)" and low: "unat (saddr (kernel_heap e)) + 4096 * unat (total (table (kernel_heap e))) \<le> 2 ^ 31"
    and able: "openable e ops v L m path names nm j c" and mode: "m mode = 0x72" "kept (kernel_heap e) L mode"
    and free: "table_free v m i" and vol: "mounted e m (disk_addr e) spc start"
  shows "\<exists>m'. fopen e ops v path mode m d = Some (word_of_nat (Suc i), m', d) \<and>
    opened_at ops (fat16_ops e) v m' (disk_addr e) (Suc i) c \<and> mounted e m' (disk_addr e) spc start"
proof -
  let ?h = "kernel_heap e" and ?disk = "disk_addr e"
  note O = able [unfolded openable_def reaches_directory_def Let_def]
  have cells: "\<And>a. volume_cell m ?disk a \<Longrightarrow> safe e L a \<and> \<not> in_range (file_descriptors v) 2048 a"
    and table: "\<And>a. in_range (file_descriptors v) 2048 a \<Longrightarrow> safe e L a" using O by blast+
  have disk: "\<forall>a. in_range ?disk 20 a \<longrightarrow> safe e L a" using O by blast
  have path: "cstr m path (0x30 # colon # slash # nm)" "nm \<noteq> []" "slash \<notin> set nm" "length nm \<le> 105"
      "\<forall>i\<le>length nm + 3. kept ?h L (path + word_of_nat i)"
      "directory_ready e L m (fs_private m ?disk + 64) names (path + 3) nm"
    and match: "only_match names nm j" "m (item_addr m (fs_private m ?disk + 64) j + 11) AND FAT_FILE_SUBDIRECTORY = 0"
    and cluster: "fat16_get_first_cluster m (item_addr m (fs_private m ?disk + 64) j) = word_of_nat c" using O by blast+
  have digit: "isdigit 0x30" "tonumericdigit 0x30 = 0" by (simp_all add: isdigit_def tonumericdigit_def)
  obtain root n m1 s f cp m2 L' where parse: "pathparser_parse ?h m path = Some (root, m1)" "root \<noteq> 0"
    "read32 m1 root = 0" "read32 m1 (root + 4) = n" "n \<noteq> 0" and m1s: "\<forall>a. kept ?h L a \<longrightarrow> m1 a = m a"
    and op: "fat16_open e ?disk n FILE_MODE_READ m1 d = Some (s, m2, d)" "s \<noteq> 0" "read32 m2 s = f" "read32 m2 (s + 4) = 0"
    and made: "item_made m (item_addr m (fs_private m ?disk + 64) j) m2 f cp"
    and live2: "kheap_live ?h m2 L' (Suc k)" and mores: "\<forall>q l. L q = Some l \<longrightarrow> L' q = Some l"
    and news: "\<forall>q\<in>{s, f, cp}. L q = None \<and> L' q = Some 4096" and m2s: "\<forall>a. safe e L a \<longrightarrow> m2 a = m a"
    using path_opens [where d = "0x30" and disk = ?disk and dv = d and nm = nm, OF live path(1) digit(1) path(2-5) path(6) disk match]
    unfolding digit(2) by (elim exE conjE) (rule that)
  have m1: "m1 a = m a" if "kept ?h L a" for a using m1s that by blast
  have m2: "m2 a = m a" if "safe e L a" for a using m2s that by blast
  have more: "L' q = Some l" if "L q = Some l" for q l using mores that by blast
  have new: "L q = None \<and> L' q = Some 4096" if "q \<in> {s, f, cp}" for q by (rule bspec [OF news that])
  let ?fs = "read32 m (?disk + 12)"
  have vol1: "read32 m1 (?disk + 12) = ?fs" "read32 m2 (?disk + 12) = ?fs"
    using volume_cong(4) [of m ?disk m1] volume_cong(4) [of m ?disk m2] cells m1 m2 by (auto simp: safe_def)
  have kept2: "kept ?h L' a" if "safe e L a" for a using safe_mono [OF that more] by (simp add: safe_def)
  obtain desc m4 m3 where entry: "file_new_descriptor ?h v m2 = (0, desc, m3)" "desc \<noteq> 0"
      "m4 = write32 (write32 (write32 m3 (desc + 4) ?fs) (desc + 8) s) (desc + 12) ?disk"
    and desc: "read32 m4 desc = word_of_nat (Suc i)" "read32 m4 (desc + 4) = ?fs" "read32 m4 (desc + 8) = s" "read32 m4 (desc + 12) = ?disk"
      "file_get_descriptor v m4 (word_of_nat (Suc i)) = desc"
    and m4: "\<And>a. kept ?h L' a \<Longrightarrow> \<not> in_range (file_descriptors v) 2048 a \<Longrightarrow> m3 a = m2 a \<and> m4 a = m2 a"
    using descriptor_filled [OF live2 kept2 [OF table] table_free_cong [OF free m2 [OF table]], of ?fs s ?disk] by blast
  have cell4: "m3 a = m a" "m4 a = m a" if "volume_cell m ?disk a" for a
    using m4 [OF kept2] m2 cells [OF that] by auto
  have page: "m4 a = m2 a" if "in_range q 4096 a" "q \<in> {s, f, cp}" for a q
  proof -
    have "kept ?h L' a" using kh.keeps_live [OF live2 _ that(1)] new [OF that(2)] by blast
    moreover have "\<not> in_range (file_descriptors v) 2048 a"
      using kept_not_new [OF live2, of q 4096 L a] new [OF that(2)] more that(1) table by (auto simp: safe_def)
    ultimately show ?thesis using m4 by blast
  qed
  have data: "read32 m4 s = f" "read32 m4 (s + 4) = 0" using read32_page [of s m4 m2] page op(3,4) by auto
  have made4: "item_made m (item_addr m (fs_private m ?disk + 64) j) m4 f cp" by (rule item_made_cong [OF made]) (use page in blast)
  have at: "read32 m4 f = cp" using made4 by (simp add: item_made_def)
  have fat: "ops ?fs = fat16_ops e" "?fs \<noteq> 0" "?disk \<noteq> 0" using O by blast+
  have "opened_at ops (fat16_ops e) v m4 ?disk (Suc i) c"
    using entry(2) desc data at item_made_cluster [OF made4] cluster fat by (simp add: opened_at_def del: of_nat_Suc)
  moreover have "mounted e m4 ?disk spc start" using volume_cong(1) [of m ?disk m4] cell4(2) vol by blast
  moreover have "fopen_status e ops v path mode m d = Some (word_of_nat (Suc i), m4, d)"
  proof -
    have "fs_open (ops ?fs) ?disk n FILE_MODE_READ m1 d = Some (s, m2, d)" using op(1) fat(1) by (simp add: fat16_ops_def)
    moreover have "read32 m3 (?disk + 12) = ?fs" using volume_cong(4) [of m ?disk m3] cell4(1) by blast
    moreover have "m1 mode = 0x72" "\<not> ISERR s" using mode m1 low_page [OF live2 _ low, of s] new [of s] by simp_all
    ultimately show ?thesis
      using fopen_status_steps [OF parse fat(3) vol1(1) fat(2) _ _ _ entry(1) _ entry(3)] desc(1) by metis
  qed
  moreover have "\<not> (word_of_nat (Suc i) :: u32) <s 0"
    using free sint_word_of_nat [of "Suc i"] by (simp add: word_sless_alt table_free_def)
  ultimately show ?thesis by (simp add: fopen_def)
qed

lemma fopen_misses_run:
  assumes live: "kheap_live (kernel_heap e) m L (7 + k)" and reach: "reaches_directory e ops L m path names nm"
    and miss: "\<forall>i<length names. \<not> same_name (names ! i) nm" and mode: "m mode = 0x72" "kept (kernel_heap e) L mode"
  shows "\<exists>m'. fopen_status e ops v path mode m d = Some (- EIO, m', d) \<and> (\<forall>a. safe e L a \<longrightarrow> m' a = m a)"
proof -
  let ?h = "kernel_heap e" and ?disk = "disk_addr e"
  note R = reach [unfolded reaches_directory_def]
  have path: "cstr m path (0x30 # colon # slash # nm)" "nm \<noteq> []" "slash \<notin> set nm" "length nm \<le> 105"
      "\<forall>i\<le>length nm + 3. kept ?h L (path + word_of_nat i)"
      "directory_ready e L m (fs_private m ?disk + 64) names (path + 3) nm"
    and disk: "\<forall>a. in_range ?disk 20 a \<longrightarrow> safe e L a" and fat: "?disk \<noteq> 0" "read32 m (?disk + 12) \<noteq> 0"
      "ops (read32 m (?disk + 12)) = fat16_ops e" using R by blast+
  have digit: "isdigit 0x30" "tonumericdigit 0x30 = 0" by (simp_all add: isdigit_def tonumericdigit_def)
  obtain root n st m1 L1 where parse: "pathparser_parse ?h m path = Some (root, m1)" "root \<noteq> 0"
    "read32 m1 root = 0" "read32 m1 (root + 4) = n" "n \<noteq> 0" and node: "read32 m1 n = st"
    and live1: "kheap_live ?h m1 L1 (Suc (Suc (Suc (Suc k))))" and more: "\<And>q l. L q = Some l \<Longrightarrow> L1 q = Some l"
    and m1: "\<And>a. kept ?h L a \<Longrightarrow> m1 a = m a"
    and ready1: "directory_ready e L1 m1 (fs_private m1 ?disk + 64) names st nm"
    and safe1: "\<And>a. in_range n 8 a \<or> in_range ?disk 20 a \<Longrightarrow> kept ?h L1 a \<and> \<not> in_range (tmp_filename e) 108 a"
    using path_ready [OF live path(1) digit(1) path(2-6) disk] unfolding digit(2) safe_def by blast
  obtain m2 where m2: "fat16_open e ?disk n FILE_MODE_READ m1 d = Some (- EIO, m2, d)"
    "\<And>a. kept ?h L1 a \<and> \<not> in_range (tmp_filename e) 108 a \<Longrightarrow> m2 a = m1 a"
    using fat16_open_misses [OF live1 node ready1 safe1 miss, of d] by blast
  have fs: "read32 m1 (?disk + 12) = read32 m (?disk + 12)"
    using read32_kept [of ?disk 20 m1 m 12] disk m1 by (simp add: safe_def)
  have "ISERR (- EIO)" by (simp add: ISERR_def status_defs word_sless_alt)
  moreover have "file_get_mode_by_string m1 mode = FILE_MODE_READ" using mode m1 by (simp add: file_get_mode_by_string_def)
  moreover have "GetDisk ?disk 0 = ?disk" "FILE_MODE_READ \<noteq> FILE_MODE_INVALID" by (simp_all add: GetDisk_def status_defs)
  ultimately have "fopen_status e ops v path mode m d = Some (- EIO, m2, d)"
    using m2(1) fat parse(2,5) by (simp add: fopen_status_def parse(1,3,4) fs fat16_ops_def)
  moreover have "m2 a = m a" if "safe e L a" for a
    using m2(2) safe_mono [OF that more] m1 that by (simp add: safe_def)
  ultimately show ?thesis by blast
qed

section \<open>Properties\<close>

text \<open>C2: when the path \<open>0:/name\<close> names, whatever the case of the letters, exactly one ordinary file in
  the root directory of the mounted volume and the descriptor table has its first null entry at \<open>i\<close>,
  \<open>fopen\<close> with mode \<open>r\<close> returns the descriptor \<open>i + 1\<close> without touching the disk, and \<open>fread\<close> of \<open>n\<close>
  bytes, not more than a cluster, from that descriptor returns 1 and delivers the bytes that the
  disk holds from the first cluster of the file on.\<close>

theorem open_then_read:
  assumes "ata_serves (ports_of e) idle phase img" "idle d" "mounted e m (disk_addr e) spc start"
    and "kheap_live (kernel_heap e) m L (7 + k)"
    and "unat (saddr (kernel_heap e)) + 4096 * unat (total (table (kernel_heap e))) \<le> 2 ^ 31"
    and "openable e ops v L m path names nm j c" "m mode = 0x72" "kept (kernel_heap e) L mode" "table_free v m i"
    and "0 < n" "n \<le> spc * 512" "cluster_byte spc start c + n < 2 ^ 31"
  shows "\<exists>m1 m2 d2. fopen e ops v path mode m d = Some (word_of_nat (Suc i), m1, d) \<and>
    fread ops v (word_of_nat n) 1 (word_of_nat (Suc i)) m1 d =
      Some (1, map (\<lambda>k. img (cluster_byte spc start c + k)) [0..<n], m2, d2) \<and> idle d2"
proof -
  obtain m1 where open1: "fopen e ops v path mode m d = Some (word_of_nat (Suc i), m1, d)"
    and at: "opened_at ops (fat16_ops e) v m1 (disk_addr e) (Suc i) c" and vol: "mounted e m1 (disk_addr e) spc start"
    using fopen_works [OF assms(4-9,3)] by blast
  let ?desc = "read32 m1 (file_descriptors v + 4 * word_of_nat (Suc i - 1))"
  have i: "0 < Suc i" "Suc i < 512" "i < 512" using assms(9) by (simp_all add: table_free_def)
  have "file_get_descriptor v m1 (word_of_nat (Suc i)) = ?desc"
    using file_get_descriptor_slot [OF i(3), of v m1] i(2) by simp
  then have desc: "?desc \<noteq> 0" "ops (read32 m1 (?desc + 4)) = fat16_ops e" "read32 m1 (?desc + 12) = disk_addr e"
      "fat16_get_first_cluster m1 (read32 m1 (read32 m1 (read32 m1 (?desc + 8)))) = word_of_nat c"
      "read32 m1 (read32 m1 (?desc + 8) + 4) = 0"
    using at by (simp_all add: opened_at_def Let_def del: of_nat_Suc)
  have c: "2 \<le> c" "c < 2 ^ 31" using assms(6) by (simp_all add: openable_def Let_def)
  show ?thesis
    using fread_first_cluster [where ops = ops and v = v and idle = idle and fd = "Suc i" and m = m1 and desc = ?desc,
        OF assms(1,2) vol i(1,2) refl desc(1-3) refl desc(4) c desc(5) assms(10-12)] open1 by blast
qed

text \<open>C30: a path to a name that no entry of the root directory has, whatever the case of the letters, is not
  opened: \<open>fopen\<close> returns the descriptor 0, which is none, without touching the disk or the table of
  descriptors, and the search changes nothing but the heap and the buffer for names.\<close>

theorem fopen_misses:
  assumes "kheap_live (kernel_heap e) m L (7 + k)" "reaches_directory e ops L m path names nm"
    and "\<forall>i<length names. \<not> same_name (names ! i) nm" "m mode = 0x72" "kept (kernel_heap e) L mode"
  shows "\<exists>m'. fopen e ops v path mode m d = Some (0, m', d) \<and> (\<forall>a. safe e L a \<longrightarrow> m' a = m a)"
proof -
  have "(- EIO :: u32) <s 0" by (simp add: status_defs word_sless_alt)
  then show ?thesis using fopen_misses_run [OF assms, of v d] by (auto simp: fopen_def)
qed

text \<open>A volume with one file \<open>A.B\<close>, which starts in cluster 5; there are the paths \<open>0:/a.b\<close> and \<open>0:/b\<close>. The heap has
  eight pages at \<open>0x10000\<close>.\<close>

definition one_file :: mem where
  "one_file = (\<lambda>_. 0)(0x5005 := 2, 0x500D := 0x12, 0x5011 := 0x60, 0x600D := 4, 0x6041 := 0xC0, 0x6044 := 1, 0x604C := 100,
     0x6051 := 0x70, 0x7005 := 0x50, 0xC000 := 0x41, 0xC001 := 0x20, 0xC008 := 0x42, 0xC009 := 0x20, 0xC01A := 5,
     0xD000 := 0x30, 0xD001 := 0x3A, 0xD002 := 0x2F, 0xD003 := 0x61, 0xD004 := 0x2E, 0xD005 := 0x62,
     0xD100 := 0x30, 0xD101 := 0x3A, 0xD102 := 0x2F, 0xD103 := 0x62, 0xE000 := 0x72)"

definition one_file_env :: "(nat \<times> nat) env" where
  "one_file_env = \<lparr>kernel_heap = \<lparr>table = \<lparr>entries = 0x100, total = 8\<rparr>, saddr = 0x10000\<rparr>, disk_addr = 0x5000, fat16_fs = 0x1200,
     tmp_filename = 0x3000, ports_of = example_ata, around_buf = (\<lambda>_. 0)\<rparr>"

abbreviation one_file_vfs :: vfs where
  "one_file_vfs \<equiv> \<lparr>filesystems = 0x4000, file_descriptors = 0x8000\<rparr>"

lemma one_file_words:
  "read32 one_file 0x5004 = 512" "read32 one_file 0x500C = 0x1200" "read32 one_file 0x5010 = 0x6000" "read32 one_file 0x6040 = 0xC000"
  "read32 one_file 0x6044 = 1" "read32 one_file 0x604C = 100" "read32 one_file 0x6050 = 0x7000" "read32 one_file 0x7004 = 0x5000"
  "read16 one_file 0xC014 = 0" "read16 one_file 0xC01A = 5" "read32 one_file 0x8000 = 0" "one_file 0x600D = 4" "one_file 0xE000 = 0x72"
  "one_file 0xC00B = 0"
  by (simp_all add: one_file_def read32_def read16_def)

lemma in_range_at: "unat p + n \<le> 2 ^ 32 \<Longrightarrow> in_range p n a \<longleftrightarrow> unat p \<le> unat a \<and> unat a < unat p + n"
  by (auto simp: in_range_def unat_sub_if')

lemma one_file_live: "kheap_live (kernel_heap one_file_env) one_file (\<lambda>_. None) (7 + 1)"
proof -
  let ?h = "kernel_heap one_file_env" and ?none = "\<lambda>_. None"
  have "one_file (0x100 + word_of_nat i) = 0" if "i < 8" for i
  proof -
    have "unat (0x100 + word_of_nat i :: u32) < 0x200" using that by (simp add: unat_word_ariths unat_word_of_nat)
    then show ?thesis by (auto simp: one_file_def)
  qed
  then have "heap_rep one_file (table ?h) ?none" by (simp add: heap_rep_def tb_def one_file_env_def)
  moreover have "pool_ok ?h"
    by (auto simp: one_file_env_def pool_ok_def aligned_def in_table_def in_range_def unat_sub_if')
  ultimately show ?thesis using fresh_heap_live [of one_file ?h] by (simp add: one_file_env_def)
qed

lemma one_file_safe:
  "unat a < 0x10000 \<Longrightarrow> 0x108 \<le> unat a \<Longrightarrow> kept (kernel_heap one_file_env) (\<lambda>_. None) a"
proof -
  have "in_table t a \<longleftrightarrow> in_range (entries t) (unat (total t)) a" for t :: heap_table
    by (simp add: in_table_def in_range_def)
  then show "unat a < 0x10000 \<Longrightarrow> 0x108 \<le> unat a \<Longrightarrow> kept (kernel_heap one_file_env) (\<lambda>_. None) a"
    unfolding kh.keeps_def by (simp add: in_range_at one_file_env_def)
qed

lemma one_file_disk:
  "disk_addr one_file_env = 0x5000" "fs_private one_file 0x5000 = 0x6000" "tmp_filename one_file_env = 0x3000"
  by (simp_all add: one_file_env_def fs_private_def one_file_words)

lemma one_file_stays: "0x4000 \<le> unat a \<Longrightarrow> unat a < 0x10000 \<Longrightarrow> safe one_file_env (\<lambda>_. None) a"
  using one_file_safe [of a] by (simp add: safe_def one_file_disk in_range_at)

lemma one_file_reaches:
  assumes path: "cstr one_file p (0x30 # colon # slash # nm)" "nm \<noteq> []" "slash \<notin> set nm" "length nm \<le> 105"
    and p: "0xD000 \<le> unat p" "unat p \<le> 0xDF00"
  shows "reaches_directory one_file_env (\<lambda>_. fat16_ops one_file_env) (\<lambda>_. None) one_file p [[0x41, 0x2E, 0x42]] nm"
proof -
  let ?names = "[[0x41, 0x2E, 0x42]] :: byte list list"
  have p3: "unat (p + 3) = unat p + 3" "unat (p + word_of_nat i) = unat p + i" if "i < 256" for i
    using p that by (simp_all add: unat_word_ariths unat_word_of_nat)
  have name: "cstr one_file (p + 3) nm" using path(1) by (simp add: add.assoc)
  have "field_at one_file 0xC000 [0x41]" "field_at one_file (0xC000 + 8) [0x42]" by (simp_all add: one_file_def)
  then have "item_named one_file 0xC000 [0x41, 0x2E, 0x42]"
    unfolding item_named_def by (intro exI [of _ "[0x41]"] exI [of _ "[0x42]"]) (simp add: display_name_def)
  then have "listing one_file 0x6040 ?names (p + 3) nm"
    using name path(4) by (simp add: listing_def item_addr_def one_file_words)
  moreover have "safe one_file_env (\<lambda>_. None) a" if "search_reads one_file 0x6040 1 (p + 3) nm a" for a
    using that p path(4) p3(1) [of 0] by (intro one_file_stays) (auto simp: search_reads_def one_file_words in_range_at)
  moreover have "kept (kernel_heap one_file_env) (\<lambda>_. None) a" if "in_range 0x3000 108 a" for a
    using that one_file_safe [of a] by (simp add: in_range_at)
  ultimately have "directory_ready one_file_env (\<lambda>_. None) one_file 0x6040 ?names (p + 3) nm"
    by (simp add: directory_ready_def name_buffer_apart_def one_file_disk safe_def)
  moreover have "kept (kernel_heap one_file_env) (\<lambda>_. None) (p + word_of_nat i)" if "i \<le> length nm + 3" for i
    using that p path(4) p3(2) [of i] by (intro one_file_safe) simp_all
  moreover have "safe one_file_env (\<lambda>_. None) a" if "in_range 0x5000 20 a" for a
    using that one_file_stays [of a] by (simp add: in_range_at)
  ultimately show ?thesis using path by (simp add: reaches_directory_def one_file_disk one_file_words)
qed

lemma one_file_openable:
  "openable one_file_env (\<lambda>_. fat16_ops one_file_env) one_file_vfs (\<lambda>_. None) one_file 0xD000 [[0x41, 0x2E, 0x42]] [0x61, 0x2E, 0x62] 0 5"
proof -
  have "cstr one_file 0xD000 (0x30 # colon # slash # [0x61, 0x2E, 0x62])" by (simp add: one_file_def)
  then have "reaches_directory one_file_env (\<lambda>_. fat16_ops one_file_env) (\<lambda>_. None) one_file 0xD000 [[0x41, 0x2E, 0x42]] [0x61, 0x2E, 0x62]"
    by (rule one_file_reaches) simp_all
  moreover have "only_match [[0x41, 0x2E, 0x42]] [0x61, 0x2E, 0x62] 0"
    by (simp add: only_match_def same_name_def tolower_def)
  moreover have "fat16_get_first_cluster one_file 0xC000 = 5" "item_addr one_file 0x6040 0 = 0xC000"
    by (simp_all add: fat16_get_first_cluster_def item_addr_def one_file_words)
  moreover have "safe one_file_env (\<lambda>_. None) a \<and> \<not> in_range 0x8000 2048 a" if "volume_cell one_file 0x5000 a" for a
    using that one_file_stays [of a] by (auto simp: volume_cell_def one_file_disk one_file_words in_range_at)
  moreover have "safe one_file_env (\<lambda>_. None) a" if "in_range 0x8000 2048 a" for a
    using that one_file_stays [of a] by (simp add: in_range_at)
  ultimately show ?thesis
    by (simp add: openable_def one_file_disk one_file_words FAT_FILE_SUBDIRECTORY_def)
qed

theorem open_then_read_witness:
  "\<exists>m1 m2 d2. fopen one_file_env (\<lambda>_. fat16_ops one_file_env) one_file_vfs 0xD000 0xE000 one_file (0, 0) = Some (1, m1, (0, 0)) \<and>
    fread (\<lambda>_. fat16_ops one_file_env) one_file_vfs 3 1 1 m1 (0, 0) =
      Some (1, map (\<lambda>k. example_img (cluster_byte 4 100 5 + k)) [0..<3], m2, d2)"
proof -
  have "mounted one_file_env one_file (disk_addr one_file_env) 4 100"
    by (simp add: mounted_def one_file_env_def sector_size_def sectors_per_cluster_def fs_private_def ending_sector_pos_def one_file_words)
  moreover have "table_free one_file_vfs one_file 0" by (simp add: table_free_def one_file_words)
  moreover have "ports_of one_file_env = example_ata" by (simp add: one_file_env_def)
  moreover have "cluster_byte 4 100 5 + 3 < 2 ^ 31" by (simp add: cluster_byte_def)
  moreover have "kept (kernel_heap one_file_env) (\<lambda>_. None) 0xE000" by (rule one_file_safe) simp_all
  moreover have "unat (saddr (kernel_heap one_file_env)) + 4096 * unat (total (table (kernel_heap one_file_env))) \<le> 2 ^ 31"
    by (simp add: one_file_env_def)
  ultimately show ?thesis
    using open_then_read [where e = one_file_env and d = "(0, 0)" and n = 3 and idle = "\<lambda>d. snd d = 0" and img = example_img,
        OF _ _ _ one_file_live _ one_file_openable, of _ 4 100 "0xE000" 0] example_ata_serves
    by (simp add: one_file_words) blast
qed

theorem fopen_misses_witness:
  "\<exists>m'. fopen one_file_env (\<lambda>_. fat16_ops one_file_env) one_file_vfs 0xD100 0xE000 one_file (0, 0) = Some (0, m', (0, 0)) \<and>
    m' 0xC000 = 0x41"
proof -
  have "cstr one_file 0xD100 (0x30 # colon # slash # [0x62])" by (simp add: one_file_def)
  then have "reaches_directory one_file_env (\<lambda>_. fat16_ops one_file_env) (\<lambda>_. None) one_file 0xD100 [[0x41, 0x2E, 0x42]] [0x62]"
    by (rule one_file_reaches) simp_all
  moreover have "\<forall>i<length [[0x41, 0x2E, 0x42]]. \<not> same_name ([[0x41, 0x2E, 0x42 :: byte]] ! i) [0x62]" by (simp add: same_name_def)
  moreover have "kept (kernel_heap one_file_env) (\<lambda>_. None) 0xE000" by (rule one_file_safe) simp_all
  moreover have "safe one_file_env (\<lambda>_. None) 0xC000" "one_file 0xC000 = 0x41"
    by (rule one_file_stays, simp, simp, simp add: one_file_def)
  ultimately show ?thesis
    using fopen_misses [OF one_file_live, where v = one_file_vfs and d = "(0, 0)"] one_file_words(13) by metis
qed

end
