(* ===== verification/Terminal.thy ===== *)
theory Terminal
  imports Strings
begin

text \<open>
  The text terminal of \<^verbatim>\<open>init/kernel.c\<close>: 20 rows of 80 cells in video memory, each a character and
  its colours, and the position of the next character. A newline is the character 10.
\<close>

section \<open>State and operations\<close>

record terminal =
  video_mem :: addr
  terminal_row :: u16
  terminal_col :: u16

definition VGA_WIDTH :: nat where [status_defs]: "VGA_WIDTH = 80"
definition VGA_HEIGHT :: nat where [status_defs]: "VGA_HEIGHT = 20"
definition VGA_COLOR_BLUE :: u32 where [status_defs]: "VGA_COLOR_BLUE = 1"
definition VGA_COLOR_WHITE :: u32 where [status_defs]: "VGA_COLOR_WHITE = 15"

definition vga_entry_color :: "u32 \<Rightarrow> u32 \<Rightarrow> byte" where
  "vga_entry_color fg bg = ucast (fg OR push_bit 4 bg)"

text \<open>Both arguments are \<open>char\<close>, which is signed, and are promoted to \<open>int\<close>.\<close>

definition terminal_make_char :: "byte \<Rightarrow> byte \<Rightarrow> u16" where
  "terminal_make_char c colour = ucast (push_bit 8 (scast colour) OR scast c :: u32)"

text \<open>The address of \<open>video_mem[(y * VGA_WIDTH) + x]\<close>.\<close>

definition vaddr :: "terminal \<Rightarrow> u32 \<Rightarrow> u32 \<Rightarrow> addr" where
  "vaddr t x y = video_mem t + 2 * (y * word_of_nat VGA_WIDTH + x)"

definition terminal_putchar :: "terminal \<Rightarrow> mem \<Rightarrow> u32 \<Rightarrow> u32 \<Rightarrow> byte \<Rightarrow> byte \<Rightarrow> mem" where
  "terminal_putchar t m x y c colour = write16 m (vaddr t x y) (terminal_make_char c colour)"

definition terminal_scroll_row :: "terminal \<Rightarrow> nat \<Rightarrow> mem \<Rightarrow> mem" where
  "terminal_scroll_row t y m =
     fold (\<lambda>x m. write16 m (vaddr t (word_of_nat x) (word_of_nat y - 1))
         (read16 m (vaddr t (word_of_nat x) (word_of_nat y)))) [0..<VGA_WIDTH] m"

definition terminal_scroll :: "terminal \<Rightarrow> mem \<Rightarrow> mem" where
  "terminal_scroll t m =
     (let m = fold (terminal_scroll_row t) [1..<VGA_HEIGHT] m
      in fold (\<lambda>x m. write16 m (vaddr t (word_of_nat x) (word_of_nat (VGA_HEIGHT - 1)))
           (terminal_make_char 0x20 (vga_entry_color VGA_COLOR_WHITE VGA_COLOR_BLUE))) [0..<VGA_WIDTH] m)"

definition terminal_writechar :: "terminal \<Rightarrow> mem \<Rightarrow> byte \<Rightarrow> byte \<Rightarrow> terminal \<times> mem" where
  "terminal_writechar t m c colour =
     (let (t, m) =
        (if c = 10 then (t\<lparr>terminal_col := 0, terminal_row := terminal_row t + 1\<rparr>, m)
         else
           let m = terminal_putchar t m (ucast (terminal_col t)) (ucast (terminal_row t)) c colour;
               t = t\<lparr>terminal_col := terminal_col t + 1\<rparr>
           in (if word_of_nat VGA_WIDTH \<le> terminal_col t
               then t\<lparr>terminal_col := 0, terminal_row := terminal_row t + 1\<rparr> else t, m))
      in if word_of_nat VGA_HEIGHT \<le> terminal_row t
         then (t\<lparr>terminal_row := word_of_nat (VGA_HEIGHT - 1)\<rparr>, terminal_scroll t m)
         else (t, m))"

text \<open>The cleared area has ten rows more than the terminal.\<close>

definition terminal_initialize :: "mem \<Rightarrow> terminal \<times> mem" where
  "terminal_initialize m =
     (let t = \<lparr>video_mem = 0xB8000, terminal_row = 0, terminal_col = 0\<rparr>
      in (t, fold (\<lambda>y m. fold (\<lambda>x m. terminal_putchar t m (word_of_nat x) (word_of_nat y) 0x20
           (vga_entry_color VGA_COLOR_BLUE VGA_COLOR_BLUE)) [0..<VGA_WIDTH] m) [0..<VGA_HEIGHT + 10] m))"

definition FirstTimeBootInit :: "mem \<Rightarrow> terminal \<times> mem" where
  "FirstTimeBootInit m =
     (let t = \<lparr>video_mem = 0xB8000, terminal_row = 0, terminal_col = 0\<rparr>
      in (t, fold (\<lambda>y m. fold (\<lambda>x m. terminal_putchar t m (word_of_nat x) (word_of_nat y) 0x20
           (vga_entry_color VGA_COLOR_BLUE VGA_COLOR_BLUE)) [0..<VGA_WIDTH] m) [0..<VGA_HEIGHT + 10] m))"

function print_loop :: "addr \<Rightarrow> u32 \<Rightarrow> u32 \<Rightarrow> terminal \<Rightarrow> mem \<Rightarrow> terminal \<times> mem" where
  "print_loop str len i t m =
     (if i < len
      then let (t, m) = terminal_writechar t m (m (str + i)) (vga_entry_color VGA_COLOR_WHITE VGA_COLOR_BLUE)
           in print_loop str len (i + 1) t m
      else (t, m))"
  by pat_completeness auto
termination
  by (relation "measure (\<lambda>(str, len, i, t, m). unat (len - i))") (auto simp: measure_up)

declare print_loop.simps [simp del]

definition print :: "terminal \<Rightarrow> mem \<Rightarrow> addr \<Rightarrow> (terminal \<times> mem) option" where
  "print t m str = do {
     len \<leftarrow> strlen m str;
     Some (print_loop str len 0 t m)
   }"

section \<open>Cells of video memory\<close>

definition cell :: "terminal \<Rightarrow> mem \<Rightarrow> nat \<Rightarrow> nat \<Rightarrow> u16" where
  "cell t m y x = read16 m (video_mem t + 2 * word_of_nat (y * 80 + x))"

lemma vaddr_nat: "vaddr t (word_of_nat x) (word_of_nat y) = video_mem t + 2 * word_of_nat (y * 80 + x)"
  by (simp add: vaddr_def VGA_WIDTH_def)

lemma cell_write16: "y < 1000 \<Longrightarrow> x < 80 \<Longrightarrow> y' < 1000 \<Longrightarrow> x' < 80 \<Longrightarrow>
    cell t (write16 m (vaddr t (word_of_nat x) (word_of_nat y)) v) y' x' =
      (if y' = y \<and> x' = x then v else cell t m y' x')"
proof -
  assume b: "y < 1000" "x < 80" "y' < 1000" "x' < 80"
  have "y' * 80 + x' = y * 80 + x \<longleftrightarrow> y' = y \<and> x' = x"
  proof
    assume eq: "y' * 80 + x' = y * 80 + x"
    have "(y' * 80 + x') div 80 = y'" "(y * 80 + x) div 80 = y" using b by simp_all
    then have "y' = y" using eq by metis
    then show "y' = y \<and> x' = x" using eq by simp
  qed simp
  moreover have "y * 80 + x < 2 ^ 31" "y' * 80 + x' < 2 ^ 31" using b by simp_all
  ultimately show ?thesis
    unfolding cell_def vaddr_nat by (simp only: read16_write16_nat)
qed

lemma write16_frame:
  assumes "y < 20" "x < 80" "\<not> in_range (video_mem t) 3200 a"
  shows "write16 m (vaddr t (word_of_nat x) (word_of_nat y)) v a = m a"
proof (rule write16_apply)
  have off: "in_range (video_mem t) 3200 (video_mem t + word_of_nat (2 * (y * 80 + x) + k))" if "k < 2" for k
    using assms(1,2) that by (intro in_range_offset) simp_all
  show "a \<noteq> vaddr t (word_of_nat x) (word_of_nat y)"
    using off [of 0] assms(3) unfolding vaddr_nat by auto
  show "a \<noteq> vaddr t (word_of_nat x) (word_of_nat y) + 1"
    using off [of 1] assms(3) unfolding vaddr_nat by (auto simp: ac_simps)
qed

lemmas cell_frame = cell_write16 write16_frame

section \<open>What the operations store\<close>

lemma scroll_row_cell:
  assumes "y < 1000" "0 < y" "n \<le> 80" "y' < 1000" "x' < 80"
  shows "cell t (fold (\<lambda>x m. write16 m (vaddr t (word_of_nat x) (word_of_nat y - 1))
      (read16 m (vaddr t (word_of_nat x) (word_of_nat y)))) [0..<n] m) y' x' =
    (if y' = y - 1 \<and> x' < n then cell t m y x' else cell t m y' x')"
  using assms(3-5)
proof (induction n arbitrary: y' x')
  case (Suc n)
  have y: "word_of_nat y - 1 = (word_of_nat (y - 1) :: u32)" using assms(2) by (simp add: of_nat_diff)
  let ?m = "fold (\<lambda>x m. write16 m (vaddr t (word_of_nat x) (word_of_nat y - 1))
      (read16 m (vaddr t (word_of_nat x) (word_of_nat y)))) [0..<n] m"
  have IH: "cell t ?m y1 x1 = (if y1 = y - 1 \<and> x1 < n then cell t m y x1 else cell t m y1 x1)"
    if "y1 < 1000" "x1 < 80" for y1 x1
    using Suc that by simp
  have read: "read16 ?m (vaddr t (word_of_nat n) (word_of_nat y)) = cell t m y n"
    using IH [of y n] assms(1) Suc.prems(1) unfolding cell_def vaddr_nat by simp
  have "n < 80" "y - 1 < 1000" using Suc.prems(1) assms(1) by simp_all
  then show ?case
    using Suc.prems IH [of y' x'] read unfolding y
    by (simp add: cell_write16) (auto simp: less_Suc_eq)
qed simp

lemma scroll_row_frame:
  assumes "y < 20" "0 < y" "n \<le> 80" "\<not> in_range (video_mem t) 3200 a"
  shows "fold (\<lambda>x m. write16 m (vaddr t (word_of_nat x) (word_of_nat y - 1))
      (read16 m (vaddr t (word_of_nat x) (word_of_nat y)))) [0..<n] m a = m a"
  using assms(3)
proof (induction n)
  case (Suc n)
  have "word_of_nat y - 1 = (word_of_nat (y - 1) :: u32)" using assms(2) by (simp add: of_nat_diff)
  then show ?case using Suc assms write16_frame [of "y - 1" n t a] by simp
qed simp

lemma terminal_scroll_row:
  "y < 1000 \<Longrightarrow> 0 < y \<Longrightarrow> y' < 1000 \<Longrightarrow> x' < 80 \<Longrightarrow> cell t (terminal_scroll_row t y m) y' x' =
    (if y' = y - 1 then cell t m y x' else cell t m y' x')"
  "y < 20 \<Longrightarrow> 0 < y \<Longrightarrow> \<not> in_range (video_mem t) 3200 a \<Longrightarrow> terminal_scroll_row t y m a = m a"
  unfolding terminal_scroll_row_def VGA_WIDTH_def
  by (simp_all add: scroll_row_cell scroll_row_frame)

lemma scroll_rows:
  assumes "k \<le> 20" "0 < k" "y < 20" "x < 80"
  shows "cell t (fold (terminal_scroll_row t) [1..<k] m) y x = (if Suc y < k then cell t m (Suc y) x else cell t m y x)"
  using assms
proof (induction k arbitrary: y x)
  case (Suc k)
  show ?case
  proof (cases "k = 0")
    case False
    let ?m = "fold (terminal_scroll_row t) [1..<k] m"
    have "fold (terminal_scroll_row t) [1..<Suc k] m = terminal_scroll_row t k ?m" using False by simp
    moreover have "cell t (terminal_scroll_row t k ?m) y x = (if y = k - 1 then cell t ?m k x else cell t ?m y x)"
      by (rule terminal_scroll_row(1)) (use False Suc.prems in simp_all)
    moreover have "cell t ?m k x = cell t m k x" using Suc.IH [of k x] Suc.prems False by simp
    moreover have "cell t ?m y x = (if Suc y < k then cell t m (Suc y) x else cell t m y x)"
      using Suc.IH Suc.prems False by simp
    ultimately show ?thesis using False by (auto simp del: One_nat_def simp: less_Suc_eq)
  qed simp
qed simp

lemma scroll_rows_frame:
  assumes "k \<le> 20" "\<not> in_range (video_mem t) 3200 a"
  shows "fold (terminal_scroll_row t) [1..<k] m a = m a"
  using assms(1)
proof (induction k)
  case (Suc k)
  show ?case
  proof (cases "k = 0")
    case False
    then show ?thesis using Suc terminal_scroll_row(2) [of k t a] assms(2) by simp
  qed simp
qed simp

lemma fill_row:
  assumes "y < 1000" "n \<le> 80" "y' < 1000" "x' < 80"
  shows "cell t (fold (\<lambda>x m. write16 m (vaddr t (word_of_nat x) (word_of_nat y)) v) [0..<n] m) y' x' =
    (if y' = y \<and> x' < n then v else cell t m y' x')"
  using assms(2) by (induction n) (use assms in \<open>auto simp: cell_write16 less_Suc_eq\<close>)

lemma fill_row_frame:
  assumes "y < 20" "n \<le> 80" "\<not> in_range (video_mem t) 3200 a"
  shows "fold (\<lambda>x m. write16 m (vaddr t (word_of_nat x) (word_of_nat y)) v) [0..<n] m a = m a"
  using assms(2) by (induction n) (use assms in \<open>simp_all add: write16_frame\<close>)

section \<open>The screen\<close>

text \<open>The contents of the screen as rows of cells, and the screen with a position.\<close>

definition screen :: "terminal \<Rightarrow> mem \<Rightarrow> u16 list list" where
  "screen t m = map (\<lambda>y. map (cell t m y) [0..<80]) [0..<20]"

definition view :: "terminal \<Rightarrow> mem \<Rightarrow> u16 list list \<times> nat \<times> nat" where
  "view t m = (screen t m, unat (terminal_row t), unat (terminal_col t))"

definition blank_row :: "u16 list" where
  "blank_row = replicate 80 (terminal_make_char 0x20 (vga_entry_color VGA_COLOR_WHITE VGA_COLOR_BLUE))"

text \<open>The specification of a terminal: a character goes to the current cell and the position
  moves on, at the end of a row to the next one; below the last row the rows move up.\<close>

definition advance :: "u16 list list \<Rightarrow> nat \<Rightarrow> nat \<Rightarrow> u16 list list \<times> nat \<times> nat" where
  "advance g r c = (if r < 20 then (g, r, c) else (tl g @ [blank_row], 19, c))"

fun put :: "byte \<Rightarrow> byte \<Rightarrow> u16 list list \<times> nat \<times> nat \<Rightarrow> u16 list list \<times> nat \<times> nat" where
  "put colour ch (g, r, c) =
     (if ch = 10 then advance g (Suc r) 0
      else let g = g[r := (g ! r)[c := terminal_make_char ch colour]] in
           if Suc c < 80 then advance g r (Suc c) else advance g (Suc r) 0)"

definition terminal_ok :: "terminal \<Rightarrow> bool" where
  "terminal_ok t \<longleftrightarrow> unat (terminal_row t) < 20 \<and> unat (terminal_col t) < 80"

lemma screen_nth: "y < 20 \<Longrightarrow> x < 80 \<Longrightarrow> screen t m ! y ! x = cell t m y x"
  by (simp add: screen_def)

lemma screen_putchar:
  assumes "y < 20" "x < 80"
  shows "screen t (terminal_putchar t m (word_of_nat x) (word_of_nat y) c colour) =
    (screen t m)[y := (screen t m ! y)[x := terminal_make_char c colour]]"
  unfolding screen_def terminal_putchar_def
  by (rule nth_equalityI, simp, rule nth_equalityI)
    (use assms in \<open>auto simp: nth_list_update cell_write16\<close>)

lemma screen_scroll: "screen t (terminal_scroll t m) = tl (screen t m) @ [blank_row]"
proof (rule nth_equalityI)
  fix y assume "y < length (screen t (terminal_scroll t m))"
  then have y: "y < 20" by (simp add: screen_def)
  let ?m = "fold (terminal_scroll_row t) [1..<20] m"
  have "cell t (terminal_scroll t m) y x = (if y = 19
      then terminal_make_char 0x20 (vga_entry_color VGA_COLOR_WHITE VGA_COLOR_BLUE)
      else cell t m (Suc y) x)" if "x < 80" for x
    unfolding terminal_scroll_def Let_def VGA_HEIGHT_def VGA_WIDTH_def
    using fill_row [of 19 80 y x t _ ?m] scroll_rows [of 20 y x t m] that y by simp
  then show "screen t (terminal_scroll t m) ! y = (tl (screen t m) @ [blank_row]) ! y"
    using y by (intro nth_equalityI) (auto simp: screen_def blank_row_def nth_append nth_tl)
qed (simp add: screen_def)

lemma scroll_frame: "\<not> in_range (video_mem t) 3200 a \<Longrightarrow> terminal_scroll t m a = m a"
  unfolding terminal_scroll_def Let_def VGA_HEIGHT_def VGA_WIDTH_def
  using fill_row_frame [of 19 80 t a] scroll_rows_frame [of 20 t a m] by simp

lemma screen_cong [simp]: "screen (t\<lparr>terminal_row := r\<rparr>) m = screen t m"
  "screen (t\<lparr>terminal_col := c\<rparr>) m = screen t m"
  by (simp_all add: screen_def cell_def)

lemma terminal_scroll_cong [simp]: "terminal_scroll (t\<lparr>terminal_row := r\<rparr>) m = terminal_scroll t m"
  "terminal_scroll (t\<lparr>terminal_col := c\<rparr>) m = terminal_scroll t m"
  by (simp_all add: terminal_scroll_def terminal_scroll_row_def [abs_def] vaddr_def)

text \<open>What one character does, and what does not change.\<close>

definition wrote :: "byte \<Rightarrow> byte \<Rightarrow> terminal \<Rightarrow> mem \<Rightarrow> terminal \<Rightarrow> mem \<Rightarrow> bool" where
  "wrote colour c t m t' m' \<longleftrightarrow> terminal_ok t' \<and> video_mem t' = video_mem t \<and> view t' m' = put colour c (view t m) \<and>
     (\<forall>a. \<not> in_range (video_mem t) 3200 a \<longrightarrow> m' a = m a)"

lemma unat_u16_Suc: "unat w < 65535 \<Longrightarrow> unat (w + 1) = Suc (unat w)" for w :: u16
  by (simp add: unat_word_ariths)

lemma advance_wrote:
  assumes "unat (terminal_row t) \<le> 20" "unat (terminal_col t) < 80"
    "(if 20 \<le> terminal_row t then (t\<lparr>terminal_row := 19\<rparr>, terminal_scroll t m) else (t, m)) = (t', m')"
  shows "terminal_ok t' \<and> video_mem t' = video_mem t \<and>
    view t' m' = advance (screen t m) (unat (terminal_row t)) (unat (terminal_col t)) \<and>
    (\<forall>a. \<not> in_range (video_mem t) 3200 a \<longrightarrow> m' a = m a)"
proof (cases "20 \<le> terminal_row t")
  case True
  then have "\<not> unat (terminal_row t) < 20" by (simp add: word_le_nat_alt)
  then show ?thesis using True assms
    by (auto simp: terminal_ok_def view_def advance_def screen_scroll scroll_frame)
next
  case False
  then have "unat (terminal_row t) < 20" by (simp add: word_le_nat_alt)
  then show ?thesis using False assms by (auto simp: terminal_ok_def view_def advance_def)
qed

lemma terminal_writechar_wrote:
  assumes ok: "terminal_ok t" and run: "terminal_writechar t m c colour = (t', m')"
  shows "wrote colour c t m t' m'"
proof -
  have r: "unat (terminal_row t) < 20" and x: "unat (terminal_col t) < 80"
    using ok by (simp_all add: terminal_ok_def)
  have r1: "unat (terminal_row t + 1) = Suc (unat (terminal_row t))" using r by (intro unat_u16_Suc) simp
  have x1: "unat (terminal_col t + 1) = Suc (unat (terminal_col t))" using x by (intro unat_u16_Suc) simp
  note rules = terminal_writechar_def Let_def VGA_HEIGHT_def VGA_WIDTH_def
  show ?thesis
  proof (cases "c = 10")
    case True
    let ?t = "t\<lparr>terminal_col := 0, terminal_row := terminal_row t + 1\<rparr>"
    have "(if 20 \<le> terminal_row ?t then (?t\<lparr>terminal_row := 19\<rparr>, terminal_scroll ?t m) else (?t, m)) = (t', m')"
      using run True unfolding rules by (auto split: if_splits)
    from advance_wrote [OF _ _ this] r show ?thesis
      using True by (simp add: wrote_def view_def r1)
  next
    case False
    define m1 where "m1 = terminal_putchar t m (ucast (terminal_col t)) (ucast (terminal_row t)) c colour"
    have idx: "ucast w = (word_of_nat (unat w) :: u32)" for w :: u16 by simp
    have scr: "screen t m1 = (screen t m)[unat (terminal_row t) := (screen t m ! unat (terminal_row t))
        [unat (terminal_col t) := terminal_make_char c colour]]"
      unfolding m1_def idx by (rule screen_putchar [OF r x])
    have frame: "m1 a = m a" if "\<not> in_range (video_mem t) 3200 a" for a
      unfolding m1_def idx terminal_putchar_def by (rule write16_frame [OF r x that])
    have wrap: "80 \<le> terminal_col t + 1 \<longleftrightarrow> \<not> Suc (unat (terminal_col t)) < 80"
      by (simp add: word_le_nat_alt x1 not_less)
    define t1 where "t1 = (if 80 \<le> terminal_col t + 1
      then t\<lparr>terminal_col := 0, terminal_row := terminal_row t + 1\<rparr> else t\<lparr>terminal_col := terminal_col t + 1\<rparr>)"
    have t1: "screen t1 m1 = screen t m1" "video_mem t1 = video_mem t"
      "unat (terminal_row t1) = (if Suc (unat (terminal_col t)) < 80 then unat (terminal_row t) else Suc (unat (terminal_row t)))"
      "unat (terminal_col t1) = (if Suc (unat (terminal_col t)) < 80 then Suc (unat (terminal_col t)) else 0)"
      unfolding t1_def by (simp_all add: wrap x1 r1)
    have "(if 20 \<le> terminal_row t1 then (t1\<lparr>terminal_row := 19\<rparr>, terminal_scroll t1 m1) else (t1, m1)) = (t', m')"
      using run False unfolding rules m1_def [symmetric] by (auto simp: t1_def split: if_splits)
    from advance_wrote [OF _ _ this] r x
    have "terminal_ok t' \<and> video_mem t' = video_mem t1 \<and>
      view t' m' = advance (screen t1 m1) (unat (terminal_row t1)) (unat (terminal_col t1)) \<and>
      (\<forall>a. \<not> in_range (video_mem t1) 3200 a \<longrightarrow> m' a = m1 a)" by (simp add: t1)
    then show ?thesis
      using False frame by (auto simp: wrote_def view_def t1 scr)
  qed
qed

text \<open>Printing a string that does not lie on the screen.\<close>

lemma print_loop_put:
  assumes "cstr m (str + word_of_nat k) s" "k + length s = n" "n < 2 ^ 32" "terminal_ok t"
    and "\<And>i. i \<le> n \<Longrightarrow> \<not> in_range (video_mem t) 3200 (str + word_of_nat i)"
    and "print_loop str (word_of_nat n) (word_of_nat k) t m = (t', m')"
  shows "terminal_ok t' \<and> video_mem t' = video_mem t \<and>
    view t' m' = fold (put (vga_entry_color VGA_COLOR_WHITE VGA_COLOR_BLUE)) s (view t m) \<and>
    (\<forall>a. \<not> in_range (video_mem t) 3200 a \<longrightarrow> m' a = m a)"
  using assms
proof (induction s arbitrary: k t m)
  case Nil
  then show ?case by (simp add: print_loop.simps [of str "word_of_nat n"])
next
  case (Cons c s)
  let ?colour = "vga_entry_color VGA_COLOR_WHITE VGA_COLOR_BLUE"
  have k: "(word_of_nat k :: u32) < word_of_nat n"
    using Cons.prems(2,3) by (simp add: word_less_nat_alt unat_word_of_nat)
  have c: "m (str + word_of_nat k) = c" using Cons.prems(1) by simp
  obtain t1 m1 where step: "terminal_writechar t m c ?colour = (t1, m1)" by fastforce
  note W = terminal_writechar_wrote [OF Cons.prems(4) step, unfolded wrote_def]
  have loop: "print_loop str (word_of_nat n) (word_of_nat (Suc k)) t1 m1 = (t', m')"
    using Cons.prems(6) k step c unfolding print_loop.simps [of str "word_of_nat n" "word_of_nat k"]
    by (simp add: ac_simps)
  have "cstr m1 (str + word_of_nat (Suc k)) s"
  proof (rule cstr_cong)
    show "cstr m (str + word_of_nat (Suc k)) s" using Cons.prems(1) by (simp add: ac_simps)
    fix i assume "i \<le> length s"
    then have "\<not> in_range (video_mem t) 3200 (str + word_of_nat (Suc k + i))"
      using Cons.prems(2) by (intro Cons.prems(5)) simp
    then have "m1 (str + word_of_nat (Suc k + i)) = m (str + word_of_nat (Suc k + i))" using W by blast
    then show "m1 (str + word_of_nat (Suc k) + word_of_nat i) = m (str + word_of_nat (Suc k) + word_of_nat i)"
      by (simp add: ac_simps)
  qed
  from Cons.IH [OF this _ Cons.prems(3) _ _ loop] W Cons.prems(2,5)
  show ?case by simp
qed

lemma print_put:
  assumes "cstr m str s" "length s < 2 ^ 32" "terminal_ok t"
    and "\<And>i. i \<le> length s \<Longrightarrow> \<not> in_range (video_mem t) 3200 (str + word_of_nat i)"
  shows "\<exists>t' m'. print t m str = Some (t', m') \<and> terminal_ok t' \<and> video_mem t' = video_mem t \<and>
    view t' m' = fold (put (vga_entry_color VGA_COLOR_WHITE VGA_COLOR_BLUE)) s (view t m) \<and>
    (\<forall>a. \<not> in_range (video_mem t) 3200 a \<longrightarrow> m' a = m a)"
proof -
  obtain t' m' where run: "print_loop str (word_of_nat (length s)) 0 t m = (t', m')" by fastforce
  then have "print t m str = Some (t', m')" by (simp add: print_def strlen_cstr [OF assms(1)])
  then show ?thesis using print_loop_put [of m str 0 s "length s" t t' m'] assms run by auto
qed

section \<open>Properties\<close>

text \<open>C32: \<open>print\<close> of a string that does not lie in the video memory terminates, and the screen with
  its position is what the specification \<open>put\<close> of a scrolling terminal of 20 rows of 80 columns
  gives for the characters one after the other. Outside the 3200 bytes of the screen no byte changes.\<close>

theorem print_refines:
  assumes "cstr m str s" "length s < 2 ^ 32" "terminal_ok t"
    and "\<And>i. i \<le> length s \<Longrightarrow> \<not> in_range (video_mem t) 3200 (str + word_of_nat i)"
  shows "\<exists>t' m'. print t m str = Some (t', m') \<and> terminal_ok t' \<and>
    view t' m' = fold (put (vga_entry_color VGA_COLOR_WHITE VGA_COLOR_BLUE)) s (view t m) \<and>
    (\<forall>a. \<not> in_range (video_mem t) 3200 a \<longrightarrow> m' a = m a)"
  using print_put [OF assms] by blast

text \<open>The last cell of the screen: one character fills it and scrolls.\<close>

definition last_cell :: terminal where
  "last_cell = \<lparr>video_mem = 0xB8000, terminal_row = 19, terminal_col = 79\<rparr>"

definition letter_A :: mem where
  "letter_A = (\<lambda>_. 0)(0x1000 := 0x41)"

theorem print_refines_witness:
  "\<exists>t' m'. print last_cell letter_A 0x1000 = Some (t', m') \<and> unat (terminal_row t') = 19 \<and> unat (terminal_col t') = 0 \<and>
    screen t' m' = tl ((screen last_cell letter_A)[19 := (screen last_cell letter_A ! 19)[79 := terminal_make_char 0x41 0x1F]]) @ [blank_row]"
proof -
  have "cstr letter_A 0x1000 [0x41]" "terminal_ok last_cell"
    by (simp_all add: letter_A_def terminal_ok_def last_cell_def)
  moreover have "\<not> in_range (video_mem last_cell) 3200 (0x1000 + word_of_nat i)" if "i \<le> length [0x41 :: byte]" for i
  proof -
    have "i = 0 \<or> i = 1" using that by auto
    then show ?thesis by (auto simp: in_range_def last_cell_def)
  qed
  moreover have "vga_entry_color VGA_COLOR_WHITE VGA_COLOR_BLUE = 0x1F" by (simp add: vga_entry_color_def status_defs)
  moreover have "view last_cell letter_A = (screen last_cell letter_A, 19, 79)" by (simp add: view_def last_cell_def)
  ultimately obtain t' m' where "print last_cell letter_A 0x1000 = Some (t', m')"
    "view t' m' = put 0x1F 0x41 (screen last_cell letter_A, 19, 79)"
    using print_refines [of letter_A "0x1000" "[0x41]" last_cell] by auto
  then show ?thesis by (auto simp: view_def advance_def Let_def)
qed

end
