(* ===== verification/Text.thy ===== *)
theory Text
  imports Terminal
begin

text \<open>
  The string routines outside \<^verbatim>\<open>ke/string\<close>: \<open>strcat\<close> of \<^verbatim>\<open>ke/idt/idt.c\<close>, \<open>strstr\<close>, \<open>fetchwh\<close>,
  \<open>contains_newline\<close>, \<open>IsBatFile\<close>, \<open>snprintf\<close> and \<open>InitializeUnicodeString\<close> of
  \<^verbatim>\<open>init/kernel.c\<close>, and \<open>join_paths\<close> of \<^verbatim>\<open>init/loader.c\<close>. The string literals of the C code are
  at addresses that are parameters. What \<open>strcat\<close> and \<open>strstr\<close> return is the first argument
  where the model gives only the memory.
\<close>

section \<open>strcat\<close>

partial_function (option) strcat_end :: "mem \<Rightarrow> addr \<Rightarrow> addr option" where
  "strcat_end m dest_ptr = (if m dest_ptr \<noteq> 0 then strcat_end m (dest_ptr + 1) else Some dest_ptr)"

partial_function (option) strcat_append :: "mem \<Rightarrow> addr \<Rightarrow> addr \<Rightarrow> (addr \<times> mem) option" where
  "strcat_append m dest_ptr src =
     (if m src \<noteq> 0 then strcat_append (m(dest_ptr := m src)) (dest_ptr + 1) (src + 1)
      else Some (dest_ptr, m))"

definition strcat :: "mem \<Rightarrow> addr \<Rightarrow> addr \<Rightarrow> mem option" where
  "strcat m dest src = do {
     dest_ptr \<leftarrow> strcat_end m dest;
     (dest_ptr, m) \<leftarrow> strcat_append m dest_ptr src;
     Some (m(dest_ptr := 0))
   }"

section \<open>Searching\<close>

text \<open>Where the inner loop leaves \<open>n\<close>.\<close>

partial_function (option) strstr_match :: "mem \<Rightarrow> addr \<Rightarrow> addr \<Rightarrow> addr option" where
  "strstr_match m h n =
     (if m h \<noteq> 0 \<and> m n \<noteq> 0 \<and> m h = m n then strstr_match m (h + 1) (n + 1) else Some n)"

partial_function (option) strstr_loop :: "mem \<Rightarrow> addr \<Rightarrow> addr \<Rightarrow> addr option" where
  "strstr_loop m haystack needle =
     (if m haystack \<noteq> 0
      then do {
        n \<leftarrow> strstr_match m haystack needle;
        if m n = 0 then Some haystack else strstr_loop m (haystack + 1) needle
      }
      else Some 0)"

definition strstr :: "mem \<Rightarrow> addr \<Rightarrow> addr \<Rightarrow> addr option" where
  "strstr m haystack needle = (if m needle = 0 then Some haystack else strstr_loop m haystack needle)"

partial_function (option) newline_loop :: "mem \<Rightarrow> addr \<Rightarrow> u32 option" where
  "newline_loop m str =
     (if m str \<noteq> 0 then if m str = 10 then Some 1 else newline_loop m (str + 1) else Some 0)"

definition contains_newline :: "mem \<Rightarrow> addr \<Rightarrow> u32 option" where
  "contains_newline m str = (if str = 0 then Some 0 else newline_loop m str)"

text \<open>\<open>dot_bat\<close> is the address of the literal \<open>".bat"\<close>.\<close>

definition IsBatFile :: "addr \<Rightarrow> mem \<Rightarrow> addr \<Rightarrow> bool option" where
  "IsBatFile dot_bat m buffer = do {
     len \<leftarrow> strlen m buffer;
     if len < 4 then Some False
     else do {
       r \<leftarrow> strcmp m (buffer + len - 4) dot_bat;
       Some (r = 0)
     }
   }"

section \<open>The resolution in boot.ini\<close>

partial_function (option) fetch_digits :: "mem \<Rightarrow> u32 \<Rightarrow> addr \<Rightarrow> (u32 \<times> addr) option" where
  "fetch_digits m v p =
     (if 48 \<le>s m p \<and> m p \<le>s 57 then fetch_digits m (v * 10 + (scast (m p) - 48)) (p + 1)
      else Some (v, p))"

text \<open>The result, \<open>*width\<close> and \<open>*height\<close>.\<close>

definition fetchwh :: "mem \<Rightarrow> addr \<Rightarrow> (u32 \<times> u32 \<times> u32) option" where
  "fetchwh m str = do {
     (width, p) \<leftarrow> fetch_digits m 0 str;
     if m p \<noteq> 0x78 then Some (0, width, 0)
     else do {
       (height, p) \<leftarrow> fetch_digits m 0 (p + 1);
       Some (if m p = 0 \<or> m p = 10 then 2 else 0, width, height)
     }
   }"

section \<open>Formatting\<close>

text \<open>\<open>size_t\<close> is unsigned: with a size of 0 the bound \<open>size - 1\<close> wraps around. The arguments after
  the format are a list; taking one that is not there has no defined result, and is \<open>None\<close>.\<close>

lemma measure_up_bound: "index < sz - 1 \<Longrightarrow> unat (sz - index - 2) < unat (sz - 1 - index)" for index sz :: u32
  using measure_up [of index "sz - 1"] by (simp add: algebra_simps)

function snprintf_copy :: "mem \<Rightarrow> addr \<Rightarrow> u32 \<Rightarrow> u32 \<Rightarrow> addr \<Rightarrow> u32 \<times> mem" where
  "snprintf_copy m buffer sz index arg =
     (if m arg \<noteq> 0 \<and> index < sz - 1
      then snprintf_copy (m(buffer + index := m arg)) buffer sz (index + 1) (arg + 1)
      else (index, m))"
  by pat_completeness auto
termination
  by (relation "measure (\<lambda>(m, buffer, sz, index, arg). unat (sz - 1 - index))") (auto simp: measure_up_bound)

function snprintf_loop :: "mem \<Rightarrow> addr \<Rightarrow> u32 \<Rightarrow> addr \<Rightarrow> addr list \<Rightarrow> u32 \<Rightarrow> (u32 \<times> mem) option" where
  "snprintf_loop m buffer sz format args index =
     (if m format \<noteq> 0 \<and> index < sz - 1
      then if m format = 0x25 \<and> m (format + 1) = 0x73
        then case args of
            [] \<Rightarrow> None
          | arg # args \<Rightarrow>
              let (index, m) = snprintf_copy m buffer sz index arg
              in snprintf_loop m buffer sz (format + 2) args index
        else snprintf_loop (m(buffer + index := m format)) buffer sz (format + 1) args (index + 1)
      else Some (index, m))"
  by pat_completeness auto
termination
  by (relation "measures [\<lambda>(m, buffer, sz, format, args, index). length args,
      \<lambda>(m, buffer, sz, format, args, index). unat (sz - 1 - index)]") (auto simp: measure_up_bound)

declare snprintf_copy.simps [simp del] snprintf_loop.simps [simp del]

definition snprintf :: "mem \<Rightarrow> addr \<Rightarrow> u32 \<Rightarrow> addr \<Rightarrow> addr list \<Rightarrow> mem option" where
  "snprintf m buffer sz format args = do {
     (index, m) \<leftarrow> snprintf_loop m buffer sz format args 0;
     Some (m(buffer + index := 0))
   }"

text \<open>\<open>UNICODE_STRING\<close> has \<open>Length\<close> at 0, \<open>MaximumLength\<close> at 2 and \<open>Buffer\<close> at 4. The length goes
  through an \<open>unsigned char\<close>.\<close>

definition InitializeUnicodeString :: "mem \<Rightarrow> addr \<Rightarrow> addr \<Rightarrow> mem option" where
  "InitializeUnicodeString m UnicodeString SourceString = do {
     let m = write32 m (UnicodeString + 4) SourceString;
     len \<leftarrow> strlen m SourceString;
     let m = write16 m UnicodeString (ucast (ucast len :: byte));
     Some (write16 m (UnicodeString + 2) (read16 m UnicodeString + 1))
   }"

text \<open>The addresses of the three literals of \<open>join_paths\<close>: \<open>"%s%s"\<close>, \<open>"%s/%s"\<close> and the message.\<close>

record join_literals =
  join_direct :: addr
  join_slash :: addr
  join_error :: addr

definition join_paths ::
    "join_literals \<Rightarrow> terminal \<Rightarrow> mem \<Rightarrow> addr \<Rightarrow> addr \<Rightarrow> addr \<Rightarrow> u32 \<Rightarrow> (terminal \<times> mem) option" where
  "join_paths lits t m str1 str2 result result_size = do {
     len1 \<leftarrow> strlen m str1;
     len2 \<leftarrow> strlen m str2;
     if result_size < len1 + len2 + 2 then print t m (join_error lits)
     else if m (str1 + (len1 - 1)) = 0x2F \<and> m str2 = 0x2F
     then do { m \<leftarrow> snprintf m result result_size (join_direct lits) [str1, str2 + 1]; Some (t, m) }
     else if m (str1 + (len1 - 1)) \<noteq> 0x2F \<and> m str2 \<noteq> 0x2F
     then do { m \<leftarrow> snprintf m result result_size (join_slash lits) [str1, str2]; Some (t, m) }
     else do { m \<leftarrow> snprintf m result result_size (join_direct lits) [str1, str2]; Some (t, m) }
   }"

section \<open>strcat appends\<close>

lemma strcat_end_cstr: "cstr m p s \<Longrightarrow> strcat_end m p = Some (p + word_of_nat (length s))"
  by (induction s arbitrary: p) (simp_all add: strcat_end.simps [of m] ac_simps)

lemma strcat_append_cstr:
  "cstr m src s \<Longrightarrow> apart dest (length s) src (Suc (length s)) \<Longrightarrow>
   strcat_append m dest src = Some (dest + word_of_nat (length s), write_bytes m dest s)"
proof (induction s arbitrary: m dest src)
  case Nil
  then show ?case by (simp add: strcat_append.simps [of m dest src])
next
  case (Cons c s)
  have "dest \<noteq> src + 1 + word_of_nat i" if "i \<le> length s" for i
    using apartD [OF Cons.prems(2), of 0 "Suc i"] that by (simp add: ac_simps)
  then have "cstr (m(dest := c)) (src + 1) s"
    using Cons.prems(1) by (intro apart_cstr_upd) auto
  moreover have "apart (dest + 1) (length s) (src + 1) (Suc (length s))"
    using Cons.prems(2) by (intro apart_Suc_left apart_Suc_right) simp
  ultimately have "strcat_append (m(dest := c)) (dest + 1) (src + 1) =
      Some (dest + 1 + word_of_nat (length s), write_bytes (m(dest := c)) (dest + 1) s)"
    by (rule Cons.IH)
  then show ?case
    using Cons.prems by (simp add: strcat_append.simps [of m dest src] ac_simps)
qed

lemma strcat_cstr:
  assumes "cstr m dest d" "cstr m src s" "apart (dest + word_of_nat (length d)) (length s) src (Suc (length s))"
  shows "strcat m dest src = Some (write_bytes m (dest + word_of_nat (length d)) (s @ [0]))"
  by (simp add: strcat_def strcat_end_cstr [OF assms(1)] strcat_append_cstr [OF assms(2,3)]
      write_bytes_append fun_upd_def)

section \<open>strstr finds the first occurrence\<close>

text \<open>The reference: the suffix of the text that starts at the first occurrence.\<close>

fun find_infix :: "byte list \<Rightarrow> byte list \<Rightarrow> nat option" where
  "find_infix needle [] = (if needle = [] then Some 0 else None)"
| "find_infix needle (c # cs) =
     (if take (length needle) (c # cs) = needle then Some 0 else map_option Suc (find_infix needle cs))"

lemma find_infix_Some: "find_infix n s = Some i \<Longrightarrow> take (length n) (drop i s) = n \<and> i \<le> length s \<and>
    (\<forall>j<i. take (length n) (drop j s) \<noteq> n)"
proof (induction s arbitrary: i)
  case (Cons c s)
  show ?case
  proof (cases i)
    case (Suc k)
    then have first: "take (length n) (c # s) \<noteq> n" and "find_infix n s = Some k"
      using Cons.prems by (auto split: if_splits)
    with Cons.IH [of k] Suc have IH: "take (length n) (drop k s) = n" "k \<le> length s"
      "\<forall>j<k. take (length n) (drop j s) \<noteq> n" by simp_all
    have "take (length n) (drop j (c # s)) \<noteq> n" if "j < i" for j
      using first IH(3) that Suc by (cases j) auto
    then show ?thesis using IH Suc by simp
  qed (use Cons.prems in \<open>auto split: if_splits\<close>)
qed (simp split: if_splits)

lemma find_infix_None: "find_infix n s = None \<Longrightarrow> n \<noteq> [] \<Longrightarrow> take (length n) (drop i s) \<noteq> n"
proof (induction s arbitrary: i)
  case (Cons c s)
  then show ?case by (cases i) (auto split: if_splits)
qed simp

lemma strstr_match_cstr:
  "cstr m h s \<Longrightarrow> cstr m n t \<Longrightarrow> \<exists>e. strstr_match m h n = Some e \<and> (m e = 0 \<longleftrightarrow> take (length t) s = t)"
proof (induction t arbitrary: h n s)
  case Nil
  then show ?case by (simp add: strstr_match.simps [of m h n])
next
  case (Cons c t)
  show ?case
  proof (cases s)
    case Nil
    then show ?thesis using Cons.prems by (simp add: strstr_match.simps [of m h n])
  next
    case (Cons d s')
    then show ?thesis using Cons.prems Cons.IH [of "h + 1" s' "n + 1"]
      by (auto simp: strstr_match.simps [of m h n])
  qed
qed

lemma strstr_loop_cstr:
  "cstr m h s \<Longrightarrow> cstr m n t \<Longrightarrow> t \<noteq> [] \<Longrightarrow>
   strstr_loop m h n = Some (case find_infix t s of None \<Rightarrow> 0 | Some i \<Rightarrow> h + word_of_nat i)"
proof (induction s arbitrary: h)
  case Nil
  then show ?case by (simp add: strstr_loop.simps [of m h n])
next
  case (Cons c s)
  obtain e where "strstr_match m h n = Some e" "m e = 0 \<longleftrightarrow> take (length t) (c # s) = t"
    using strstr_match_cstr [OF Cons.prems(1,2)] by blast
  then show ?case
    using Cons by (auto simp: strstr_loop.simps [of m h n] ac_simps split: option.splits)
qed

lemma strstr_cstr:
  assumes "cstr m h s" "cstr m n t"
  shows "strstr m h n = Some (case find_infix t s of None \<Rightarrow> 0 | Some i \<Rightarrow> h + word_of_nat i)"
proof (cases "t = []")
  case True
  then show ?thesis using assms by (cases s) (simp_all add: strstr_def)
next
  case False
  then have "m n \<noteq> 0" using assms(2) by (cases t) auto
  then show ?thesis using strstr_loop_cstr [OF assms False] by (simp add: strstr_def)
qed

lemma contains_newline_cstr:
  "cstr m p s \<Longrightarrow> p \<noteq> 0 \<Longrightarrow> contains_newline m p = Some (if 10 \<in> set s then 1 else 0)"
proof -
  have "cstr m p s \<Longrightarrow> newline_loop m p = Some (if 10 \<in> set s then 1 else 0)" for p
    by (induction s arbitrary: p) (auto simp: newline_loop.simps [of m])
  then show "cstr m p s \<Longrightarrow> p \<noteq> 0 \<Longrightarrow> ?thesis" by (simp add: contains_newline_def)
qed

section \<open>fetchwh\<close>

definition digits :: "byte list \<Rightarrow> bool" where
  "digits s \<longleftrightarrow> (\<forall>c\<in>set s. 48 \<le>s c \<and> c \<le>s 57)"

definition decimal :: "u32 \<Rightarrow> byte list \<Rightarrow> u32" where
  "decimal v s = foldl (\<lambda>v c. v * 10 + (scast c - 48)) v s"

lemma fetch_digits_stops:
  assumes "digits s" "bytes m p (length s) = s"
    and "\<not> (48 \<le>s m (p + word_of_nat (length s)) \<and> m (p + word_of_nat (length s)) \<le>s 57)"
  shows "fetch_digits m v p = Some (decimal v s, p + word_of_nat (length s))"
  using assms
proof (induction s arbitrary: v p)
  case Nil
  then show ?case by (auto simp: fetch_digits.simps [of m v p] decimal_def)
next
  case (Cons c s)
  have c: "m p = c" "bytes m (p + 1) (length s) = s" "48 \<le>s c" "c \<le>s 57" "digits s"
    using Cons.prems(1,2) by (simp_all add: bytes_Suc digits_def)
  have "fetch_digits m (v * 10 + (scast c - 48)) (p + 1) =
      Some (decimal (v * 10 + (scast c - 48)) s, p + 1 + word_of_nat (length s))"
    using Cons.IH [OF c(5,2)] Cons.prems(3) by (simp add: ac_simps)
  then show ?case
    using c by (simp add: fetch_digits.simps [of m v p] decimal_def ac_simps)
qed

lemma not_digit [simp]: "\<not> 48 \<le>s (0 :: byte)" "\<not> 48 \<le>s (10 :: byte)" "\<not> (0x78 :: byte) \<le>s 57"
  by (simp_all add: word_sle_eq)

lemma fetchwh_parses:
  assumes "digits ws" "digits hs" "bytes m str (length ws + 1 + length hs) = ws @ [0x78] @ hs"
    and "m (str + word_of_nat (length ws + 1 + length hs)) = e" "e = 0 \<or> e = 10"
  shows "fetchwh m str = Some (2, decimal 0 ws, decimal 0 hs)"
proof -
  let ?q = "str + word_of_nat (length ws)"
  have nth: "m (str + word_of_nat i) = (ws @ [0x78] @ hs) ! i" if "i < length ws + 1 + length hs" for i
    using nth_bytes [OF that, of m str] assms(3) by simp
  have w: "bytes m str (length ws) = ws"
    by (rule nth_equalityI) (use nth in \<open>auto simp: nth_append\<close>)
  have x: "m ?q = 0x78" using nth [of "length ws"] by (simp add: nth_append)
  have h: "bytes m (?q + 1) (length hs) = hs"
  proof (rule nth_equalityI)
    fix i assume "i < length (bytes m (?q + 1) (length hs))"
    then have i: "i < length hs" by simp
    have "m (str + word_of_nat (length ws + 1 + i)) = hs ! i"
      using nth [of "length ws + 1 + i"] i by (simp add: nth_append)
    then show "bytes m (?q + 1) (length hs) ! i = hs ! i" using i by (simp add: ac_simps)
  qed simp
  have e: "m (?q + 1 + word_of_nat (length hs)) = e" using assms(4) by (simp add: ac_simps)
  have "fetch_digits m 0 str = Some (decimal 0 ws, ?q)"
    by (rule fetch_digits_stops [OF assms(1) w]) (simp add: x)
  moreover have "fetch_digits m 0 (?q + 1) = Some (decimal 0 hs, ?q + 1 + word_of_nat (length hs))"
    by (rule fetch_digits_stops [OF assms(2) h]) (use e assms(5) in auto)
  ultimately show ?thesis using x e assms(5) by (simp add: fetchwh_def)
qed

text \<open>When the text has no \<open>x\<close> after the first number, the width is stored and the height is 0.\<close>

lemma fetchwh_fails:
  assumes "digits ws" "bytes m str (length ws) = ws" "m (str + word_of_nat (length ws)) = e"
    and "\<not> (48 \<le>s e \<and> e \<le>s 57)" "e \<noteq> 0x78"
  shows "fetchwh m str = Some (0, decimal 0 ws, 0)"
  using fetch_digits_stops [OF assms(1,2), of 0] assms(3-5) by (simp add: fetchwh_def)

section \<open>snprintf\<close>

text \<open>The reference: the format with each \<open>%s\<close> replaced by the next argument.\<close>

fun expand :: "byte list \<Rightarrow> byte list list \<Rightarrow> byte list option" where
  "expand [] ss = Some []"
| "expand (c # f) ss =
     (if c = 0x25 \<and> f \<noteq> [] \<and> hd f = 0x73
      then if ss = [] then None else map_option ((@) (hd ss)) (expand (tl f) (tl ss))
      else map_option ((#) c) (expand f ss))"

text \<open>The string at \<open>p\<close> does not overlap the \<open>n\<close> bytes from \<open>buffer\<close> on.\<close>

definition clear :: "addr \<Rightarrow> nat \<Rightarrow> addr \<Rightarrow> byte list \<Rightarrow> bool" where
  "clear buffer n p s \<longleftrightarrow> (\<forall>i\<le>length s. \<not> in_range buffer n (p + word_of_nat i))"

lemma cstr_clear:
  assumes "cstr m p s" "clear buffer n p s" "k + length bs \<le> n" "n \<le> 2 ^ 32"
  shows "cstr (write_bytes m (buffer + word_of_nat k) bs) p s"
proof (rule cstr_cong [OF assms(1)])
  fix i assume "i \<le> length s"
  then have "\<not> in_range (buffer + word_of_nat k) (length bs) (p + word_of_nat i)"
    using assms(2) in_range_sub [OF _ assms(3,4)] unfolding clear_def by blast
  then show "write_bytes m (buffer + word_of_nat k) bs (p + word_of_nat i) = m (p + word_of_nat i)"
    using assms(3,4) by (intro write_bytes_other) simp_all
qed

lemma clear_tl: "clear buffer n p (c # s) \<Longrightarrow> clear buffer n (p + 1) s"
proof -
  assume c: "clear buffer n p (c # s)"
  have "\<not> in_range buffer n (p + 1 + word_of_nat i)" if "i \<le> length s" for i
    using c that unfolding clear_def by (auto dest!: spec [of _ "Suc i"] simp: ac_simps)
  then show ?thesis by (simp add: clear_def)
qed

lemma cstr_upd_clear:
  "cstr m p s \<Longrightarrow> clear buffer n p s \<Longrightarrow> k < n \<Longrightarrow> n \<le> 2 ^ 32 \<Longrightarrow> cstr (m(buffer + word_of_nat k := b)) p s"
  using cstr_clear [of m p s buffer n k "[b]"] by simp

lemma index_less: "N < 2 ^ 32 \<Longrightarrow> k \<le> N \<Longrightarrow> (word_of_nat k :: u32) < word_of_nat N \<longleftrightarrow> k < N"
  by (simp add: word_less_nat_alt unat_word_of_nat)

lemma snprintf_copy_cstr:
  assumes "cstr m arg s" "clear buffer N arg s" "k \<le> N" "N < 2 ^ 32" "sz - 1 = word_of_nat N"
  shows "snprintf_copy m buffer sz (word_of_nat k) arg =
    (word_of_nat (k + min (N - k) (length s)), write_bytes m (buffer + word_of_nat k) (take (N - k) s))"
  using assms(1-3)
proof (induction s arbitrary: m arg k)
  case Nil
  then show ?case by (simp add: snprintf_copy.simps [of m buffer sz])
next
  case (Cons c s)
  show ?case
  proof (cases "k < N")
    case False
    then show ?thesis using Cons.prems assms(4,5)
      by (simp add: snprintf_copy.simps [of m buffer sz] index_less)
  next
    case True
    let ?m = "m(buffer + word_of_nat k := c)"
    have c: "c \<noteq> 0" "m arg = c" "cstr m (arg + 1) s" using Cons.prems(1) by simp_all
    have "cstr ?m (arg + 1) s"
      using cstr_upd_clear [OF c(3) clear_tl [OF Cons.prems(2)] True] assms(4) by simp
    from Cons.IH [OF this clear_tl [OF Cons.prems(2)], of "Suc k"] True
    have "snprintf_copy ?m buffer sz (word_of_nat (Suc k)) (arg + 1) = (word_of_nat (Suc k + min (N - Suc k) (length s)),
        write_bytes ?m (buffer + word_of_nat (Suc k)) (take (N - Suc k) s))" by (simp add: fun_upd_def)
    moreover have "N - k = Suc (N - Suc k)" using True by simp
    ultimately show ?thesis
      using c True Cons.prems(3) assms(4,5)
      by (simp add: snprintf_copy.simps [of m buffer sz "word_of_nat k"] index_less ac_simps fun_upd_def)
  qed
qed

lemma write_bytes_take_append:
  assumes "k \<le> N"
  shows "write_bytes (write_bytes m (b + word_of_nat k) (take (N - k) s)) (b + word_of_nat (k + min (N - k) (length s)))
      (take (N - (k + min (N - k) (length s))) t) = write_bytes m (b + word_of_nat k) (take (N - k) (s @ t))"
proof (cases "N - k \<le> length s")
  case True
  then show ?thesis using assms by (simp add: min_def)
next
  case False
  then have "min (N - k) (length s) = length s" "take (N - k) s = s" by simp_all
  then show ?thesis using assms by (simp add: write_bytes_append ac_simps)
qed

lemma snprintf_loop_cstr:
  assumes "expand f ss = Some out" "cstr m format f" "clear buffer N format f" "list_all2 (cstr m) args ss"
    "list_all2 (clear buffer N) args ss" "k \<le> N" "N < 2 ^ 32" "sz - 1 = word_of_nat N"
  shows "snprintf_loop m buffer sz format args (word_of_nat k) =
    Some (word_of_nat (k + min (N - k) (length out)), write_bytes m (buffer + word_of_nat k) (take (N - k) out))"
  using assms(1-6)
proof (induction f ss arbitrary: m format args k out rule: expand.induct)
  case (1 ss)
  then show ?case by (simp add: snprintf_loop.simps [of m buffer sz format])
next
  case (2 c f ss)
  have c: "c \<noteq> 0" "m format = c" "cstr m (format + 1) f" using "2.prems"(2) by simp_all
  show ?case
  proof (cases "k < N")
    case False
    then have "\<not> (word_of_nat k :: u32) < sz - 1" using "2.prems"(6) assms(7,8) by (simp add: index_less)
    then have "snprintf_loop m buffer sz format args (word_of_nat k) = Some (word_of_nat k, m)"
      by (simp add: snprintf_loop.simps [of m buffer sz format])
    then show ?thesis using False by simp
  next
    case True
    have less: "(word_of_nat k :: u32) < sz - 1" using True "2.prems"(6) assms(7,8) by (simp add: index_less)
    show ?thesis
    proof (cases "c = 0x25 \<and> f \<noteq> [] \<and> hd f = 0x73")
      case False
      have nxt: "\<not> (m format = 0x25 \<and> m (format + 1) = 0x73)"
        using False c by (cases f) auto
      obtain out' where out': "expand f ss = Some out'" "out = c # out'"
        using "2.prems"(1) False by auto
      let ?m = "m(buffer + word_of_nat k := c)"
      have strs: "list_all2 (cstr ?m) args ss"
        using "2.prems"(4,5) cstr_upd_clear [OF _ _ True, of m] assms(7) by (auto simp: list_all2_conv_all_nth)
      have "cstr ?m (format + 1) f"
        using cstr_upd_clear [OF c(3) clear_tl [OF "2.prems"(3)] True] assms(7) by simp
      note IH = "2.IH"(2) [OF False out'(1) this clear_tl [OF "2.prems"(3)] strs "2.prems"(5), of "Suc k"]
      have "N - k = Suc (N - Suc k)" using True by simp
      then show ?thesis
        unfolding snprintf_loop.simps [of m buffer sz format args "word_of_nat k"]
        using c less nxt IH True out' by (auto simp: ac_simps fun_upd_def)
    next
      case dir: True
      then obtain f' where f: "f = 0x73 # f'" by (cases f) auto
      have nxt: "m format = 0x25 \<and> m (format + 1) = 0x73" using dir c f by simp
      obtain out' where ss: "ss \<noteq> []" and out': "expand (tl f) (tl ss) = Some out'" "out = hd ss @ out'"
        using "2.prems"(1) dir by (auto split: if_splits)
      obtain s ss' where s: "ss = s # ss'" using ss by (cases ss) auto
      obtain arg args' where arg: "args = arg # args'" "cstr m arg s" "clear buffer N arg s"
        "list_all2 (cstr m) args' ss'" "list_all2 (clear buffer N) args' ss'"
        using "2.prems"(4,5) s by (cases args) auto
      let ?k = "k + min (N - k) (length s)"
      let ?m = "write_bytes m (buffer + word_of_nat k) (take (N - k) s)"
      have copy: "snprintf_copy m buffer sz (word_of_nat k) arg = (word_of_nat ?k, ?m)"
        by (rule snprintf_copy_cstr [OF arg(2,3) "2.prems"(6) assms(7,8)])
      have fit: "k + length (take (N - k) s) \<le> N" using True by simp
      have "cstr m (format + 1 + 1) f'" "clear buffer N (format + 1 + 1) f'"
        using c(3) f clear_tl [OF clear_tl [OF "2.prems"(3) [unfolded f]]] by simp_all
      then have fmt: "cstr ?m (format + 2) (tl f)" "clear buffer N (format + 2) (tl f)"
        using cstr_clear [OF _ _ fit, of m "format + 2" f'] assms(7) f by (simp_all add: add.assoc)
      have strs: "list_all2 (cstr ?m) args' (tl ss)" "list_all2 (clear buffer N) args' (tl ss)"
        using arg(4,5) cstr_clear [OF _ _ fit, of m] assms(7) s by (auto simp: list_all2_conv_all_nth)
      have k: "?k \<le> N" using True by simp
      note IH = "2.IH"(1) [OF dir ss out'(1) fmt strs k]
      have len: "?k + min (N - ?k) (length out') = k + min (N - k) (length out)" using out' s True by simp
      show ?thesis
        unfolding snprintf_loop.simps [of m buffer sz format args "word_of_nat k"]
        using c less nxt copy IH True out' s write_bytes_take_append [of k N m buffer s out'] len arg(1) by simp
    qed
  qed
qed

lemma snprintf_cstr:
  assumes "expand f ss = Some out" "cstr m format f" "list_all2 (cstr m) args ss" "0 < sz"
    "clear buffer (unat sz - 1) format f" "list_all2 (clear buffer (unat sz - 1)) args ss"
  shows "snprintf m buffer sz format args = Some (write_bytes m buffer (take (unat sz - 1) out @ [0]))"
proof -
  let ?N = "unat sz - 1"
  have "unat (sz - 1) = ?N" using assms(4) by (simp add: unat_dec word_gt_0)
  moreover have "word_of_nat (unat (sz - 1)) = sz - 1" by simp
  ultimately have N: "sz - 1 = word_of_nat ?N" by simp
  have N32: "?N < 2 ^ 32" using unat_u32 [of sz] by simp
  have "snprintf_loop m buffer sz format args (word_of_nat 0) =
      Some (word_of_nat (0 + min (?N - 0) (length out)), write_bytes m (buffer + word_of_nat 0) (take (?N - 0) out))"
    by (rule snprintf_loop_cstr [OF assms(1,2,5,3,6) _ N32 N]) simp
  then show ?thesis by (simp add: snprintf_def write_bytes_append min.commute fun_upd_def)
qed

section \<open>join_paths\<close>

text \<open>The reference: the two paths with exactly one slash between them.\<close>

definition starts_slash :: "byte list \<Rightarrow> bool" where
  "starts_slash s \<longleftrightarrow> s \<noteq> [] \<and> hd s = 0x2F"

definition join :: "byte list \<Rightarrow> byte list \<Rightarrow> byte list" where
  "join s1 s2 =
     (if last s1 = 0x2F \<and> starts_slash s2 then s1 @ tl s2
      else if last s1 \<noteq> 0x2F \<and> \<not> starts_slash s2 then s1 @ [0x2F] @ s2
      else s1 @ s2)"

definition literals_at :: "join_literals \<Rightarrow> mem \<Rightarrow> addr \<Rightarrow> nat \<Rightarrow> bool" where
  "literals_at lits m result n \<longleftrightarrow>
     cstr m (join_direct lits) [0x25, 0x73, 0x25, 0x73] \<and> clear result n (join_direct lits) [0x25, 0x73, 0x25, 0x73] \<and>
     cstr m (join_slash lits) [0x25, 0x73, 0x2F, 0x25, 0x73] \<and> clear result n (join_slash lits) [0x25, 0x73, 0x2F, 0x25, 0x73]"

lemma join_paths_joins:
  assumes "literals_at lits m result (unat sz - 1)" "cstr m str1 s1" "cstr m str2 s2" "s1 \<noteq> []"
    and "clear result (unat sz - 1) str1 s1" "clear result (unat sz - 1) str2 s2"
    and "length s1 + length s2 + 2 \<le> unat sz"
  shows "join_paths lits t m str1 str2 result sz = Some (t, write_bytes m result (join s1 s2 @ [0]))"
proof -
  have fits: "\<not> sz < word_of_nat (length s1) + word_of_nat (length s2) + 2"
  proof -
    have "length s1 + length s2 + 2 < 2 ^ 32" using assms(7) unat_u32 [of sz] by simp
    then have "unat (word_of_nat (length s1 + length s2 + 2) :: u32) = length s1 + length s2 + 2"
      by (rule unat_word_of_nat)
    then show ?thesis using assms(7) by (simp add: word_less_nat_alt ac_simps)
  qed
  have sz: "0 < sz" using assms(7) by (auto simp: word_gt_0)
  have end1: "m (str1 + (word_of_nat (length s1) - 1)) = last s1"
  proof -
    have "str1 + (word_of_nat (length s1) - 1) = str1 + word_of_nat (length s1 - 1)"
      using assms(4) by (simp add: of_nat_diff Suc_leI)
    then show ?thesis using cstr_nth [OF assms(2), of "length s1 - 1"] assms(4) by (simp add: last_conv_nth)
  qed
  have start2: "m str2 = 0x2F \<longleftrightarrow> starts_slash s2"
    using assms(3) by (cases s2) (auto simp: starts_slash_def)
  have tl2: "cstr m (str2 + 1) (tl s2)" "clear result (unat sz - 1) (str2 + 1) (tl s2)" if "starts_slash s2"
    using that assms(3,6) by (cases s2; auto simp: starts_slash_def intro: clear_tl)+
  note lit = assms(1) [unfolded literals_at_def]
  have len: "take (unat sz - 1) (join s1 s2) = join s1 s2"
    using assms(7) by (auto simp: join_def starts_slash_def)
  have direct: "snprintf m result sz (join_direct lits) [str1, q] = Some (write_bytes m result (take (unat sz - 1) (s1 @ s) @ [0]))"
    if "cstr m q s" "clear result (unat sz - 1) q s" for q s
    by (rule snprintf_cstr [where f = "[0x25, 0x73, 0x25, 0x73]" and ss = "[s1, s]"]) (use lit that assms(2,5) sz in \<open>simp_all del: cstr.simps\<close>)
  have slash: "snprintf m result sz (join_slash lits) [str1, str2] =
      Some (write_bytes m result (take (unat sz - 1) (s1 @ [0x2F] @ s2) @ [0]))"
    by (rule snprintf_cstr [where f = "[0x25, 0x73, 0x2F, 0x25, 0x73]" and ss = "[s1, s2]"]) (use lit assms(2,3,5,6) sz in \<open>simp_all del: cstr.simps\<close>)
  show ?thesis
    unfolding join_paths_def strlen_cstr [OF assms(2)] strlen_cstr [OF assms(3)]
    using fits end1 start2 direct [OF tl2] direct [OF assms(3,6)] slash len
    by (auto simp: join_def)
qed

text \<open>A result that does not fit is not stored: the message is printed instead.\<close>

lemma join_paths_refuses:
  assumes "cstr m str1 s1" "cstr m str2 s2" "length s1 + length s2 + 2 < 2 ^ 32" "unat sz < length s1 + length s2 + 2"
  shows "join_paths lits t m str1 str2 result sz = print t m (join_error lits)"
proof -
  have "unat (word_of_nat (length s1 + length s2 + 2) :: u32) = length s1 + length s2 + 2"
    using assms(3) by (rule unat_word_of_nat)
  then have "sz < word_of_nat (length s1) + word_of_nat (length s2) + 2"
    using assms(4) by (simp add: word_less_nat_alt ac_simps)
  then show ?thesis by (simp add: join_paths_def strlen_cstr [OF assms(1)] strlen_cstr [OF assms(2)])
qed

section \<open>IsBatFile\<close>

lemma cstr_suffix: "cstr m p s \<Longrightarrow> k \<le> length s \<Longrightarrow> cstr m (p + word_of_nat k) (drop k s)"
  using cstr_drop_prefix [of m p "take k s" "drop k s"] by simp

lemma IsBatFile_cstr:
  assumes "cstr m p s" "length s < 2 ^ 32" "cstr m dot_bat [0x2E, 0x62, 0x61, 0x74]"
  shows "IsBatFile dot_bat m p = Some (4 \<le> length s \<and> drop (length s - 4) s = [0x2E, 0x62, 0x61, 0x74])"
proof (cases "length s < 4")
  case True
  then show ?thesis using assms(2)
    by (simp add: IsBatFile_def strlen_cstr [OF assms(1)] word_less_nat_alt unat_word_of_nat)
next
  case False
  then have eq: "p + word_of_nat (length s) - 4 = p + word_of_nat (length s - 4)"
    by (simp add: of_nat_diff)
  have "cstr m (p + word_of_nat (length s - 4)) (drop (length s - 4) s)"
    by (rule cstr_suffix [OF assms(1)]) simp
  then have str: "strcmp m (p + word_of_nat (length s) - 4) dot_bat =
      Some (byte_cmp (drop (length s - 4) s) [0x2E, 0x62, 0x61, 0x74])"
    unfolding eq by (rule strcmp_cstr [OF _ assms(3)])
  have "0 \<notin> set (drop (length s - 4) s)"
    using cstr_nonzero [OF assms(1)] in_set_dropD by fastforce
  then show ?thesis
    using False assms(2) str byte_cmp_eq_0 [of "drop (length s - 4) s" "[0x2E, 0x62, 0x61, 0x74]"]
    by (simp add: IsBatFile_def strlen_cstr [OF assms(1)] word_less_nat_alt unat_word_of_nat del: cstr.simps)
qed

section \<open>Properties\<close>

text \<open>On two terminated strings \<open>strstr\<close> returns the address of the first occurrence of the
  second in the first, as the reference \<open>find_infix\<close> finds it, or a null pointer.\<close>

theorem strstr_first_occurrence:
  assumes "cstr m h s" "cstr m n t"
  shows "strstr m h n = Some (case find_infix t s of None \<Rightarrow> 0 | Some i \<Rightarrow> h + word_of_nat i)"
  by (rule strstr_cstr [OF assms])

text \<open>The strings \<open>ababc\<close>, \<open>abc\<close>, \<open>%s/%s\<close>, \<open>%s%s\<close> and \<open>0:/\<close>.\<close>

definition example_strings :: mem where
  "example_strings = write_bytes (write_bytes (write_bytes (write_bytes (write_bytes (\<lambda>_. 0) 0x1000 [0x61, 0x62, 0x61, 0x62, 0x63])
     0x1010 [0x61, 0x62, 0x63]) 0x1020 [0x25, 0x73, 0x2F, 0x25, 0x73]) 0x1030 [0x25, 0x73, 0x25, 0x73]) 0x1040 [0x30, 0x3A, 0x2F]"

lemma example_cstrs:
  "cstr example_strings 0x1000 [0x61, 0x62, 0x61, 0x62, 0x63]" "cstr example_strings 0x1010 [0x61, 0x62, 0x63]"
  "cstr example_strings 0x1020 [0x25, 0x73, 0x2F, 0x25, 0x73]" "cstr example_strings 0x1030 [0x25, 0x73, 0x25, 0x73]"
  "cstr example_strings 0x1040 [0x30, 0x3A, 0x2F]"
  by (simp_all add: example_strings_def)

theorem strstr_first_occurrence_witness: "strstr example_strings 0x1000 0x1010 = Some 0x1002"
  using strstr_first_occurrence [OF example_cstrs(1,2)] by simp

text \<open>C33: \<open>snprintf\<close> stores the expansion of the format, each \<open>%s\<close> replaced by the next argument, cut
  to one byte less than the size of the buffer, and a terminating null; it stores nothing else.\<close>

theorem snprintf_stores_expansion:
  assumes "expand f ss = Some out" "cstr m format f" "list_all2 (cstr m) args ss" "0 < sz"
    and "clear buffer (unat sz - 1) format f" "list_all2 (clear buffer (unat sz - 1)) args ss"
  shows "\<exists>m'. snprintf m buffer sz format args = Some m' \<and>
    bytes m' buffer (min (unat sz - 1) (length out) + 1) = take (unat sz - 1) out @ [0] \<and>
    (\<forall>a. \<not> in_range buffer (unat sz) a \<longrightarrow> m' a = m a)"
proof -
  let ?w = "take (unat sz - 1) out @ [0]"
  have sz: "0 < unat sz" using assms(4) by (simp add: word_less_nat_alt)
  have len: "length ?w = min (unat sz - 1) (length out) + 1" "length ?w \<le> unat sz" using sz by auto
  then have "length ?w \<le> 2 ^ 32" using unat_u32 [of sz] by simp
  then have "bytes (write_bytes m buffer ?w) buffer (length ?w) = ?w" by (rule bytes_write_bytes)
  moreover have "write_bytes m buffer ?w a = m a" if "\<not> in_range buffer (unat sz) a" for a
    using that len(2) \<open>length ?w \<le> 2 ^ 32\<close> by (intro write_bytes_other) (simp_all add: in_range_def)
  ultimately show ?thesis using snprintf_cstr [OF assms] unfolding len(1) by blast
qed

lemma example_clear: "clear 0x2000 n p s" if "n \<le> 0x1000" "unat p + length s < 0x2000"
proof -
  have "\<not> in_range 0x2000 n (p + word_of_nat i)" if "i \<le> length s" for i
  proof -
    have i: "unat p + i < 0x2000" using that \<open>unat p + length s < 0x2000\<close> by simp
    then have "unat (word_of_nat i :: u32) = i" by (intro unat_word_of_nat) simp
    then have "unat (p + word_of_nat i) = unat p + i" using i by (simp add: unat_word_ariths)
    then show ?thesis using i \<open>n \<le> 0x1000\<close> by (simp add: in_range_def unat_sub_if')
  qed
  then show ?thesis by (simp add: clear_def)
qed

theorem snprintf_stores_expansion_witness:
  "\<exists>m'. snprintf example_strings 0x2000 6 0x1020 [0x1040, 0x1010] = Some m' \<and>
    cstr m' 0x2000 [0x30, 0x3A, 0x2F, 0x2F, 0x61]"
proof -
  have "expand [0x25, 0x73, 0x2F, 0x25, 0x73] [[0x30, 0x3A, 0x2F], [0x61, 0x62, 0x63]] =
      Some [0x30, 0x3A, 0x2F, 0x2F, 0x61, 0x62, 0x63]" by simp
  from snprintf_stores_expansion [OF this, of example_strings "0x1020" "[0x1040, 0x1010]" 6 "0x2000"]
  show ?thesis using example_cstrs by (auto simp: example_clear bytes_Suc)
qed

text \<open>\<open>join_paths\<close> stores the two paths with exactly one slash between them when both fit into the
  buffer with a slash and a terminator; otherwise it prints its message, and the buffer stays as it was.\<close>

theorem join_paths_result:
  assumes "literals_at lits m result (unat sz - 1)" "cstr m str1 s1" "cstr m str2 s2" "s1 \<noteq> []"
    and "clear result (unat sz - 1) str1 s1" "clear result (unat sz - 1) str2 s2" "length s1 + length s2 + 2 < 2 ^ 32"
  shows "join_paths lits t m str1 str2 result sz =
    (if length s1 + length s2 + 2 \<le> unat sz then Some (t, write_bytes m result (join s1 s2 @ [0]))
     else print t m (join_error lits))"
  using join_paths_joins [OF assms(1-6)] join_paths_refuses [OF assms(2,3,7)] by simp

theorem join_paths_result_witness:
  "join_paths \<lparr>join_direct = 0x1030, join_slash = 0x1020, join_error = 0x1050\<rparr> last_cell example_strings 0x1040 0x1010 0x2000 20 =
    Some (last_cell, write_bytes example_strings 0x2000 [0x30, 0x3A, 0x2F, 0x61, 0x62, 0x63, 0])"
proof -
  let ?lits = "\<lparr>join_direct = 0x1030, join_slash = 0x1020, join_error = 0x1050\<rparr>"
  have "literals_at ?lits example_strings 0x2000 (unat (20 :: u32) - 1)"
    using example_cstrs by (simp add: literals_at_def example_clear)
  from join_paths_result [OF this example_cstrs(5,2)] show ?thesis
    by (simp add: example_clear join_def starts_slash_def)
qed

end
