(* ===== verification/Tasks.thy ===== *)
theory Tasks
  imports Paging
begin

text \<open>
  \<^verbatim>\<open>ke/task/task.c\<close>: tasks and the list they are scheduled from. A \<open>struct task\<close> of 64 bytes has
  \<open>page_directory\<close> at 0, the registers from 4 on (\<open>ip\<close> at 32, \<open>esp\<close> at 44, \<open>ss\<close> at 48),
  \<open>process\<close> at 52, \<open>next\<close> at 56 and \<open>prev\<close> at 60.
\<close>

section \<open>State and operations\<close>

record tasks =
  current_task :: addr
  task_tail :: addr
  task_head :: addr

definition LIBREWIN_PROGRAM_VIRTUAL_ADDRESS :: u32 where
  [status_defs]: "LIBREWIN_PROGRAM_VIRTUAL_ADDRESS = 0x400000"
definition LIBREWIN_PROGRAM_VIRTUAL_STACK_ADDRESS_START :: u32 where
  [status_defs]: "LIBREWIN_PROGRAM_VIRTUAL_STACK_ADDRESS_START = 0x3FF000"
definition USER_DATA_SEGMENT :: u32 where [status_defs]: "USER_DATA_SEGMENT = 0x23"

definition task_current :: "tasks \<Rightarrow> addr" where
  "task_current s = current_task s"

definition task_init :: "heap \<Rightarrow> mem \<Rightarrow> addr \<Rightarrow> addr \<Rightarrow> u32 \<times> mem" where
  "task_init kernel_heap m task process =
     (let m = memset m task 0 64;
          (directory, m) = paging_new_4gb kernel_heap m (ucast (PAGING_IS_PRESENT OR PAGING_ACCESS_FROM_ALL));
          m = write32 m task directory
      in if read32 m task = 0 then (- EIO, m)
         else
           let m = write32 m (task + 32) LIBREWIN_PROGRAM_VIRTUAL_ADDRESS;
               m = write32 m (task + 48) USER_DATA_SEGMENT;
               m = write32 m (task + 44) LIBREWIN_PROGRAM_VIRTUAL_STACK_ADDRESS_START
           in (0, write32 m (task + 52) process))"

definition task_get_next :: "tasks \<Rightarrow> mem \<Rightarrow> addr" where
  "task_get_next s m =
     (if read32 m (current_task s + 56) = 0 then task_head s else read32 m (current_task s + 56))"

definition task_list_remove :: "tasks \<Rightarrow> mem \<Rightarrow> addr \<Rightarrow> tasks \<times> mem" where
  "task_list_remove s m task =
     (let m = (if read32 m (task + 60) \<noteq> 0
               then write32 m (read32 m (task + 60) + 56) (read32 m (task + 56)) else m);
          s = (if task = task_head s then s\<lparr>task_head := read32 m (task + 56)\<rparr> else s);
          s = (if task = task_tail s then s\<lparr>task_tail := read32 m (task + 60)\<rparr> else s);
          s = (if task = current_task s then s\<lparr>current_task := task_get_next s m\<rparr> else s)
      in (s, m))"

text \<open>The result of \<open>task_free\<close>, always 0, is left out.\<close>

definition task_free :: "heap \<Rightarrow> tasks \<Rightarrow> mem \<Rightarrow> addr \<Rightarrow> tasks \<times> mem" where
  "task_free kernel_heap s m task =
     (let m = paging_free_4gb kernel_heap m (read32 m task);
          (s, m) = task_list_remove s m task
      in (s, kfree kernel_heap m task))"

text \<open>The task, or the status as a pointer.\<close>

definition task_new :: "heap \<Rightarrow> tasks \<Rightarrow> mem \<Rightarrow> addr \<Rightarrow> addr \<times> tasks \<times> mem" where
  "task_new kernel_heap s m process =
     (let (task, m) = kzalloc kernel_heap m 64;
          (res, s, m) =
            (if task = 0 then (- ENOMEM, s, m)
             else
               let (res, m) = task_init kernel_heap m task process in
               if res \<noteq> LIBREWIN_ALL_OK then (res, s, m)
               else if task_head s = 0 then (res, s\<lparr>task_head := task, task_tail := task\<rparr>, m)
               else
                 let m = write32 m (task_tail s + 56) task;
                     m = write32 m (task + 60) (task_tail s)
                 in (res, s\<lparr>task_tail := task\<rparr>, m))
      in if ISERR res
         then let (s, m) = task_free kernel_heap s m task in (res, s, m)
         else (task, s, m))"

section \<open>The list of tasks\<close>

text \<open>The tasks \<open>ts\<close> are linked in this order, forwards and backwards.\<close>

definition linked :: "mem \<Rightarrow> addr list \<Rightarrow> bool" where
  "linked m ts \<longleftrightarrow> (\<forall>i<length ts. read32 m (ts ! i + 56) = (if Suc i < length ts then ts ! Suc i else 0))"

definition linked_back :: "mem \<Rightarrow> addr list \<Rightarrow> bool" where
  "linked_back m ts \<longleftrightarrow> (\<forall>i<length ts. read32 m (ts ! i + 60) = (if i = 0 then 0 else ts ! (i - 1)))"

definition task_list :: "tasks \<Rightarrow> mem \<Rightarrow> addr list \<Rightarrow> bool" where
  "task_list s m ts \<longleftrightarrow> distinct ts \<and> 0 \<notin> set ts \<and> linked m ts \<and> linked_back m ts \<and>
     task_head s = (if ts = [] then 0 else hd ts) \<and> task_tail s = (if ts = [] then 0 else last ts)"

lemma read_next_prev:
  assumes "aligned p" "aligned q"
  shows "read32 (write32 m (p + 56) v) (q + 56) = (if p = q then v else read32 m (q + 56))"
    "read32 (write32 m (p + 56) v) (q + 60) = read32 m (q + 60)"
    "read32 (write32 m (p + 60) v) (q + 56) = read32 m (q + 56)"
    "read32 (write32 m (p + 60) v) (q + 60) = (if p = q then v else read32 m (q + 60))"
  using read_slot_other [OF assms, of 14 14 m v] read_slot_other [OF assms, of 14 15 m v]
    read_slot_other [OF assms, of 15 14 m v] read_slot_other [OF assms, of 15 15 m v]
  by (cases "p = q"; simp)+

section \<open>Round robin\<close>

lemma task_get_next_round:
  assumes "task_list s m ts" "i < length ts" "current_task s = ts ! i"
  shows "task_get_next s m = ts ! (Suc i mod length ts)"
proof (cases "Suc i < length ts")
  case True
  have "ts ! Suc i \<noteq> 0" using assms(1) True nth_mem unfolding task_list_def by metis
  then show ?thesis using True assms by (simp add: task_get_next_def task_list_def linked_def)
next
  case False
  then have "Suc i = length ts" using assms(2) by simp
  then show ?thesis using assms by (cases ts) (auto simp: task_get_next_def task_list_def linked_def)
qed

definition yield :: "mem \<Rightarrow> tasks \<Rightarrow> tasks" where
  "yield m s = s\<lparr>current_task := task_get_next s m\<rparr>"

lemma yields_round:
  assumes "task_list s m ts" "i < length ts" "current_task s = ts ! i"
  shows "current_task ((yield m ^^ k) s) = ts ! ((i + k) mod length ts) \<and> task_list ((yield m ^^ k) s) m ts"
proof (induction k)
  case (Suc k)
  let ?s = "(yield m ^^ k) s"
  have "0 < length ts" using assms(2) by linarith
  then have "(i + k) mod length ts < length ts" by simp
  from task_get_next_round [OF conjunct2 [OF Suc.IH] this conjunct1 [OF Suc.IH]] Suc.IH
  show ?case by (simp add: yield_def task_list_def mod_Suc_eq)
qed (use assms in simp)

section \<open>Removal\<close>

text \<open>Removing a task leaves the others linked forwards, with the right head and tail. The \<open>prev\<close>
  of its successor is not changed.\<close>

lemma task_list_remove_links:
  assumes "task_list s m (xs @ t # ys)" "\<forall>p\<in>set (xs @ t # ys). aligned p" "task_list_remove s m t = (s', m')"
  shows "linked m' (xs @ ys)"
    and "task_head s' = (if xs @ ys = [] then 0 else hd (xs @ ys))"
    and "task_tail s' = (if xs @ ys = [] then 0 else last (xs @ ys))"
    and "ys \<noteq> [] \<Longrightarrow> read32 m' (hd ys + 60) = t"
    and "m' = (if xs = [] then m else write32 m (last xs + 56) (if ys = [] then 0 else hd ys))"
proof -
  let ?ts = "xs @ t # ys"
  have dist: "distinct ?ts" and nz: "0 \<notin> set ?ts"
    and nxt: "\<And>i. i < length ?ts \<Longrightarrow> read32 m (?ts ! i + 56) = (if Suc i < length ?ts then ?ts ! Suc i else 0)"
    and prv: "\<And>i. i < length ?ts \<Longrightarrow> read32 m (?ts ! i + 60) = (if i = 0 then 0 else ?ts ! (i - 1))"
    and ht: "task_head s = hd ?ts" "task_tail s = last ?ts"
    using assms(1) by (simp_all add: task_list_def linked_def linked_back_def)
  have t: "read32 m (t + 56) = (if ys = [] then 0 else hd ys)" "read32 m (t + 60) = (if xs = [] then 0 else last xs)"
    using nxt [of "length xs"] prv [of "length xs"]
    by (auto simp: nth_append hd_conv_nth last_conv_nth)
  have al: "aligned p" if "p \<in> set ?ts" for p using assms(2) that by blast
  have last0: "last xs \<noteq> 0" if "xs \<noteq> []" using nz that last_in_set [of xs] by (metis Un_iff set_append)
  show m': "m' = (if xs = [] then m else write32 m (last xs + 56) (if ys = [] then 0 else hd ys))"
    using assms(3) last0 unfolding task_list_remove_def t by (auto simp: Let_def split: if_splits)
  have upd: "task_head s' = (if t = task_head s then read32 m' (t + 56) else task_head s)"
    "task_tail s' = (if t = task_tail s then read32 m' (t + 60) else task_tail s)"
    using assms(3) unfolding task_list_remove_def by (auto simp: Let_def split: if_splits)
  have far: "read32 m' (t + 56) = read32 m (t + 56)" "read32 m' (t + 60) = read32 m (t + 60)"
  proof -
    have "last xs \<noteq> t" if "xs \<noteq> []" using dist that last_in_set [of xs] by auto
    then show "read32 m' (t + 56) = read32 m (t + 56)" "read32 m' (t + 60) = read32 m (t + 60)"
      unfolding m' using read_next_prev(1,2) [of "last xs" t m] al [of t] al [of "last xs"] by auto
  qed
  have "t = hd ?ts \<longleftrightarrow> xs = []" using dist by (cases xs) auto
  moreover have "t = last ?ts \<longleftrightarrow> ys = []" using dist last_in_set [of ys] by auto
  ultimately have s': "task_head s' = (if xs = [] then (if ys = [] then 0 else hd ys) else hd xs)"
    "task_tail s' = (if ys = [] then (if xs = [] then 0 else last xs) else last ys)"
    unfolding upd far t ht by auto
  show "task_head s' = (if xs @ ys = [] then 0 else hd (xs @ ys))"
    "task_tail s' = (if xs @ ys = [] then 0 else last (xs @ ys))"
    unfolding s' by auto
  show "read32 m' (hd ys + 60) = t" if "ys \<noteq> []"
  proof -
    have "read32 m (hd ys + 60) = t"
      using prv [of "Suc (length xs)"] that by (simp add: nth_append hd_conv_nth)
    then show ?thesis unfolding m' using read_next_prev(2) [of "last xs" "hd ys" m] al that by (auto simp: hd_in_set)
  qed
  show "linked m' (xs @ ys)"
    unfolding linked_def
  proof (intro allI impI)
    fix i assume i: "i < length (xs @ ys)"
    let ?j = "if i < length xs then i else Suc i"
    have eq: "(xs @ ys) ! i = ?ts ! ?j" using i by (auto simp: nth_append)
    have j: "?j < length ?ts" using i by auto
    have "read32 m' (?ts ! ?j + 56) = (if xs \<noteq> [] \<and> last xs = ?ts ! ?j then (if ys = [] then 0 else hd ys)
        else read32 m (?ts ! ?j + 56))"
      unfolding m' using read_next_prev(1) [of "last xs" "?ts ! ?j" m] al [of "last xs"] al [OF nth_mem [OF j]] by auto
    moreover have "xs \<noteq> [] \<and> last xs = ?ts ! ?j \<longleftrightarrow> xs \<noteq> [] \<and> i = length xs - 1"
    proof (cases "xs = []")
      case False
      then have "last xs = ?ts ! (length xs - 1)" by (simp add: last_conv_nth nth_append)
      then have "last xs = ?ts ! ?j \<longleftrightarrow> length xs - 1 = ?j"
        using nth_eq_iff_index_eq [OF dist _ j, of "length xs - 1"] by simp
      then show ?thesis using False by auto
    qed simp
    ultimately show "read32 m' ((xs @ ys) ! i + 56) = (if Suc i < length (xs @ ys) then (xs @ ys) ! Suc i else 0)"
      unfolding eq using nxt [OF j] i
      by (auto simp: nth_append hd_conv_nth split: if_splits)
  qed
qed

section \<open>A new task\<close>

lemma kh_page_apart:
  assumes "kheap_live h m L k" "L p = Some n" "L q = Some n'" "p \<noteq> q" "in_range p n a"
  shows "\<not> in_range q n' a"
  using kh.live_disjoint [OF assms(1-4)] in_range_ex [OF assms(5)] apart_notin by blast

lemma memset_page: "L p = Some 4096 \<Longrightarrow> kheap_live h m L k \<Longrightarrow> unat sz \<le> 4096 \<Longrightarrow> kheap_live h (memset m p c sz) L k"
  by (rule kh.live_store [of h m L k p 4096]) (auto simp: memset_apply in_range_def)

lemma write_page: "L p = Some 4096 \<Longrightarrow> kheap_live h m L k \<Longrightarrow> i < 1024 \<Longrightarrow>
    kheap_live h (write32 m (p + 4 * word_of_nat i) v) L k"
  by (rule kh.live_store [of h m L k p 4096]) (auto simp: write_slot_frame)

text \<open>The fields of a task that \<open>task_init\<close> sets.\<close>

definition new_task :: "mem \<Rightarrow> addr \<Rightarrow> addr \<Rightarrow> bool" where
  "new_task m task process \<longleftrightarrow> read32 m (task + 32) = LIBREWIN_PROGRAM_VIRTUAL_ADDRESS \<and>
     read32 m (task + 44) = LIBREWIN_PROGRAM_VIRTUAL_STACK_ADDRESS_START \<and>
     read32 m (task + 48) = USER_DATA_SEGMENT \<and> read32 m (task + 52) = process \<and>
     read32 m task \<noteq> 0 \<and> directory_ok m (paging_4gb_chunk_get_directory m (read32 m task))"

lemma slots:
  "p + 32 = slot p 8" "p + 44 = slot p 11" "p + 48 = slot p 12" "p + 52 = slot p 13" "p + 56 = slot p 14"
  "p + 60 = slot p 15" "p = slot p 0" for p :: addr
  by simp_all

lemma directory_ok_cong:
  assumes "directory_ok m d" "\<And>a. in_range d 4096 a \<Longrightarrow> m' a = m a"
  shows "directory_ok m' d"
proof -
  have "table_of m' d i = table_of m d i" if "i < 1024" for i
    unfolding table_of_def using read_slot_page [OF that assms(2)] by simp
  then have "table_of m' d ` {..<1024} = table_of m d ` {..<1024}" and
    "inj_on (table_of m' d) {..<1024} \<longleftrightarrow> inj_on (table_of m d) {..<1024}"
    by (auto intro!: image_cong inj_on_cong)
  then show ?thesis using assms(1) unfolding directory_ok_def by blast
qed

lemma task_init_works:
  assumes live: "kheap_live h m L (k + 1026)" and task: "L task = Some 4096" "aligned task"
    and run: "task_init h m task process = (res, m')"
  shows "res = 0 \<and> new_task m' task process \<and> read32 m' (task + 56) = 0 \<and> read32 m' (task + 60) = 0 \<and>
    kheap_live h m' (with_pages L (directory_regions m' (read32 m' task))) k \<and>
    (\<forall>p\<in>directory_regions m' (read32 m' task). L p = None) \<and>
    (\<forall>p n a. L p = Some n \<longrightarrow> p \<noteq> task \<longrightarrow> in_range p n a \<longrightarrow> m' a = m a)"
proof -
  define m1 where "m1 = memset m task 0 64"
  have live1: "kheap_live h m1 L (k + 1026)"
    unfolding m1_def by (rule memset_page [OF task(1) live]) simp
  obtain c m2 where dir: "paging_new_4gb h m1 (ucast (PAGING_IS_PRESENT OR PAGING_ACCESS_FROM_ALL)) = (c, m2)"
    by fastforce
  note N = paging_new_4gb_works [OF live1 dir, unfolded paging_4gb_chunk_get_directory_def]
  let ?R = "directory_regions m2 c"
  have liveR: "kheap_live h m2 (with_pages L ?R) k" using N(3) by (simp add: with_pages_def)
  have cR: "c \<in> ?R" "read32 m2 c \<in> ?R" and tasksR: "table_of m2 (read32 m2 c) ` {..<1024} \<subseteq> ?R"
    by (auto simp: directory_regions_def)
  have c0: "c \<noteq> 0" using kheap_live_nonzero [OF liveR, of c 4096] cR by simp
  have taskR: "task \<notin> ?R" using N(4) task(1) by auto
  then have ext_task: "with_pages L ?R task = Some 4096" using task(1) by (simp add: with_pages_def)
  note defs = LIBREWIN_PROGRAM_VIRTUAL_ADDRESS_def LIBREWIN_PROGRAM_VIRTUAL_STACK_ADDRESS_START_def USER_DATA_SEGMENT_def
  define m7 where "m7 = write32 (write32 (write32 (write32 (write32 m2 (slot task 0) c) (slot task 8) 0x400000)
      (slot task 12) 0x23) (slot task 11) 0x3FF000) (slot task 13) process"
  have run': "(res, m') = (0, m7)"
    using run c0 dir unfolding task_init_def m1_def [symmetric] Let_def by (simp add: m7_def defs)
  have same: "read32 (write32 x (slot task i) v) (slot task j) = read32 x (slot task j)"
    if "i \<noteq> j" "i < 1024" "j < 1024" for x i j v
    using read_slot_other [OF task(2) task(2)] that by simp
  have fields: "read32 m7 (slot task 0) = c" "read32 m7 (slot task 8) = 0x400000" "read32 m7 (slot task 11) = 0x3FF000"
    "read32 m7 (slot task 12) = 0x23" "read32 m7 (slot task 13) = process"
    "read32 m7 (slot task 14) = read32 m2 (slot task 14)" "read32 m7 (slot task 15) = read32 m2 (slot task 15)"
    unfolding m7_def by (simp_all only: same read32_write32 rel_simps zero_neq_numeral numeral_neq_zero zero_less_numeral simp_thms)
  have zero: "read32 m2 (slot task j) = 0" if "j < 16" for j
  proof -
    have "read32 m2 (slot task j) = read32 m1 (slot task j)"
      by (rule read_slot_page) (use that N(7) [OF task(1)] in auto)
    also have "\<dots> = 0"
    proof (rule read32_zero)
      fix i :: nat assume "i < 4"
      then have "in_range task 64 (task + word_of_nat (4 * j + i))" using that by (intro in_range_offset) simp_all
      then show "m1 (slot task j + word_of_nat i) = 0"
        unfolding slot_offset m1_def by (simp add: memset_apply)
    qed
    finally show ?thesis .
  qed
  have far: "m7 a = m2 a" if "\<not> in_range task 4096 a" for a
    unfolding m7_def using that by (simp only: write_slot_frame [OF _ that] rel_simps zero_less_numeral simp_thms)
  have live7: "kheap_live h m7 (with_pages L ?R) k"
    by (rule kh.live_store [OF liveR ext_task]) (use far in simp_all)
  have page: "m7 a = m2 a" if "p \<in> ?R" "in_range p 4096 a" for p a
  proof -
    have "with_pages L ?R p = Some 4096" "p \<noteq> task" using that(1) taskR by auto
    then show ?thesis using kh_page_apart [OF liveR _ ext_task _ that(2)] far by blast
  qed
  have dirs: "read32 m7 c = read32 m2 c"
    using read_slot_page [of 0 c m7 m2] page [OF cR(1)] by simp
  have tabs: "table_of m7 (read32 m2 c) i = table_of m2 (read32 m2 c) i" if "i < 1024" for i
    unfolding table_of_def using read_slot_page [OF that, of "read32 m2 c" m7 m2] page [OF cR(2)] by simp
  then have "table_of m7 (read32 m2 c) ` {..<1024} = table_of m2 (read32 m2 c) ` {..<1024}" by (intro image_cong) auto
  then have R: "directory_regions m7 c = ?R" unfolding directory_regions_def dirs by simp
  have "directory_ok m7 (read32 m2 c)" by (rule directory_ok_cong [OF N(1)]) (rule page [OF cR(2)])
  then have new: "new_task m7 task process"
    unfolding new_task_def slots(1-4) defs paging_4gb_chunk_get_directory_def
    using fields c0 dirs by simp
  have keep: "m7 a = m a" if "L p = Some n" "p \<noteq> task" "in_range p n a" for p n a
  proof -
    have out: "\<not> in_range task 4096 a" by (rule kh_page_apart [OF live that(1) task(1) that(2,3)])
    then have "m1 a = m a" by (simp add: m1_def memset_apply in_range_def)
    then show ?thesis using far [OF out] N(7) [OF that(1,3)] by simp
  qed
  have "read32 m7 (task + 56) = 0" "read32 m7 (task + 60) = 0"
    unfolding slots(5,6) fields using zero [of 14] zero [of 15] by simp_all
  moreover have "read32 m7 task = c" using fields(1) by simp
  ultimately show ?thesis
    using new live7 N(4) keep R run' by auto
qed

lemma task_list_snoc:
  assumes list: "task_list s m ts" and al: "\<forall>p\<in>set (ts @ [t]). aligned p" and t: "t \<notin> set ts" "t \<noteq> 0"
    and fresh: "read32 m (t + 56) = 0" "read32 m (t + 60) = 0"
    and m': "m' = (if ts = [] then m else write32 (write32 m (last ts + 56) t) (t + 60) (last ts))"
    and s': "task_head s' = (if ts = [] then t else task_head s)" "task_tail s' = t"
  shows "task_list s' m' (ts @ [t])"
proof -
  have nxt: "read32 m (ts ! i + 56) = (if Suc i < length ts then ts ! Suc i else 0)"
    and prv: "read32 m (ts ! i + 60) = (if i = 0 then 0 else ts ! (i - 1))" if "i < length ts" for i
    using list that by (simp_all add: task_list_def linked_def linked_back_def)
  have dist: "distinct ts" "0 \<notin> set ts" using list by (simp_all add: task_list_def)
  have alt: "aligned t" "\<And>i. i < length ts \<Longrightarrow> aligned (ts ! i)" using al by simp_all
  have neq: "t \<noteq> ts ! i" if "i < length ts" for i using t(1) that nth_mem by metis
  have last: "last ts = ts ! (length ts - 1)" "aligned (last ts)" "last ts \<noteq> t" if "ts \<noteq> []"
    using that al t(1) last_in_set [of ts] by (auto simp: last_conv_nth)
  note rw = read_next_prev
  have "linked m' (ts @ [t])"
    unfolding linked_def
  proof (intro allI impI)
    fix i assume i: "i < length (ts @ [t])"
    show "read32 m' ((ts @ [t]) ! i + 56) = (if Suc i < length (ts @ [t]) then (ts @ [t]) ! Suc i else 0)"
    proof (cases "i < length ts")
      case True
      then have ts: "ts \<noteq> []" by auto
      have "last ts = ts ! i \<longleftrightarrow> Suc i = length ts"
        using last(1) [OF ts] nth_eq_iff_index_eq [OF dist(1) _ True, of "length ts - 1"] True by auto
      then show ?thesis
        using True nxt [OF True] rw(3) [OF alt(1) alt(2) [OF True]] rw(1) [OF last(2) [OF ts] alt(2) [OF True]]
        by (auto simp: m' ts nth_append)
    next
      case False
      then have "(ts @ [t]) ! i = t" "\<not> Suc i < length (ts @ [t])" using i by (simp_all add: nth_append)
      then show ?thesis using fresh(1) rw(3) [OF alt(1,1)] rw(1) [OF last(2) alt(1)] last(3) by (auto simp: m')
    qed
  qed
  moreover have "linked_back m' (ts @ [t])"
    unfolding linked_back_def
  proof (intro allI impI)
    fix i assume i: "i < length (ts @ [t])"
    show "read32 m' ((ts @ [t]) ! i + 60) = (if i = 0 then 0 else (ts @ [t]) ! (i - 1))"
    proof (cases "i < length ts")
      case True
      then have ts: "ts \<noteq> []" by auto
      then show ?thesis
        using True prv [OF True] neq [OF True] rw(4) [OF alt(1) alt(2) [OF True]] rw(2) [OF last(2) [OF ts] alt(2) [OF True]]
        by (auto simp: m' ts nth_append)
    next
      case False
      then have "(ts @ [t]) ! i = t" "i = length ts" using i by (simp_all add: nth_append)
      then show ?thesis using fresh(2) rw(4) [OF alt(1,1)] last(1) by (auto simp: m' nth_append)
    qed
  qed
  ultimately show ?thesis
    using list t s' by (auto simp: task_list_def)
qed

lemma task_new_appends:
  assumes live: "kheap_live h m L (k + 1027)" and list: "task_list s m ts"
    and pages: "\<forall>p\<in>set ts. L p = Some 4096" and run: "task_new h s m process = (t, s', m')"
  shows "L t = None \<and> task_list s' m' (ts @ [t]) \<and> current_task s' = current_task s \<and> new_task m' t process \<and>
    kheap_live h m' (with_pages (L(t \<mapsto> 4096)) (directory_regions m' (read32 m' t))) k"
proof -
  have "k + 1027 = Suc (k + 1026)" by simp
  then have live': "kheap_live h m L (Suc (k + 1026))" using live by metis
  obtain t0 m1 where a: "kzalloc h m 64 = (t0, m1)" by fastforce
  have sz: "(0 :: u32) < 64" "(64 :: u32) \<le> 4096" by simp_all
  note A = kh.alloc_page [OF live' sz a] and keepA = kh.alloc_keeps [OF live' sz a]
  have t0: "t0 \<noteq> 0" "aligned t0" "L t0 = None" and live1: "kheap_live h m1 (L(t0 \<mapsto> 4096)) (k + 1026)" using A by blast+
  have Lt: "(L(t0 \<mapsto> 4096)) t0 = Some 4096" by simp
  obtain res m2 where i: "task_init h m1 t0 process = (res, m2)" by fastforce
  note I = task_init_works [OF live1 Lt t0(2) i]
  let ?R = "directory_regions m2 (read32 m2 t0)" let ?L = "with_pages (L(t0 \<mapsto> 4096)) (directory_regions m2 (read32 m2 t0))"
  have liveR: "kheap_live h m2 ?L k" and newR: "\<forall>p\<in>?R. (L(t0 \<mapsto> 4096)) p = None" using I by blast+
  have tts: "t0 \<notin> set ts" using pages t0(3) by force
  have keep: "m2 a = m a" if "L p = Some n" "in_range p n a" for p n a
  proof -
    have p: "p \<noteq> t0" using that(1) t0(3) by auto
    then have "(L(t0 \<mapsto> 4096)) p = Some n" using that(1) by simp
    with I p that(2) have "m2 a = m1 a" by (elim conjE) blast
    then show ?thesis using keepA [OF that] by simp
  qed
  have field: "read32 m2 (slot p j) = read32 m (slot p j)" if "p \<in> set ts" "j < 1024" for p j
    by (rule read_slot_page [OF that(2)]) (use keep pages that(1) in auto)
  have list2: "task_list s m2 ts"
    using list field [OF nth_mem, of _ 14] field [OF nth_mem, of _ 15]
    by (simp add: task_list_def linked_def linked_back_def)
  have al: "\<forall>p\<in>set (ts @ [t0]). aligned p" using pages kh.live_aligned [OF live] t0(2) by auto
  define m3 where "m3 = (if ts = [] then m2 else write32 (write32 m2 (last ts + 56) t0) (t0 + 60) (last ts))"
  have hd0: "task_head s = 0 \<longleftrightarrow> ts = []" and tl: "ts \<noteq> [] \<Longrightarrow> task_tail s = last ts"
    using list by (cases ts; auto simp: task_list_def)+
  have "(t, s', m') = (t0, if ts = [] then s\<lparr>task_head := t0, task_tail := t0\<rparr> else s\<lparr>task_tail := t0\<rparr>, m3)"
    using run a i I t0(1) tl unfolding task_new_def m3_def hd0
    by (auto simp: Let_def ISERR_def LIBREWIN_ALL_OK_def split: if_splits)
  then have res: "t = t0" "s' = (if ts = [] then s\<lparr>task_head := t0, task_tail := t0\<rparr> else s\<lparr>task_tail := t0\<rparr>)" "m' = m3"
    by simp_all
  have "task_list s' m3 (ts @ [t0])"
    by (rule task_list_snoc [OF list2 al tts t0(1) _ _ m3_def]) (use I res in auto)
  moreover have pageL: "?L p = Some 4096" "p \<notin> ?R" if "p \<in> set (ts @ [t0])" for p
  proof -
    have p: "(L(t0 \<mapsto> 4096)) p = Some 4096" using that pages by auto
    then show "p \<notin> ?R" using newR by fastforce
    then show "?L p = Some 4096" using p by (simp add: with_pages_def)
  qed
  have far: "m3 a = m2 a" if "q \<in> ?R" "in_range q 4096 a" for q a
  proof (cases "ts = []")
    case False
    have "\<not> in_range p 4096 a" if p: "p \<in> set (ts @ [t0])" for p
    proof (rule kh_page_apart [OF liveR _ pageL(1) [OF p] _ \<open>in_range q 4096 a\<close>])
      show "?L q = Some 4096" using \<open>q \<in> ?R\<close> by simp
      show "q \<noteq> p" using pageL(2) [OF p] \<open>q \<in> ?R\<close> by auto
    qed
    then have "\<not> in_range (last ts) 4096 a" "\<not> in_range t0 4096 a" using False by simp_all
    then show ?thesis
      using False write_slot_frame [of 14 "last ts" a m2 t0] write_slot_frame [of 15 t0 a _ "last ts"] by (simp add: m3_def)
  qed (simp add: m3_def)
  have tfield: "read32 m3 (slot t0 j) = read32 m2 (slot t0 j)" if "j < 15" for j
  proof (cases "ts = []")
    case False
    then have last: "aligned (last ts)" "last ts \<noteq> t0" using al tts last_in_set [of ts] by auto
    show ?thesis
      using False read_slot_other [OF t0(2,2), of 15 j "write32 m2 (last ts + 56) t0" "last ts"]
        read_slot_other [OF last(1) t0(2), of 14 j m2 t0] that last(2) by (simp add: m3_def)
  qed (simp add: m3_def)
  have t0f: "read32 m3 t0 = read32 m2 t0" using tfield [of 0] by simp
  have cR: "read32 m2 t0 \<in> ?R" "read32 m2 (read32 m2 t0) \<in> ?R" by (simp_all add: directory_regions_def)
  have dir: "read32 m3 (read32 m2 t0) = read32 m2 (read32 m2 t0)"
    using read_slot_page [of 0 "read32 m2 t0" m3 m2] far [OF cR(1)] by simp
  have tabs: "table_of m3 (read32 m2 (read32 m2 t0)) j = table_of m2 (read32 m2 (read32 m2 t0)) j" if "j < 1024" for j
    unfolding table_of_def using read_slot_page [OF that far [OF cR(2)]] by simp
  then have "table_of m3 (read32 m2 (read32 m2 t0)) ` {..<1024} = table_of m2 (read32 m2 (read32 m2 t0)) ` {..<1024}"
    by (intro image_cong) auto
  then have R: "directory_regions m3 (read32 m3 t0) = ?R" unfolding directory_regions_def t0f dir by simp
  have "directory_ok m2 (read32 m2 (read32 m2 t0))"
    using I by (simp add: new_task_def paging_4gb_chunk_get_directory_def)
  then have ok3: "directory_ok m3 (read32 m2 (read32 m2 t0))" by (rule directory_ok_cong) (rule far [OF cR(2)])
  then have "new_task m3 t0 process"
    using I tfield [of 8] tfield [of 11] tfield [of 12] tfield [of 13]
    by (simp add: new_task_def paging_4gb_chunk_get_directory_def t0f dir)
  moreover have "kheap_live h m3 ?L k"
  proof (cases "ts = []")
    case False
    have "kheap_live h (write32 m2 (slot (last ts) 14) t0) ?L k"
      by (rule write_page [OF _ liveR], rule pageL(1)) (use False in simp_all)
    from write_page [OF _ this, of t0 15 "last ts"] pageL(1) [of t0]
    have "kheap_live h (write32 (write32 m2 (slot (last ts) 14) t0) (slot t0 15) (last ts)) ?L k" by simp
    then show ?thesis using False by (simp add: m3_def)
  qed (use liveR in \<open>simp add: m3_def\<close>)
  ultimately show ?thesis using t0(3) unfolding res R by auto
qed

section \<open>Properties\<close>

text \<open>C36: round robin. While the tasks are linked, \<open>k\<close> calls of \<open>task_get_next\<close>, each made the
  current task, lead from the task at position \<open>i\<close> to the one at \<open>(i + k) mod n\<close>; so within \<open>n\<close>
  calls every task gets its turn.\<close>

theorem task_get_next_reaches:
  assumes "task_list s m ts" "i < length ts" "current_task s = ts ! i" "j < length ts"
  shows "\<exists>k<length ts. current_task ((yield m ^^ k) s) = ts ! j"
proof -
  let ?n = "length ts" and ?k = "(j + length ts - i) mod length ts"
  have "(i + ?k) mod ?n = (i + (j + ?n - i)) mod ?n" by (simp add: mod_add_right_eq)
  also have "\<dots> = (j + ?n) mod ?n" using assms(2) by simp
  also have "\<dots> = j" using assms(4) by simp
  finally have "current_task ((yield m ^^ ?k) s) = ts ! j" using yields_round [OF assms(1-3), of ?k] by simp
  moreover have "?k < ?n" using assms(2) by (intro mod_less_divisor) linarith
  ultimately show ?thesis by blast
qed

text \<open>Three tasks.\<close>

definition three_tasks :: mem where
  "three_tasks = (\<lambda>_. 0)(0x1039 := 0x20, 0x2039 := 0x30, 0x203D := 0x10, 0x303D := 0x20)"

lemma three_tasks_linked:
  "task_list \<lparr>current_task = c, task_tail = 0x3000, task_head = 0x1000\<rparr> three_tasks [0x1000, 0x2000, 0x3000]"
proof -
  have next_fields: "read32 three_tasks 0x1038 = 0x2000" "read32 three_tasks 0x2038 = 0x3000" "read32 three_tasks 0x3038 = 0"
    and prev_fields: "read32 three_tasks 0x103C = 0" "read32 three_tasks 0x203C = 0x1000" "read32 three_tasks 0x303C = 0x2000"
    by (simp_all add: three_tasks_def read32_def)
  then show ?thesis by (auto simp: task_list_def linked_def linked_back_def less_Suc_eq)
qed

theorem task_get_next_reaches_witness:
  "\<exists>k<Suc (Suc (Suc 0)). current_task ((yield three_tasks ^^ k) \<lparr>current_task = 0x2000, task_tail = 0x3000, task_head = 0x1000\<rparr>) = 0x1000"
  using task_get_next_reaches [OF three_tasks_linked, of 1 "0x2000" 0] by simp

text \<open>C37: \<open>task_list_remove\<close> of a task in the middle or at an end of the list leaves the other tasks
  linked forwards, from the right head to the right tail. The \<open>prev\<close> of the task behind it still
  points to the removed task.\<close>

theorem task_list_remove_unlinks:
  assumes "task_list s m (xs @ t # ys)" "\<forall>p\<in>set (xs @ t # ys). aligned p" "task_list_remove s m t = (s', m')"
  shows "linked m' (xs @ ys) \<and> task_head s' = (if xs @ ys = [] then 0 else hd (xs @ ys)) \<and>
    task_tail s' = (if xs @ ys = [] then 0 else last (xs @ ys)) \<and> (ys \<noteq> [] \<longrightarrow> read32 m' (hd ys + 60) = t)"
  using task_list_remove_links [OF assms] by blast

theorem task_list_remove_unlinks_witness:
  "\<exists>s' m'. task_list_remove \<lparr>current_task = 0x1000, task_tail = 0x3000, task_head = 0x1000\<rparr> three_tasks 0x2000 = (s', m') \<and>
    linked m' [0x1000, 0x3000] \<and> read32 m' 0x303C = 0x2000"
proof -
  obtain s' m' where run:
    "task_list_remove \<lparr>current_task = 0x1000, task_tail = 0x3000, task_head = 0x1000\<rparr> three_tasks 0x2000 = (s', m')" by fastforce
  have "task_list \<lparr>current_task = 0x1000, task_tail = 0x3000, task_head = 0x1000\<rparr> three_tasks ([0x1000] @ 0x2000 # [0x3000])"
    using three_tasks_linked by simp
  from task_list_remove_unlinks [OF this _ run] run show ?thesis by (simp add: aligned_def)
qed

end
