(* ===== verification/Process.thy ===== *)
theory Process
  imports Tasks Strings
begin

text \<open>
  \<^verbatim>\<open>ke/task/process.c\<close>: the table of processes and the creation of a process. A \<open>struct process\<close> of
  4224 bytes has \<open>id\<close> at 0, \<open>filename\<close> at 2, \<open>task\<close> at 112, \<open>allocations\<close> at 116, \<open>ptr\<close> at 4212,
  \<open>stack\<close> at 4216 and \<open>size\<close> at 4220. The global array is at the address \<open>processes\<close>.
\<close>

section \<open>Operations\<close>

definition LIBREWIN_MAX_PROCESSES :: nat where [status_defs]: "LIBREWIN_MAX_PROCESSES = 12"
definition LIBREWIN_USER_PROGRAM_STACK_SIZE :: u32 where
  [status_defs]: "LIBREWIN_USER_PROGRAM_STACK_SIZE = 1024 * 16"

definition process_init :: "mem \<Rightarrow> addr \<Rightarrow> mem" where
  "process_init m process = memset m process 0 4224"

definition process_get :: "addr \<Rightarrow> mem \<Rightarrow> u32 \<Rightarrow> addr" where
  "process_get processes m process_id =
     (if process_id <s 0 \<or> word_of_nat LIBREWIN_MAX_PROCESSES \<le>s process_id then 0
      else read32 m (processes + 4 * process_id))"

definition process_load_binary :: "addr \<Rightarrow> addr \<Rightarrow> u32" where
  "process_load_binary filename process = 1"

definition process_load_data :: "addr \<Rightarrow> addr \<Rightarrow> u32" where
  "process_load_data filename process = (let res = process_load_binary filename process in res)"

text \<open>The result of \<open>paging_map_to\<close> is dropped.\<close>

definition process_map_binary :: "mem \<Rightarrow> addr \<Rightarrow> u32 \<times> mem" where
  "process_map_binary m process =
     (let directory = read32 m (read32 m (read32 m (process + 112)));
          ptr = read32 m (process + 4212);
          sz = read32 m (process + 4220);
          (res, m) = paging_map_to m directory LIBREWIN_PROGRAM_VIRTUAL_ADDRESS ptr (paging_align_address (ptr + sz))
            (PAGING_IS_PRESENT OR PAGING_ACCESS_FROM_ALL OR PAGING_IS_WRITEABLE)
      in (0, m))"

definition process_map_memory :: "mem \<Rightarrow> addr \<Rightarrow> u32 \<times> mem" where
  "process_map_memory m process = process_map_binary m process"

fun free_slot_from :: "addr \<Rightarrow> mem \<Rightarrow> nat \<Rightarrow> nat \<Rightarrow> u32" where
  "free_slot_from processes m i 0 = - EISTKN"
| "free_slot_from processes m i (Suc n) =
     (if read32 m (processes + 4 * word_of_nat i) = 0 then word_of_nat i
      else free_slot_from processes m (Suc i) n)"

definition process_get_free_slot :: "addr \<Rightarrow> mem \<Rightarrow> u32" where
  "process_get_free_slot processes m = free_slot_from processes m 0 LIBREWIN_MAX_PROCESSES"

text \<open>The local variable \<open>_process\<close> (here \<open>proc\<close>) is not initialised: \<open>uninit\<close> is what it holds
  when the slot is taken.\<close>

definition process_load_for_slot ::
    "heap \<Rightarrow> addr \<Rightarrow> addr \<Rightarrow> tasks \<Rightarrow> mem \<Rightarrow> addr \<Rightarrow> addr \<Rightarrow> u32 \<Rightarrow> u32 \<times> tasks \<times> mem" where
  "process_load_for_slot kernel_heap processes uninit s m filename process process_slot =
     (let (res, proc, s, m) =
        (if process_get processes m process_slot \<noteq> 0 then (- EISTKN, uninit, s, m)
         else
           let (proc, m) = kzalloc kernel_heap m 4224 in
           if proc = 0 then (- ENOMEM, proc, s, m)
           else
             let m = process_init m proc; res = process_load_data filename proc in
             if res <s 0 then (res, proc, s, m)
             else
               let (program_stack_ptr, m) = kzalloc kernel_heap m LIBREWIN_USER_PROGRAM_STACK_SIZE in
               if program_stack_ptr = 0 then (- ENOMEM, proc, s, m)
               else
                 let m = strncpy m (proc + 2) filename 108;
                     m = write32 m (proc + 4216) program_stack_ptr;
                     m = write16 m proc (ucast process_slot);
                     (task, s, m) = task_new kernel_heap s m proc;
                     res = (if task = 0 then task else res);
                     m = write32 m (proc + 112) task;
                     (res, m) = process_map_memory m proc
                 in if res <s 0 then (res, proc, s, m)
                    else
                      let m = write32 m process proc;
                          m = write32 m (processes + 4 * process_slot) proc
                      in (res, proc, s, m))
      in if ISERR res
         then if proc \<noteq> 0 \<and> read32 m (proc + 112) \<noteq> 0
              then let (s, m) = task_free kernel_heap s m (read32 m (proc + 112)) in (res, s, m)
              else (res, s, m)
         else (res, s, m))"

definition process_load ::
    "heap \<Rightarrow> addr \<Rightarrow> addr \<Rightarrow> tasks \<Rightarrow> mem \<Rightarrow> addr \<Rightarrow> addr \<Rightarrow> u32 \<times> tasks \<times> mem" where
  "process_load kernel_heap processes uninit s m filename process =
     (let process_slot = process_get_free_slot processes m in
      if process_slot <s 0 then (- EISTKN, s, m)
      else process_load_for_slot kernel_heap processes uninit s m filename process process_slot)"

section \<open>Slots\<close>

text \<open>The process in slot \<open>i\<close>.\<close>

definition in_slot :: "addr \<Rightarrow> mem \<Rightarrow> nat \<Rightarrow> addr" where
  "in_slot processes m i = read32 m (processes + 4 * word_of_nat i)"

lemma process_get_slot: "process_get processes m pid = (if 0 \<le> sint pid \<and> sint pid < 12 then in_slot processes m (nat (sint pid)) else 0)"
proof (cases "0 \<le> sint pid \<and> sint pid < 12")
  case True
  then have "pid = word_of_nat (nat (sint pid))"
    by (simp add: of_nat_nat)
  then show ?thesis using True
    by (simp add: process_get_def LIBREWIN_MAX_PROCESSES_def word_sless_alt word_sle_eq in_slot_def)
qed (auto simp: process_get_def LIBREWIN_MAX_PROCESSES_def word_sless_alt word_sle_eq)

lemma free_slot_from_spec:
  "free_slot_from processes m i n =
    (case List.find (\<lambda>j. in_slot processes m j = 0) [i..<i + n] of None \<Rightarrow> - EISTKN | Some j \<Rightarrow> word_of_nat j)"
proof (induction n arbitrary: i)
  case (Suc n)
  have "[i..<i + Suc n] = i # [Suc i..<Suc i + n]" by (simp add: upt_conv_Cons)
  then show ?case using Suc.IH [of "Suc i"] by (simp add: in_slot_def)
qed simp

lemma find_upt: "k < n \<Longrightarrow> P k \<Longrightarrow> (\<And>j. j < k \<Longrightarrow> \<not> P j) \<Longrightarrow> List.find P [0..<n] = Some k" for n :: nat
  unfolding find_Some_iff by (rule exI [of _ k]) simp

lemma process_get_free_slot_free:
  assumes "\<exists>i<12. in_slot processes m i = 0"
  shows "process_get_free_slot processes m = word_of_nat (LEAST i. in_slot processes m i = 0) \<and>
    process_get processes m (process_get_free_slot processes m) = 0 \<and> \<not> process_get_free_slot processes m <s 0"
proof -
  let ?P = "\<lambda>i. in_slot processes m i = 0"
  obtain i where i: "i < 12" "?P i" using assms by blast
  have L: "?P (LEAST i. ?P i)" "(LEAST i. ?P i) < 12"
    using LeastI [of ?P i] Least_le [of ?P i] i by simp_all
  have "List.find ?P [0..<12] = Some (LEAST i. ?P i)"
    using find_upt [of "LEAST i. ?P i" 12 ?P] L not_less_Least [of _ ?P] by blast
  then have "process_get_free_slot processes m = word_of_nat (LEAST i. ?P i)"
    using free_slot_from_spec [of processes m 0 12]
    by (simp add: process_get_free_slot_def LIBREWIN_MAX_PROCESSES_def)
  moreover have "sint (word_of_nat (LEAST i. ?P i) :: u32) = int (LEAST i. ?P i)"
    using L(2) by (intro sint_word_of_nat) simp
  ultimately show ?thesis using L by (simp add: process_get_slot word_sless_alt)
qed

lemma process_get_free_slot_full:
  assumes "\<forall>i<12. in_slot processes m i \<noteq> 0"
  shows "process_get_free_slot processes m = - EISTKN"
proof -
  have "List.find (\<lambda>j. in_slot processes m j = 0) [0..<12] = None" unfolding find_None_iff using assms by auto
  then show ?thesis
    using free_slot_from_spec [of processes m 0 12]
    by (simp add: process_get_free_slot_def LIBREWIN_MAX_PROCESSES_def)
qed

lemma taken_neg: "- EISTKN <s 0"
  by (simp add: EISTKN_def word_sless_alt)

lemma process_load_full:
  "\<forall>i<12. in_slot processes m i \<noteq> 0 \<Longrightarrow> process_load kh processes u s m filename process = (- EISTKN, s, m)"
  by (simp add: process_load_def process_get_free_slot_full taken_neg)

text \<open>Loading into a slot that is taken goes to the error path with the uninitialised pointer.\<close>

lemma process_load_taken:
  assumes "process_get processes m j \<noteq> 0"
  shows "process_load_for_slot kh processes uninit s m filename process j =
    (if uninit \<noteq> 0 \<and> read32 m (uninit + 112) \<noteq> 0
     then (- EISTKN, task_free kh s m (read32 m (uninit + 112))) else (- EISTKN, s, m))"
  using assms taken_neg by (simp add: process_load_for_slot_def ISERR_def split: prod.split)

text \<open>Nothing of the program is mapped for a process whose \<open>ptr\<close> and \<open>size\<close> are 0, which is what
  \<open>process_load_data\<close> leaves.\<close>

lemma process_map_binary_empty:
  assumes "read32 m (process + 4212) = 0" "read32 m (process + 4220) = 0"
  shows "process_map_binary m process = (0, m)"
  using assms
  by (simp add: process_map_binary_def paging_map_to_def paging_align_address_def paging_map_range_def
      paging_map_range_loop.simps status_defs Let_def)

section \<open>Properties\<close>

text \<open>\<open>process_load\<close> looks for the first free slot of the table of 12 processes: \<open>process_get\<close> finds
  no process under its number, and it is what \<open>process_load_for_slot\<close> is given; with all slots taken
  the call fails with \<open>-EISTKN\<close> and changes nothing.\<close>

theorem process_load_slot:
  "process_load kh processes uninit s m filename process =
    (if \<exists>i<12. in_slot processes m i = 0
     then process_load_for_slot kh processes uninit s m filename process (word_of_nat (LEAST i. in_slot processes m i = 0))
     else (- EISTKN, s, m)) \<and>
   ((\<exists>i<12. in_slot processes m i = 0) \<longrightarrow>
     process_get processes m (word_of_nat (LEAST i. in_slot processes m i = 0)) = 0)"
proof (cases "\<exists>i<12. in_slot processes m i = 0")
  case True
  let ?i = "word_of_nat (LEAST i. in_slot processes m i = 0) :: u32"
  have free: "process_get_free_slot processes m = ?i" "process_get processes m ?i = 0" "\<not> ?i <s 0"
    using process_get_free_slot_free [OF True] by metis+
  have "process_load kh processes uninit s m filename process =
      process_load_for_slot kh processes uninit s m filename process ?i"
    unfolding process_load_def free(1) Let_def if_not_P [OF free(3)] ..
  then show ?thesis using True free(2) by presburger
next
  case False
  then show ?thesis by (auto simp: process_load_full)
qed

theorem process_load_slot_witness:
  "process_load \<lparr>table = \<lparr>entries = 0, total = 0\<rparr>, saddr = 0\<rparr> 0x1000 0
      \<lparr>current_task = 0, task_tail = 0, task_head = 0\<rparr> (\<lambda>_. 1) 0x2000 0x3000 =
    (- EISTKN, \<lparr>current_task = 0, task_tail = 0, task_head = 0\<rparr>, \<lambda>_. 1)"
proof -
  have "\<not> (\<exists>i<12. in_slot 0x1000 (\<lambda>_. 1) i = 0)" by (simp add: in_slot_def read32_def)
  then show ?thesis by (simp only: conjunct1 [OF process_load_slot] if_False)
qed

end
