(* ===== verification/Port.thy ===== *)
theory Port
  imports Memory
begin

text \<open>
  \<^verbatim>\<open>ke/port/accept.c\<close>: accepting or refusing a connection to a port, with the stubs it calls. A
  \<open>PORT_MESSAGE\<close> has \<open>ConnectionId\<close> at 4; a \<open>CONNECTION_REQUEST\<close> has \<open>RequestedSection\<close> at 4 and
  \<open>state\<close> at 8; a \<open>CONNECTION\<close> has \<open>ServerContext\<close> at 0. A stub that only discards its arguments
  returns the memory as it is.
\<close>

section \<open>Constants and globals\<close>

definition STATUS_SUCCESS :: u32 where [status_defs]: "STATUS_SUCCESS = 0x00000000"
definition STATUS_INVALID_PARAMETER :: u32 where [status_defs]: "STATUS_INVALID_PARAMETER = 0xC000000D"
definition STATUS_UNSUCCESSFUL :: u32 where [status_defs]: "STATUS_UNSUCCESSFUL = 0xC0000001"
definition STATUS_CONNECTION_REFUSED :: u32 where [status_defs]: "STATUS_CONNECTION_REFUSED = 0xC0000236"
definition STATUS_INSUFFICIENT_RESOURCES :: u32 where [status_defs]: "STATUS_INSUFFICIENT_RESOURCES = 0xC000009A"
definition CONNECTION_ACCEPTED :: u32 where [status_defs]: "CONNECTION_ACCEPTED = 1"
definition CONNECTION_REFUSED :: u32 where [status_defs]: "CONNECTION_REFUSED = 2"

text \<open>\<open>NTSTATUS\<close> is \<open>unsigned long\<close>, so the comparison is unsigned.\<close>

definition NT_SUCCESS :: "u32 \<Rightarrow> bool" where
  "NT_SUCCESS Status \<longleftrightarrow> 0 \<le> Status"

record port_globals =
  stub_pending_req :: addr
  stub_connection :: addr

definition default_port :: addr where
  "default_port = 0x1000"

section \<open>Stubs\<close>

definition PortObjectFromHandle :: "u32 \<Rightarrow> addr" where "PortObjectFromHandle h = default_port"
definition IS_VALID_HANDLE :: "u32 \<Rightarrow> bool" where "IS_VALID_HANDLE h \<longleftrightarrow> h \<noteq> 0 \<and> h \<noteq> 0"
definition LOCK_PORT :: "mem \<Rightarrow> addr \<Rightarrow> mem" where "LOCK_PORT m Port = m"
definition UNLOCK_PORT :: "mem \<Rightarrow> addr \<Rightarrow> mem" where "UNLOCK_PORT m Port = m"

definition LookupPendingRequestLocked :: "port_globals \<Rightarrow> addr \<Rightarrow> u32 \<Rightarrow> addr" where
  "LookupPendingRequestLocked g Port ConnectionId = stub_pending_req g"

definition RemovePendingRequestLocked :: "mem \<Rightarrow> addr \<Rightarrow> addr \<Rightarrow> mem" where
  "RemovePendingRequestLocked m Port Req = m"

definition WakeClientOfRequest :: "mem \<Rightarrow> addr \<Rightarrow> u32 \<Rightarrow> mem" where
  "WakeClientOfRequest m Req Status = m"

definition DerefAndFreePendingRequest :: "mem \<Rightarrow> addr \<Rightarrow> mem" where
  "DerefAndFreePendingRequest m Req = m"

definition PerformSecurityAcceptChecks :: "addr \<Rightarrow> addr \<Rightarrow> u32" where
  "PerformSecurityAcceptChecks Port Req = STATUS_SUCCESS"

definition CreateConnectionLocked :: "port_globals \<Rightarrow> addr \<Rightarrow> addr \<Rightarrow> addr" where
  "CreateConnectionLocked g Port Req = stub_connection g"

definition DestroyConnection :: "mem \<Rightarrow> addr \<Rightarrow> mem" where
  "DestroyConnection m Conn = m"

definition SetupSectionMappings :: "mem \<Rightarrow> addr \<Rightarrow> addr \<Rightarrow> addr \<Rightarrow> addr \<Rightarrow> u32 \<times> mem" where
  "SetupSectionMappings m Conn Req WriteOut ReadOut =
     (let m = (if WriteOut \<noteq> 0 then write32 m WriteOut 0 else m);
          m = (if ReadOut \<noteq> 0 then write32 m ReadOut 0 else m)
      in (STATUS_SUCCESS, m))"

definition LinkConnectionIntoPortLocked :: "mem \<Rightarrow> addr \<Rightarrow> addr \<Rightarrow> mem" where
  "LinkConnectionIntoPortLocked m Port Conn = m"

definition UnlinkConnection :: "mem \<Rightarrow> addr \<Rightarrow> addr \<Rightarrow> mem" where
  "UnlinkConnection m Port Conn = m"

definition GetCurrentProcess :: addr where "GetCurrentProcess = 0"

definition CreateHandleForConnection :: "addr \<Rightarrow> addr \<Rightarrow> u32 \<Rightarrow> u32" where
  "CreateHandleForConnection Process Conn DesiredAccess = 0x1001"

section \<open>NtAcceptConnectPort\<close>

text \<open>\<open>GetCurrentProcessListeningPort\<close> is not a macro of the build.\<close>

definition NtAcceptConnectPort ::
    "port_globals \<Rightarrow> mem \<Rightarrow> addr \<Rightarrow> u32 \<Rightarrow> addr \<Rightarrow> byte \<Rightarrow> addr \<Rightarrow> addr \<Rightarrow> u32 \<times> mem" where
  "NtAcceptConnectPort g m PortHandle PortContext ConnectionRequest AcceptConnection WriteSectionOut ReadSectionOut =
     (if \<not> (PortHandle \<noteq> 0 \<and> IS_VALID_HANDLE (read32 m PortHandle)) then (STATUS_INVALID_PARAMETER, m)
      else
      let serverPort = PortObjectFromHandle (read32 m PortHandle) in
      if serverPort = 0 then (STATUS_INVALID_PARAMETER, m)
      else
      let m = LOCK_PORT m serverPort in
      if ConnectionRequest = 0 then (STATUS_INVALID_PARAMETER, UNLOCK_PORT m serverPort)
      else
      let pendingReq = LookupPendingRequestLocked g serverPort (read32 m (ConnectionRequest + 4)) in
      if pendingReq = 0 then (STATUS_INVALID_PARAMETER, UNLOCK_PORT m serverPort)
      else if AcceptConnection = 0
      then
        let m = RemovePendingRequestLocked m serverPort pendingReq;
            m = write32 m (pendingReq + 8) CONNECTION_REFUSED;
            m = WakeClientOfRequest m pendingReq STATUS_CONNECTION_REFUSED;
            m = DerefAndFreePendingRequest m pendingReq
        in (STATUS_CONNECTION_REFUSED, UNLOCK_PORT m serverPort)
      else
      let status = PerformSecurityAcceptChecks serverPort pendingReq in
      if \<not> NT_SUCCESS status
      then
        let m = RemovePendingRequestLocked m serverPort pendingReq;
            m = WakeClientOfRequest m pendingReq status;
            m = DerefAndFreePendingRequest m pendingReq
        in (status, UNLOCK_PORT m serverPort)
      else
      let connection = CreateConnectionLocked g serverPort pendingReq in
      if connection = 0
      then
        let m = RemovePendingRequestLocked m serverPort pendingReq;
            m = WakeClientOfRequest m pendingReq STATUS_INSUFFICIENT_RESOURCES
        in (STATUS_INSUFFICIENT_RESOURCES, UNLOCK_PORT m serverPort)
      else
      let (status, m) =
            (if read32 m (pendingReq + 4) \<noteq> 0
             then SetupSectionMappings m connection pendingReq WriteSectionOut ReadSectionOut
             else (status, m))
      in if \<not> NT_SUCCESS status
      then
        let m = DestroyConnection m connection;
            m = RemovePendingRequestLocked m serverPort pendingReq;
            m = WakeClientOfRequest m pendingReq status
        in (status, UNLOCK_PORT m serverPort)
      else
      let m = write32 m connection PortContext;
          m = LinkConnectionIntoPortLocked m serverPort connection;
          m = RemovePendingRequestLocked m serverPort pendingReq;
          m = write32 m (pendingReq + 8) CONNECTION_ACCEPTED;
          m = WakeClientOfRequest m pendingReq STATUS_SUCCESS
      in if PortHandle \<noteq> 0
         then
           let h = CreateHandleForConnection GetCurrentProcess connection 0 in
           if \<not> IS_VALID_HANDLE h
           then
             let m = UnlinkConnection m serverPort connection;
                 m = DestroyConnection m connection
             in (STATUS_INSUFFICIENT_RESOURCES, UNLOCK_PORT m serverPort)
           else (STATUS_SUCCESS, UNLOCK_PORT (write32 m PortHandle h) serverPort)
         else (STATUS_SUCCESS, UNLOCK_PORT m serverPort))"

lemmas stub_defs = PortObjectFromHandle_def IS_VALID_HANDLE_def LOCK_PORT_def UNLOCK_PORT_def
  LookupPendingRequestLocked_def RemovePendingRequestLocked_def WakeClientOfRequest_def
  DerefAndFreePendingRequest_def PerformSecurityAcceptChecks_def CreateConnectionLocked_def
  DestroyConnection_def SetupSectionMappings_def LinkConnectionIntoPortLocked_def UnlinkConnection_def
  GetCurrentProcess_def CreateHandleForConnection_def default_port_def

lemma NT_SUCCESS_always: "NT_SUCCESS s"
  by (simp add: NT_SUCCESS_def)

lemma accept_invalid:
  "PortHandle = 0 \<or> read32 m PortHandle = 0 \<or> ConnectionRequest = 0 \<or> stub_pending_req g = 0 \<Longrightarrow>
   NtAcceptConnectPort g m PortHandle ctx ConnectionRequest acc wr rd = (STATUS_INVALID_PARAMETER, m)"
  by (auto simp: NtAcceptConnectPort_def stub_defs Let_def)

lemma accept_refused:
  assumes "PortHandle \<noteq> 0" "read32 m PortHandle \<noteq> 0" "ConnectionRequest \<noteq> 0" "stub_pending_req g \<noteq> 0"
  shows "NtAcceptConnectPort g m PortHandle ctx ConnectionRequest 0 wr rd =
    (STATUS_CONNECTION_REFUSED, write32 m (stub_pending_req g + 8) CONNECTION_REFUSED)"
  using assms by (simp add: NtAcceptConnectPort_def stub_defs Let_def)

lemma accept_accepted:
  assumes "PortHandle \<noteq> 0" "read32 m PortHandle \<noteq> 0" "ConnectionRequest \<noteq> 0" "stub_pending_req g \<noteq> 0"
    "stub_connection g \<noteq> 0" "acc \<noteq> 0"
  shows "NtAcceptConnectPort g m PortHandle ctx ConnectionRequest acc wr rd =
    (STATUS_SUCCESS, write32 (write32 (write32
       (if read32 m (stub_pending_req g + 4) = 0 then m
        else let m = (if wr \<noteq> 0 then write32 m wr 0 else m) in if rd \<noteq> 0 then write32 m rd 0 else m)
       (stub_connection g) ctx) (stub_pending_req g + 8) CONNECTION_ACCEPTED) PortHandle 0x1001)"
  using assms by (simp add: NtAcceptConnectPort_def stub_defs Let_def NT_SUCCESS_always)

section \<open>Properties\<close>

text \<open>The outcomes of \<open>NtAcceptConnectPort\<close>. Without a port, a handle in it, a request and a pending
  request it fails and stores nothing; with \<open>AcceptConnection\<close> clear the request is marked refused;
  otherwise the connection gets the context, the request is marked accepted and the port gets the
  handle \<open>0x1001\<close>. The error paths after the checks are never taken, since \<open>NT_SUCCESS\<close> holds of
  every status.\<close>

theorem NtAcceptConnectPort_outcome:
  assumes "stub_pending_req g \<noteq> 0" "stub_connection g \<noteq> 0"
  shows "NtAcceptConnectPort g m PortHandle ctx ConnectionRequest acc wr rd =
    (if PortHandle = 0 \<or> read32 m PortHandle = 0 \<or> ConnectionRequest = 0 then (STATUS_INVALID_PARAMETER, m)
     else if acc = 0 then (STATUS_CONNECTION_REFUSED, write32 m (stub_pending_req g + 8) CONNECTION_REFUSED)
     else (STATUS_SUCCESS, write32 (write32 (write32
       (if read32 m (stub_pending_req g + 4) = 0 then m
        else let m = (if wr \<noteq> 0 then write32 m wr 0 else m) in if rd \<noteq> 0 then write32 m rd 0 else m)
       (stub_connection g) ctx) (stub_pending_req g + 8) CONNECTION_ACCEPTED) PortHandle 0x1001))"
  using accept_invalid [of PortHandle m ConnectionRequest g ctx acc wr rd]
    accept_refused [of PortHandle m ConnectionRequest g ctx wr rd]
    accept_accepted [of PortHandle m ConnectionRequest g acc ctx wr rd] assms by simp

theorem NtAcceptConnectPort_outcome_witness:
  "NtAcceptConnectPort \<lparr>stub_pending_req = 0x3000, stub_connection = 0x4000\<rparr> ((\<lambda>_. 0)(0x1000 := 7)) 0x1000 0x55 0x2000 0 0 0 =
    (STATUS_CONNECTION_REFUSED, write32 ((\<lambda>_. 0)(0x1000 := 7)) 0x3008 CONNECTION_REFUSED)"
  by (subst NtAcceptConnectPort_outcome) (simp_all add: read32_def)

end
