(* ===== verification/Serial.thy ===== *)
theory Serial
  imports Disk
begin

text \<open>
  The serial port of \<^verbatim>\<open>init/kernel.c\<close>: its initialisation, reading and writing characters, and the
  formatted output \<open>DbgPrint\<close>. The port is a state \<open>'d\<close> with the operations of \<open>io.h\<close>. The
  arguments after a format are a list of words, a string being its address; taking an argument
  that is not there has no defined result, and is \<open>None\<close>.
\<close>

section \<open>Characters\<close>

definition PORT :: u16 where [status_defs]: "PORT = 0x3f8"

definition DbgInit :: "'d ports \<Rightarrow> 'd \<Rightarrow> u32 \<times> 'd" where
  "DbgInit io d =
     (let d = outb io (PORT + 1) 0x00 d;
          d = outb io (PORT + 3) 0x80 d;
          d = outb io (PORT + 0) 0x03 d;
          d = outb io (PORT + 1) 0x00 d;
          d = outb io (PORT + 3) 0x03 d;
          d = outb io (PORT + 2) 0xC7 d;
          d = outb io (PORT + 4) 0x0B d;
          d = outb io (PORT + 4) 0x1E d;
          d = outb io (PORT + 0) 0xAE d;
          (c, d) = insb io (PORT + 0) d
      in if c \<noteq> 0xAE then (1, d) else (0, outb io (PORT + 4) 0x0F d))"

definition IoTransEmpty :: "'d ports \<Rightarrow> 'd \<Rightarrow> u32 \<times> 'd" where
  "IoTransEmpty io d = (let (c, d) = insb io (PORT + 5) d in (ucast c AND 0x20, d))"

partial_function (option) DbgPutc :: "'d ports \<Rightarrow> byte \<Rightarrow> 'd \<Rightarrow> 'd option" where
  "DbgPutc io a d =
     (let (empty, d) = IoTransEmpty io d
      in if empty = 0 then DbgPutc io a d else Some (outb io PORT a d))"

definition IoSerialReceive :: "'d ports \<Rightarrow> 'd \<Rightarrow> u32 \<times> 'd" where
  "IoSerialReceive io d = (let (c, d) = insb io (PORT + 5) d in (ucast c AND 1, d))"

partial_function (option) DbgGetc :: "'d ports \<Rightarrow> 'd \<Rightarrow> (byte \<times> 'd) option" where
  "DbgGetc io d =
     (let (received, d) = IoSerialReceive io d
      in if received = 0 then DbgGetc io d else Some (insb io PORT d))"

section \<open>Formatted output\<close>

text \<open>What the conversion loops put into \<open>buffer\<close>, the last digit first. Division and remainder of
  \<open>int\<close> truncate toward zero.\<close>

lemma sint_sdiv32_10: "sint (sdiv32 v 10) = sint v sdiv 10" for v :: u32
proof -
  have "- (2 ^ 31) \<le> sint v" "sint v < 2 ^ 31" using sint_ge [of v] sint_lt [of v] by simp_all
  then have "- (2 ^ 31) \<le> sint v sdiv 10 \<and> sint v sdiv 10 < 2 ^ 31"
    by (auto simp: signed_divide_int_def sgn_if)
  then show ?thesis by (simp add: sdiv32_def sint_sbintrunc' signed_take_bit_int_eq_self)
qed

function dec_loop :: "u32 \<Rightarrow> byte list" where
  "dec_loop value =
     ucast (48 + smod32 value 10) #
       (let value = sdiv32 value 10 in if 0 <s value then dec_loop value else [])"
  by pat_completeness auto
termination
proof (relation "measure (\<lambda>value. nat (sint value))", simp)
  fix v v' :: u32
  assume v': "v' = sdiv32 v 10" and "0 <s v'"
  then have pos: "0 < sint v sdiv 10" by (simp add: word_sless_alt sint_sdiv32_10)
  then have "0 < sint v" by (auto simp: signed_divide_int_def sgn_if split: if_splits)
  then have "sint v sdiv 10 < sint v" by (simp add: signed_divide_int_def sgn_if)
  then show "(v', v) \<in> measure (\<lambda>value. nat (sint value))"
    using pos unfolding v' in_measure sint_sdiv32_10 by simp
qed

definition hex_digits :: "byte list" where
  "hex_digits = [0x30, 0x31, 0x32, 0x33, 0x34, 0x35, 0x36, 0x37, 0x38, 0x39, 0x61, 0x62, 0x63, 0x64, 0x65, 0x66]"

function hex_loop :: "u32 \<Rightarrow> byte list" where
  "hex_loop value =
     hex_digits ! unat (value mod 16) # (let value = value div 16 in if 0 < value then hex_loop value else [])"
  by pat_completeness auto
termination
proof (relation "measure unat", simp)
  fix v v' :: u32
  assume v': "v' = v div 16" and "0 < v'"
  then have "0 < unat v div 16" by (simp add: word_less_nat_alt unat_div)
  then have "unat v div 16 < unat v" by simp
  then show "(v', v) \<in> measure unat" by (simp add: v' unat_div)
qed

declare dec_loop.simps [simp del] hex_loop.simps [simp del]

fun put_all :: "'d ports \<Rightarrow> byte list \<Rightarrow> 'd \<Rightarrow> 'd option" where
  "put_all io [] d = Some d"
| "put_all io (c # cs) d = do { d \<leftarrow> DbgPutc io c d; put_all io cs d }"

definition put_decimal :: "'d ports \<Rightarrow> u32 \<Rightarrow> 'd \<Rightarrow> 'd option" where
  "put_decimal io value d =
     (if value <s 0 then do { d \<leftarrow> DbgPutc io 0x2D d; put_all io (rev (dec_loop (- value))) d }
      else put_all io (rev (dec_loop value)) d)"

partial_function (option) put_string :: "'d ports \<Rightarrow> mem \<Rightarrow> addr \<Rightarrow> 'd \<Rightarrow> 'd option" where
  "put_string io m str d =
     (if m str \<noteq> 0 then do { d \<leftarrow> DbgPutc io (m str) d; put_string io m (str + 1) d } else Some d)"

partial_function (option) DbgPrint :: "'d ports \<Rightarrow> mem \<Rightarrow> addr \<Rightarrow> u32 list \<Rightarrow> 'd \<Rightarrow> 'd option" where
  "DbgPrint io m format args d =
     (if m format = 0 then Some d
      else if m format = 0x25
      then
        let format = format + 1 in
        if m format = 0x64
        then if args = [] then None
          else do { d \<leftarrow> put_decimal io (hd args) d; DbgPrint io m (format + 1) (tl args) d }
        else if m format = 0x78
        then if args = [] then None
          else do { d \<leftarrow> put_all io (rev (hex_loop (hd args))) d; DbgPrint io m (format + 1) (tl args) d }
        else if m format = 0x73
        then if args = [] then None
          else do { d \<leftarrow> put_string io m (hd args) d; DbgPrint io m (format + 1) (tl args) d }
        else if m format = 0x25
        then do { d \<leftarrow> DbgPutc io 0x25 d; DbgPrint io m (format + 1) args d }
        else do {
          d \<leftarrow> DbgPutc io 0x25 d;
          d \<leftarrow> DbgPutc io (m format) d;
          DbgPrint io m (format + 1) args d
        }
      else do { d \<leftarrow> DbgPutc io (m format) d; DbgPrint io m (format + 1) args d })"

text \<open>The addresses of the literals of \<open>DbgLog\<close>.\<close>

record log_literals =
  log_success :: addr
  log_fail :: addr
  log_error :: addr
  log_warn :: addr
  log_info :: addr
  log_newline :: addr

definition DbgLog :: "log_literals \<Rightarrow> 'd ports \<Rightarrow> mem \<Rightarrow> addr \<Rightarrow> u32 \<Rightarrow> 'd \<Rightarrow> 'd option" where
  "DbgLog lits io m msg type d = do {
     d \<leftarrow> (if type = 1 then DbgPrint io m (log_success lits) [] d
           else if type = 0 then DbgPrint io m (log_fail lits) [] d
           else if type = 2 then DbgPrint io m (log_error lits) [] d
           else if type = 3 then DbgPrint io m (log_warn lits) [] d
           else if type = 4 then DbgPrint io m (log_info lits) [] d
           else Some d);
     d \<leftarrow> DbgPrint io m msg [] d;
     DbgPrint io m (log_newline lits) [] d
   }"

section \<open>The numerals\<close>

text \<open>The reference: the digits of a number, the first one first, and the text of an integer.\<close>

fun numeral_text :: "nat \<Rightarrow> byte list" where
  "numeral_text n = (if n < 10 then [word_of_nat (48 + n)] else numeral_text (n div 10) @ [word_of_nat (48 + n mod 10)])"

declare numeral_text.simps [simp del]

definition decimal_text :: "int \<Rightarrow> byte list" where
  "decimal_text i = (if i < 0 then 0x2D # numeral_text (nat (- i)) else numeral_text (nat i))"

fun hex_text :: "nat \<Rightarrow> byte list" where
  "hex_text n = (if n < 16 then [hex_digits ! n] else hex_text (n div 16) @ [hex_digits ! (n mod 16)])"

declare hex_text.simps [simp del]

lemma ucast_of_nat: "ucast (word_of_nat j :: u32) = (word_of_nat j :: byte)"
  by (simp add: unsigned_of_nat word_of_nat_eq_iff)

lemma digit_char:
  assumes "n < 10"
  shows "scast (word_of_nat (48 + n) :: byte) = (word_of_nat (48 + n) :: u32)"
    and "48 \<le>s (word_of_nat (48 + n) :: byte)" "(word_of_nat (48 + n) :: byte) \<le>s 57" "word_of_nat (48 + n) \<noteq> (0 :: byte)"
proof -
  have "n \<in> {0, 1, 2, 3, 4, 5, 6, 7, 8, 9}" using assms by auto
  then show "scast (word_of_nat (48 + n) :: byte) = (word_of_nat (48 + n) :: u32)"
    and "48 \<le>s (word_of_nat (48 + n) :: byte)" "(word_of_nat (48 + n) :: byte) \<le>s 57" "word_of_nat (48 + n) \<noteq> (0 :: byte)"
    by (auto simp: word_sle_eq)
qed

lemma numeral_text_small: "n < 10 \<Longrightarrow> numeral_text n = [word_of_nat (48 + n)]"
  by (subst numeral_text.simps) simp

lemma numeral_text_large: "\<not> n < 10 \<Longrightarrow> numeral_text n = numeral_text (n div 10) @ [word_of_nat (48 + n mod 10)]"
  by (subst numeral_text.simps) simp

lemma dec_loop_text: "n < 2 ^ 31 \<Longrightarrow> rev (dec_loop (word_of_nat n)) = numeral_text n"
proof (induction n rule: less_induct)
  case (less n)
  have n: "n < 2 ^ 31" "(10 :: nat) < 2 ^ 31" using less.prems by simp_all
  have q: "sdiv32 (word_of_nat n) 10 = word_of_nat (n div 10)" and r: "smod32 (word_of_nat n) 10 = word_of_nat (n mod 10)"
    using sdiv32_nat [OF n] smod32_nat [OF n] by simp_all
  have "n div 10 < 2 ^ 31" using n by simp
  then have pos: "(0 :: u32) <s word_of_nat (n div 10) \<longleftrightarrow> \<not> n < 10"
    by (auto simp: word_sless_alt sint_word_of_nat)
  have c: "ucast (48 + word_of_nat k :: u32) = (word_of_nat (48 + k) :: byte)" for k
    using ucast_of_nat [of "48 + k"] by simp
  have step: "rev (dec_loop (word_of_nat n)) =
      (if n < 10 then [] else rev (dec_loop (word_of_nat (n div 10)))) @ [word_of_nat (48 + n mod 10)]"
    unfolding dec_loop.simps [of "word_of_nat n"] q r c Let_def pos by simp
  show ?case
  proof (cases "n < 10")
    case True
    then show ?thesis unfolding step numeral_text.simps [of n] by simp
  next
    case False
    then have "rev (dec_loop (word_of_nat (n div 10))) = numeral_text (n div 10)" using less by simp
    then show ?thesis unfolding step numeral_text.simps [of n] using False by simp
  qed
qed

lemma hex_loop_text: "rev (hex_loop v) = hex_text (unat v)"
proof (induction "unat v" arbitrary: v rule: less_induct)
  case less
  have d: "unat (v div 16) = unat v div 16" "unat (v mod 16) = unat v mod 16" by (simp_all add: unat_div unat_mod)
  have pos: "0 < v div 16 \<longleftrightarrow> \<not> unat v < 16" by (auto simp: word_less_nat_alt d)
  have step: "rev (hex_loop v) = (if unat v < 16 then [] else rev (hex_loop (v div 16))) @ [hex_digits ! (unat v mod 16)]"
    unfolding hex_loop.simps [of v] Let_def pos d by simp
  show ?case
  proof (cases "unat v < 16")
    case True
    then show ?thesis unfolding step hex_text.simps [of "unat v"] by simp
  next
    case False
    then have "unat (v div 16) < unat v" unfolding d by simp
    then have "rev (hex_loop (v div 16)) = hex_text (unat v div 16)" using less d(1) by simp
    then show ?thesis unfolding step hex_text.simps [of "unat v"] using False by simp
  qed
qed

section \<open>What is sent\<close>

text \<open>What a 16550 UART promises: bit 5 of the line status says whether the transmitter is empty,
  which it is after finitely many polls (\<open>busy\<close> counts them), polling sends nothing, and a byte
  written to an empty transmitter is sent.\<close>

definition uart_serves :: "'d ports \<Rightarrow> ('d \<Rightarrow> nat) \<Rightarrow> ('d \<Rightarrow> byte list) \<Rightarrow> bool" where
  "uart_serves io busy sent \<longleftrightarrow>
     (\<forall>d. (fst (insb io 0x3FD d) AND 0x20 = 0) = (busy d \<noteq> 0) \<and> busy (snd (insb io 0x3FD d)) = busy d - 1 \<and>
        sent (snd (insb io 0x3FD d)) = sent d) \<and>
     (\<forall>d c. busy d = 0 \<longrightarrow> sent (outb io 0x3F8 c d) = sent d @ [c])"

lemma bit_0x20: "bit (0x20 :: 'a::len word) n \<longleftrightarrow> n = 5 \<and> 5 < LENGTH('a)"
proof -
  have eq: "(0x20 :: 'a word) = 2 ^ 5" by simp
  show ?thesis unfolding eq by (auto simp only: bit_exp_iff possible_bit_word)
qed

lemma uart_poll:
  assumes "uart_serves io busy sent" "IoTransEmpty io d = (e, d')"
  shows "e = 0 \<longleftrightarrow> busy d \<noteq> 0" "busy d' = busy d - 1" "sent d' = sent d"
proof -
  obtain c where poll: "insb io 0x3FD d = (c, d')" and e: "e = ucast c AND 0x20"
    using assms(2) by (auto simp: IoTransEmpty_def PORT_def split: prod.splits)
  have "(fst (insb io 0x3FD d) AND 0x20 = 0) = (busy d \<noteq> 0) \<and> busy (snd (insb io 0x3FD d)) = busy d - 1 \<and>
      sent (snd (insb io 0x3FD d)) = sent d"
    using assms(1) unfolding uart_serves_def by blast
  moreover have "e = ucast (c AND 0x20)"
    unfolding e by (rule bit_word_eqI) (simp only: bit_and_iff bit_ucast_iff bit_0x20, auto)
  ultimately show "e = 0 \<longleftrightarrow> busy d \<noteq> 0" "busy d' = busy d - 1" "sent d' = sent d"
    using ucast_byte_eq_0 [of "c AND 0x20"] by (simp_all add: poll)
qed

lemma DbgPutc_sends:
  assumes "uart_serves io busy sent"
  shows "\<exists>d'. DbgPutc io c d = Some d' \<and> sent d' = sent d @ [c]"
proof (induction "busy d" arbitrary: d rule: less_induct)
  case less
  obtain e d1 where poll: "IoTransEmpty io d = (e, d1)" by fastforce
  note P = uart_poll [OF assms poll]
  show ?case
  proof (cases "busy d = 0")
    case True
    then have "e \<noteq> 0" "busy d1 = 0" using P by simp_all
    then show ?thesis
      using assms P(3) poll unfolding uart_serves_def by (simp add: DbgPutc.simps [of io c d] PORT_def)
  next
    case False
    then have "e = 0" "busy d1 < busy d" using P by simp_all
    then show ?thesis
      using less [of d1] P(3) poll by (simp add: DbgPutc.simps [of io c d])
  qed
qed

lemma put_all_sends:
  assumes "uart_serves io busy sent"
  shows "\<exists>d'. put_all io cs d = Some d' \<and> sent d' = sent d @ cs"
proof (induction cs arbitrary: d)
  case (Cons c cs)
  obtain d1 where "DbgPutc io c d = Some d1" "sent d1 = sent d @ [c]" using DbgPutc_sends [OF assms] by blast
  then show ?case using Cons [of d1] by auto
qed simp

lemma put_string_sends:
  assumes "uart_serves io busy sent" "cstr m p s"
  shows "\<exists>d'. put_string io m p d = Some d' \<and> sent d' = sent d @ s"
  using assms(2)
proof (induction s arbitrary: p d)
  case Nil
  then show ?case by (simp add: put_string.simps [of io m p])
next
  case (Cons c s)
  obtain d1 where "DbgPutc io c d = Some d1" "sent d1 = sent d @ [c]" using DbgPutc_sends [OF assms(1)] by blast
  then show ?case using Cons.IH [of "p + 1" d1] Cons.prems by (auto simp: put_string.simps [of io m p d])
qed

lemma put_decimal_sends:
  assumes "uart_serves io busy sent" "v \<noteq> 0x80000000"
  shows "\<exists>d'. put_decimal io v d = Some d' \<and> sent d' = sent d @ decimal_text (sint v)"
proof (cases "v <s 0")
  case True
  then have neg: "sint v < 0" by (simp add: word_sless_alt)
  have range: "- (2 ^ 31) \<le> sint v" using sint_ge [of v] by simp
  have "sint v \<noteq> - (2 ^ 31)"
  proof
    assume "sint v = - (2 ^ 31)"
    moreover have "v = word_of_int (sint v)" by simp
    ultimately have "v = word_of_int (- (2 ^ 31))" by simp
    then show False using assms(2) by simp
  qed
  then have "- sint v < 2 ^ 31" using range by linarith
  then have "nat (- sint v) < 2 ^ 31" using neg by simp
  moreover have "- v = word_of_nat (nat (- sint v))" using neg by (simp add: of_nat_nat)
  ultimately have dt: "rev (dec_loop (- v)) = numeral_text (nat (- sint v))" by (simp only: dec_loop_text)
  obtain d1 where "DbgPutc io 0x2D d = Some d1" "sent d1 = sent d @ [0x2D]" using DbgPutc_sends [OF assms(1)] by blast
  then show ?thesis
    using put_all_sends [OF assms(1), of "rev (dec_loop (- v))" d1] True neg
    by (auto simp: put_decimal_def decimal_text_def dt)
next
  case False
  then have pos: "0 \<le> sint v" by (simp add: word_sless_alt)
  have "sint v < 2 ^ 31" using sint_lt [of v] by simp
  then have "nat (sint v) < 2 ^ 31" using pos by simp
  moreover have "v = word_of_nat (nat (sint v))" using pos by (simp add: of_nat_nat)
  ultimately have "rev (dec_loop v) = numeral_text (nat (sint v))" by (metis dec_loop_text)
  then show ?thesis
    using put_all_sends [OF assms(1), of "rev (dec_loop v)" d] False pos
    by (auto simp: put_decimal_def decimal_text_def)
qed

text \<open>The reference for \<open>DbgPrint\<close>: the format with its directives replaced. An argument is a number or
  a string. There is no text when an argument is missing or of the other kind, when a \<open>%\<close> ends
  the format, and for \<open>%d\<close> of the least integer.\<close>

datatype arg = Number u32 | Text "byte list"

fun format_text :: "byte list \<Rightarrow> arg list \<Rightarrow> byte list option" where
  "format_text [] as = Some []"
| "format_text (c # f) as =
     (if c \<noteq> 0x25 then map_option ((#) c) (format_text f as)
      else if f = [] then None
      else if hd f = 0x64 then
        (case as of Number v # as \<Rightarrow> if v = 0x80000000 then None else map_option ((@) (decimal_text (sint v))) (format_text (tl f) as)
         | _ \<Rightarrow> None)
      else if hd f = 0x78 then
        (case as of Number v # as \<Rightarrow> map_option ((@) (hex_text (unat v))) (format_text (tl f) as) | _ \<Rightarrow> None)
      else if hd f = 0x73 then
        (case as of Text s # as \<Rightarrow> map_option ((@) s) (format_text (tl f) as) | _ \<Rightarrow> None)
      else if hd f = 0x25 then map_option ((#) 0x25) (format_text (tl f) as)
      else map_option (\<lambda>t. 0x25 # hd f # t) (format_text (tl f) as))"

fun passes :: "mem \<Rightarrow> u32 \<Rightarrow> arg \<Rightarrow> bool" where
  "passes m v (Number w) \<longleftrightarrow> v = w"
| "passes m v (Text s) \<longleftrightarrow> cstr m v s"

text \<open>One directive, for the steps of the induction.\<close>

lemma DbgPrint_char: "m p \<noteq> 0 \<Longrightarrow> m p \<noteq> 0x25 \<Longrightarrow>
    DbgPrint io m p args d = do { d \<leftarrow> DbgPutc io (m p) d; DbgPrint io m (p + 1) args d }"
  by (simp add: DbgPrint.simps [of io m p args d])

lemma DbgPrint_directive:
  assumes "m p = 0x25"
  shows "m (p + 1) = 0x64 \<Longrightarrow> DbgPrint io m p (v # args) d = do { d \<leftarrow> put_decimal io v d; DbgPrint io m (p + 2) args d }"
    and "m (p + 1) = 0x78 \<Longrightarrow> DbgPrint io m p (v # args) d = do { d \<leftarrow> put_all io (rev (hex_loop v)) d; DbgPrint io m (p + 2) args d }"
    and "m (p + 1) = 0x73 \<Longrightarrow> DbgPrint io m p (v # args) d = do { d \<leftarrow> put_string io m v d; DbgPrint io m (p + 2) args d }"
    and "m (p + 1) \<notin> {0x64, 0x78, 0x73} \<Longrightarrow> DbgPrint io m p as d = do {
      d \<leftarrow> put_all io (if m (p + 1) = 0x25 then [0x25] else [0x25, m (p + 1)]) d; DbgPrint io m (p + 2) as d }"
  using assms by (simp_all add: DbgPrint.simps [of io m p] Let_def add.assoc bind_assoc split: Option.bind_split)

lemma DbgPrint_sends:
  assumes uart: "uart_serves io busy sent"
  shows "format_text f as = Some t \<Longrightarrow> cstr m p f \<Longrightarrow> list_all2 (passes m) args as \<Longrightarrow>
    \<exists>d'. DbgPrint io m p args d = Some d' \<and> sent d' = sent d @ t"
proof (induction "length f" arbitrary: f as p args t d rule: less_induct)
  case less
  show ?case
  proof (cases f)
    case Nil
    then show ?thesis using less.prems by (simp add: DbgPrint.simps [of io m p])
  next
    case (Cons c f')
    have c: "c \<noteq> 0" "m p = c" "cstr m (p + 1) f'" using less.prems(2) Cons by simp_all
    have step: "\<exists>d'. DbgPrint io m p args d = Some d' \<and> sent d' = sent d @ t"
      if run: "DbgPrint io m p args d = do { d \<leftarrow> emit d; DbgPrint io m q args' d }"
        and emit: "\<exists>d1. emit d = Some d1 \<and> sent d1 = sent d @ u"
        and rest: "format_text g as' = Some t'" "length g < length f" "cstr m q g" "list_all2 (passes m) args' as'"
        and t: "t = u @ t'" for emit q args' u g as' t'
    proof -
      obtain d1 where d1: "emit d = Some d1" "sent d1 = sent d @ u" using emit by blast
      from less.hyps [OF rest(2,1,3,4), of d1] show ?thesis unfolding run d1(1) t using d1(2) by auto
    qed
    show ?thesis
    proof (cases "c = 0x25")
      case False
      then obtain t' where t': "format_text f' as = Some t'" "t = [c] @ t'" using less.prems(1) Cons by auto
      have "DbgPrint io m p args d = do { d \<leftarrow> DbgPutc io c d; DbgPrint io m (p + 1) args d }"
        using c False by (simp add: DbgPrint_char)
      then show ?thesis
        by (rule step [of "DbgPutc io c", OF _ _ t'(1) _ c(3) less.prems(3) t'(2)]) (simp_all add: Cons DbgPutc_sends [OF uart])
    next
      case True
      then obtain x g where f': "f' = x # g" using less.prems(1) Cons by (cases f') auto
      have x: "m (p + 1) = x" "cstr m (p + 2) g" using c(3) f' by (simp_all add: add.assoc)
      have p: "m p = 0x25" using c True by simp
      have len: "length g < length f" by (simp add: Cons f')
      note D = DbgPrint_directive [of m p, OF p, unfolded x(1)]
      note F = less.prems(1) [unfolded Cons f' True]
      consider (d) "x = 0x64" | (x) "x = 0x78" | (s) "x = 0x73" | (oth) "x \<notin> {0x64, 0x78, 0x73}" by blast
      then show ?thesis
      proof cases
        case d
        then obtain v as' t' where as: "as = Number v # as'" "v \<noteq> 0x80000000" "format_text g as' = Some t'"
          "t = decimal_text (sint v) @ t'"
          using F by (auto split: list.splits arg.splits if_splits)
        obtain args' where args: "args = v # args'" "list_all2 (passes m) args' as'"
          using less.prems(3) as(1) by (auto simp: list_all2_Cons2)
        show ?thesis
          by (rule step [of "put_decimal io v", OF _ _ as(3) len x(2) args(2) as(4)])
            (simp_all only: args(1) D(1) [OF d] put_decimal_sends [OF uart as(2)])
      next
        case x
        then obtain v as' t' where as: "as = Number v # as'" "format_text g as' = Some t'" "t = hex_text (unat v) @ t'"
          using F by (auto split: list.splits arg.splits if_splits)
        obtain args' where args: "args = v # args'" "list_all2 (passes m) args' as'"
          using less.prems(3) as(1) by (auto simp: list_all2_Cons2)
        have emit: "\<exists>d1. put_all io (rev (hex_loop v)) d = Some d1 \<and> sent d1 = sent d @ hex_text (unat v)"
          using put_all_sends [OF uart] by (simp add: hex_loop_text)
        show ?thesis
          by (rule step [of "put_all io (rev (hex_loop v))", OF _ emit as(2) len \<open>cstr m (p + 2) g\<close> args(2) as(3)])
            (simp only: args(1) D(2) [OF x])
      next
        case s
        then obtain w as' t' where as: "as = Text w # as'" "format_text g as' = Some t'" "t = w @ t'"
          using F by (auto split: list.splits arg.splits if_splits)
        obtain v args' where args: "args = v # args'" "cstr m v w" "list_all2 (passes m) args' as'"
          using less.prems(3) as(1) by (auto simp: list_all2_Cons2)
        show ?thesis
          by (rule step [of "put_string io m v", OF _ _ as(2) len x(2) args(3) as(3)])
            (simp_all only: args(1) D(3) [OF s] put_string_sends [OF uart args(2)])
      next
        case oth
        then obtain t' where as: "format_text g as = Some t'" "t = (if x = 0x25 then [0x25] else [0x25, x]) @ t'"
          using F by (auto split: if_splits)
        show ?thesis
          by (rule step [of "put_all io (if x = 0x25 then [0x25] else [0x25, x])", OF D(4) [OF oth] _ as(1) len x(2) less.prems(3) as(2)])
            (rule put_all_sends [OF uart])
      qed
    qed
  qed
qed

text \<open>The least integer is its own negation; what is sent for it is no numeral.\<close>

lemma put_decimal_least: "put_decimal io 0x80000000 d = do { d \<leftarrow> DbgPutc io 0x2D d; put_all io [0x28] d }"
proof -
  have "dec_loop 0x80000000 = [0x28]"
    by (simp add: dec_loop.simps [of "0x80000000"] smod32_def sdiv32_def signed_divide_int_def signed_modulo_int_def
        sgn_if word_sless_alt)
  moreover have "(0x80000000 :: u32) <s 0" by (simp add: word_sless_alt)
  moreover have "- 0x80000000 = (0x80000000 :: u32)" by simp
  ultimately show ?thesis by (simp only: put_decimal_def if_True rev.simps append.simps)
qed

section \<open>Properties\<close>

text \<open>C38: on a UART that becomes ready after finitely many polls, \<open>DbgPrint\<close> of a terminated format
  terminates and sends the format with its directives replaced: \<open>%d\<close> by the decimal numeral, \<open>%x\<close> by
  the hexadecimal one, \<open>%s\<close> by the string, \<open>%%\<close> by a percent sign.\<close>

theorem DbgPrint_sends_text:
  assumes "uart_serves io busy sent" "format_text f as = Some t" "cstr m p f" "list_all2 (passes m) args as"
  shows "\<exists>d'. DbgPrint io m p args d = Some d' \<and> sent d' = sent d @ t"
  by (rule DbgPrint_sends [OF assms])

text \<open>A machine with a UART that is busy for two polls after each character, and a keyboard on which
  the key \<open>a\<close> has been pressed. The state is the number of polls to go and what was sent.\<close>

definition example_machine :: "(nat \<times> byte list) ports" where
  "example_machine = \<lparr>
     outb = (\<lambda>port c (n, s). if port = 0x3F8 then (2, s @ [c]) else (n, s)),
     insb = (\<lambda>port (n, s). if port = 0x3FD then (if n = 0 then 0x20 else 0, n - 1, s) else (0x1E, n, s)),
     insw = (\<lambda>port d. (0, d)),
     outw = (\<lambda>port w d. d)\<rparr>"

lemma example_machine_serves: "uart_serves example_machine fst snd"
  by (auto simp: uart_serves_def example_machine_def)

theorem DbgPrint_sends_text_witness:
  "\<exists>d'. DbgPrint example_machine (write_bytes (\<lambda>_. 0) 0x1000 [0x78, 0x3D, 0x25, 0x64, 0x0A]) 0x1000 [- 42] (0, []) = Some d' \<and>
    snd d' = [0x78, 0x3D, 0x2D, 0x34, 0x32, 0x0A]"
proof -
  have "format_text [0x78, 0x3D, 0x25, 0x64, 0x0A] [Number (- 42)] = Some [0x78, 0x3D, 0x2D, 0x34, 0x32, 0x0A]"
    by (simp add: decimal_text_def numeral_text.simps)
  from DbgPrint_sends_text [OF example_machine_serves this, of _ "0x1000" "[- 42]" "(0, [])"] show ?thesis by simp
qed

end
