(* ===== verification/Loader.thy ===== *)
theory Loader
  imports Text Vfs Serial
begin

text \<open>
  \<^verbatim>\<open>init/loader.c\<close>: loading a program in PE format. Headers are bytes of the memory, at their
  offsets. \<open>IMAGE_NT_HEADERS\<close> has \<open>FileHeader\<close> (20 bytes) at 4 and \<open>OptionalHeader\<close> (224 bytes) at 24;
  \<open>PEImageFileProcessed\<close> has copies of the two at 0 and 20, and \<open>IsDll\<close>, \<open>ImageBase\<close>, \<open>SizeOfImage\<close>,
  \<open>AddressOfEntryPointOffset\<close>, \<open>NumOfSections\<close>, \<open>SectionHeaderFirst\<close> and four pointers to data
  directories at 244, 248, 252, 256, 260, 264, 268, 272, 276 and 280; a section header has 40 bytes,
  with \<open>VirtualAddress\<close>, \<open>SizeOfRawData\<close> and \<open>PointerToRawData\<close> at 12, 16 and 20. \<open>DWORD64\<close> is an
  \<open>unsigned long\<close> of 32 bits.
\<close>

section \<open>What the loader runs in\<close>

text \<open>The addresses of the string literals and of the local arrays of \<open>LdrLoadPe\<close> and \<open>LdrExecBat\<close>.\<close>

record loader_frame =
  msg_process :: addr
  msg_not_pe :: addr
  msg_alloc :: addr
  msg_alloc_failed :: addr
  msg_alloc_ok :: addr
  msg_cpy :: addr
  msg_reloc :: addr
  msg_yes :: addr
  msg_load :: addr
  msg_absolute :: addr
  msg_processed :: addr
  msg_not_processed :: addr
  msg_is_dll :: addr
  msg_is_exe :: addr
  msg_open_failed :: addr
  msg_bat :: addr
  msg_bat_failed :: addr
  lit_drive :: addr
  lit_r :: addr
  lit_delim :: addr
  join_lits :: join_literals
  log_lits :: log_literals
  file_path :: addr
  image_buffer :: addr
  bat_data :: addr

definition IMAGE_FILE_DLL :: u16 where [status_defs]: "IMAGE_FILE_DLL = 0x2000"
definition IMAGE_FILE_EXECUTABLE_IMAGE :: u16 where [status_defs]: "IMAGE_FILE_EXECUTABLE_IMAGE = 0x0003"
definition IMAGE_DIRECTORY_ENTRY_BASERELOC :: u32 where [status_defs]: "IMAGE_DIRECTORY_ENTRY_BASERELOC = 5"
definition IMAGE_DIRECTORY_ENTRY_IMPORT :: u32 where [status_defs]: "IMAGE_DIRECTORY_ENTRY_IMPORT = 1"
definition IMAGE_DIRECTORY_ENTRY_EXCEPTION :: u32 where [status_defs]: "IMAGE_DIRECTORY_ENTRY_EXCEPTION = 3"
definition IMAGE_DIRECTORY_ENTRY_EXPORT :: u32 where [status_defs]: "IMAGE_DIRECTORY_ENTRY_EXPORT = 0"
definition IMAGE_REL_BASED_HIGH :: u16 where [status_defs]: "IMAGE_REL_BASED_HIGH = 1"
definition IMAGE_REL_BASED_LOW :: u16 where [status_defs]: "IMAGE_REL_BASED_LOW = 2"
definition IMAGE_REL_BASED_HIGHLOW :: u16 where [status_defs]: "IMAGE_REL_BASED_HIGHLOW = 3"
definition IMAGE_REL_BASED_DIR32 :: u16 where [status_defs]: "IMAGE_REL_BASED_DIR32 = 6"

definition HIWORD :: "u32 \<Rightarrow> u16" where "HIWORD l = ucast (drop_bit 16 l)"
definition LOWORD :: "u32 \<Rightarrow> u16" where "LOWORD l = ucast (l AND 0xFFFF)"

definition LOG_FAIL :: u32 where [status_defs]: "LOG_FAIL = 0"
definition LOG_SUCCESS :: u32 where [status_defs]: "LOG_SUCCESS = 1"
definition LOG_ERROR :: u32 where [status_defs]: "LOG_ERROR = 2"
definition LOG_INFO :: u32 where [status_defs]: "LOG_INFO = 4"

section \<open>Headers\<close>

definition IMAGE_FIRST_SECTION :: "mem \<Rightarrow> addr \<Rightarrow> addr" where
  "IMAGE_FIRST_SECTION m ntHeaders = ntHeaders + 24 + ucast (read16 m (ntHeaders + 4 + 16))"

definition data_directory :: "addr \<Rightarrow> u32 \<Rightarrow> addr" where
  "data_directory ntHeaders i = ntHeaders + 24 + 96 + 8 * i"

text \<open>The result is the \<open>WINBOOL\<close>. The assignments of structures copy their bytes.\<close>

definition LdrProcessPe ::
    "loader_frame \<Rightarrow> 'd ports \<Rightarrow> mem \<Rightarrow> addr \<Rightarrow> addr \<Rightarrow> 'd \<Rightarrow> (bool \<times> mem \<times> 'd) option" where
  "LdrProcessPe fr io m pBufImageFile p d = do {
     d \<leftarrow> DbgPrint io m (msg_process fr) [pBufImageFile, p] d;
     let pNtHeaders = pBufImageFile + read32 m (pBufImageFile + 60);
     if read16 m (pNtHeaders + 4 + 18) AND IMAGE_FILE_EXECUTABLE_IMAGE = 0
     then do {
       d \<leftarrow> DbgLog (log_lits fr) io m (msg_not_pe fr) LOG_ERROR d;
       Some (False, m, d)
     }
     else
       let m = memcpy m p (pNtHeaders + 4) 20;
           m = memcpy m (p + 20) (pNtHeaders + 24) 224;
           m = write32 m (p + 244) (if read16 m (pNtHeaders + 4 + 18) AND IMAGE_FILE_DLL \<noteq> 0 then 1 else 0);
           m = write32 m (p + 252) (read32 m (pNtHeaders + 24 + 56));
           m = write32 m (p + 248) (read32 m (pNtHeaders + 24 + 28));
           m = write32 m (p + 256) (read32 m (pNtHeaders + 24 + 16));
           m = write16 m (p + 260) (read16 m (pNtHeaders + 4 + 2));
           m = write32 m (p + 264) (IMAGE_FIRST_SECTION m pNtHeaders);
           m = write32 m (p + 268) (data_directory pNtHeaders IMAGE_DIRECTORY_ENTRY_EXPORT);
           m = write32 m (p + 272) (data_directory pNtHeaders IMAGE_DIRECTORY_ENTRY_IMPORT);
           m = write32 m (p + 276) (data_directory pNtHeaders IMAGE_DIRECTORY_ENTRY_BASERELOC);
           m = write32 m (p + 280) (data_directory pNtHeaders IMAGE_DIRECTORY_ENTRY_EXCEPTION)
       in Some (True, m, d)
   }"

text \<open>The address stored through \<open>pBufInMemPE\<close>, whose own address is an argument for the message.\<close>

definition LdrAllocMemory ::
    "loader_frame \<Rightarrow> heap \<Rightarrow> 'd ports \<Rightarrow> mem \<Rightarrow> u32 \<Rightarrow> addr \<Rightarrow> 'd \<Rightarrow> (mem \<times> 'd) option" where
  "LdrAllocMemory fr kh io m SizeOfImage pBufInMemPE d = do {
     d \<leftarrow> DbgPrint io m (msg_alloc fr) [SizeOfImage, pBufInMemPE] d;
     let (buf, m) = kmalloc kh m SizeOfImage;
     let m = write32 m pBufInMemPE buf;
     d \<leftarrow> (if read32 m pBufInMemPE = 0
           then DbgLog (log_lits fr) io m (msg_alloc_failed fr) LOG_ERROR d
           else DbgLog (log_lits fr) io m (msg_alloc_ok fr) LOG_SUCCESS d);
     Some (m, d)
   }"

section \<open>Sections\<close>

text \<open>The number of sections is read anew in every round.\<close>

lemma measure_u16: "i <s (ucast (n :: u16) :: u32) \<Longrightarrow> nat (65536 - sint (i + 1)) < nat (65536 - sint i)" for i :: u32
proof -
  assume less: "i <s (ucast n :: u32)"
  have "unat n < 65536" "uint n < 65536" using unat_lt2p [of n] uint_lt2p [of n] by simp_all
  then have "sint (ucast n :: u32) < 65536" by (simp add: sint_unat unat_ucast_u16)
  moreover have "sint i < sint (ucast n :: u32)" using less by (simp add: word_sless_alt)
  ultimately show ?thesis by (simp add: sint_inc [OF less])
qed

function cpy_sections_loop :: "mem \<Rightarrow> addr \<Rightarrow> addr \<Rightarrow> addr \<Rightarrow> u32 \<Rightarrow> mem" where
  "cpy_sections_loop m p pBufImageFile pBufInMemPE i =
     (if i <s ucast (read16 m (p + 260))
      then
        let h = read32 m (p + 264) + 40 * i
        in cpy_sections_loop
             (memcpy m (pBufInMemPE + read32 m (h + 12)) (pBufImageFile + read32 m (h + 20)) (read32 m (h + 16)))
             p pBufImageFile pBufInMemPE (i + 1)
      else m)"
  by pat_completeness auto
termination
  by (relation "measure (\<lambda>(m, p, f, b, i). nat (65536 - sint i))") (auto dest: measure_u16 simp del: zless_nat_conj)

declare cpy_sections_loop.simps [simp del]

definition LdrCpySections ::
    "loader_frame \<Rightarrow> 'd ports \<Rightarrow> mem \<Rightarrow> addr \<Rightarrow> addr \<Rightarrow> addr \<Rightarrow> 'd \<Rightarrow> (mem \<times> 'd) option" where
  "LdrCpySections fr io m p pBufImageFile pBufInMemPE d = do {
     d \<leftarrow> DbgPrint io m (msg_cpy fr) [p, pBufImageFile] d;
     Some (cpy_sections_loop m p pBufImageFile pBufInMemPE 0, d)
   }"

section \<open>Relocations\<close>

text \<open>One entry: the low 12 bits are the offset, the high 4 the type.\<close>

definition reloc_entry ::
    "loader_frame \<Rightarrow> 'd ports \<Rightarrow> u32 \<Rightarrow> u16 \<Rightarrow> addr \<Rightarrow> mem \<Rightarrow> 'd \<Rightarrow> (mem \<times> 'd) option" where
  "reloc_entry fr io relocOffset entry relocAt m d =
     (let type = drop_bit 12 entry in
      if type = IMAGE_REL_BASED_HIGH then Some (write16 m relocAt (read16 m relocAt + HIWORD relocOffset), d)
      else if type = IMAGE_REL_BASED_LOW then Some (write16 m relocAt (read16 m relocAt + LOWORD relocOffset), d)
      else if type = IMAGE_REL_BASED_HIGHLOW then Some (write32 m relocAt (read32 m relocAt + relocOffset), d)
      else if type = IMAGE_REL_BASED_DIR32
      then do {
        d \<leftarrow> DbgPrint io m (msg_yes fr) [] d;
        Some (write32 m relocAt (read32 m relocAt + relocOffset), d)
      }
      else Some (m, d))"

text \<open>The entries of the block at \<open>blk\<close>; \<open>i\<close> and their number are compared without a sign.\<close>

function reloc_entries ::
    "loader_frame \<Rightarrow> 'd ports \<Rightarrow> u32 \<Rightarrow> addr \<Rightarrow> addr \<Rightarrow> u32 \<Rightarrow> u32 \<Rightarrow> mem \<Rightarrow> 'd \<Rightarrow> (mem \<times> 'd) option" where
  "reloc_entries fr io relocOffset pBufInMemPE blk num i m d =
     (if i < num
      then
        let entry = read16 m (blk + 8 + 2 * i);
            relocAt = pBufInMemPE + (read32 m blk + ucast (take_bit 12 entry))
        in case reloc_entry fr io relocOffset entry relocAt m d of
             None \<Rightarrow> None
           | Some (m, d) \<Rightarrow> reloc_entries fr io relocOffset pBufInMemPE blk num (i + 1) m d
      else Some (m, d))"
  by pat_completeness auto
termination
  by (relation "measure (\<lambda>(fr, io, off, b, blk, num, i, m, d). unat (num - i))") (auto simp: measure_up)

declare reloc_entries.simps [simp del]

partial_function (option) reloc_blocks ::
    "loader_frame \<Rightarrow> 'd ports \<Rightarrow> u32 \<Rightarrow> addr \<Rightarrow> addr \<Rightarrow> mem \<Rightarrow> 'd \<Rightarrow> (mem \<times> 'd) option" where
  "reloc_blocks fr io relocOffset pBufInMemPE blk m d =
     (if read32 m blk \<noteq> 0
      then do {
        (m, d) \<leftarrow> reloc_entries fr io relocOffset pBufInMemPE blk ((read32 m (blk + 4) - 8) div 2) 0 m d;
        reloc_blocks fr io relocOffset pBufInMemPE (blk + read32 m (blk + 4)) m d
      }
      else Some (m, d))"

definition LdrRelocMemory ::
    "loader_frame \<Rightarrow> 'd ports \<Rightarrow> mem \<Rightarrow> addr \<Rightarrow> addr \<Rightarrow> 'd \<Rightarrow> (mem \<times> 'd) option" where
  "LdrRelocMemory fr io m p pBufInMemPE d = do {
     d \<leftarrow> DbgPrint io m (msg_reloc fr) [] d;
     let blk = pBufInMemPE + read32 m (read32 m (p + 276));
     let relocOffset = pBufInMemPE - read32 m (p + 248);
     reloc_blocks fr io relocOffset pBufInMemPE blk m d
   }"

section \<open>LdrLoadPe\<close>

text \<open>\<open>image_buffer\<close> is a local array of 6200 bytes, \<open>pBufInMemPE\<close> a local variable (at \<open>in_mem\<close>);
  \<open>processedFile\<close> is a null pointer, through which the headers are stored and read.\<close>

definition LdrLoadPe ::
    "loader_frame \<Rightarrow> addr \<Rightarrow> 'd env \<Rightarrow> (addr \<Rightarrow> 'd fs_ops) \<Rightarrow> vfs \<Rightarrow> terminal \<Rightarrow> mem \<Rightarrow> addr \<Rightarrow> 'd \<Rightarrow>
      (addr \<times> terminal \<times> mem \<times> 'd) option" where
  "LdrLoadPe fr in_mem e ops v t m path d = do {
     let io = ports_of e;
     d \<leftarrow> DbgPrint io m (msg_load fr) [path] d;
     (t, m) \<leftarrow> join_paths (join_lits fr) t m (lit_drive fr) path (file_path fr) 20;
     d \<leftarrow> DbgPrint io m (msg_absolute fr) [file_path fr] d;
     (fd, m, d) \<leftarrow> fopen e ops v (file_path fr) (lit_r fr) m d;
     if fd \<noteq> 0
     then do {
       (res, bs, m, d) \<leftarrow> fread ops v 6199 1 fd m d;
       let m = write_bytes m (image_buffer fr) bs;
       let processedFile = 0;
       (ok, m, d) \<leftarrow> LdrProcessPe fr io m (image_buffer fr) processedFile d;
       if ok
       then do {
         d \<leftarrow> DbgLog (log_lits fr) io m (msg_processed fr) LOG_SUCCESS d;
         d \<leftarrow> (if read32 m (processedFile + 244) \<noteq> 0
               then DbgLog (log_lits fr) io m (msg_is_dll fr) LOG_INFO d
               else DbgLog (log_lits fr) io m (msg_is_exe fr) LOG_INFO d);
         let m = write32 m in_mem 0;
         (m, d) \<leftarrow> LdrAllocMemory fr (kernel_heap e) io m (read32 m (processedFile + 252)) in_mem d;
         (m, d) \<leftarrow> LdrCpySections fr io m processedFile (image_buffer fr) (read32 m in_mem) d;
         (m, d) \<leftarrow> LdrRelocMemory fr io m processedFile (read32 m in_mem) d;
         Some (read32 m in_mem + read32 m (processedFile + 256), t, m, d)
       }
       else do {
         d \<leftarrow> DbgLog (log_lits fr) io m (msg_not_processed fr) LOG_ERROR d;
         Some (0, t, m, d)
       }
     }
     else do {
       d \<leftarrow> DbgLog (log_lits fr) io m (msg_open_failed fr) LOG_FAIL d;
       Some (0, t, m, d)
     }
   }"

section \<open>Copying the sections\<close>

text \<open>A section: its place in the image in memory, its size and its place in the file.\<close>

record pe_section =
  sec_va :: nat
  sec_size :: nat
  sec_raw :: nat

definition header_describes :: "mem \<Rightarrow> addr \<Rightarrow> pe_section \<Rightarrow> bool" where
  "header_describes m h s \<longleftrightarrow> read32 m (h + 12) = word_of_nat (sec_va s) \<and>
     read32 m (h + 16) = word_of_nat (sec_size s) \<and> read32 m (h + 20) = word_of_nat (sec_raw s)"

definition sections_at :: "mem \<Rightarrow> addr \<Rightarrow> addr \<Rightarrow> pe_section list \<Rightarrow> bool" where
  "sections_at m p hdr secs \<longleftrightarrow> length secs < 2 ^ 15 \<and> read16 m (p + 260) = word_of_nat (length secs) \<and>
     read32 m (p + 264) = hdr \<and> (\<forall>k<length secs. header_describes m (hdr + 40 * word_of_nat k) (secs ! k))"

text \<open>The sections fit into an image of \<open>S\<close> bytes and a file of \<open>F\<close> bytes.\<close>

definition sections_fit :: "nat \<Rightarrow> nat \<Rightarrow> pe_section list \<Rightarrow> bool" where
  "sections_fit S F secs \<longleftrightarrow> S \<le> 2 ^ 31 \<and> F \<le> 2 ^ 31 \<and> (\<forall>s\<in>set secs. sec_va s + sec_size s \<le> S \<and> sec_raw s + sec_size s \<le> F)"

definition before_or_after :: "pe_section \<Rightarrow> pe_section \<Rightarrow> bool" where
  "before_or_after s t \<longleftrightarrow> sec_va s + sec_size s \<le> sec_va t \<or> sec_va t + sec_size t \<le> sec_va s"

definition section_copied :: "mem \<Rightarrow> mem \<Rightarrow> addr \<Rightarrow> addr \<Rightarrow> pe_section \<Rightarrow> bool" where
  "section_copied m m' file base s \<longleftrightarrow>
     (\<forall>i < sec_size s. m' (base + word_of_nat (sec_va s + i)) = m (file + word_of_nat (sec_raw s + i)))"

lemma read32_cong_range:
  assumes "\<And>a. in_range p n a \<Longrightarrow> m' a = m a" "k + 4 \<le> n" "n \<le> 2 ^ 32"
  shows "read32 m' (p + word_of_nat k) = read32 m (p + word_of_nat k)"
proof (rule read32_cong)
  fix i :: nat assume "i < 4"
  then have "in_range p n (p + word_of_nat (k + i))" using assms(2,3) by (intro in_range_offset) simp_all
  then show "m' (p + word_of_nat k + word_of_nat i) = m (p + word_of_nat k + word_of_nat i)"
    using assms(1) by (simp add: add.assoc)
qed

lemma sections_at_cong:
  assumes "sections_at m p hdr secs" "\<And>a. in_range p 284 a \<Longrightarrow> m' a = m a"
    and "\<And>a. in_range hdr (40 * length secs) a \<Longrightarrow> m' a = m a"
  shows "sections_at m' p hdr secs"
proof -
  have len: "40 * length secs \<le> 2 ^ 32" using assms(1) by (simp add: sections_at_def)
  have "m' (p + 260) = m (p + 260)" "m' (p + 261) = m (p + 261)" "read32 m' (p + 264) = read32 m (p + 264)"
    using assms(2) [of "p + 260"] assms(2) [of "p + 261"] read32_cong_range [of p 284 m' m 264, OF assms(2)]
    by (simp_all add: in_range_def)
  then have p: "read16 m' (p + 260) = read16 m (p + 260)" "read32 m' (p + 264) = read32 m (p + 264)"
    by (simp_all add: read16_def add.assoc)
  have h: "read32 m' (hdr + 40 * word_of_nat k + word_of_nat j) = read32 m (hdr + 40 * word_of_nat k + word_of_nat j)"
    if "k < length secs" "j \<le> 36" for k j
    using read32_cong_range [of hdr "40 * length secs" m' m "40 * k + j", OF assms(3) _ len] that
    by (simp add: add.assoc)
  show ?thesis
    using assms(1) p h [of _ 12] h [of _ 16] h [of _ 20] by (simp add: sections_at_def header_describes_def)
qed

lemma section_memcpy:
  assumes fit: "sec_va s + sec_size s \<le> S" "sec_raw s + sec_size s \<le> F" "S \<le> 2 ^ 31" "F \<le> 2 ^ 31" and apart: "apart base S file F"
  shows "memcpy m (base + word_of_nat (sec_va s)) (file + word_of_nat (sec_raw s)) (word_of_nat (sec_size s)) a =
    (if in_range (base + word_of_nat (sec_va s)) (sec_size s) a
     then m (file + word_of_nat (sec_raw s) + (a - (base + word_of_nat (sec_va s)))) else m a)"
proof -
  have n: "unat (word_of_nat (sec_size s) :: u32) = sec_size s" using fit by (intro unat_word_of_nat) simp
  have "base + word_of_nat (sec_va s) + word_of_nat j \<noteq> file + word_of_nat (sec_raw s) + word_of_nat i"
    if "i < sec_size s" "j < i" for i j
  proof -
    have "base + word_of_nat (sec_va s + j) \<noteq> file + word_of_nat (sec_raw s + i)"
      using that fit by (intro apartD [OF apart]) simp_all
    then show ?thesis by (simp add: add.assoc)
  qed
  then show ?thesis using memcpy_apply [of "word_of_nat (sec_size s)" "base + word_of_nat (sec_va s)"] unfolding n by blast
qed

lemma in_section:
  assumes "sec_va s + sec_size s \<le> S" "S \<le> 2 ^ 31" "i < S"
  shows "in_range (base + word_of_nat (sec_va s)) (sec_size s) (base + word_of_nat i) \<longleftrightarrow> sec_va s \<le> i \<and> i < sec_va s + sec_size s"
proof -
  have "unat (word_of_nat i :: u32) = i" "unat (word_of_nat (sec_va s) :: u32) = sec_va s"
    using assms by (auto intro!: unat_word_of_nat)
  then have "unat (base + word_of_nat i - (base + word_of_nat (sec_va s))) =
      (if sec_va s \<le> i then i - sec_va s else i + 2 ^ 32 - sec_va s)"
    by (simp add: unat_sub_if')
  then show ?thesis using assms unfolding in_range_def by auto
qed

lemma ucast_u16_word_of_nat: "n < 2 ^ 16 \<Longrightarrow> (ucast (word_of_nat n :: u16) :: u32) = word_of_nat n"
  by (simp add: word_unat_eq_iff unat_ucast_u16 unat_of_nat take_bit_nat_eq_self_iff)

text \<open>The loop is a fold of single copies over the sections the headers describe.\<close>

definition copy_section :: "addr \<Rightarrow> addr \<Rightarrow> mem \<Rightarrow> pe_section \<Rightarrow> mem" where
  "copy_section file base m s =
     memcpy m (base + word_of_nat (sec_va s)) (file + word_of_nat (sec_raw s)) (word_of_nat (sec_size s))"

lemma sections_fitD:
  "sections_fit S F secs \<Longrightarrow> s \<in> set secs \<Longrightarrow>
     sec_va s + sec_size s \<le> S \<and> sec_raw s + sec_size s \<le> F \<and> S \<le> 2 ^ 31 \<and> F \<le> 2 ^ 31"
  by (simp add: sections_fit_def)

lemma sections_fit_Cons [simp]:
  "sections_fit S F (s # secs) \<longleftrightarrow> sec_va s + sec_size s \<le> S \<and> sec_raw s + sec_size s \<le> F \<and> sections_fit S F secs"
  by (auto simp: sections_fit_def)

lemma copy_section_outside:
  assumes "sec_va s + sec_size s \<le> S" "sec_raw s + sec_size s \<le> F" "S \<le> 2 ^ 31" "F \<le> 2 ^ 31" "apart base S file F"
    and "\<not> in_range base S a"
  shows "copy_section file base m s a = m a"
proof -
  have "\<not> in_range (base + word_of_nat (sec_va s)) (sec_size s) a"
  proof
    assume "in_range (base + word_of_nat (sec_va s)) (sec_size s) a"
    then obtain i where i: "i < sec_size s" "a = base + word_of_nat (sec_va s) + word_of_nat i"
      using in_range_ex by blast
    have "in_range base S (base + word_of_nat (sec_va s + i))" using assms i by (intro in_range_offset) simp_all
    then show False using i assms(6) by (simp add: add.assoc)
  qed
  then show ?thesis using section_memcpy [OF assms(1-5)] by (simp add: copy_section_def)
qed

lemma cpy_sections_loop_fold:
  assumes "sections_at m p hdr secs" "sections_fit S F secs" "apart base S file F" "apart base S p 284"
    and "apart base S hdr (40 * length secs)" "k \<le> length secs"
  shows "cpy_sections_loop m p file base (word_of_nat k) = foldl (copy_section file base) m (drop k secs)"
  using assms(1,6)
proof (induction "length secs - k" arbitrary: k m)
  case 0
  then have "k = length secs" "read16 m (p + 260) = word_of_nat (length secs)" "length secs < 2 ^ 15"
    by (simp_all add: sections_at_def)
  then have "(ucast (read16 m (p + 260)) :: u32) = word_of_nat k" by (simp add: ucast_u16_word_of_nat)
  with \<open>k = length secs\<close> show ?case by (subst cpy_sections_loop.simps) (simp add: word_sless_alt)
next
  case (Suc n)
  then have k: "k < length secs" and len: "length secs < 2 ^ 15" and num: "read16 m (p + 260) = word_of_nat (length secs)"
    and hdr: "read32 m (p + 264) = hdr" and desc: "header_describes m (hdr + 40 * word_of_nat k) (secs ! k)"
    by (auto simp: sections_at_def)
  let ?m = "copy_section file base m (secs ! k)"
  have fit: "sec_va (secs ! k) + sec_size (secs ! k) \<le> S \<and> sec_raw (secs ! k) + sec_size (secs ! k) \<le> F \<and> S \<le> 2 ^ 31 \<and> F \<le> 2 ^ 31"
    using sections_fitD [OF assms(2), of "secs ! k"] k by simp
  have out: "?m a = m a" if "\<not> in_range base S a" for a
    using copy_section_outside fit assms(3) that by blast
  have "sections_at ?m p hdr secs"
    by (rule sections_at_cong [OF Suc.prems(1)])
      (blast intro: out dest: apart_outside [OF assms(4)] apart_outside [OF assms(5)])+
  then have "cpy_sections_loop ?m p file base (word_of_nat (Suc k)) = foldl (copy_section file base) ?m (drop (Suc k) secs)"
    using Suc.hyps(2) k by (intro Suc.hyps(1)) simp_all
  moreover have "(word_of_nat k :: u32) <s ucast (read16 m (p + 260))"
    using k len num by (simp add: ucast_u16_word_of_nat word_sless_alt sint_word_of_nat)
  ultimately show ?case
    using hdr desc k
    by (subst cpy_sections_loop.simps) (simp add: Let_def header_describes_def copy_section_def Cons_nth_drop_Suc [symmetric] add.commute)
qed

text \<open>What the fold leaves in memory.\<close>

lemma foldl_copy_outside:
  assumes "sections_fit S F secs" "apart base S file F" "\<not> in_range base S a"
  shows "foldl (copy_section file base) m secs a = m a"
  using assms(1)
proof (induction secs arbitrary: m)
  case (Cons s secs)
  then have "copy_section file base m s a = m a"
    using assms(2,3) sections_fitD [OF Cons.prems, of s] copy_section_outside [OF _ _ _ _ assms(2,3), of s m] by simp
  then show ?case using Cons by simp
qed simp

lemma foldl_copy_between:
  assumes "sections_fit S F secs" "apart base S file F" "i < S"
    and "\<forall>t\<in>set secs. \<not> (sec_va t \<le> i \<and> i < sec_va t + sec_size t)"
  shows "foldl (copy_section file base) m secs (base + word_of_nat i) = m (base + word_of_nat i)"
  using assms(1,4)
proof (induction secs arbitrary: m)
  case (Cons s secs)
  then have fit: "sec_va s + sec_size s \<le> S" "sec_raw s + sec_size s \<le> F" "S \<le> 2 ^ 31" "F \<le> 2 ^ 31"
    using sections_fitD [OF Cons.prems(1), of s] by simp_all
  have "copy_section file base m s (base + word_of_nat i) = m (base + word_of_nat i)"
    using section_memcpy [OF fit assms(2)] in_section [OF fit(1,3) assms(3)] Cons.prems(2) by (simp add: copy_section_def)
  then show ?case using Cons by simp
qed simp

lemma foldl_copy_sections:
  assumes "sections_fit S F secs" "apart base S file F" "sorted_wrt before_or_after secs" "s \<in> set secs"
  shows "section_copied m (foldl (copy_section file base) m secs) file base s"
  using assms(1,3,4)
proof (induction secs arbitrary: m)
  case (Cons t secs)
  then have fit: "sec_va t + sec_size t \<le> S" "sec_raw t + sec_size t \<le> F" "S \<le> 2 ^ 31" "F \<le> 2 ^ 31"
    and fits: "sections_fit S F secs"
    using sections_fitD [OF Cons.prems(1), of t] by simp_all
  show ?case
  proof (cases "s \<in> set secs")
    case True
    have "copy_section file base m t (file + word_of_nat (sec_raw s + i)) = m (file + word_of_nat (sec_raw s + i))"
      if "i < sec_size s" for i
      using that sections_fitD [OF fits True]
      by (intro copy_section_outside [OF fit assms(2)] apart_outside [OF assms(2)] in_range_offset) simp_all
    then show ?thesis using Cons.IH [OF fits _ True, of "copy_section file base m t"] Cons.prems(2)
      by (simp add: section_copied_def)
  next
    case False
    then have "s = t" using Cons.prems(3) by simp
    have "foldl (copy_section file base) (copy_section file base m t) secs (base + word_of_nat (sec_va t + i)) =
        m (file + word_of_nat (sec_raw t + i))" if i: "i < sec_size t" for i
    proof -
      have "\<forall>u\<in>set secs. \<not> (sec_va u \<le> sec_va t + i \<and> sec_va t + i < sec_va u + sec_size u)"
        using Cons.prems(2) i by (fastforce simp: before_or_after_def)
      moreover have "sec_va t + i < S" using i fit(1) by simp
      ultimately show ?thesis
        using section_memcpy [OF fit assms(2)] in_section [OF fit(1,3), of "sec_va t + i" base] i
          foldl_copy_between [OF fits assms(2), of "sec_va t + i"]
        by (simp add: copy_section_def add.assoc)
    qed
    then show ?thesis using \<open>s = t\<close> by (simp add: section_copied_def)
  qed
qed simp

lemma sections_copied:
  assumes "sections_at m p hdr secs" "sections_fit S F secs" "sorted_wrt before_or_after secs"
    and "apart base S file F" "apart base S p 284" "apart base S hdr (40 * length secs)"
  shows "\<exists>m'. LdrCpySections fr io m p file base d = map_option (Pair m') (DbgPrint io m (msg_cpy fr) [p, file] d) \<and>
    (\<forall>s\<in>set secs. section_copied m m' file base s) \<and> (\<forall>a. \<not> in_range base S a \<longrightarrow> m' a = m a)"
proof (intro exI conjI ballI allI impI)
  let ?m = "foldl (copy_section file base) m secs"
  have "cpy_sections_loop m p file base 0 = ?m"
    using cpy_sections_loop_fold [OF assms(1,2,4,5,6), of 0] by simp
  then show "LdrCpySections fr io m p file base d = map_option (Pair ?m) (DbgPrint io m (msg_cpy fr) [p, file] d)"
    by (cases "DbgPrint io m (msg_cpy fr) [p, file] d") (simp_all add: LdrCpySections_def)
  show "section_copied m ?m file base s" if "s \<in> set secs" for s
    using foldl_copy_sections assms(2,3,4) that by blast
  show "?m a = m a" if "\<not> in_range base S a" for a
    using foldl_copy_outside assms(2,4) that by blast
qed

text \<open>\<open>LdrCpySections\<close> copies every section of the image, whole, from its place in the file to its place
  relative to the image's base, and changes no byte outside the image: provided the processed headers
  describe sections that fit into image and file and do not overlap in the image, and the image
  overlaps neither the file nor the headers.\<close>

theorem LdrCpySections_copies:
  assumes "sections_at m p hdr secs" "sections_fit S F secs" "sorted_wrt before_or_after secs"
    and "apart base S file F" "apart base S p 284" "apart base S hdr (40 * length secs)"
  shows "\<exists>m'. LdrCpySections fr io m p file base d = map_option (Pair m') (DbgPrint io m (msg_cpy fr) [p, file] d) \<and>
    (\<forall>s\<in>set secs. section_copied m m' file base s) \<and> (\<forall>a. \<not> in_range base S a \<longrightarrow> m' a = m a)"
  by (rule sections_copied [OF assms])

text \<open>A frame with empty messages.\<close>

definition example_frame :: loader_frame where
  "example_frame = \<lparr>msg_process = 0, msg_not_pe = 0, msg_alloc = 0, msg_alloc_failed = 0, msg_alloc_ok = 0, msg_cpy = 0,
     msg_reloc = 0, msg_yes = 0, msg_load = 0, msg_absolute = 0, msg_processed = 0, msg_not_processed = 0, msg_is_dll = 0,
     msg_is_exe = 0, msg_open_failed = 0, msg_bat = 0, msg_bat_failed = 0, lit_drive = 0, lit_r = 0, lit_delim = 0,
     join_lits = \<lparr>join_direct = 0, join_slash = 0, join_error = 0\<rparr>,
     log_lits = \<lparr>log_success = 0, log_fail = 0, log_error = 0, log_warn = 0, log_info = 0, log_newline = 0\<rparr>,
     file_path = 0, image_buffer = 0, bat_data = 0\<rparr>"

text \<open>Two sections: 4 bytes at 0x10 of the file, which go to 0, and 2 bytes at 0x20, which go to 0x100.\<close>

definition example_pe :: mem where
  "example_pe = (\<lambda>_. 0)(260 := 2, 265 := 0x10, 0x1010 := 4, 0x1014 := 0x10, 0x1035 := 1, 0x1038 := 2, 0x103C := 0x20,
     0x8011 := 7, 0x8021 := 9)"

definition example_sections :: "pe_section list" where
  "example_sections = [\<lparr>sec_va = 0, sec_size = 4, sec_raw = 0x10\<rparr>, \<lparr>sec_va = 0x100, sec_size = 2, sec_raw = 0x20\<rparr>]"

lemma example_headers:
  "read16 example_pe 260 = 2" "read32 example_pe 264 = 0x1000"
  "read32 example_pe 0x100C = 0" "read32 example_pe 0x1010 = 4" "read32 example_pe 0x1014 = 0x10"
  "read32 example_pe 0x1034 = 0x100" "read32 example_pe 0x1038 = 2" "read32 example_pe 0x103C = 0x20"
  by (simp_all add: example_pe_def read16_def read32_def)

lemma example_sections_at: "sections_at example_pe 0 0x1000 example_sections"
proof -
  have "header_describes example_pe 0x1000 (example_sections ! 0)" "header_describes example_pe 0x1028 (example_sections ! 1)"
    by (simp_all add: header_describes_def example_headers example_sections_def)
  then show ?thesis by (auto simp: sections_at_def example_headers example_sections_def less_Suc_eq)
qed

theorem LdrCpySections_copies_witness:
  "\<forall>fr. \<exists>m'. LdrCpySections fr example_machine example_pe 0 0x8000 0x10000 (0, []) =
       map_option (Pair m') (DbgPrint example_machine example_pe (msg_cpy fr) [0, 0x8000] (0, [])) \<and>
     m' 0x10001 = 7 \<and> m' 0x10101 = 9 \<and> m' 0x8011 = 7"
proof
  fix fr :: loader_frame
  have fits: "sections_fit 0x200 0x40 example_sections" and order: "sorted_wrt before_or_after example_sections"
    by (simp_all add: sections_fit_def before_or_after_def example_sections_def)
  have fl: "apart 0x10000 0x200 0x8000 0x40" and p: "apart 0x10000 0x200 0 284"
    and hdr: "apart 0x10000 0x200 0x1000 (40 * length example_sections)"
    using low_apart [of "0x8000" "0x40" "0x10000" "0x200"] low_apart [of 0 284 "0x10000" "0x200"]
      low_apart [of "0x1000" 80 "0x10000" "0x200"]
    by (simp_all add: apart_sym example_sections_def)
  obtain m' where m': "LdrCpySections fr example_machine example_pe 0 0x8000 0x10000 (0, []) =
      map_option (Pair m') (DbgPrint example_machine example_pe (msg_cpy fr) [0, 0x8000] (0, []))"
    and copied: "\<forall>s\<in>set example_sections. section_copied example_pe m' 0x8000 0x10000 s"
    and same: "\<forall>a. \<not> in_range 0x10000 0x200 a \<longrightarrow> m' a = example_pe a"
    using LdrCpySections_copies [OF example_sections_at fits order fl p hdr, of fr example_machine "(0, [])"] by blast
  have "m' 0x10001 = example_pe 0x8011" "m' 0x10101 = example_pe 0x8021"
    using copied by (auto simp: example_sections_def section_copied_def dest: spec [of _ 1])
  moreover have "m' 0x8011 = example_pe 0x8011" using same by (simp add: in_range_def)
  ultimately show "\<exists>m'. LdrCpySections fr example_machine example_pe 0 0x8000 0x10000 (0, []) =
       map_option (Pair m') (DbgPrint example_machine example_pe (msg_cpy fr) [0, 0x8000] (0, [])) \<and>
     m' 0x10001 = 7 \<and> m' 0x10101 = 9 \<and> m' 0x8011 = 7"
    using m' by (intro exI [of _ m']) (simp add: example_pe_def)
qed

section \<open>Relocating\<close>

text \<open>A block of the relocation table: its page, as an offset from the base, and its entries. The table
  ends with a block whose page is 0.\<close>

record reloc_block =
  blk_va :: u32
  blk_entries :: "u16 list"

definition block_size :: "reloc_block \<Rightarrow> nat" where
  "block_size b = 8 + 2 * length (blk_entries b)"

primrec table_size :: "reloc_block list \<Rightarrow> nat" where
  "table_size [] = 4"
| "table_size (b # bs) = block_size b + table_size bs"

definition block_at :: "mem \<Rightarrow> addr \<Rightarrow> reloc_block \<Rightarrow> bool" where
  "block_at m q b \<longleftrightarrow> blk_va b \<noteq> 0 \<and> read32 m q = blk_va b \<and> read32 m (q + 4) = word_of_nat (block_size b) \<and>
     (\<forall>k<length (blk_entries b). read16 m (q + 8 + 2 * word_of_nat k) = blk_entries b ! k)"

primrec relocs_at :: "mem \<Rightarrow> addr \<Rightarrow> reloc_block list \<Rightarrow> bool" where
  "relocs_at m q [] \<longleftrightarrow> read32 m q = 0"
| "relocs_at m q (b # bs) \<longleftrightarrow> block_at m q b \<and> relocs_at m (q + word_of_nat (block_size b)) bs"

text \<open>The addresses the entries of type \<open>IMAGE_REL_BASED_HIGHLOW\<close> name, in the order of the table.\<close>

definition entry_target :: "addr \<Rightarrow> u32 \<Rightarrow> u16 \<Rightarrow> addr" where
  "entry_target base va e = base + (va + ucast (take_bit 12 e))"

definition targets :: "addr \<Rightarrow> u32 \<Rightarrow> u16 list \<Rightarrow> addr list" where
  "targets base va es = map (entry_target base va) (filter (\<lambda>e. drop_bit 12 e = IMAGE_REL_BASED_HIGHLOW) es)"

definition reloc_targets :: "addr \<Rightarrow> reloc_block list \<Rightarrow> addr list" where
  "reloc_targets base bs = concat (map (\<lambda>b. targets base (blk_va b) (blk_entries b)) bs)"

text \<open>Every entry is of this type, or padding (\<open>IMAGE_REL_BASED_ABSOLUTE\<close>).\<close>

definition plain_entries :: "u16 list \<Rightarrow> bool" where
  "plain_entries es \<longleftrightarrow> (\<forall>e\<in>set es. drop_bit 12 e = IMAGE_REL_BASED_HIGHLOW \<or> drop_bit 12 e = 0)"

definition add32 :: "u32 \<Rightarrow> mem \<Rightarrow> addr \<Rightarrow> mem" where
  "add32 off m t = write32 m t (read32 m t + off)"

lemma apart_tail_right: "apart p n q (i + k) \<Longrightarrow> apart p n (q + word_of_nat i) k"
  unfolding apart_def
proof (intro allI impI)
  fix x j assume *: "\<forall>x<n. \<forall>j<i + k. p + word_of_nat x \<noteq> q + word_of_nat j" "x < n" "j < k"
  then have "p + word_of_nat x \<noteq> q + word_of_nat (i + j)" using nat_add_left_cancel_less by blast
  then show "p + word_of_nat x \<noteq> q + word_of_nat i + word_of_nat j" by (simp add: add.assoc)
qed

lemma foldl_add32_outside:
  "(\<forall>t\<in>set ts. \<not> in_range t 4 a) \<Longrightarrow> foldl (add32 off) m ts a = m a"
  by (induction ts arbitrary: m) (simp_all add: add32_def write32_apply)

lemma foldl_add32_apart:
  assumes "\<forall>t\<in>set ts. apart t 4 q n" "in_range q n a"
  shows "foldl (add32 off) m ts a = m a"
  using assms by (intro foldl_add32_outside) (auto dest: apart_outside)

lemma foldl_add32_adds:
  assumes "sorted_wrt (\<lambda>s t. apart s 4 t 4) ts" "t \<in> set ts"
  shows "read32 (foldl (add32 off) m ts) t = read32 m t + off"
  using assms
proof (induction ts arbitrary: m)
  case (Cons u us)
  show ?case
  proof (cases "t \<in> set us")
    case True
    then have "apart u 4 t 4" using Cons.prems(1) by simp
    then have "read32 (add32 off m u) t = read32 m t"
      by (intro read32_cong) (simp add: add32_def write32_apply apart_sym [of u] apart_notin)
    then show ?thesis using Cons True by simp
  next
    case False
    then have "t = u" using Cons.prems(2) by simp
    have "read32 (foldl (add32 off) (add32 off m u) us) u = read32 (add32 off m u) u"
      using Cons.prems(1) by (intro read32_cong foldl_add32_apart [of us u 4]) (auto simp: apart_sym in_range_offset)
    also have "\<dots> = read32 m u + off" by (simp add: add32_def)
    finally show ?thesis using \<open>t = u\<close> by simp
  qed
qed simp

text \<open>The table is read while the image is changed; it stands where no target is.\<close>

lemma block_at_cong:
  assumes "block_at m q b" "block_size b \<le> 2 ^ 32" "\<And>a. in_range q (block_size b) a \<Longrightarrow> m' a = m a"
  shows "block_at m' q b"
proof -
  have *: "m' (q + word_of_nat i) = m (q + word_of_nat i)" if "i < block_size b" for i
    using that assms(2,3) in_range_offset by blast
  have "read32 m' (q + word_of_nat j) = read32 m (q + word_of_nat j)" if "j + 4 \<le> block_size b" for j
    using read32_cong_range [of q "block_size b" m' m j] that assms(2,3) by blast
  from this [of 0] this [of 4] have "read32 m' q = read32 m q" "read32 m' (q + 4) = read32 m (q + 4)"
    by (simp_all add: block_size_def)
  moreover have "read16 m' (q + 8 + 2 * word_of_nat k) = read16 m (q + 8 + 2 * word_of_nat k)"
    if "k < length (blk_entries b)" for k
    using * [of "8 + 2 * k"] * [of "9 + 2 * k"] that by (simp add: block_size_def read16_def add.assoc)
  ultimately show ?thesis using assms(1) by (simp add: block_at_def)
qed

lemma relocs_at_cong:
  "relocs_at m q bs \<Longrightarrow> table_size bs \<le> 2 ^ 32 \<Longrightarrow> (\<And>a. in_range q (table_size bs) a \<Longrightarrow> m' a = m a) \<Longrightarrow>
     relocs_at m' q bs"
proof (induction bs arbitrary: q)
  case Nil
  then show ?case using read32_cong [of m' q m] by (simp add: in_range_offset)
next
  case (Cons b bs)
  have tail: "m' a = m a" if tail: "in_range (q + word_of_nat (block_size b)) (table_size bs) a" for a
  proof -
    obtain i where i: "i < table_size bs" "a = q + word_of_nat (block_size b) + word_of_nat i"
      using in_range_ex [OF tail] by blast
    then have "in_range q (table_size (b # bs)) (q + word_of_nat (block_size b + i))"
      using Cons.prems(2) by (intro in_range_offset) simp_all
    then show ?thesis using i Cons.prems(3) by (simp add: add.assoc)
  qed
  have "in_range q (table_size (b # bs)) a" if "in_range q (block_size b) a" for a
    using that by (simp add: in_range_def)
  then have "block_at m' q b" using Cons.prems block_at_cong [of m q b m'] by simp
  moreover have "relocs_at m' (q + word_of_nat (block_size b)) bs" using Cons.prems tail by (intro Cons.IH) simp_all
  ultimately show ?case by simp
qed

lemma reloc_entry_plain:
  assumes "drop_bit 12 e = IMAGE_REL_BASED_HIGHLOW \<or> drop_bit 12 e = 0"
  shows "reloc_entry fr io off e (entry_target base va e) m d = Some (foldl (add32 off) m (targets base va [e]), d)"
  using assms
  by (auto simp: reloc_entry_def Let_def targets_def add32_def IMAGE_REL_BASED_HIGHLOW_def IMAGE_REL_BASED_HIGH_def
      IMAGE_REL_BASED_LOW_def IMAGE_REL_BASED_DIR32_def)

lemma targets_Cons: "targets base va (e # es) = targets base va [e] @ targets base va es"
  by (simp add: targets_def)

lemma reloc_entries_plain:
  assumes "block_at m q b" "block_size b < 2 ^ 32" "plain_entries (blk_entries b)"
    and "\<forall>t\<in>set (targets base (blk_va b) (blk_entries b)). apart t 4 q (block_size b)" "k \<le> length (blk_entries b)"
  shows "reloc_entries fr io off base q (word_of_nat (length (blk_entries b))) (word_of_nat k) m d =
    Some (foldl (add32 off) m (targets base (blk_va b) (drop k (blk_entries b))), d)"
  using assms(1,5)
proof (induction "length (blk_entries b) - k" arbitrary: k m)
  case 0
  then show ?case by (subst reloc_entries.simps) (simp add: targets_def)
next
  case (Suc n)
  let ?es = "blk_entries b"
  have k: "k < length ?es" "length ?es < 2 ^ 32" using Suc.hyps(2) assms(2) by (simp_all add: block_size_def)
  let ?m = "foldl (add32 off) m (targets base (blk_va b) [?es ! k])"
  have plain: "drop_bit 12 (?es ! k) = IMAGE_REL_BASED_HIGHLOW \<or> drop_bit 12 (?es ! k) = 0"
    using assms(3) k by (auto simp: plain_entries_def)
  have "\<forall>t\<in>set (targets base (blk_va b) [?es ! k]). apart t 4 q (block_size b)"
    using assms(4) k by (auto simp: targets_def)
  then have "block_at ?m q b"
    using assms(2) by (intro block_at_cong [OF Suc.prems(1)] foldl_add32_apart) simp_all
  then have IH: "reloc_entries fr io off base q (word_of_nat (length ?es)) (word_of_nat (Suc k)) ?m d =
      Some (foldl (add32 off) ?m (targets base (blk_va b) (drop (Suc k) ?es)), d)"
    using Suc.hyps(2) k by (intro Suc.hyps(1)) simp_all
  have less: "(word_of_nat k :: u32) < word_of_nat (length ?es)"
    using k by (simp add: word_less_nat_alt unat_word_of_nat)
  have rd: "read16 m (q + 8 + 2 * word_of_nat k) = ?es ! k" "read32 m q = blk_va b"
    using Suc.prems(1) k by (simp_all add: block_at_def)
  have "reloc_entries fr io off base q (word_of_nat (length ?es)) (word_of_nat k) m d =
      reloc_entries fr io off base q (word_of_nat (length ?es)) (word_of_nat k + 1) ?m d"
    using reloc_entry_plain [OF plain, of fr io off base "blk_va b" m d]
    by (subst reloc_entries.simps) (simp only: less if_True Let_def rd entry_target_def option.case prod.case)
  also have "\<dots> = Some (foldl (add32 off) ?m (targets base (blk_va b) (drop (Suc k) ?es)), d)"
    using IH by (simp add: add.commute)
  also have "foldl (add32 off) ?m (targets base (blk_va b) (drop (Suc k) ?es)) = foldl (add32 off) m (targets base (blk_va b) (drop k ?es))"
    using k targets_Cons [of base "blk_va b" "?es ! k" "drop (Suc k) ?es"] by (simp only: Cons_nth_drop_Suc foldl_append)
  finally show ?case .
qed

text \<open>The walk over the blocks ends, at the block whose page is 0.\<close>

definition relocatable :: "mem \<Rightarrow> addr \<Rightarrow> addr \<Rightarrow> reloc_block list \<Rightarrow> bool" where
  "relocatable m base q bs \<longleftrightarrow> relocs_at m q bs \<and> table_size bs \<le> 2 ^ 31 \<and> (\<forall>b\<in>set bs. plain_entries (blk_entries b)) \<and>
     (\<forall>t\<in>set (reloc_targets base bs). apart t 4 q (table_size bs))"

lemma reloc_blocks_plain:
  "relocatable m base q bs \<Longrightarrow>
     reloc_blocks fr io off base q m d = Some (foldl (add32 off) m (reloc_targets base bs), d)"
proof (induction bs arbitrary: q m)
  case Nil
  then show ?case by (subst reloc_blocks.simps) (simp add: relocatable_def reloc_targets_def)
next
  case (Cons b bs)
  let ?ts = "targets base (blk_va b) (blk_entries b)" and ?n = "block_size b"
  let ?m = "foldl (add32 off) m ?ts"
  have at: "block_at m q b" and small: "?n + table_size bs \<le> 2 ^ 31" and rest: "relocs_at m (q + word_of_nat ?n) bs"
    and apart: "\<forall>t\<in>set ?ts \<union> set (reloc_targets base bs). apart t 4 q (?n + table_size bs)"
    and plain: "plain_entries (blk_entries b)" "\<forall>b\<in>set bs. plain_entries (blk_entries b)"
    using Cons.prems by (auto simp: relocatable_def reloc_targets_def)
  have "\<forall>t\<in>set ?ts. apart t 4 q ?n" using apart by (auto intro: apart_mono)
  then have entries: "reloc_entries fr io off base q (word_of_nat (length (blk_entries b))) 0 m d = Some (?m, d)"
    using reloc_entries_plain [OF at _ plain(1), of base 0 fr io off d] small by simp
  have head: "block_at ?m q b"
    using at small apart by (intro block_at_cong [OF at] foldl_add32_apart) (auto intro: apart_mono)
  have "relocs_at ?m (q + word_of_nat ?n) bs"
    using rest small apart by (intro relocs_at_cong [OF rest] foldl_add32_apart) (auto intro: apart_tail_right)
  then have "relocatable ?m base (q + word_of_nat ?n) bs"
    using small apart plain by (auto simp: relocatable_def intro: apart_tail_right)
  note IH = Cons.IH [OF this]
  have num: "(word_of_nat ?n - 8 :: u32) div 2 = word_of_nat (length (blk_entries b))"
  proof -
    have "(word_of_nat ?n - 8 :: u32) = word_of_nat (2 * length (blk_entries b))" by (simp add: block_size_def)
    then show ?thesis using small by (simp add: block_size_def word_unat_eq_iff unat_div unat_of_nat take_bit_nat_eq_self_iff del: of_nat_mult)
  qed
  have "reloc_blocks fr io off base q m d = reloc_blocks fr io off base (q + word_of_nat ?n) ?m d"
    using at head by (subst reloc_blocks.simps) (simp add: block_at_def num entries)
  with IH show ?case by (simp add: reloc_targets_def)
qed

text \<open>C10: \<open>LdrRelocMemory\<close> returns, and adds to every 32-bit word that an entry of the relocation table
  names the difference between the address the image was loaded at and its preferred base, and changes
  nothing else: provided the table has only entries of type \<open>IMAGE_REL_BASED_HIGHLOW\<close> and padding, the words
  do not overlap one another, and none overlaps the table.\<close>

theorem LdrRelocMemory_relocates:
  assumes "relocatable m base (base + read32 m (read32 m (p + 276))) bs"
    and "sorted_wrt (\<lambda>s t. apart s 4 t 4) (reloc_targets base bs)"
  shows "\<exists>m'. LdrRelocMemory fr io m p base d = map_option (Pair m') (DbgPrint io m (msg_reloc fr) [] d) \<and>
    (\<forall>t\<in>set (reloc_targets base bs). read32 m' t = read32 m t + (base - read32 m (p + 248))) \<and>
    (\<forall>a. (\<forall>t\<in>set (reloc_targets base bs). \<not> in_range t 4 a) \<longrightarrow> m' a = m a)"
proof (intro exI conjI ballI allI impI)
  let ?m = "foldl (add32 (base - read32 m (p + 248))) m (reloc_targets base bs)"
  show "LdrRelocMemory fr io m p base d = map_option (Pair ?m) (DbgPrint io m (msg_reloc fr) [] d)"
    by (cases "DbgPrint io m (msg_reloc fr) [] d") (simp_all add: LdrRelocMemory_def Let_def reloc_blocks_plain [OF assms(1)])
  show "read32 ?m t = read32 m t + (base - read32 m (p + 248))" if "t \<in> set (reloc_targets base bs)" for t
    using foldl_add32_adds [OF assms(2) that] .
  show "?m a = m a" if "\<forall>t\<in>set (reloc_targets base bs). \<not> in_range t 4 a" for a
    using foldl_add32_outside [OF that] .
qed

text \<open>An image at 0x10000 whose preferred base is 0x4000: one block for page 0x1000, with the entries
  0x3004, 0x3008 and a padding.\<close>

definition example_relocs :: "reloc_block list" where
  "example_relocs = [\<lparr>blk_va = 0x1000, blk_entries = [0x3004, 0x3008, 0]\<rparr>]"

definition example_image :: mem where
  "example_image = (\<lambda>_. 0)(249 := 0x40, 277 := 0x06, 0x601 := 0x20, 0x12001 := 0x10, 0x12004 := 14,
     0x12008 := 4, 0x12009 := 0x30, 0x1200A := 8, 0x1200B := 0x30, 0x11005 := 0x41, 0x11008 := 0x10, 0x11009 := 0x42)"

lemma example_image_reads:
  "read32 example_image 248 = 0x4000" "read32 example_image 276 = 0x600" "read32 example_image 0x600 = 0x2000"
  "read32 example_image 0x12000 = 0x1000" "read32 example_image 0x12004 = 14" "read32 example_image 0x1200E = 0"
  "read16 example_image 0x12008 = 0x3004" "read16 example_image 0x1200A = 0x3008" "read16 example_image 0x1200C = 0"
  "read32 example_image 0x11004 = 0x4100" "read32 example_image 0x11008 = 0x4210"
  by (simp_all add: example_image_def read16_def read32_def)

lemma example_targets: "reloc_targets 0x10000 example_relocs = [0x11004, 0x11008]"
  by (simp add: reloc_targets_def targets_def entry_target_def example_relocs_def IMAGE_REL_BASED_HIGHLOW_def)

lemma example_relocatable: "relocatable example_image 0x10000 0x12000 example_relocs"
proof -
  have "apart (0x11004 :: addr) 4 0x12000 18" "apart (0x11008 :: addr) 4 0x12000 18"
    using low_apart [of "0x11004" 4 "0x12000" 18] low_apart [of "0x11008" 4 "0x12000" 18] by simp_all
  then show ?thesis unfolding relocatable_def example_targets
    by (auto simp: example_relocs_def block_at_def block_size_def plain_entries_def example_image_reads less_Suc_eq
        IMAGE_REL_BASED_HIGHLOW_def)
qed

theorem LdrRelocMemory_relocates_witness:
  "\<forall>fr. \<exists>m'. LdrRelocMemory fr example_machine example_image 0 0x10000 (0, []) =
       map_option (Pair m') (DbgPrint example_machine example_image (msg_reloc fr) [] (0, [])) \<and>
     read32 m' 0x11004 = 0x10100 \<and> read32 m' 0x11008 = 0x10210 \<and> m' 0x12008 = 4"
proof
  fix fr :: loader_frame
  have "apart (0x11004 :: addr) 4 0x11008 4" using low_apart [of "0x11004" 4 "0x11008" 4] by simp
  then have "sorted_wrt (\<lambda>s t. apart s 4 t 4) (reloc_targets 0x10000 example_relocs)" by (simp add: example_targets)
  moreover have "relocatable example_image 0x10000 (0x10000 + read32 example_image (read32 example_image (0 + 276))) example_relocs"
    using example_relocatable by (simp add: example_image_reads)
  ultimately obtain m' where m': "LdrRelocMemory fr example_machine example_image 0 0x10000 (0, []) =
       map_option (Pair m') (DbgPrint example_machine example_image (msg_reloc fr) [] (0, []))"
    and added: "\<forall>t\<in>set (reloc_targets 0x10000 example_relocs).
      read32 m' t = read32 example_image t + (0x10000 - read32 example_image (0 + 248))"
    and same: "\<forall>a. (\<forall>t\<in>set (reloc_targets 0x10000 example_relocs). \<not> in_range t 4 a) \<longrightarrow> m' a = example_image a"
    using LdrRelocMemory_relocates [of example_image "0x10000" 0 example_relocs fr example_machine "(0, [])"] by blast
  have "m' 0x12008 = example_image 0x12008" using same by (simp add: example_targets in_range_def)
  then show "\<exists>m'. LdrRelocMemory fr example_machine example_image 0 0x10000 (0, []) =
       map_option (Pair m') (DbgPrint example_machine example_image (msg_reloc fr) [] (0, [])) \<and>
     read32 m' 0x11004 = 0x10100 \<and> read32 m' 0x11008 = 0x10210 \<and> m' 0x12008 = 4"
    using m' added by (intro exI [of _ m']) (simp add: example_targets example_image_reads, simp add: example_image_def)
qed

end
