(* ===== verification/Layout.thy ===== *)
theory Layout
  imports Memory
begin

text \<open>
  The layout of the C structures: a structure is the list of its members with their sizes and
  alignments, in the order of the declaration; a member stands at the first offset after the one
  before it that its alignment divides, and the whole is padded to the largest alignment. A packed
  structure has members of alignment 1. The structures are those of \<^verbatim>\<open>init/loader.c\<close>, \<^verbatim>\<open>ke/base.h\<close>,
  \<^verbatim>\<open>ke/task\<close>, \<^verbatim>\<open>ke/fs\<close>, \<^verbatim>\<open>ke/disk\<close>, \<^verbatim>\<open>ke/idt\<close>, \<^verbatim>\<open>ke/gdt\<close> and \<^verbatim>\<open>ntdll.c\<close>; bit fields are the bits of the
  integer they are packed into. The other theories read members at the offsets proved here.
\<close>

section \<open>Structures\<close>

type_synonym c_type = "nat \<times> nat"
type_synonym c_struct = "(string \<times> c_type) list"

definition c_char :: c_type where "c_char = (1, 1)"
definition c_short :: c_type where "c_short = (2, 2)"
definition c_long :: c_type where "c_long = (4, 4)"
definition c_quad :: c_type where "c_quad = (8, 8)"

definition c_array :: "nat \<Rightarrow> c_type \<Rightarrow> c_type" where
  "c_array n t = (n * fst t, snd t)"

definition packed :: "c_struct \<Rightarrow> c_struct" where
  "packed = map (\<lambda>(f, n, a). (f, n, 1))"

definition align_up :: "nat \<Rightarrow> nat \<Rightarrow> nat" where
  "align_up n a = (n + a - 1) div a * a"

fun field_offsets :: "nat \<Rightarrow> c_struct \<Rightarrow> (string \<times> nat) list" where
  "field_offsets n [] = []"
| "field_offsets n ((f, k, a) # s) = (f, align_up n a) # field_offsets (align_up n a + k) s"

fun fields_end :: "nat \<Rightarrow> c_struct \<Rightarrow> nat" where
  "fields_end n [] = n"
| "fields_end n ((f, k, a) # s) = fields_end (align_up n a + k) s"

definition c_align :: "c_struct \<Rightarrow> nat" where
  "c_align s = foldr (\<lambda>(f, n, a). max a) s 1"

definition c_sizeof :: "c_struct \<Rightarrow> nat" where
  "c_sizeof s = align_up (fields_end 0 s) (c_align s)"

definition c_struct_type :: "c_struct \<Rightarrow> c_type" where
  "c_struct_type s = (c_sizeof s, c_align s)"

definition field :: "c_struct \<Rightarrow> string \<Rightarrow> nat" where
  "field s f = (case map_of (field_offsets 0 s) f of Some n \<Rightarrow> n | None \<Rightarrow> c_sizeof s)"

definition offset :: "c_struct \<Rightarrow> string \<Rightarrow> addr" where
  "offset s f = word_of_nat (field s f)"

named_theorems offsets \<open>the offsets of members and the sizes of structures, evaluated\<close>

lemmas c_type_defs = c_char_def c_short_def c_long_def c_quad_def c_array_def c_struct_type_def

text \<open>Evaluation, one structure at a time: the sizes of structures within others come from \<open>offsets\<close>.\<close>

lemma c_sizeof_Cons: "c_sizeof (x # s) = align_up (fields_end 0 (x # s)) (c_align (x # s))"
  by (simp add: c_sizeof_def)

lemma c_align_list: "c_align [] = 1" "c_align ((f, n, a) # s) = max a (c_align s)"
  by (simp_all add: c_align_def)

lemmas layout_simps = c_sizeof_Cons c_align_list c_type_defs packed_def align_up_def

lemmas offset_simps = offset_def field_def layout_simps

section \<open>Members do not overlap\<close>

definition well_aligned :: "c_struct \<Rightarrow> bool" where
  "well_aligned s \<longleftrightarrow> (\<forall>(f, n, a) \<in> set s. 0 < a)"

lemma align_up_ge: "0 < a \<Longrightarrow> n \<le> align_up n a"
proof -
  assume "0 < a"
  then have "n + a - 1 < (n + a - 1) div a * a + a"
    using div_mult_mod_eq [of "n + a - 1" a] mod_less_divisor [of a "n + a - 1"] by linarith
  then show ?thesis using \<open>0 < a\<close> by (simp add: align_up_def)
qed

lemma align_up_dvd: "a dvd align_up n a"
  by (simp add: align_up_def)

lemma fields_end_ge: "well_aligned s \<Longrightarrow> n \<le> fields_end n s"
proof (induction n s rule: fields_end.induct)
  case (2 n f k a s)
  then have "n \<le> align_up n a" "align_up n a + k \<le> fields_end (align_up n a + k) s"
    by (simp_all add: well_aligned_def align_up_ge)
  then show ?case by simp
qed simp

text \<open>A member starts at a multiple of its alignment, after the members before it and before those
  after it, and ends within the structure.\<close>

lemma field_offsets_bounds:
  "well_aligned s \<Longrightarrow> map_of (field_offsets n s) f = Some i \<Longrightarrow> map_of s f = Some (k, a) \<Longrightarrow>
    n \<le> i \<and> i + k \<le> fields_end n s \<and> a dvd i"
proof (induction n s rule: field_offsets.induct)
  case (2 n g l b s)
  have wa: "well_aligned s" "0 < b" using "2.prems"(1) by (simp_all add: well_aligned_def)
  show ?case
  proof (cases "f = g")
    case True
    then have "i = align_up n b" "k = l" "a = b" using "2.prems" by simp_all
    then show ?thesis using align_up_ge [OF wa(2)] align_up_dvd fields_end_ge [OF wa(1)] by simp
  next
    case False
    then show ?thesis using 2 wa align_up_ge [OF wa(2), of n] by fastforce
  qed
qed simp

lemma field_offsets_disjoint:
  "well_aligned s \<Longrightarrow> distinct (map fst s) \<Longrightarrow> f \<noteq> g \<Longrightarrow>
    map_of (field_offsets n s) f = Some i \<Longrightarrow> map_of s f = Some (k, a) \<Longrightarrow>
    map_of (field_offsets n s) g = Some j \<Longrightarrow> map_of s g = Some (l, b) \<Longrightarrow> i + k \<le> j \<or> j + l \<le> i"
proof (induction n s rule: field_offsets.induct)
  case (2 n h l' b' s)
  have wa: "well_aligned s" using "2.prems"(1) by (simp add: well_aligned_def)
  note bounds = field_offsets_bounds [OF wa, of "align_up n b' + l'"]
  show ?case
  proof (cases "f = h \<or> g = h")
    case True
    then show ?thesis using "2.prems" bounds by (auto split: if_splits)
  next
    case False
    then show ?thesis using 2 wa by simp
  qed
qed simp

lemma field_offsets_domain: "map_of s f \<noteq> None \<Longrightarrow> map_of (field_offsets n s) f \<noteq> None"
  by (induction n s rule: field_offsets.induct) auto

text \<open>So two members of a structure occupy different bytes.\<close>

lemma fields_apart:
  assumes "well_aligned s" "distinct (map fst s)" "f \<noteq> g" "map_of s f = Some (k, a)" "map_of s g = Some (l, b)"
    and "fields_end 0 s < 2 ^ 32"
  shows "apart (p + offset s f) k (p + offset s g) l"
proof -
  obtain i j where ij: "map_of (field_offsets 0 s) f = Some i" "map_of (field_offsets 0 s) g = Some j"
    using assms(4,5) field_offsets_domain [of s _ 0] by (metis not_None_eq)
  have sep: "i + k \<le> j \<or> j + l \<le> i" by (rule field_offsets_disjoint [OF assms(1-3) ij(1) assms(4) ij(2) assms(5)])
  have "i + k < 2 ^ 32" "j + l < 2 ^ 32"
    using field_offsets_bounds [OF assms(1) ij(1) assms(4)] field_offsets_bounds [OF assms(1) ij(2) assms(5)] assms(6) by simp_all
  then have "(word_of_nat (i + x) :: u32) \<noteq> word_of_nat (j + y)" if "x < k" "y < l" for x y
    using sep that by (subst word_of_nat_inject_u32) auto
  then have "p + word_of_nat i + word_of_nat x \<noteq> p + word_of_nat j + word_of_nat y" if "x < k" "y < l" for x y
    using that by (simp add: add.assoc)
  then show ?thesis using ij by (simp add: apart_def offset_def field_def)
qed


text \<open>Two members at \<open>a\<close> and \<open>b\<close> of a structure are apart if their distance is enough, both ways.\<close>

lemma far_not_in_range:
  fixes a b :: addr
  assumes "word_of_nat n \<le> b - a" "word_of_nat k \<le> a - b" "i < k" "n < 2 ^ 31" "k < 2 ^ 31"
  shows "\<not> in_range (p + a) n (p + b + word_of_nat i)"
proof -
  have n: "unat (word_of_nat n :: u32) = n" "unat (word_of_nat k :: u32) = k" "unat (word_of_nat i :: u32) = i"
    using assms by (auto intro!: unat_word_of_nat)
  have le: "n \<le> unat (b - a)" "k \<le> unat (a - b)" using assms(1,2) by (simp_all add: word_le_nat_alt n)
  have "unat (b - a + word_of_nat i) = unat (b - a) + i"
  proof (cases "b = a")
    case False
    then have "unat (a - b) = 2 ^ 32 - unat (b - a)"
      using unat_u32 [of a] unat_u32 [of b] by (auto simp: unat_sub_if' word_unat_eq_iff)
    then have "unat (b - a) + i < 2 ^ 32" using le assms(3) by linarith
    then show ?thesis by (simp add: unat_word_ariths n)
  qed (use n in simp)
  moreover have d: "p + b + word_of_nat i - (p + a) = b - a + word_of_nat i" by simp
  ultimately show ?thesis using le unfolding in_range_def d by linarith
qed

lemma write16_outside: "\<not> in_range p 2 a \<Longrightarrow> write16 m p v a = m a"
  by (rule write16_apply) (auto simp: in_range_def)

lemma read32_write_apart:
  fixes a b :: addr
  shows "4 \<le> b - a \<Longrightarrow> 4 \<le> a - b \<Longrightarrow> read32 (write32 m (p + a) v) (p + b) = read32 m (p + b)"
    and "2 \<le> b - a \<Longrightarrow> 4 \<le> a - b \<Longrightarrow> read32 (write16 m (p + a) u) (p + b) = read32 m (p + b)"
proof -
  show "4 \<le> b - a \<Longrightarrow> 4 \<le> a - b \<Longrightarrow> read32 (write32 m (p + a) v) (p + b) = read32 m (p + b)"
    using far_not_in_range [of 4 b a 4] by (intro read32_other) simp
  show "2 \<le> b - a \<Longrightarrow> 4 \<le> a - b \<Longrightarrow> read32 (write16 m (p + a) u) (p + b) = read32 m (p + b)"
    using far_not_in_range [of 2 b a 4 _ p] by (intro read32_cong write16_outside) simp
qed

lemma read16_cong:
  assumes "\<And>i. i < 2 \<Longrightarrow> m' (p + word_of_nat i) = m (p + word_of_nat i)"
  shows "read16 m' p = read16 m p"
  using assms [of 0] assms [of 1] by (simp add: read16_def)

lemma read16_write_apart:
  fixes a b :: addr
  shows "4 \<le> b - a \<Longrightarrow> 2 \<le> a - b \<Longrightarrow> read16 (write32 m (p + a) v) (p + b) = read16 m (p + b)"
    and "2 \<le> b - a \<Longrightarrow> 2 \<le> a - b \<Longrightarrow> read16 (write16 m (p + a) u) (p + b) = read16 m (p + b)"
proof -
  show "4 \<le> b - a \<Longrightarrow> 2 \<le> a - b \<Longrightarrow> read16 (write32 m (p + a) v) (p + b) = read16 m (p + b)"
    using far_not_in_range [of 4 b a 2] by (intro read16_cong write32_apply) simp
  show "2 \<le> b - a \<Longrightarrow> 2 \<le> a - b \<Longrightarrow> read16 (write16 m (p + a) u) (p + b) = read16 m (p + b)"
    using far_not_in_range [of 2 b a 2 _ p] by (intro read16_cong write16_outside) simp
qed

lemma apart_part:
  assumes "apart p n q k" "unat a + n' \<le> n" "unat b + k' \<le> k"
  shows "apart (p + a) n' (q + b) k'"
  unfolding apart_def
proof (intro allI impI)
  fix i j assume "i < n'" "j < k'"
  then have "p + word_of_nat (unat a + i) \<noteq> q + word_of_nat (unat b + j)" using assms(2,3) by (intro apartD [OF assms(1)]) simp_all
  then show "p + a + word_of_nat i \<noteq> q + b + word_of_nat j" by (simp add: add.assoc)
qed

text \<open>What lies outside a structure lies outside its members.\<close>

lemma member_outside:
  assumes "\<not> in_range p n x" "unat a + k \<le> n" "n \<le> 2 ^ 32"
  shows "\<not> in_range (p + a) k x"
proof
  assume "in_range (p + a) k x"
  then obtain i where "i < k" "x = p + a + word_of_nat i" using in_range_ex by blast
  then have "x = p + word_of_nat (unat a + i)" "unat a + i < n" using assms(2) by (simp_all add: add.assoc)
  then show False using assms(1,3) in_range_offset [of n "unat a + i" p] by simp
qed

section \<open>The program image: loader.c\<close>

definition IMAGE_DOS_HEADER :: c_struct where
  "IMAGE_DOS_HEADER =
    [(''e_magic'', c_short), (''e_cblp'', c_short), (''e_cp'', c_short), (''e_crlc'', c_short),
     (''e_cparhdr'', c_short), (''e_minalloc'', c_short), (''e_maxalloc'', c_short), (''e_ss'', c_short),
     (''e_sp'', c_short), (''e_csum'', c_short), (''e_ip'', c_short), (''e_cs'', c_short),
     (''e_lfarlc'', c_short), (''e_ovno'', c_short), (''e_res'', c_array 4 c_short), (''e_oemid'', c_short),
     (''e_oeminfo'', c_short), (''e_res2'', c_array 10 c_short), (''e_lfanew'', c_long)]"

definition IMAGE_FILE_HEADER :: c_struct where
  "IMAGE_FILE_HEADER =
    [(''Machine'', c_short), (''NumberOfSections'', c_short), (''TimeDateStamp'', c_long),
     (''PointerToSymbolTable'', c_long), (''NumberOfSymbols'', c_long), (''SizeOfOptionalHeader'', c_short),
     (''Characteristics'', c_short)]"

definition IMAGE_DATA_DIRECTORY :: c_struct where
  "IMAGE_DATA_DIRECTORY =
    [(''VirtualAddress'', c_long), (''Size'', c_long)]"

definition IMAGE_OPTIONAL_HEADER :: c_struct where
  "IMAGE_OPTIONAL_HEADER =
    [(''Magic'', c_short), (''MajorLinkerVersion'', c_char), (''MinorLinkerVersion'', c_char),
     (''SizeOfCode'', c_long), (''SizeOfInitializedData'', c_long), (''SizeOfUninitializedData'', c_long),
     (''AddressOfEntryPoint'', c_long), (''BaseOfCode'', c_long), (''BaseOfData'', c_long),
     (''ImageBase'', c_long), (''SectionAlignment'', c_long), (''FileAlignment'', c_long),
     (''MajorOperatingSystemVersion'', c_short), (''MinorOperatingSystemVersion'', c_short),
     (''MajorImageVersion'', c_short), (''MinorImageVersion'', c_short),
     (''MajorSubsystemVersion'', c_short), (''MinorSubsystemVersion'', c_short), (''Reserved1'', c_long),
     (''SizeOfImage'', c_long), (''SizeOfHeaders'', c_long), (''CheckSum'', c_long),
     (''Subsystem'', c_short), (''DllCharacteristics'', c_short), (''SizeOfStackReserve'', c_long),
     (''SizeOfStackCommit'', c_long), (''SizeOfHeapReserve'', c_long), (''SizeOfHeapCommit'', c_long),
     (''LoaderFlags'', c_long), (''NumberOfRvaAndSizes'', c_long),
     (''DataDirectory'', c_array 16 (c_struct_type IMAGE_DATA_DIRECTORY))]"

definition IMAGE_NT_HEADERS :: c_struct where
  "IMAGE_NT_HEADERS =
    [(''Signature'', c_long), (''FileHeader'', c_struct_type IMAGE_FILE_HEADER),
     (''OptionalHeader'', c_struct_type IMAGE_OPTIONAL_HEADER)]"

text \<open>The union of \<open>PhysicalAddress\<close> and \<open>VirtualSize\<close> is the one member \<open>Misc\<close>.\<close>

definition IMAGE_SECTION_HEADER :: c_struct where
  "IMAGE_SECTION_HEADER =
    [(''Name'', c_array 8 c_char), (''Misc'', c_long), (''VirtualAddress'', c_long), (''SizeOfRawData'', c_long),
     (''PointerToRawData'', c_long), (''PointerToRelocations'', c_long), (''PointerToLinenumbers'', c_long),
     (''NumberOfRelocations'', c_short), (''NumberOfLinenumbers'', c_short), (''Characteristics'', c_long)]"

definition PEImageFileProcessed :: c_struct where
  "PEImageFileProcessed =
    [(''FileHeader'', c_struct_type IMAGE_FILE_HEADER),
     (''OptionalHeader'', c_struct_type IMAGE_OPTIONAL_HEADER), (''IsDll'', c_long),
     (''ImageBase'', c_long), (''SizeOfImage'', c_long), (''AddressOfEntryPointOffset'', c_long),
     (''NumOfSections'', c_short), (''SectionHeaderFirst'', c_long), (''pDataDirectoryExport'', c_long),
     (''pDataDirectoryImport'', c_long), (''pDataDirectoryReloc'', c_long),
     (''pDataDirectoryException'', c_long)]"

definition IMAGE_BASE_RELOCATION :: c_struct where
  "IMAGE_BASE_RELOCATION =
    [(''VirtualAddress'', c_long), (''SizeOfBlock'', c_long)]"

section \<open>The kernel\<close>

text \<open>Two unions have a member each: \<open>shared\<close>, the extended header, and the pointer \<open>item\<close>.\<close>

definition UNICODE_STRING :: c_struct where
  "UNICODE_STRING =
    [(''Length'', c_short), (''MaximumLength'', c_short), (''Buffer'', c_long)]"

definition OBJECT_ATTRIBUTES :: c_struct where
  "OBJECT_ATTRIBUTES =
    [(''Length'', c_long), (''RootDirectory'', c_long), (''ObjectName'', c_long), (''Attributes'', c_long),
     (''SecurityDescriptor'', c_long), (''SecurityQualityOfService'', c_long)]"

definition gdt_struct :: c_struct where
  "gdt_struct =
    [(''segment'', c_short), (''base_first'', c_short), (''base'', c_char), (''access'', c_char),
     (''high_flags'', c_char), (''base_24_31_bits'', c_char)]"

definition gdt_structured_struct :: c_struct where
  "gdt_structured_struct =
    [(''base'', c_long), (''limit'', c_long), (''type'', c_char)]"

definition idt_desc_struct :: c_struct where
  "idt_desc_struct =
    packed [(''offset_1'', c_short), (''selector'', c_short), (''zero'', c_char), (''type_attr'', c_char),
     (''offset_2'', c_short)]"

definition idtr_desc_struct :: c_struct where
  "idtr_desc_struct =
    packed [(''limit'', c_short), (''base'', c_long)]"

definition tss_struct :: c_struct where
  "tss_struct =
    packed [(''link'', c_long), (''esp0'', c_long), (''ss0'', c_long), (''esp1'', c_long), (''esp2'', c_long),
     (''ss2'', c_long), (''sr3'', c_long), (''eip'', c_long), (''eflags'', c_long), (''eax'', c_long),
     (''ecx'', c_long), (''edx'', c_long), (''ebx'', c_long), (''esp'', c_long), (''ebp'', c_long),
     (''esi'', c_long), (''edi'', c_long), (''es'', c_long), (''cs'', c_long), (''ss'', c_long),
     (''ds'', c_long), (''fs'', c_long), (''gs'', c_long), (''ldtr'', c_long), (''iopb'', c_long)]"

definition registers_struct :: c_struct where
  "registers_struct =
    [(''edi'', c_long), (''esi'', c_long), (''ebp'', c_long), (''ebx'', c_long), (''edx'', c_long),
     (''ecx'', c_long), (''eax'', c_long), (''ip'', c_long), (''cs'', c_long), (''flags'', c_long),
     (''esp'', c_long), (''ss'', c_long)]"

definition task_struct :: c_struct where
  "task_struct =
    [(''page_directory'', c_long), (''registers'', c_struct_type registers_struct), (''process'', c_long),
     (''next'', c_long), (''prev'', c_long)]"

definition process_struct :: c_struct where
  "process_struct =
    [(''id'', c_short), (''filename'', c_array 108 c_char), (''task'', c_long),
     (''allocations'', c_array 1024 c_long), (''ptr'', c_long), (''stack'', c_long), (''size'', c_long)]"

definition path_root_struct :: c_struct where
  "path_root_struct =
    [(''drive_no'', c_long), (''first'', c_long)]"

definition path_part_struct :: c_struct where
  "path_part_struct =
    [(''part'', c_long), (''next'', c_long)]"

definition filesystem_struct :: c_struct where
  "filesystem_struct =
    [(''resolve'', c_long), (''open'', c_long), (''read'', c_long), (''name'', c_array 20 c_char)]"

definition file_descriptor_struct :: c_struct where
  "file_descriptor_struct =
    [(''index'', c_long), (''filesystem'', c_long), (''private'', c_long), (''disk'', c_long)]"

definition disk_struct :: c_struct where
  "disk_struct =
    [(''type'', c_long), (''sector_size'', c_long), (''id'', c_long), (''filesystem'', c_long),
     (''fs_private'', c_long)]"

definition disk_stream_struct :: c_struct where
  "disk_stream_struct =
    [(''pos'', c_long), (''disk'', c_long)]"

definition fat_header_extended_struct :: c_struct where
  "fat_header_extended_struct =
    packed [(''drive_number'', c_char), (''win_nt_bit'', c_char), (''signature'', c_char), (''volume_id'', c_long),
     (''volume_id_string'', c_array 11 c_char), (''system_id_string'', c_array 8 c_char)]"

definition fat_header_struct :: c_struct where
  "fat_header_struct =
    packed [(''short_jmp_ins'', c_array 3 c_char), (''oem_identifier'', c_array 8 c_char),
     (''bytes_per_sector'', c_short), (''sectors_per_cluster'', c_char), (''reserved_sectors'', c_short),
     (''fat_copies'', c_char), (''root_dir_entries'', c_short), (''number_of_sectors'', c_short),
     (''media_type'', c_char), (''sectors_per_fat'', c_short), (''sectors_per_track'', c_short),
     (''number_of_heads'', c_short), (''hidden_setors'', c_long), (''sectors_big'', c_long)]"

definition fat_h_struct :: c_struct where
  "fat_h_struct =
    [(''primary_header'', c_struct_type fat_header_struct),
     (''shared'', c_struct_type fat_header_extended_struct)]"

definition fat_directory_item_struct :: c_struct where
  "fat_directory_item_struct =
    packed [(''filename'', c_array 8 c_char), (''ext'', c_array 3 c_char), (''attribute'', c_char),
     (''reserved'', c_char), (''creation_time_tenths_of_a_sec'', c_char), (''creation_time'', c_short),
     (''creation_date'', c_short), (''last_access'', c_short), (''high_16_bits_first_cluster'', c_short),
     (''last_mod_time'', c_short), (''last_mod_date'', c_short), (''low_16_bits_first_cluster'', c_short),
     (''filesize'', c_long)]"

definition fat_directory_struct :: c_struct where
  "fat_directory_struct =
    [(''item'', c_long), (''total'', c_long), (''sector_pos'', c_long), (''ending_sector_pos'', c_long)]"

definition fat_item_struct :: c_struct where
  "fat_item_struct =
    [(''item'', c_long), (''type'', c_long)]"

definition fat_file_descriptor_struct :: c_struct where
  "fat_file_descriptor_struct =
    [(''item'', c_long), (''pos'', c_long)]"

definition fat_private_struct :: c_struct where
  "fat_private_struct =
    [(''header'', c_struct_type fat_h_struct), (''root_directory'', c_struct_type fat_directory_struct),
     (''cluster_read_stream'', c_long), (''fat_read_stream'', c_long), (''directory_stream'', c_long)]"

section \<open>Offsets\<close>

lemma size_IMAGE_DOS_HEADER [offsets]: "c_sizeof IMAGE_DOS_HEADER = 64" "c_align IMAGE_DOS_HEADER = 4"
  by (simp_all add: IMAGE_DOS_HEADER_def layout_simps offsets)

lemma offset_IMAGE_DOS_HEADER [offsets]:
  "offset IMAGE_DOS_HEADER ''e_lfanew'' = 60"
  by (simp_all add: IMAGE_DOS_HEADER_def offset_simps offsets)

lemma size_IMAGE_FILE_HEADER [offsets]: "c_sizeof IMAGE_FILE_HEADER = 20" "c_align IMAGE_FILE_HEADER = 4"
  by (simp_all add: IMAGE_FILE_HEADER_def layout_simps offsets)

lemma offset_IMAGE_FILE_HEADER [offsets]:
  "offset IMAGE_FILE_HEADER ''NumberOfSections'' = 2"
  "offset IMAGE_FILE_HEADER ''SizeOfOptionalHeader'' = 16"
  "offset IMAGE_FILE_HEADER ''Characteristics'' = 18"
  by (simp_all add: IMAGE_FILE_HEADER_def offset_simps offsets)

lemma size_IMAGE_DATA_DIRECTORY [offsets]: "c_sizeof IMAGE_DATA_DIRECTORY = 8" "c_align IMAGE_DATA_DIRECTORY = 4"
  by (simp_all add: IMAGE_DATA_DIRECTORY_def layout_simps offsets)

lemma offset_IMAGE_DATA_DIRECTORY [offsets]:
  "offset IMAGE_DATA_DIRECTORY ''VirtualAddress'' = 0"
  by (simp_all add: IMAGE_DATA_DIRECTORY_def offset_simps offsets)

lemma size_IMAGE_OPTIONAL_HEADER [offsets]: "c_sizeof IMAGE_OPTIONAL_HEADER = 224" "c_align IMAGE_OPTIONAL_HEADER = 4"
  by (simp_all add: IMAGE_OPTIONAL_HEADER_def layout_simps offsets)

lemma offset_IMAGE_OPTIONAL_HEADER [offsets]:
  "offset IMAGE_OPTIONAL_HEADER ''AddressOfEntryPoint'' = 16"
  "offset IMAGE_OPTIONAL_HEADER ''ImageBase'' = 28"
  "offset IMAGE_OPTIONAL_HEADER ''SizeOfImage'' = 56"
  "offset IMAGE_OPTIONAL_HEADER ''DataDirectory'' = 96"
  by (simp_all add: IMAGE_OPTIONAL_HEADER_def offset_simps offsets)

lemma size_IMAGE_NT_HEADERS [offsets]: "c_sizeof IMAGE_NT_HEADERS = 248" "c_align IMAGE_NT_HEADERS = 4"
  by (simp_all add: IMAGE_NT_HEADERS_def layout_simps offsets)

lemma offset_IMAGE_NT_HEADERS [offsets]:
  "offset IMAGE_NT_HEADERS ''FileHeader'' = 4"
  "offset IMAGE_NT_HEADERS ''OptionalHeader'' = 24"
  by (simp_all add: IMAGE_NT_HEADERS_def offset_simps offsets)

lemma size_IMAGE_SECTION_HEADER [offsets]: "c_sizeof IMAGE_SECTION_HEADER = 40" "c_align IMAGE_SECTION_HEADER = 4"
  by (simp_all add: IMAGE_SECTION_HEADER_def layout_simps offsets)

lemma offset_IMAGE_SECTION_HEADER [offsets]:
  "offset IMAGE_SECTION_HEADER ''VirtualAddress'' = 12"
  "offset IMAGE_SECTION_HEADER ''SizeOfRawData'' = 16"
  "offset IMAGE_SECTION_HEADER ''PointerToRawData'' = 20"
  by (simp_all add: IMAGE_SECTION_HEADER_def offset_simps offsets)

lemma size_PEImageFileProcessed [offsets]: "c_sizeof PEImageFileProcessed = 284" "c_align PEImageFileProcessed = 4"
  by (simp_all add: PEImageFileProcessed_def layout_simps offsets)

lemma offset_PEImageFileProcessed [offsets]:
  "offset PEImageFileProcessed ''FileHeader'' = 0"
  "offset PEImageFileProcessed ''OptionalHeader'' = 20"
  "offset PEImageFileProcessed ''IsDll'' = 244"
  "offset PEImageFileProcessed ''ImageBase'' = 248"
  "offset PEImageFileProcessed ''SizeOfImage'' = 252"
  "offset PEImageFileProcessed ''AddressOfEntryPointOffset'' = 256"
  "offset PEImageFileProcessed ''NumOfSections'' = 260"
  "offset PEImageFileProcessed ''SectionHeaderFirst'' = 264"
  "offset PEImageFileProcessed ''pDataDirectoryExport'' = 268"
  "offset PEImageFileProcessed ''pDataDirectoryImport'' = 272"
  "offset PEImageFileProcessed ''pDataDirectoryReloc'' = 276"
  "offset PEImageFileProcessed ''pDataDirectoryException'' = 280"
  by (simp_all add: PEImageFileProcessed_def offset_simps offsets)

lemma size_IMAGE_BASE_RELOCATION [offsets]: "c_sizeof IMAGE_BASE_RELOCATION = 8" "c_align IMAGE_BASE_RELOCATION = 4"
  by (simp_all add: IMAGE_BASE_RELOCATION_def layout_simps offsets)

lemma offset_IMAGE_BASE_RELOCATION [offsets]:
  "offset IMAGE_BASE_RELOCATION ''VirtualAddress'' = 0"
  "offset IMAGE_BASE_RELOCATION ''SizeOfBlock'' = 4"
  by (simp_all add: IMAGE_BASE_RELOCATION_def offset_simps offsets)

lemma size_UNICODE_STRING [offsets]: "c_sizeof UNICODE_STRING = 8" "c_align UNICODE_STRING = 4"
  by (simp_all add: UNICODE_STRING_def layout_simps offsets)

lemma offset_UNICODE_STRING [offsets]:
  "offset UNICODE_STRING ''Length'' = 0"
  "offset UNICODE_STRING ''MaximumLength'' = 2"
  "offset UNICODE_STRING ''Buffer'' = 4"
  by (simp_all add: UNICODE_STRING_def offset_simps offsets)

lemma size_OBJECT_ATTRIBUTES [offsets]: "c_sizeof OBJECT_ATTRIBUTES = 24" "c_align OBJECT_ATTRIBUTES = 4"
  by (simp_all add: OBJECT_ATTRIBUTES_def layout_simps offsets)

lemma offset_OBJECT_ATTRIBUTES [offsets]:
  "offset OBJECT_ATTRIBUTES ''ObjectName'' = 8"
  by (simp_all add: OBJECT_ATTRIBUTES_def offset_simps offsets)

lemma size_gdt [offsets]: "c_sizeof gdt_struct = 8" "c_align gdt_struct = 2"
  by (simp_all add: gdt_struct_def layout_simps offsets flip: numeral_2_eq_2)

lemma offset_gdt [offsets]:
  "offset gdt_struct ''segment'' = 0"
  "offset gdt_struct ''base_24_31_bits'' = 7"
  by (simp_all add: gdt_struct_def offset_simps offsets)

lemma size_gdtured [offsets]: "c_sizeof gdt_structured_struct = 12" "c_align gdt_structured_struct = 4"
  by (simp_all add: gdt_structured_struct_def layout_simps offsets)

lemma offset_gdtured [offsets]:
  "offset gdt_structured_struct ''base'' = 0"
  "offset gdt_structured_struct ''limit'' = 4"
  "offset gdt_structured_struct ''type'' = 8"
  by (simp_all add: gdt_structured_struct_def offset_simps offsets)

lemma size_idt_desc [offsets]: "c_sizeof idt_desc_struct = 8" "c_align idt_desc_struct = 1"
  by (simp_all add: idt_desc_struct_def layout_simps offsets)

lemma offset_idt_desc [offsets]:
  "offset idt_desc_struct ''type_attr'' = 5"
  "offset idt_desc_struct ''offset_2'' = 6"
  by (simp_all add: idt_desc_struct_def offset_simps offsets)

lemma size_idtr_desc [offsets]: "c_sizeof idtr_desc_struct = 6" "c_align idtr_desc_struct = 1"
  by (simp_all add: idtr_desc_struct_def layout_simps offsets)

lemma offset_idtr_desc [offsets]:
  "offset idtr_desc_struct ''base'' = 2"
  by (simp_all add: idtr_desc_struct_def offset_simps offsets)

lemma size_tss [offsets]: "c_sizeof tss_struct = 100" "c_align tss_struct = 1"
  by (simp_all add: tss_struct_def layout_simps offsets)

lemma offset_tss [offsets]:
  "offset tss_struct ''esp0'' = 4"
  "offset tss_struct ''ss0'' = 8"
  by (simp_all add: tss_struct_def offset_simps offsets)

lemma size_registers [offsets]: "c_sizeof registers_struct = 48" "c_align registers_struct = 4"
  by (simp_all add: registers_struct_def layout_simps offsets)

lemma offset_registers [offsets]:
  "offset registers_struct ''ip'' = 28"
  "offset registers_struct ''ss'' = 44"
  "offset registers_struct ''esp'' = 40"
  by (simp_all add: registers_struct_def offset_simps offsets)

lemma size_task [offsets]: "c_sizeof task_struct = 64" "c_align task_struct = 4"
  by (simp_all add: task_struct_def layout_simps offsets)

lemma offset_task [offsets]:
  "offset task_struct ''page_directory'' = 0"
  "offset task_struct ''registers'' = 4"
  "offset task_struct ''process'' = 52"
  "offset task_struct ''next'' = 56"
  "offset task_struct ''prev'' = 60"
  by (simp_all add: task_struct_def offset_simps offsets)

lemma size_process [offsets]: "c_sizeof process_struct = 4224" "c_align process_struct = 4"
  by (simp_all add: process_struct_def layout_simps offsets)

lemma offset_process [offsets]:
  "offset process_struct ''id'' = 0"
  "offset process_struct ''filename'' = 2"
  "offset process_struct ''task'' = 112"
  "offset process_struct ''ptr'' = 4212"
  "offset process_struct ''stack'' = 4216"
  "offset process_struct ''size'' = 4220"
  by (simp_all add: process_struct_def offset_simps offsets)

lemma size_path_root [offsets]: "c_sizeof path_root_struct = 8" "c_align path_root_struct = 4"
  by (simp_all add: path_root_struct_def layout_simps offsets)

lemma offset_path_root [offsets]:
  "offset path_root_struct ''drive_no'' = 0"
  "offset path_root_struct ''first'' = 4"
  by (simp_all add: path_root_struct_def offset_simps offsets)

lemma size_path_part [offsets]: "c_sizeof path_part_struct = 8" "c_align path_part_struct = 4"
  by (simp_all add: path_part_struct_def layout_simps offsets)

lemma offset_path_part [offsets]:
  "offset path_part_struct ''part'' = 0"
  "offset path_part_struct ''next'' = 4"
  by (simp_all add: path_part_struct_def offset_simps offsets)

lemma size_filesystem [offsets]: "c_sizeof filesystem_struct = 32" "c_align filesystem_struct = 4"
  by (simp_all add: filesystem_struct_def layout_simps offsets)

lemma offset_filesystem [offsets]:
  "offset filesystem_struct ''resolve'' = 0"
  "offset filesystem_struct ''open'' = 4"
  "offset filesystem_struct ''read'' = 8"
  by (simp_all add: filesystem_struct_def offset_simps offsets)

lemma size_file_descriptor [offsets]: "c_sizeof file_descriptor_struct = 16" "c_align file_descriptor_struct = 4"
  by (simp_all add: file_descriptor_struct_def layout_simps offsets)

lemma offset_file_descriptor [offsets]:
  "offset file_descriptor_struct ''index'' = 0"
  "offset file_descriptor_struct ''filesystem'' = 4"
  "offset file_descriptor_struct ''private'' = 8"
  "offset file_descriptor_struct ''disk'' = 12"
  by (simp_all add: file_descriptor_struct_def offset_simps offsets)

lemma size_disk [offsets]: "c_sizeof disk_struct = 20" "c_align disk_struct = 4"
  by (simp_all add: disk_struct_def layout_simps offsets)

lemma offset_disk [offsets]:
  "offset disk_struct ''sector_size'' = 4"
  "offset disk_struct ''id'' = 8"
  "offset disk_struct ''filesystem'' = 12"
  "offset disk_struct ''fs_private'' = 16"
  by (simp_all add: disk_struct_def offset_simps offsets)

lemma size_disk_stream [offsets]: "c_sizeof disk_stream_struct = 8" "c_align disk_stream_struct = 4"
  by (simp_all add: disk_stream_struct_def layout_simps offsets)

lemma offset_disk_stream [offsets]:
  "offset disk_stream_struct ''pos'' = 0"
  "offset disk_stream_struct ''disk'' = 4"
  by (simp_all add: disk_stream_struct_def offset_simps offsets)

lemma size_fat_header_extended [offsets]: "c_sizeof fat_header_extended_struct = 26" "c_align fat_header_extended_struct = 1"
  by (simp_all add: fat_header_extended_struct_def layout_simps offsets)

lemma offset_fat_header_extended [offsets]:
  "offset fat_header_extended_struct ''signature'' = 2"
  by (simp_all add: fat_header_extended_struct_def offset_simps offsets)

lemma size_fat_header [offsets]: "c_sizeof fat_header_struct = 36" "c_align fat_header_struct = 1"
  by (simp_all add: fat_header_struct_def layout_simps offsets)

lemma offset_fat_header [offsets]:
  "offset fat_header_struct ''sectors_per_cluster'' = 13"
  "offset fat_header_struct ''reserved_sectors'' = 14"
  "offset fat_header_struct ''fat_copies'' = 16"
  "offset fat_header_struct ''root_dir_entries'' = 17"
  "offset fat_header_struct ''sectors_per_fat'' = 22"
  by (simp_all add: fat_header_struct_def offset_simps offsets)

lemma size_fat_h [offsets]: "c_sizeof fat_h_struct = 62" "c_align fat_h_struct = 1"
  by (simp_all add: fat_h_struct_def layout_simps offsets)

lemma offset_fat_h [offsets]:
  "offset fat_h_struct ''shared'' = 36"
  by (simp_all add: fat_h_struct_def offset_simps offsets)

lemma size_fat_directory_item [offsets]: "c_sizeof fat_directory_item_struct = 32" "c_align fat_directory_item_struct = 1"
  by (simp_all add: fat_directory_item_struct_def layout_simps offsets)

lemma offset_fat_directory_item [offsets]:
  "offset fat_directory_item_struct ''ext'' = 8"
  "offset fat_directory_item_struct ''attribute'' = 11"
  "offset fat_directory_item_struct ''high_16_bits_first_cluster'' = 20"
  "offset fat_directory_item_struct ''low_16_bits_first_cluster'' = 26"
  "offset fat_directory_item_struct ''filesize'' = 28"
  by (simp_all add: fat_directory_item_struct_def offset_simps offsets)

lemma size_fat_directory [offsets]: "c_sizeof fat_directory_struct = 16" "c_align fat_directory_struct = 4"
  by (simp_all add: fat_directory_struct_def layout_simps offsets)

lemma offset_fat_directory [offsets]:
  "offset fat_directory_struct ''item'' = 0"
  "offset fat_directory_struct ''total'' = 4"
  "offset fat_directory_struct ''sector_pos'' = 8"
  "offset fat_directory_struct ''ending_sector_pos'' = 12"
  by (simp_all add: fat_directory_struct_def offset_simps offsets)

lemma size_fat_item [offsets]: "c_sizeof fat_item_struct = 8" "c_align fat_item_struct = 4"
  by (simp_all add: fat_item_struct_def layout_simps offsets)

lemma offset_fat_item [offsets]:
  "offset fat_item_struct ''item'' = 0"
  "offset fat_item_struct ''type'' = 4"
  by (simp_all add: fat_item_struct_def offset_simps offsets)

lemma size_fat_file_descriptor [offsets]: "c_sizeof fat_file_descriptor_struct = 8" "c_align fat_file_descriptor_struct = 4"
  by (simp_all add: fat_file_descriptor_struct_def layout_simps offsets)

lemma offset_fat_file_descriptor [offsets]:
  "offset fat_file_descriptor_struct ''item'' = 0"
  "offset fat_file_descriptor_struct ''pos'' = 4"
  by (simp_all add: fat_file_descriptor_struct_def offset_simps offsets)

lemma size_fat_private [offsets]: "c_sizeof fat_private_struct = 92" "c_align fat_private_struct = 4"
  by (simp_all add: fat_private_struct_def layout_simps offsets)

lemma offset_fat_private [offsets]:
  "offset fat_private_struct ''root_directory'' = 64"
  "offset fat_private_struct ''cluster_read_stream'' = 80"
  "offset fat_private_struct ''fat_read_stream'' = 84"
  "offset fat_private_struct ''directory_stream'' = 88"
  by (simp_all add: fat_private_struct_def offset_simps offsets)

end
