(* ===== verification/Image.thy ===== *)
theory Image
  imports Loader Layout
begin

text \<open>
  What \<open>LdrProcessPe\<close> of \<^verbatim>\<open>init/loader.c\<close> finds in the headers of a program, member by member of the
  structures of theory \<open>Layout\<close>, and that \<open>LdrCpySections\<close> copies the sections the file declares from there.
\<close>

section \<open>The processed headers\<close>

definition nt_headers :: "mem \<Rightarrow> addr \<Rightarrow> addr" where
  "nt_headers m f = f + read32 m (f + offset IMAGE_DOS_HEADER ''e_lfanew'')"

definition file_header :: "addr \<Rightarrow> string \<Rightarrow> addr" where
  "file_header nt g = nt + offset IMAGE_NT_HEADERS ''FileHeader'' + offset IMAGE_FILE_HEADER g"

definition optional_header :: "addr \<Rightarrow> string \<Rightarrow> addr" where
  "optional_header nt g = nt + offset IMAGE_NT_HEADERS ''OptionalHeader'' + offset IMAGE_OPTIONAL_HEADER g"

text \<open>The address of entry \<open>i\<close> of the array \<open>DataDirectory\<close>.\<close>

definition directory_entry :: "addr \<Rightarrow> nat \<Rightarrow> addr" where
  "directory_entry nt i = optional_header nt ''DataDirectory'' + word_of_nat (i * c_sizeof IMAGE_DATA_DIRECTORY)"

definition processed :: "addr \<Rightarrow> string \<Rightarrow> addr" where
  "processed p g = p + offset PEImageFileProcessed g"

lemmas image_offsets = nt_headers_def file_header_def optional_header_def directory_entry_def processed_def offsets

text \<open>\<open>m'\<close> has the structure at \<open>p\<close> filled in from the headers that \<open>m\<close> has at \<open>nt\<close>.\<close>

definition headers_processed :: "mem \<Rightarrow> mem \<Rightarrow> addr \<Rightarrow> addr \<Rightarrow> bool" where
  "headers_processed m m' nt p \<longleftrightarrow>
     bytes m' (processed p ''FileHeader'') (c_sizeof IMAGE_FILE_HEADER) = bytes m (nt + offset IMAGE_NT_HEADERS ''FileHeader'') (c_sizeof IMAGE_FILE_HEADER) \<and>
     bytes m' (processed p ''OptionalHeader'') (c_sizeof IMAGE_OPTIONAL_HEADER) =
       bytes m (nt + offset IMAGE_NT_HEADERS ''OptionalHeader'') (c_sizeof IMAGE_OPTIONAL_HEADER) \<and>
     (read32 m' (processed p ''IsDll'') \<noteq> 0 \<longleftrightarrow> read16 m (file_header nt ''Characteristics'') AND 0x2000 \<noteq> 0) \<and>
     read32 m' (processed p ''ImageBase'') = read32 m (optional_header nt ''ImageBase'') \<and>
     read32 m' (processed p ''SizeOfImage'') = read32 m (optional_header nt ''SizeOfImage'') \<and>
     read32 m' (processed p ''AddressOfEntryPointOffset'') = read32 m (optional_header nt ''AddressOfEntryPoint'') \<and>
     read16 m' (processed p ''NumOfSections'') = read16 m (file_header nt ''NumberOfSections'') \<and>
     read32 m' (processed p ''SectionHeaderFirst'') =
       nt + offset IMAGE_NT_HEADERS ''OptionalHeader'' + ucast (read16 m (file_header nt ''SizeOfOptionalHeader'')) \<and>
     read32 m' (processed p ''pDataDirectoryExport'') = directory_entry nt 0 \<and>
     read32 m' (processed p ''pDataDirectoryImport'') = directory_entry nt 1 \<and>
     read32 m' (processed p ''pDataDirectoryException'') = directory_entry nt 3 \<and>
     read32 m' (processed p ''pDataDirectoryReloc'') = directory_entry nt 5"

section \<open>LdrProcessPe\<close>

definition filled :: "mem \<Rightarrow> addr \<Rightarrow> addr \<Rightarrow> mem" where
  "filled m p nt =
     (let m = memcpy m p (nt + 4) 20;
          m = memcpy m (p + 20) (nt + 24) 224;
          m = write32 m (p + 244) (if read16 m (nt + 4 + 18) AND IMAGE_FILE_DLL \<noteq> 0 then 1 else 0);
          m = write32 m (p + 252) (read32 m (nt + 24 + 56));
          m = write32 m (p + 248) (read32 m (nt + 24 + 28));
          m = write32 m (p + 256) (read32 m (nt + 24 + 16));
          m = write16 m (p + 260) (read16 m (nt + 4 + 2));
          m = write32 m (p + 264) (IMAGE_FIRST_SECTION m nt);
          m = write32 m (p + 268) (data_directory nt IMAGE_DIRECTORY_ENTRY_EXPORT);
          m = write32 m (p + 272) (data_directory nt IMAGE_DIRECTORY_ENTRY_IMPORT);
          m = write32 m (p + 276) (data_directory nt IMAGE_DIRECTORY_ENTRY_BASERELOC)
      in write32 m (p + 280) (data_directory nt IMAGE_DIRECTORY_ENTRY_EXCEPTION))"

lemma LdrProcessPe_filled:
  "LdrProcessPe fr io m f p d = do {
     d \<leftarrow> DbgPrint io m (msg_process fr) [f, p] d;
     if read16 m (nt_headers m f + 22) AND 3 = 0
     then do { d \<leftarrow> DbgLog (log_lits fr) io m (msg_not_pe fr) LOG_ERROR d; Some (False, m, d) }
     else Some (True, filled m p (nt_headers m f), d)
   }"
proof -
  have "nt_headers m f = f + read32 m (f + 60)" by (simp add: image_offsets)
  then show ?thesis
    unfolding LdrProcessPe_def filled_def Let_def IMAGE_FILE_EXECUTABLE_IMAGE_def
    by (simp add: add.assoc cong: if_cong)
qed

text \<open>Filling the structure in does not disturb the headers.\<close>

lemma nt_write [simp]:
  assumes "apart p 284 nt 248"
  shows "unat a \<le> 280 \<Longrightarrow> unat b \<le> 244 \<Longrightarrow> read32 (write32 m (p + a) v) (nt + b) = read32 m (nt + b)"
    and "unat a \<le> 280 \<Longrightarrow> unat b \<le> 244 \<Longrightarrow> read16 (write32 m (p + a) v) (nt + b) = read16 m (nt + b)"
    and "unat a \<le> 280 \<Longrightarrow> unat b \<le> 244 \<Longrightarrow> read32 (write16 m (p + a) u) (nt + b) = read32 m (nt + b)"
    and "unat a \<le> 280 \<Longrightarrow> unat b \<le> 244 \<Longrightarrow> read16 (write16 m (p + a) u) (nt + b) = read16 m (nt + b)"
proof -
  have out: "\<not> in_range (p + a) n (nt + b + word_of_nat i)" if "unat a + n \<le> 284" "unat b + k \<le> 248" "i < k" for n k i
  proof -
    have "apart (nt + b) k (p + a) n" using apart_part [OF assms that(1,2)] by (simp add: apart_sym)
    then show ?thesis using that(3) by (rule apart_notin)
  qed
  show "unat a \<le> 280 \<Longrightarrow> unat b \<le> 244 \<Longrightarrow> read32 (write32 m (p + a) v) (nt + b) = read32 m (nt + b)"
    "unat a \<le> 280 \<Longrightarrow> unat b \<le> 244 \<Longrightarrow> read16 (write32 m (p + a) v) (nt + b) = read16 m (nt + b)"
    "unat a \<le> 280 \<Longrightarrow> unat b \<le> 244 \<Longrightarrow> read32 (write16 m (p + a) u) (nt + b) = read32 m (nt + b)"
    "unat a \<le> 280 \<Longrightarrow> unat b \<le> 244 \<Longrightarrow> read16 (write16 m (p + a) u) (nt + b) = read16 m (nt + b)"
    by (intro read32_cong read16_cong write32_apply write16_outside out; simp)+
qed

lemma memcpy_headers:
  assumes "apart p 284 nt 248" "unat a + unat n \<le> 284" "unat b + unat n \<le> 248"
  shows "memcpy m (p + a) (nt + b) n x = (if in_range (p + a) (unat n) x then m (nt + b + (x - (p + a))) else m x)"
proof (rule memcpy_apply)
  fix i j assume "i < unat n" "j < i"
  then show "p + a + word_of_nat j \<noteq> nt + b + word_of_nat i"
    using apartD [OF apart_part [OF assms], of j i] by simp
qed

lemma nt_memcpy:
  assumes "apart p 284 nt 248" "unat a + unat n \<le> 284" "unat b + unat n \<le> 248"
  shows "unat c + 4 \<le> 248 \<Longrightarrow> read32 (memcpy m (p + a) (nt + b) n) (nt + c) = read32 m (nt + c)"
    and "unat c + 2 \<le> 248 \<Longrightarrow> read16 (memcpy m (p + a) (nt + b) n) (nt + c) = read16 m (nt + c)"
proof -
  have out: "\<not> in_range (p + a) (unat n) (nt + c + word_of_nat i)" if "unat c + k \<le> 248" "i < k" for i k
  proof -
    have "apart (nt + c) k (p + a) (unat n)" using apart_part [OF assms(1,2) that(1)] by (simp add: apart_sym)
    then show ?thesis using that(2) by (rule apart_notin)
  qed
  show "unat c + 4 \<le> 248 \<Longrightarrow> read32 (memcpy m (p + a) (nt + b) n) (nt + c) = read32 m (nt + c)"
    by (intro read32_cong) (simp add: memcpy_headers [OF assms] out [of 4])
  show "unat c + 2 \<le> 248 \<Longrightarrow> read16 (memcpy m (p + a) (nt + b) n) (nt + c) = read16 m (nt + c)"
    by (intro read16_cong) (simp add: memcpy_headers [OF assms] out [of 2])
qed

lemma IMAGE_FIRST_SECTION_write [simp]:
  assumes "apart p 284 nt 248"
  shows "unat a \<le> 280 \<Longrightarrow> IMAGE_FIRST_SECTION (write32 m (p + a) v) nt = IMAGE_FIRST_SECTION m nt"
    and "unat a \<le> 280 \<Longrightarrow> IMAGE_FIRST_SECTION (write16 m (p + a) u) nt = IMAGE_FIRST_SECTION m nt"
  using nt_write(2,4) [OF assms, of a 20] by (simp_all add: IMAGE_FIRST_SECTION_def add.assoc)

text \<open>The structure, with every value read before anything was stored.\<close>

lemma filled_writes:
  assumes "apart p 284 nt 248"
  shows "filled m p nt =
     (let m0 = memcpy (memcpy m p (nt + 4) 20) (p + 20) (nt + 24) 224;
          m0 = write32 m0 (p + 244) (if read16 m (nt + 22) AND 0x2000 \<noteq> 0 then 1 else 0);
          m0 = write32 m0 (p + 252) (read32 m (nt + 80));
          m0 = write32 m0 (p + 248) (read32 m (nt + 52));
          m0 = write32 m0 (p + 256) (read32 m (nt + 40));
          m0 = write16 m0 (p + 260) (read16 m (nt + 6));
          m0 = write32 m0 (p + 264) (nt + 24 + ucast (read16 m (nt + 20)));
          m0 = write32 m0 (p + 268) (nt + 120);
          m0 = write32 m0 (p + 272) (nt + 128);
          m0 = write32 m0 (p + 276) (nt + 160)
      in write32 m0 (p + 280) (nt + 144))"
proof -
  have "memcpy m p (nt + 4) 20 = memcpy m (p + 0) (nt + 4) 20" by simp
  then show ?thesis
    using assms nt_memcpy [OF assms, of 0 20 4] nt_memcpy [OF assms, of 20 224 24]
    by (simp add: filled_def Let_def IMAGE_FILE_DLL_def data_directory_def IMAGE_DIRECTORY_ENTRY_EXPORT_def
        IMAGE_DIRECTORY_ENTRY_IMPORT_def IMAGE_DIRECTORY_ENTRY_BASERELOC_def IMAGE_DIRECTORY_ENTRY_EXCEPTION_def
        IMAGE_FIRST_SECTION_def add.assoc)
qed

lemma filled_members:
  assumes "apart p 284 nt 248"
  shows "read32 (filled m p nt) (p + 244) = (if read16 m (nt + 22) AND 0x2000 \<noteq> 0 then 1 else 0)"
    "read32 (filled m p nt) (p + 248) = read32 m (nt + 52)" "read32 (filled m p nt) (p + 252) = read32 m (nt + 80)"
    "read32 (filled m p nt) (p + 256) = read32 m (nt + 40)" "read16 (filled m p nt) (p + 260) = read16 m (nt + 6)"
    "read32 (filled m p nt) (p + 264) = nt + 24 + ucast (read16 m (nt + 20))"
    "read32 (filled m p nt) (p + 268) = nt + 120" "read32 (filled m p nt) (p + 272) = nt + 128"
    "read32 (filled m p nt) (p + 276) = nt + 160" "read32 (filled m p nt) (p + 280) = nt + 144"
  by (simp_all only: filled_writes [OF assms] Let_def, simp_all add: read32_write_apart read16_write_apart)

lemma write_struct_outside:
  assumes "\<not> in_range p 284 x"
  shows "unat a \<le> 280 \<Longrightarrow> write32 m (p + a) v x = m x" "unat a \<le> 280 \<Longrightarrow> write16 m (p + a) u x = m x"
  using member_outside [OF assms, of a 4] member_outside [OF assms, of a 2]
  by (auto intro: write32_apply write16_outside)

lemma write_struct_before:
  assumes "j < 244" "244 \<le> unat a" "unat a \<le> 280"
  shows "write32 m (p + a) v (p + word_of_nat j) = m (p + word_of_nat j)"
    and "write16 m (p + a) u (p + word_of_nat j) = m (p + word_of_nat j)"
proof -
  have "unat (word_of_nat j :: u32) = j" using assms(1) by (intro unat_word_of_nat) simp
  then have "280 < unat (word_of_nat j - a)" using assms by (simp add: unat_sub_if')
  moreover have "p + word_of_nat j - (p + a) = word_of_nat j - a" by simp
  ultimately have "\<not> in_range (p + a) k (p + word_of_nat j)" if "k \<le> 4" for k
    using that unfolding in_range_def by simp
  then show "write32 m (p + a) v (p + word_of_nat j) = m (p + word_of_nat j)"
    "write16 m (p + a) u (p + word_of_nat j) = m (p + word_of_nat j)"
    by (simp_all add: write32_apply write16_outside)
qed

text \<open>The copied headers, before the members that follow them, and the rest of the memory.\<close>

lemma filled_bytes:
  assumes "apart p 284 nt 248"
  shows "i < 20 \<Longrightarrow> filled m p nt (p + word_of_nat i) = m (nt + 4 + word_of_nat i)"
    and "i < 224 \<Longrightarrow> filled m p nt (p + 20 + word_of_nat i) = m (nt + 24 + word_of_nat i)"
    and "\<not> in_range p 284 x \<Longrightarrow> filled m p nt x = m x"
proof -
  let ?m1 = "memcpy m p (nt + 4) 20" and ?m2 = "memcpy (memcpy m p (nt + 4) 20) (p + 20) (nt + 24) 224"
  have m1: "?m1 x = (if in_range p 20 x then m (nt + 4 + (x - p)) else m x)" for x
    using memcpy_headers [OF assms, of 0 20 4] by simp
  have m2: "?m2 x = (if in_range (p + 20) 224 x then ?m1 (nt + 24 + (x - (p + 20))) else ?m1 x)" for x
    using memcpy_headers [OF assms, of 20 224 24] by simp
  have before: "filled m p nt (p + word_of_nat j) = ?m2 (p + word_of_nat j)" if "j < 244" for j
    using that by (simp add: filled_writes [OF assms] Let_def write_struct_before)
  have small: "unat (word_of_nat i :: u32) = i" if "i < 244" for i using that by (intro unat_word_of_nat) simp
  show "filled m p nt (p + word_of_nat i) = m (nt + 4 + word_of_nat i)" if "i < 20"
  proof -
    have "\<not> in_range (p + 20) 224 (p + word_of_nat i)" "in_range p 20 (p + word_of_nat i)"
      using that small [of i] by (simp_all add: in_range_def unat_sub_if')
    then show ?thesis using that by (simp add: before m1 m2)
  qed
  show "filled m p nt (p + 20 + word_of_nat i) = m (nt + 24 + word_of_nat i)" if "i < 224"
  proof -
    have "filled m p nt (p + word_of_nat (20 + i)) = ?m2 (p + word_of_nat (20 + i))" using that by (intro before) simp
    moreover have "in_range (p + 20) 224 (p + 20 + word_of_nat i)" using that by (intro in_range_offset) simp_all
    moreover have "\<not> in_range p 20 (nt + 24 + word_of_nat i)"
    proof -
      have "apart (nt + 24) 224 (p + 0) 20" using apart_part [OF assms, of 0 20 24 224] by (simp add: apart_sym)
      then show ?thesis using apart_notin [OF _ that] by simp
    qed
    ultimately show ?thesis by (simp add: m1 m2 add.assoc)
  qed
  show "filled m p nt x = m x" if x: "\<not> in_range p 284 x"
  proof -
    have "\<not> in_range p 20 x" "\<not> in_range (p + 20) 224 x"
      using member_outside [OF x, of 0 20] member_outside [OF x, of 20 224] by simp_all
    then have "?m2 x = m x" by (simp add: m1 m2)
    then show ?thesis using x by (simp add: filled_writes [OF assms] Let_def write_struct_outside)
  qed
qed

lemma filled_headers:
  assumes "apart p 284 nt 248"
  shows "headers_processed m (filled m p nt) nt p"
  unfolding headers_processed_def image_offsets
  using filled_bytes(1,2) [OF assms] filled_members [OF assms]
  by (auto simp: bytes_def add.assoc)

lemma processed_filled:
  assumes "apart p 284 (nt_headers m f) 248"
    and "read16 m (file_header (nt_headers m f) ''Characteristics'') AND 3 \<noteq> 0"
    and "DbgPrint io m (msg_process fr) [f, p] d = Some d'"
  shows "\<exists>m'. LdrProcessPe fr io m f p d = Some (True, m', d') \<and> headers_processed m m' (nt_headers m f) p \<and>
      (\<forall>a. \<not> in_range p 284 a \<longrightarrow> m' a = m a)"
  using filled_headers [OF assms(1), of m] filled_bytes(3) [OF assms(1), of _ m] assms(2)
  by (auto simp: LdrProcessPe_filled assms(3) file_header_def offsets add.assoc)

text \<open>C15: \<open>LdrProcessPe\<close> accepts a file whose characteristics have one of the bits 0 and 1, fills in every
  member of the structure from the headers the DOS header points to, and changes nothing else; any
  other file it refuses without a change to the memory.\<close>

theorem LdrProcessPe_describes:
  assumes "apart p (c_sizeof PEImageFileProcessed) (nt_headers m f) (c_sizeof IMAGE_NT_HEADERS)"
    and "DbgPrint io m (msg_process fr) [f, p] d = Some d'"
  shows "if read16 m (file_header (nt_headers m f) ''Characteristics'') AND 3 = 0
    then LdrProcessPe fr io m f p d = map_option (\<lambda>d. (False, m, d)) (DbgLog (log_lits fr) io m (msg_not_pe fr) 2 d')
    else \<exists>m'. LdrProcessPe fr io m f p d = Some (True, m', d') \<and> headers_processed m m' (nt_headers m f) p \<and>
      (\<forall>a. \<not> in_range p (c_sizeof PEImageFileProcessed) a \<longrightarrow> m' a = m a)"
proof -
  have apart: "apart p 284 (nt_headers m f) 248" using assms(1) by (simp add: offsets)
  show ?thesis
    using filled_headers [OF apart, of m] filled_bytes(3) [OF apart, of _ m]
    by (auto simp: LdrProcessPe_filled assms(2) file_header_def offsets add.assoc map_option_case LOG_ERROR_def split: option.splits)
qed

section \<open>From the file to the image\<close>

text \<open>The sections a file declares: the table follows the optional header.\<close>

definition section_table :: "mem \<Rightarrow> addr \<Rightarrow> addr" where
  "section_table m nt =
     nt + offset IMAGE_NT_HEADERS ''OptionalHeader'' + ucast (read16 m (file_header nt ''SizeOfOptionalHeader''))"

definition file_sections :: "mem \<Rightarrow> addr \<Rightarrow> pe_section list \<Rightarrow> bool" where
  "file_sections m nt secs \<longleftrightarrow> length secs < 2 ^ 15 \<and>
     read16 m (file_header nt ''NumberOfSections'') = word_of_nat (length secs) \<and>
     (\<forall>k<length secs. header_describes m (section_table m nt + 40 * word_of_nat k) (secs ! k))"

text \<open>The image at \<open>base\<close>, the structure at \<open>p\<close>, the section table and the file do not overlap.\<close>

definition load_regions :: "mem \<Rightarrow> addr \<Rightarrow> addr \<Rightarrow> addr \<Rightarrow> nat \<Rightarrow> nat \<Rightarrow> nat \<Rightarrow> bool" where
  "load_regions m f p base S F n \<longleftrightarrow>
     apart p 284 (nt_headers m f) 248 \<and> apart p 284 f F \<and> apart p 284 (section_table m (nt_headers m f)) (40 * n) \<and>
     apart base S f F \<and> apart base S p 284 \<and> apart base S (section_table m (nt_headers m f)) (40 * n)"

lemma processed_sections:
  assumes "headers_processed m m1 nt p" "file_sections m nt secs" "apart p 284 (section_table m nt) (40 * length secs)"
    and "\<And>a. \<not> in_range p 284 a \<Longrightarrow> m1 a = m a"
  shows "sections_at m1 p (section_table m nt) secs"
proof -
  let ?t = "section_table m nt" and ?n = "40 * length secs"
  have fields: "read16 m1 (p + 260) = word_of_nat (length secs)" "read32 m1 (p + 264) = ?t" and len: "length secs < 2 ^ 15"
    using assms(1,2) by (simp_all add: headers_processed_def file_sections_def section_table_def file_header_def processed_def offsets)
  have table: "m1 a = m a" if "in_range ?t ?n a" for a
    using assms(3) that by (intro assms(4)) (metis apart_outside)
  have h: "read32 m1 (?t + 40 * word_of_nat k + word_of_nat j) = read32 m (?t + 40 * word_of_nat k + word_of_nat j)"
    if "k < length secs" "j \<le> 36" for k j
    using read32_cong_range [of ?t ?n m1 m "40 * k + j", OF table] that len by (simp add: add.assoc)
  have "header_describes m1 (?t + 40 * word_of_nat k) (secs ! k)" if "k < length secs" for k
    using assms(2) that h [OF that, of 12] h [OF that, of 16] h [OF that, of 20]
    by (simp add: file_sections_def header_describes_def)
  then show ?thesis using fields len by (simp add: sections_at_def)
qed

text \<open>C3: the two steps of the loader together: from a valid file \<open>LdrProcessPe\<close> fills in the structure from
  which \<open>LdrCpySections\<close> copies every section that the file declares to its address in the image; nothing
  but the structure and the image changes.\<close>

theorem file_sections_loaded:
  assumes regions: "load_regions m f p base S F (length secs)"
    and "file_sections m (nt_headers m f) secs" "sections_fit S F secs" "sorted_wrt before_or_after secs"
    and valid: "read16 m (file_header (nt_headers m f) ''Characteristics'') AND 3 \<noteq> 0"
    and msg: "DbgPrint io m (msg_process fr) [f, p] d = Some d1"
  shows "\<exists>m1 m2. LdrProcessPe fr io m f p d = Some (True, m1, d1) \<and>
    LdrCpySections fr io m1 p f base d1 = map_option (Pair m2) (DbgPrint io m1 (msg_cpy fr) [p, f] d1) \<and>
    (\<forall>s\<in>set secs. section_copied m m2 f base s) \<and>
    (\<forall>a. \<not> in_range base S a \<and> \<not> in_range p 284 a \<longrightarrow> m2 a = m a)"
proof -
  note reg = regions [unfolded load_regions_def]
  have small: "S \<le> 2 ^ 31" "F \<le> 2 ^ 31" using assms(3) by (simp_all add: sections_fit_def)
  obtain m1 where m1: "LdrProcessPe fr io m f p d = Some (True, m1, d1)" "headers_processed m m1 (nt_headers m f) p"
    and outside: "\<And>a. \<not> in_range p 284 a \<Longrightarrow> m1 a = m a"
    using processed_filled [OF conjunct1 [OF reg] valid msg] by blast
  have at: "sections_at m1 p (section_table m (nt_headers m f)) secs"
    by (rule processed_sections [OF m1(2) assms(2) _ outside]) (use reg in simp_all)
  obtain m2 where m2: "LdrCpySections fr io m1 p f base d1 = map_option (Pair m2) (DbgPrint io m1 (msg_cpy fr) [p, f] d1)"
    "\<forall>s\<in>set secs. section_copied m1 m2 f base s" "\<forall>a. \<not> in_range base S a \<longrightarrow> m2 a = m1 a"
    using sections_copied [OF at assms(3,4), of base f fr io d1] reg by auto
  have "section_copied m m2 f base s" if "s \<in> set secs" for s
  proof -
    have "m1 (f + word_of_nat (sec_raw s + i)) = m (f + word_of_nat (sec_raw s + i))" if "i < sec_size s" for i
    proof (rule outside)
      have "sec_raw s + i < F" using sections_fitD [OF assms(3) \<open>s \<in> set secs\<close>] that by simp
      then show "\<not> in_range p 284 (f + word_of_nat (sec_raw s + i))"
        using reg apart_notin [of f F p 284 "sec_raw s + i"] by (simp add: apart_sym)
    qed
    then show ?thesis using m2(2) that by (simp add: section_copied_def)
  qed
  moreover have "\<forall>a. \<not> in_range base S a \<and> \<not> in_range p 284 a \<longrightarrow> m2 a = m a" using m2(3) outside by simp
  ultimately show ?thesis using m1(1) m2(1) by blast
qed

text \<open>A file at 0x8000 with its headers at 0x40, one section, a DLL of 0x3000 bytes.\<close>

definition example_file :: mem where
  "example_file = (\<lambda>_. 0)(0x803C := 0x40, 0x8046 := 1, 0x8056 := 2, 0x8057 := 0x20, 0x8091 := 0x30, 0x8054 := 0xE0)"

lemma example_nt: "nt_headers example_file 0x8000 = 0x8040"
  by (simp add: image_offsets example_file_def read32_def)

lemma example_file_reads:
  "read16 example_file 0x8056 = 0x2002" "read32 example_file 0x8090 = 0x3000" "read16 example_file 0x8054 = 0xE0"
  by (simp_all add: example_file_def read16_def read32_def)

lemma example_silent: "DbgPrint io example_file 0 args d = Some d"
  by (simp add: DbgPrint.simps example_file_def)

theorem LdrProcessPe_describes_witness:
  "\<exists>m'. LdrProcessPe example_frame example_machine example_file 0x8000 0x100 (0, []) = Some (True, m', (0, [])) \<and>
     read32 m' (processed 0x100 ''SizeOfImage'') = 0x3000 \<and> read32 m' (processed 0x100 ''SectionHeaderFirst'') = 0x8138 \<and>
     read32 m' (processed 0x100 ''IsDll'') \<noteq> 0"
proof -
  have "apart (0x100 :: addr) (c_sizeof PEImageFileProcessed) (nt_headers example_file 0x8000) (c_sizeof IMAGE_NT_HEADERS)"
    using low_apart [of "0x100" 284 "0x8040" 248] by (simp add: example_nt offsets)
  moreover have "DbgPrint example_machine example_file (msg_process example_frame) [0x8000, 0x100] (0, []) = Some (0, [])"
    using example_silent by (simp add: example_frame_def)
  ultimately obtain m' where "LdrProcessPe example_frame example_machine example_file 0x8000 0x100 (0, []) = Some (True, m', (0, []))"
    and "headers_processed example_file m' 0x8040 0x100"
    using LdrProcessPe_describes [of "0x100" example_file "0x8000" example_machine example_frame "(0, [])" "(0, [])"]
    by (auto simp: example_nt file_header_def offsets example_file_reads)
  then show ?thesis
    by (auto simp: headers_processed_def file_header_def optional_header_def offsets example_file_reads)
qed

text \<open>The same file with one section of 4 bytes at 0x200, to be copied to 0x1000 in the image.\<close>

definition example_load :: mem where
  "example_load = example_file(0x8145 := 0x10, 0x8148 := 4, 0x814D := 2, 0x8201 := 7)"

lemma example_load_reads:
  "nt_headers example_load 0x8000 = 0x8040" "read16 example_load 0x8046 = 1" "read16 example_load 0x8054 = 0xE0"
  "read16 example_load 0x8056 = 0x2002" "read32 example_load 0x8144 = 0x1000" "read32 example_load 0x8148 = 4"
  "read32 example_load 0x814C = 0x200"
  by (simp_all add: example_load_def example_file_def image_offsets read16_def read32_def)

theorem file_sections_loaded_witness:
  "\<exists>m1 m2. LdrProcessPe example_frame example_machine example_load 0x8000 0x100 (0, []) = Some (True, m1, (0, [])) \<and>
     LdrCpySections example_frame example_machine m1 0x100 0x8000 0x10000 (0, []) =
       map_option (Pair m2) (DbgPrint example_machine m1 0 [0x100, 0x8000] (0, [])) \<and> m2 0x11001 = 7"
proof -
  let ?s = "\<lparr>sec_va = 0x1000, sec_size = 4, sec_raw = 0x200\<rparr>"
  have "load_regions example_load 0x8000 0x100 0x10000 0x2000 0x400 (length [?s])"
    using low_apart [of "0x100" 284 "0x8040" 248] low_apart [of "0x100" 284 "0x8000" "0x400"] low_apart [of "0x100" 284 "0x8138" 40]
      low_apart [of "0x8000" "0x400" "0x10000" "0x2000"] low_apart [of "0x100" 284 "0x10000" "0x2000"]
      low_apart [of "0x8138" 40 "0x10000" "0x2000"]
    by (simp add: load_regions_def section_table_def file_header_def offsets example_load_reads apart_sym)
  moreover have "file_sections example_load (nt_headers example_load 0x8000) [?s]"
    by (simp add: file_sections_def section_table_def file_header_def offsets example_load_reads header_describes_def)
  moreover have "sections_fit 0x2000 0x400 [?s]" by (simp add: sections_fit_def)
  moreover have "DbgPrint example_machine example_load (msg_process example_frame) [0x8000, 0x100] (0, []) = Some (0, [])"
    by (simp add: DbgPrint.simps example_frame_def example_load_def example_file_def)
  moreover have "read16 example_load (file_header (nt_headers example_load 0x8000) ''Characteristics'') AND 3 \<noteq> 0"
    by (simp add: file_header_def offsets example_load_reads)
  ultimately obtain m1 m2 where run:
    "LdrProcessPe example_frame example_machine example_load 0x8000 0x100 (0, []) = Some (True, m1, (0, []))"
    "LdrCpySections example_frame example_machine m1 0x100 0x8000 0x10000 (0, []) =
       map_option (Pair m2) (DbgPrint example_machine m1 (msg_cpy example_frame) [0x100, 0x8000] (0, []))"
    and copied: "section_copied example_load m2 0x8000 0x10000 ?s"
    using file_sections_loaded [of example_load "0x8000" "0x100" "0x10000" "0x2000" "0x400" "[?s]" example_machine
        example_frame "(0, [])" "(0, [])"] by auto
  have "m2 0x11001 = example_load 0x8201" using copied by (auto simp: section_copied_def dest: spec [of _ 1])
  then show ?thesis using run by (intro exI [of _ m1] exI [of _ m2]) (simp add: example_frame_def example_load_def)
qed

end
