(* ===== verification/Console.thy ===== *)
theory Console
  imports Strings
begin

text \<open>
  The graphical console: \<open>PutPixel\<close> and \<open>FillRectangle\<close> of \<^verbatim>\<open>ke/graphics/graphics.c\<close>, the font
  and the cursor of \<^verbatim>\<open>init/kernel.c\<close>. The frame buffer is memory, four bytes to the pixel;
  \<open>fontdata\<close> is the address of the font file in memory.
\<close>

section \<open>State and operations\<close>

record console =
  nWidth :: u32
  nHeight :: u32
  screen_w :: u32
  screen_h :: u32
  frame_buffer :: addr
  global_cursor_x :: u32
  global_cursor_y :: u32
  fontdata :: addr

definition VdiSetScreenRes :: "console \<Rightarrow> u32 \<Rightarrow> u32 \<Rightarrow> console" where
  "VdiSetScreenRes c w h = c\<lparr>nWidth := w, nHeight := h\<rparr>"

definition PutPixel :: "console \<Rightarrow> mem \<Rightarrow> u32 \<Rightarrow> u32 \<Rightarrow> u32 \<Rightarrow> addr \<Rightarrow> mem" where
  "PutPixel c m x y color framebuffer = write32 m (framebuffer + 4 * (y * nWidth c + x)) color"

function fill_column :: "console \<Rightarrow> mem \<Rightarrow> u32 \<Rightarrow> u32 \<Rightarrow> u32 \<Rightarrow> u32 \<Rightarrow> addr \<Rightarrow> mem" where
  "fill_column c m i j j_end color buf =
     (if j < j_end then fill_column c (PutPixel c m i j color buf) i (j + 1) j_end color buf else m)"
  by pat_completeness auto
termination
  by (relation "measure (\<lambda>(c, m, i, j, j_end, color, buf). unat (j_end - j))") (auto simp: measure_up)

function fill_columns :: "console \<Rightarrow> mem \<Rightarrow> u32 \<Rightarrow> u32 \<Rightarrow> u32 \<Rightarrow> u32 \<Rightarrow> u32 \<Rightarrow> addr \<Rightarrow> mem" where
  "fill_columns c m i i_end y height color buf =
     (if i < i_end
      then fill_columns c (fill_column c m i y (y + height) color buf) (i + 1) i_end y height color buf
      else m)"
  by pat_completeness auto
termination
  by (relation "measure (\<lambda>(c, m, i, i_end, y, height, color, buf). unat (i_end - i))") (auto simp: measure_up)

declare fill_column.simps [simp del] fill_columns.simps [simp del]

definition FillRectangle :: "console \<Rightarrow> mem \<Rightarrow> u32 \<Rightarrow> u32 \<Rightarrow> u32 \<Rightarrow> u32 \<Rightarrow> u32 \<Rightarrow> addr \<Rightarrow> mem" where
  "FillRectangle c m x y width height color buf = fill_columns c m x (x + width) y height color buf"

definition ClearScreen :: "console \<Rightarrow> mem \<Rightarrow> mem" where
  "ClearScreen c m = FillRectangle c m 0 0 (screen_w c) (screen_h c) 0xFF0000FF (frame_buffer c)"

text \<open>The font is in PSF1 format: two magic bytes, a mode, the size of a glyph, and the glyphs.
  \<open>c * charsize\<close> is a product of \<open>int\<close>s, and the character is signed.\<close>

definition RenderChar :: "console \<Rightarrow> mem \<Rightarrow> u32 \<Rightarrow> u32 \<Rightarrow> u32 \<Rightarrow> addr \<Rightarrow> byte \<Rightarrow> mem" where
  "RenderChar con m x y color framebuffer c =
     (if m (fontdata con) \<noteq> 0x36 \<or> m (fontdata con + 1) \<noteq> 0x04 then m
      else
        let charsize = m (fontdata con + 3);
            glyph = fontdata con + 4 + scast c * ucast charsize
        in fold (\<lambda>row m.
             let line = m (glyph + word_of_nat row)
             in fold (\<lambda>col m.
                  if ucast line AND drop_bit col (0x80 :: u32) \<noteq> 0
                  then PutPixel con m (x + word_of_nat col) (y + word_of_nat row) color framebuffer
                  else m) [0..<8] m) [0..<16] m)"

partial_function (option) render_loop ::
    "console \<Rightarrow> u32 \<Rightarrow> u32 \<Rightarrow> addr \<Rightarrow> u32 \<Rightarrow> u32 \<Rightarrow> u32 \<Rightarrow> addr \<Rightarrow> mem \<Rightarrow> mem option" where
  "render_loop con x color framebuffer screen_width cursor_x cursor_y str m =
     (if m str \<noteq> 0
      then
        if m str = 10
        then render_loop con x color framebuffer screen_width x (cursor_y + 16) (str + 1) m
        else
          let m = RenderChar con m cursor_x cursor_y color framebuffer (m str);
              cursor_x = cursor_x + 8
          in if screen_width < cursor_x + 8
             then render_loop con x color framebuffer screen_width x (cursor_y + 16) (str + 1) m
             else render_loop con x color framebuffer screen_width cursor_x cursor_y (str + 1) m
      else Some m)"

definition RenderString :: "console \<Rightarrow> mem \<Rightarrow> u32 \<Rightarrow> u32 \<Rightarrow> u32 \<Rightarrow> addr \<Rightarrow> addr \<Rightarrow> u32 \<Rightarrow> mem option" where
  "RenderString con m x y color framebuffer str screen_width =
     render_loop con x color framebuffer screen_width x y str m"

text \<open>The character 8 is a backspace.\<close>

definition PrintChar :: "console \<Rightarrow> mem \<Rightarrow> byte \<Rightarrow> console \<times> mem" where
  "PrintChar con m str =
     (if str = 8
      then
        let con =
              (if 8 \<le> global_cursor_x con then con\<lparr>global_cursor_x := global_cursor_x con - 8\<rparr>
               else if 16 \<le> global_cursor_y con
               then con\<lparr>global_cursor_y := global_cursor_y con - 16, global_cursor_x := screen_w con - 8\<rparr>
               else con)
        in (con, fold (\<lambda>row m. fold (\<lambda>col m.
             PutPixel con m (global_cursor_x con + word_of_nat col) (global_cursor_y con + word_of_nat row)
               0xFF0000FF (frame_buffer con)) [0..<8] m) [0..<16] m)
      else
        let m = RenderChar con m (global_cursor_x con) (global_cursor_y con) 0xFFFFFFFF (frame_buffer con) str
        in if str = 10
           then (con\<lparr>global_cursor_x := 0, global_cursor_y := global_cursor_y con + 16\<rparr>, m)
           else
             let con = con\<lparr>global_cursor_x := global_cursor_x con + 8\<rparr>
             in if screen_w con < global_cursor_x con + 8
                then (con\<lparr>global_cursor_x := 0, global_cursor_y := global_cursor_y con + 16\<rparr>, m)
                else (con, m))"

partial_function (option) cursor_loop :: "mem \<Rightarrow> addr \<Rightarrow> console \<Rightarrow> console option" where
  "cursor_loop m str con =
     (if m str \<noteq> 0
      then
        if m str = 10
        then cursor_loop m (str + 1) (con\<lparr>global_cursor_x := 0, global_cursor_y := global_cursor_y con + 16\<rparr>)
        else
          let con = con\<lparr>global_cursor_x := global_cursor_x con + 8\<rparr>
          in if screen_w con < global_cursor_x con + 8
             then cursor_loop m (str + 1) (con\<lparr>global_cursor_x := 0, global_cursor_y := global_cursor_y con + 16\<rparr>)
             else cursor_loop m (str + 1) con
      else Some con)"

definition Print :: "console \<Rightarrow> mem \<Rightarrow> addr \<Rightarrow> (console \<times> mem) option" where
  "Print con m str = do {
     m \<leftarrow> RenderString con m (global_cursor_x con) (global_cursor_y con) 0xFFFFFFFF (frame_buffer con) str (screen_w con);
     con \<leftarrow> cursor_loop m str con;
     Some (con, m)
   }"

section \<open>The cursor\<close>

text \<open>The width is a positive multiple of 8, the cursor stands on a cell of 8 by 16 pixels of the
  grid, and the whole cell is inside the width.\<close>

definition on_grid :: "console \<Rightarrow> bool" where
  "on_grid c \<longleftrightarrow> unat (screen_w c) mod 8 = 0 \<and> unat (screen_w c) < 2 ^ 31 \<and> unat (global_cursor_x c) mod 8 = 0 \<and>
     unat (global_cursor_x c) + 8 \<le> unat (screen_w c) \<and> unat (global_cursor_y c) mod 16 = 0"

text \<open>The movement of the cursor, in pixels.\<close>

definition advance_cursor :: "nat \<Rightarrow> byte \<Rightarrow> nat \<times> nat \<Rightarrow> nat \<times> nat" where
  "advance_cursor w ch = (\<lambda>(x, y).
     if ch = 8 then if 8 \<le> x then (x - 8, y) else if 16 \<le> y then (w - 8, y - 16) else (x, y)
     else if ch = 10 then (0, y + 16)
     else if w < x + 16 then (0, y + 16) else (x + 8, y))"

definition cursor :: "console \<Rightarrow> nat \<times> nat" where
  "cursor c = (unat (global_cursor_x c), unat (global_cursor_y c))"

lemma unat_add_small: "unat v < 2 ^ 31 \<Longrightarrow> unat w < 2 ^ 31 \<Longrightarrow> unat (v + w) = unat v + unat w" for v w :: u32
  by (simp add: unat_word_ariths)

lemma PrintChar_cursor:
  assumes grid: "on_grid con" and y: "unat (global_cursor_y con) + 16 < 2 ^ 31" and run: "PrintChar con m ch = (con', m')"
  shows "cursor con' = advance_cursor (unat (screen_w con)) ch (cursor con) \<and> on_grid con' \<and> screen_w con' = screen_w con"
proof -
  let ?x = "unat (global_cursor_x con)" and ?y = "unat (global_cursor_y con)" and ?w = "unat (screen_w con)"
  have g: "?w mod 8 = 0" "?w < 2 ^ 31" "?x mod 8 = 0" "?x + 8 \<le> ?w" "?y mod 16 = 0"
    using grid by (simp_all add: on_grid_def)
  have x8: "unat (global_cursor_x con + 8) = ?x + 8" "unat (global_cursor_y con + 16) = ?y + 16"
    using g y by (subst unat_add_small; simp)+
  have x16: "unat (global_cursor_x con + 8 + 8) = ?x + 16"
    using g x8 by (subst unat_add_small; simp)
  have sub: "8 \<le> ?x \<Longrightarrow> unat (global_cursor_x con - 8) = ?x - 8" "16 \<le> ?y \<Longrightarrow> unat (global_cursor_y con - 16) = ?y - 16"
    "unat (screen_w con - 8) = ?w - 8"
    using g(4) by (simp_all add: unat_sub_if')
  have cmp: "8 \<le> global_cursor_x con \<longleftrightarrow> 8 \<le> ?x" "16 \<le> global_cursor_y con \<longleftrightarrow> 16 \<le> ?y"
    "screen_w con < global_cursor_x con + 8 + 8 \<longleftrightarrow> ?w < ?x + 16"
    using x16 by (simp_all add: word_le_nat_alt word_less_nat_alt)
  have m8: "(?x - 8) mod 8 = 0" "(?w - 8) mod 8 = 0" "(?x + 8) mod 8 = 0" "(?y - 16) mod 16 = 0" "(?y + 16) mod 16 = 0"
    using g by presburger+
  consider "ch = 8" | "ch = 10" | "ch \<noteq> 8" "ch \<noteq> 10" by blast
  then show ?thesis
  proof cases
    case 1
    have "con' = (if 8 \<le> global_cursor_x con then con\<lparr>global_cursor_x := global_cursor_x con - 8\<rparr>
        else if 16 \<le> global_cursor_y con
        then con\<lparr>global_cursor_y := global_cursor_y con - 16, global_cursor_x := screen_w con - 8\<rparr> else con)"
      using run 1 by (simp add: PrintChar_def Let_def)
    then have con': "con' = (if 8 \<le> ?x then con\<lparr>global_cursor_x := global_cursor_x con - 8\<rparr>
        else if 16 \<le> ?y
        then con\<lparr>global_cursor_y := global_cursor_y con - 16, global_cursor_x := screen_w con - 8\<rparr> else con)"
      unfolding cmp .
    consider "8 \<le> ?x" | "\<not> 8 \<le> ?x" "16 \<le> ?y" | "\<not> 8 \<le> ?x" "\<not> 16 \<le> ?y" by blast
    then show ?thesis
      by cases (use g 1 m8 in \<open>simp_all add: con' cursor_def advance_cursor_def on_grid_def sub\<close>)
  next
    case 2
    then show ?thesis
      using run g m8 unfolding PrintChar_def
      by (auto simp: Let_def cursor_def advance_cursor_def on_grid_def x8)
  next
    case 3
    have "con' = (if screen_w con < global_cursor_x con + 8 + 8
        then con\<lparr>global_cursor_x := 0, global_cursor_y := global_cursor_y con + 16\<rparr>
        else con\<lparr>global_cursor_x := global_cursor_x con + 8\<rparr>)"
      using run 3 by (simp add: PrintChar_def Let_def split: if_splits)
    then have con': "con' = (if ?w < ?x + 16
        then con\<lparr>global_cursor_x := 0, global_cursor_y := global_cursor_y con + 16\<rparr>
        else con\<lparr>global_cursor_x := global_cursor_x con + 8\<rparr>)" unfolding cmp .
    show ?thesis
    proof (cases "?w < ?x + 16")
      case True
      then show ?thesis using g 3 m8 by (simp add: con' cursor_def advance_cursor_def on_grid_def x8)
    next
      case False
      then show ?thesis using g 3 m8 by (simp add: con' cursor_def advance_cursor_def on_grid_def x8)
    qed
  qed
qed

lemma advance_cursor_backspace:
  assumes "w mod 8 = 0" "x mod 8 = 0" "x + 8 \<le> w" "ch \<noteq> 8" "ch \<noteq> 10"
  shows "advance_cursor w 8 (advance_cursor w ch (x, y)) = (x, y)"
proof (cases "w < x + 16")
  case True
  then have "x = w - 8" using assms(1-3) by presburger
  then show ?thesis using True assms by (simp add: advance_cursor_def)
qed (use assms in \<open>simp add: advance_cursor_def\<close>)

section \<open>Pixels\<close>

definition pixel :: "console \<Rightarrow> mem \<Rightarrow> addr \<Rightarrow> nat \<Rightarrow> nat \<Rightarrow> u32" where
  "pixel c m buf x y = read32 m (buf + 4 * word_of_nat (y * unat (nWidth c) + x))"

lemma read32_write32_nat:
  assumes "i < 2 ^ 30" "j < 2 ^ 30"
  shows "read32 (write32 m (a + 4 * word_of_nat i) v) (a + 4 * word_of_nat j) =
    (if j = i then v else read32 m (a + 4 * word_of_nat j))"
proof (cases "j = i")
  case False
  have "read32 (write32 m (a + 4 * word_of_nat i) v) (a + 4 * word_of_nat j) = read32 m (a + 4 * word_of_nat j)"
  proof (rule read32_other, rule notI)
    fix k :: nat assume k: "k < 4" and "in_range (a + 4 * word_of_nat i) 4 (a + 4 * word_of_nat j + word_of_nat k)"
    then obtain l where l: "l < 4" "a + 4 * word_of_nat j + word_of_nat k = a + 4 * word_of_nat i + word_of_nat l"
      using in_range_ex by blast
    then have "(word_of_nat (4 * j + k) :: u32) = word_of_nat (4 * i + l)" by (simp add: add.assoc)
    moreover have "4 * j + k < 2 ^ 32" "4 * i + l < 2 ^ 32" using assms k l(1) by simp_all
    ultimately have "4 * j + k = 4 * i + l" using word_of_nat_inject_u32 by blast
    then have "(4 * j + k) div 4 = (4 * i + l) div 4" by (rule arg_cong)
    then show False using False k l(1) by simp
  qed
  then show ?thesis using False by simp
qed simp

lemma pixel_index: "x < w \<Longrightarrow> x' < w \<Longrightarrow> y' * w + x' = y * w + x \<longleftrightarrow> y' = y \<and> x' = (x :: nat)"
proof
  assume b: "x < w" "x' < w" and eq: "y' * w + x' = y * w + x"
  have "(y' * w + x') div w = y'" "(y * w + x) div w = y" using b by simp_all
  then have "y' = y" using eq by metis
  then show "y' = y \<and> x' = x" using eq by simp
qed simp

lemma pixel_small: "y < h \<Longrightarrow> x < w \<Longrightarrow> h * w \<le> 2 ^ 30 \<Longrightarrow> y * w + x < (2 :: nat) ^ 30"
proof -
  assume "y < h" "x < w" and hw: "h * w \<le> 2 ^ 30"
  have "Suc y * w \<le> h * w" using \<open>y < h\<close> by (intro mult_le_mono1) simp
  then show ?thesis using \<open>x < w\<close> hw by simp
qed

lemma pixel_PutPixel:
  assumes "x < unat (nWidth c)" "x' < unat (nWidth c)" "y < H" "y' < H" "H * unat (nWidth c) \<le> 2 ^ 30"
  shows "pixel c (PutPixel c m (word_of_nat x) (word_of_nat y) color buf) buf x' y' =
    (if x' = x \<and> y' = y then color else pixel c m buf x' y')"
proof -
  have eq: "buf + 4 * (word_of_nat y * nWidth c + word_of_nat x) = buf + 4 * word_of_nat (y * unat (nWidth c) + x)"
    by simp
  show ?thesis
    unfolding pixel_def PutPixel_def eq
    using read32_write32_nat [OF pixel_small [OF assms(3,1,5)] pixel_small [OF assms(4,2,5)], of m buf color]
      pixel_index [OF assms(1,2), of y' y] by auto
qed

lemma pixel_fill_column:
  assumes "x < unat (nWidth c)" "x' < unat (nWidth c)" "y' < H" "H * unat (nWidth c) \<le> 2 ^ 30" "H < 2 ^ 32" "j_end \<le> H"
  shows "j \<le> j_end \<Longrightarrow> pixel c (fill_column c m (word_of_nat x) (word_of_nat j) (word_of_nat j_end) color buf) buf x' y' =
    (if x' = x \<and> j \<le> y' \<and> y' < j_end then color else pixel c m buf x' y')"
proof (induction "j_end - j" arbitrary: j m)
  case 0
  then show ?case by (auto simp: fill_column.simps [of c m])
next
  case (Suc d)
  then have j: "j < j_end" by simp
  then have less: "(word_of_nat j :: u32) < word_of_nat j_end"
    using assms(5,6) by (simp add: word_less_nat_alt unat_word_of_nat)
  let ?m = "PutPixel c m (word_of_nat x) (word_of_nat j) color buf"
  have "pixel c (fill_column c ?m (word_of_nat x) (word_of_nat (Suc j)) (word_of_nat j_end) color buf) buf x' y' =
      (if x' = x \<and> Suc j \<le> y' \<and> y' < j_end then color else pixel c ?m buf x' y')"
    using Suc.hyps(1) [of "Suc j" ?m] Suc.hyps(2) j by simp
  moreover have "pixel c ?m buf x' y' = (if x' = x \<and> y' = j then color else pixel c m buf x' y')"
    using pixel_PutPixel [OF assms(1,2) _ assms(3,4), of j] j assms(6) by simp
  ultimately show ?case using less j
    by (auto simp: fill_column.simps [of c m "word_of_nat x" "word_of_nat j"] ac_simps)
qed

lemma pixel_fill_columns:
  assumes "x' < unat (nWidth c)" "y' < H" "H * unat (nWidth c) \<le> 2 ^ 30" "H < 2 ^ 32" "y + height \<le> H"
    "i_end \<le> unat (nWidth c)"
  shows "i \<le> i_end \<Longrightarrow>
    pixel c (fill_columns c m (word_of_nat i) (word_of_nat i_end) (word_of_nat y) (word_of_nat height) color buf) buf x' y' =
    (if i \<le> x' \<and> x' < i_end \<and> y \<le> y' \<and> y' < y + height then color else pixel c m buf x' y')"
proof (induction "i_end - i" arbitrary: i m)
  case 0
  then show ?case by (auto simp: fill_columns.simps [of c m])
next
  case (Suc d)
  then have i: "i < i_end" by simp
  have "i_end < 2 ^ 32" using assms(6) unat_u32 [of "nWidth c"] by simp
  then have less: "(word_of_nat i :: u32) < word_of_nat i_end"
    using i by (simp add: word_less_nat_alt unat_word_of_nat)
  let ?m = "fill_column c m (word_of_nat i) (word_of_nat y) (word_of_nat (y + height)) color buf"
  have "pixel c (fill_columns c ?m (word_of_nat (Suc i)) (word_of_nat i_end) (word_of_nat y) (word_of_nat height) color buf) buf x' y' =
      (if Suc i \<le> x' \<and> x' < i_end \<and> y \<le> y' \<and> y' < y + height then color else pixel c ?m buf x' y')"
    using Suc.hyps(1) [of "Suc i" ?m] Suc.hyps(2) i by simp
  moreover have "pixel c ?m buf x' y' = (if x' = i \<and> y \<le> y' \<and> y' < y + height then color else pixel c m buf x' y')"
    using i assms(6) by (intro pixel_fill_column [OF _ assms(1-5)]) simp_all
  ultimately show ?case using less i
    by (auto simp: fill_columns.simps [of c m "word_of_nat i"] ac_simps)
qed

lemma FillRectangle_pixels:
  assumes "unat x + unat width \<le> unat (nWidth c)" "unat y + unat height \<le> H" "H * unat (nWidth c) \<le> 2 ^ 30" "H < 2 ^ 32"
    and "x' < unat (nWidth c)" "y' < H"
  shows "pixel c (FillRectangle c m x y width height color buf) buf x' y' =
    (if unat x \<le> x' \<and> x' < unat x + unat width \<and> unat y \<le> y' \<and> y' < unat y + unat height
     then color else pixel c m buf x' y')"
proof -
  have w: "word_of_nat (unat v) = v" for v :: u32 by simp
  have "x + width = word_of_nat (unat x + unat width)" by simp
  then show ?thesis
    using pixel_fill_columns [OF assms(5,6,3,4,2,1), of "unat x" m color buf] unfolding FillRectangle_def w by simp
qed

section \<open>Properties\<close>

text \<open>C39: \<open>PrintChar\<close> keeps the console well formed: from a cursor on a cell inside the width it moves to
  another one, one cell on, back, or to the start of the next line.\<close>

theorem PrintChar_keeps_grid:
  assumes "on_grid con" "unat (global_cursor_y con) + 16 < 2 ^ 31" "PrintChar con m ch = (con', m')"
  shows "on_grid con' \<and> screen_w con' = screen_w con \<and>
    cursor con' = advance_cursor (unat (screen_w con)) ch (cursor con)"
  using PrintChar_cursor [OF assms] by blast

definition example_console :: console where
  "example_console = \<lparr>nWidth = 640, nHeight = 480, screen_w = 640, screen_h = 480, frame_buffer = 0x1000000,
     global_cursor_x = 632, global_cursor_y = 16, fontdata = 0x8000\<rparr>"

lemma example_on_grid: "on_grid example_console"
  by (simp add: on_grid_def example_console_def)

theorem PrintChar_keeps_grid_witness:
  "cursor (fst (PrintChar example_console (\<lambda>_. 0) 0x41)) = (0, 32)"
  using PrintChar_keeps_grid [OF example_on_grid _ prod.collapse [symmetric], of "\<lambda>_. 0" "0x41"]
  by (simp add: cursor_def advance_cursor_def example_console_def)

text \<open>A backspace after a printed character brings the cursor back to where it was, at the start
  of a line as well.\<close>

theorem PrintChar_backspace_returns:
  assumes "on_grid con" "unat (global_cursor_y con) + 32 < 2 ^ 31" "ch \<noteq> 8" "ch \<noteq> 10"
    and "PrintChar con m ch = (con', m')" "PrintChar con' m' 8 = (con'', m'')"
  shows "cursor con'' = cursor con"
proof -
  have "unat (global_cursor_y con) + 16 < 2 ^ 31" using assms(2) by simp
  note P = PrintChar_cursor [OF assms(1) this assms(5)]
  have "unat (global_cursor_y con') \<le> unat (global_cursor_y con) + 16"
    using P by (auto simp: cursor_def advance_cursor_def split: if_splits)
  then have "unat (global_cursor_y con') + 16 < 2 ^ 31" using assms(2) by simp
  note Q = PrintChar_cursor [OF conjunct1 [OF conjunct2 [OF P]] this assms(6)]
  have "cursor con'' = advance_cursor (unat (screen_w con)) 8 (advance_cursor (unat (screen_w con)) ch (cursor con))"
    using P Q by simp
  also have "\<dots> = cursor con"
    unfolding cursor_def by (rule advance_cursor_backspace) (use assms(1,3,4) in \<open>simp_all add: on_grid_def\<close>)
  finally show ?thesis .
qed

theorem PrintChar_backspace_returns_witness:
  "cursor (fst (PrintChar (fst (PrintChar example_console (\<lambda>_. 0) 0x41)) (snd (PrintChar example_console (\<lambda>_. 0) 0x41)) 8)) = (632, 16)"
  using PrintChar_backspace_returns [OF example_on_grid _ _ _ prod.collapse [symmetric] prod.collapse [symmetric], of "0x41" "\<lambda>_. 0"]
  by (simp add: example_console_def cursor_def)

text \<open>\<open>FillRectangle\<close> colours exactly the pixels of the rectangle, as long as it lies on the
  frame buffer.\<close>

theorem FillRectangle_colours:
  assumes "unat x + unat width \<le> unat (nWidth c)" "unat y + unat height \<le> H" "H * unat (nWidth c) \<le> 2 ^ 30" "H < 2 ^ 32"
    and "x' < unat (nWidth c)" "y' < H"
  shows "pixel c (FillRectangle c m x y width height color buf) buf x' y' =
    (if unat x \<le> x' \<and> x' < unat x + unat width \<and> unat y \<le> y' \<and> y' < unat y + unat height
     then color else pixel c m buf x' y')"
  by (rule FillRectangle_pixels [OF assms])

theorem FillRectangle_colours_witness:
  "pixel example_console (FillRectangle example_console (\<lambda>_. 0) 100 200 50 20 0xFF0000FF 0x1000000) 0x1000000 149 200 = 0xFF0000FF \<and>
   pixel example_console (FillRectangle example_console (\<lambda>_. 0) 100 200 50 20 0xFF0000FF 0x1000000) 0x1000000 150 200 =
     pixel example_console (\<lambda>_. 0) 0x1000000 150 200"
  using FillRectangle_colours [of 100 50 example_console 200 20 480 149 200 "\<lambda>_. 0" "0xFF0000FF" "0x1000000"]
    FillRectangle_colours [of 100 50 example_console 200 20 480 150 200 "\<lambda>_. 0" "0xFF0000FF" "0x1000000"]
  by (simp add: example_console_def)

end
