(* ===== verification/Gdt.thy ===== *)
theory Gdt
  imports Memory
begin

text \<open>
  \<^verbatim>\<open>ke/gdt/gdt.c\<close>: the eight bytes of a segment descriptor. \<open>KeBugCheck\<close> does not return, so an
  entry it is called for is \<open>None\<close>. In memory a \<open>struct gdt_structured\<close> has \<open>base\<close> at 0, \<open>limit\<close>
  at 4, \<open>type\<close> at 8 and 12 bytes in all.
\<close>

section \<open>Encoding\<close>

record gdt_structured =
  gdt_base :: u32
  gdt_limit :: u32
  gdt_type :: byte

definition encodeGdtEntry :: "mem \<Rightarrow> addr \<Rightarrow> gdt_structured \<Rightarrow> mem option" where
  "encodeGdtEntry m target source =
     (if 65536 < gdt_limit source \<and> gdt_limit source AND 0xFFF \<noteq> 0xFFF then None
      else
        let m = m(target + 6 := 0x40);
            (source, m) =
              (if 65536 < gdt_limit source
               then (source\<lparr>gdt_limit := drop_bit 12 (gdt_limit source)\<rparr>, m(target + 6 := 0xC0))
               else (source, m));
            m = m(target := ucast (gdt_limit source AND 0xFF));
            m = m(target + 1 := ucast (drop_bit 8 (gdt_limit source) AND 0xFF));
            m = m(target + 6 := m (target + 6) OR ucast (drop_bit 16 (gdt_limit source) AND 0x0F));
            m = m(target + 2 := ucast (gdt_base source AND 0xFF));
            m = m(target + 3 := ucast (drop_bit 8 (gdt_base source) AND 0xFF));
            m = m(target + 4 := ucast (drop_bit 16 (gdt_base source) AND 0xFF));
            m = m(target + 7 := ucast (drop_bit 24 (gdt_base source) AND 0xFF))
        in Some (m(target + 5 := gdt_type source)))"

definition gdt_structured_at :: "mem \<Rightarrow> addr \<Rightarrow> gdt_structured" where
  "gdt_structured_at m p = \<lparr>gdt_base = read32 m p, gdt_limit = read32 m (p + 4), gdt_type = m (p + 8)\<rparr>"

function gdt_loop :: "mem \<Rightarrow> addr \<Rightarrow> addr \<Rightarrow> u32 \<Rightarrow> u32 \<Rightarrow> mem option" where
  "gdt_loop m gdt structured_gdt total_entires i =
     (if i <s total_entires
      then case encodeGdtEntry m (gdt + 8 * i) (gdt_structured_at m (structured_gdt + 12 * i)) of
          None \<Rightarrow> None
        | Some m \<Rightarrow> gdt_loop m gdt structured_gdt total_entires (i + 1)
      else Some m)"
  by pat_completeness auto
termination
  by (relation "measure (\<lambda>(m, g, s, n, i). nat (sint n - sint i))") (auto dest: measure_up_signed)

declare gdt_loop.simps [simp del]

definition gdt_structured_to_gdt :: "mem \<Rightarrow> addr \<Rightarrow> addr \<Rightarrow> u32 \<Rightarrow> mem option" where
  "gdt_structured_to_gdt m gdt structured_gdt total_entires = gdt_loop m gdt structured_gdt total_entires 0"

section \<open>What the processor reads\<close>

text \<open>The reference: base, limit and type of the descriptor at \<open>p\<close> as the processor decodes them. With
  the granularity bit the limit counts pages.\<close>

definition descriptor_base :: "mem \<Rightarrow> addr \<Rightarrow> u32" where
  "descriptor_base m p = ucast (m (p + 2)) OR push_bit 8 (ucast (m (p + 3)))
     OR push_bit 16 (ucast (m (p + 4))) OR push_bit 24 (ucast (m (p + 7)))"

definition descriptor_limit :: "mem \<Rightarrow> addr \<Rightarrow> u32" where
  "descriptor_limit m p =
     (let l = ucast (m p) OR push_bit 8 (ucast (m (p + 1))) OR push_bit 16 (ucast (m (p + 6) AND 0x0F))
      in if bit (m (p + 6)) 7 then push_bit 12 l OR 0xFFF else l)"

definition descriptor_type :: "mem \<Rightarrow> addr \<Rightarrow> byte" where
  "descriptor_type m p = m (p + 5)"

text \<open>The descriptor at \<open>p\<close> describes the segment \<open>s\<close>.\<close>

definition describes :: "mem \<Rightarrow> addr \<Rightarrow> gdt_structured \<Rightarrow> bool" where
  "describes m p s \<longleftrightarrow> descriptor_base m p = gdt_base s \<and> descriptor_limit m p = gdt_limit s \<and>
     descriptor_type m p = gdt_type s"

lemma encode_bytes:
  assumes "\<not> (65536 < gdt_limit s \<and> gdt_limit s AND 0xFFF \<noteq> 0xFFF)"
  defines "l \<equiv> (if 65536 < gdt_limit s then drop_bit 12 (gdt_limit s) else gdt_limit s)"
  shows "\<exists>m'. encodeGdtEntry m p s = Some m' \<and> m' p = ucast (l AND 0xFF) \<and> m' (p + 1) = ucast (drop_bit 8 l AND 0xFF) \<and>
    m' (p + 2) = ucast (gdt_base s AND 0xFF) \<and> m' (p + 3) = ucast (drop_bit 8 (gdt_base s) AND 0xFF) \<and>
    m' (p + 4) = ucast (drop_bit 16 (gdt_base s) AND 0xFF) \<and> m' (p + 5) = gdt_type s \<and>
    m' (p + 6) = (if 65536 < gdt_limit s then 0xC0 else 0x40) OR ucast (drop_bit 16 l AND 0x0F) \<and>
    m' (p + 7) = ucast (drop_bit 24 (gdt_base s) AND 0xFF) \<and> (\<forall>a. \<not> in_range p 8 a \<longrightarrow> m' a = m a)"
proof -
  have far: "a \<noteq> p + k" if "\<not> in_range p 8 a" "unat k < 8" for a k
    using that by (auto simp: in_range_def)
  show ?thesis
    using assms(1) far [of _ 0] far [of _ 1] far [of _ 2] far [of _ 3] far [of _ 4] far [of _ 5] far [of _ 6] far [of _ 7]
    unfolding encodeGdtEntry_def l_def by (auto simp: Let_def)
qed

lemma masks: "(0xFF :: u32) = mask 8" "(0xFFF :: u32) = mask 12" "(0x0F :: u32) = mask 4" "(0x0F :: byte) = mask 4"
  by (simp_all add: mask_eq_exp_minus_1)

lemma low_byte: "ucast (v AND 0xFF) = (ucast v :: byte)" for v :: u32
  unfolding masks by (rule bit_word_eqI) (simp add: bit_ucast_iff bit_and_iff bit_mask_iff)

lemma limit_bytes:
  fixes l :: u32 and f :: byte
  assumes "l < 2 ^ 20" "f AND 0x0F = 0"
  shows "ucast (ucast l :: byte) OR push_bit 8 (ucast (ucast (drop_bit 8 l) :: byte))
    OR push_bit 16 (ucast ((f OR ucast (drop_bit 16 l AND 0x0F)) AND 0x0F)) = l"
proof (rule bit_word_eqI)
  fix n assume "n < LENGTH(32)"
  have high: "\<not> bit l k" if "20 \<le> k" for k
  proof -
    have "unat l < 2 ^ k" using assms(1) that power_increasing [of 20 k "2 :: nat"]
      by (simp add: word_less_nat_alt)
    then have "unat l div 2 ^ k = 0" by simp
    then have "\<not> bit (unat l) k" by (simp add: bit_iff_odd)
    then show ?thesis by (simp add: bit_unsigned_iff)
  qed
  have f: "\<not> bit f k" if "k < 4" for k
    using arg_cong [OF assms(2), of "\<lambda>w. bit w k"] that unfolding masks by (simp add: bit_and_iff bit_mask_iff)
  consider "n < 8" | "8 \<le> n" "n < 16" | "16 \<le> n" "n < 20" | "20 \<le> n" "n < 32"
    using \<open>n < LENGTH(32)\<close> by force
  then show "bit (ucast (ucast l :: byte) OR push_bit 8 (ucast (ucast (drop_bit 8 l) :: byte))
      OR push_bit 16 (ucast ((f OR ucast (drop_bit 16 l AND 0x0F)) AND 0x0F)) :: u32) n = bit l n"
    unfolding masks
    by cases (auto simp: bit_or_iff bit_and_iff bit_mask_iff bit_push_bit_iff bit_ucast_iff bit_drop_bit_eq high f)
qed

lemma flag_bit: "\<not> bit ((0x40 :: byte) OR ucast (v AND 0x0F :: u32)) 7" "bit ((0xC0 :: byte) OR ucast (v AND 0x0F :: u32)) 7"
  unfolding masks by (simp_all add: bit_or_iff bit_ucast_iff bit_and_iff bit_mask_iff)

lemma limit_pages: "l AND 0xFFF = 0xFFF \<Longrightarrow> push_bit 12 (drop_bit 12 l) OR 0xFFF = l" for l :: u32
proof (rule bit_word_eqI)
  fix n assume l: "l AND 0xFFF = 0xFFF" and "n < LENGTH(32)"
  have "bit l n" if "n < 12"
    using arg_cong [OF l, of "\<lambda>w. bit w n"] that unfolding masks by (simp add: bit_and_iff bit_mask_iff)
  then show "bit (push_bit 12 (drop_bit 12 l) OR 0xFFF) n = bit l n"
    using \<open>n < LENGTH(32)\<close> unfolding masks
    by (auto simp: bit_or_iff bit_push_bit_iff bit_drop_bit_eq bit_mask_iff)
qed

lemma drop_bit_12_less: "drop_bit 12 l < 2 ^ 20" for l :: u32
proof -
  have "unat l div 4096 < 1048576" using unat_u32 [of l] by (simp add: less_mult_imp_div_less)
  moreover have "unat (drop_bit 12 l) = unat l div 4096"
    by (simp add: drop_bit_eq_div unat_div)
  ultimately show ?thesis by (simp add: word_less_nat_alt)
qed

lemma encode_None: "encodeGdtEntry m p s = None \<longleftrightarrow> 65536 < gdt_limit s \<and> gdt_limit s AND 0xFFF \<noteq> 0xFFF"
  by (simp add: encodeGdtEntry_def Let_def split: prod.split)

lemma describes_encode:
  assumes "\<not> (65536 < gdt_limit s \<and> gdt_limit s AND 0xFFF \<noteq> 0xFFF)"
  shows "\<exists>m'. encodeGdtEntry m p s = Some m' \<and> describes m' p s \<and> (\<forall>a. \<not> in_range p 8 a \<longrightarrow> m' a = m a)"
proof -
  let ?l = "if 65536 < gdt_limit s then drop_bit 12 (gdt_limit s) else gdt_limit s"
  let ?f = "if 65536 < gdt_limit s then 0xC0 else 0x40 :: byte"
  obtain m' where run: "encodeGdtEntry m p s = Some m'" "\<forall>a. \<not> in_range p 8 a \<longrightarrow> m' a = m a"
    and l: "m' p = ucast ?l" "m' (p + 1) = ucast (drop_bit 8 ?l)" "m' (p + 6) = ?f OR ucast (drop_bit 16 ?l AND 0x0F)"
    and b: "m' (p + 2) = ucast (gdt_base s)" "m' (p + 3) = ucast (drop_bit 8 (gdt_base s))"
      "m' (p + 4) = ucast (drop_bit 16 (gdt_base s))" "m' (p + 7) = ucast (drop_bit 24 (gdt_base s))"
    and ty: "m' (p + 5) = gdt_type s"
    using encode_bytes [OF assms, of m p] unfolding low_byte by blast
  have "?l < 2 ^ 20" using drop_bit_12_less by (auto simp: word_less_nat_alt)
  moreover have "?f AND 0x0F = 0" by simp
  ultimately have low: "ucast (m' p) OR push_bit 8 (ucast (m' (p + 1))) OR push_bit 16 (ucast (m' (p + 6) AND 0x0F)) = ?l"
    unfolding l by (rule limit_bytes)
  have flag: "bit (m' (p + 6)) 7 \<longleftrightarrow> 65536 < gdt_limit s" unfolding l using flag_bit by auto
  have "descriptor_limit m' p = gdt_limit s"
    unfolding descriptor_limit_def low flag Let_def using assms limit_pages by auto
  moreover have "descriptor_base m' p = gdt_base s" unfolding descriptor_base_def b by (rule read32_bytes)
  ultimately show ?thesis using run ty by (auto simp: describes_def descriptor_type_def)
qed

section \<open>The whole table\<close>

lemma describes_cong:
  assumes "describes m p s" "\<And>i. i < 8 \<Longrightarrow> m' (p + word_of_nat i) = m (p + word_of_nat i)"
  shows "describes m' p s"
  using assms(1) assms(2) [of 0] assms(2) [of 1] assms(2) [of 2] assms(2) [of 3] assms(2) [of 4] assms(2) [of 5]
    assms(2) [of 6] assms(2) [of 7]
  by (simp add: describes_def descriptor_base_def descriptor_limit_def descriptor_type_def)

lemma gdt_structured_at_cong:
  assumes "\<And>i. i < 12 \<Longrightarrow> m' (p + word_of_nat i) = m (p + word_of_nat i)"
  shows "gdt_structured_at m' p = gdt_structured_at m p"
proof -
  have "read32 m' p = read32 m p" using assms by (intro read32_cong) simp
  moreover have "read32 m' (p + 4) = read32 m (p + 4)"
  proof (rule read32_cong)
    fix i :: nat assume "i < 4"
    then show "m' (p + 4 + word_of_nat i) = m (p + 4 + word_of_nat i)"
      using assms [of "4 + i"] by (simp add: ac_simps)
  qed
  ultimately show ?thesis using assms [of 8] by (simp add: gdt_structured_at_def)
qed

lemma entry_apart:
  assumes "i < n" "j < n" "i \<noteq> j" "n < 2 ^ 28" "k < 8"
  shows "\<not> in_range (g + 8 * word_of_nat i) 8 (g + 8 * word_of_nat j + word_of_nat k)"
proof
  assume "in_range (g + 8 * word_of_nat i) 8 (g + 8 * word_of_nat j + word_of_nat k)"
  then obtain l where l: "l < 8" "g + 8 * word_of_nat j + word_of_nat k = g + 8 * word_of_nat i + word_of_nat l"
    using in_range_ex by blast
  then have "(word_of_nat (8 * j + k) :: u32) = word_of_nat (8 * i + l)" by (simp add: add.assoc)
  moreover have "8 * j + k < 2 ^ 32" "8 * i + l < 2 ^ 32" using assms l(1) by simp_all
  ultimately have "8 * j + k = 8 * i + l" using word_of_nat_inject_u32 by blast
  then have "(8 * j + k) div 8 = (8 * i + l) div 8" by (rule arg_cong)
  then show False using assms(3,5) l(1) by simp
qed

lemma gdt_loop_describes:
  assumes apart: "apart structured_gdt (12 * n) gdt (8 * n)" and n: "n < 2 ^ 28" "k \<le> n"
    and ok: "\<And>i. i < n \<Longrightarrow> \<not> (65536 < gdt_limit (s i) \<and> gdt_limit (s i) AND 0xFFF \<noteq> 0xFFF)"
    and src: "\<And>i. i < n \<Longrightarrow> gdt_structured_at m (structured_gdt + 12 * word_of_nat i) = s i"
    and fin: "\<And>i. i < k \<Longrightarrow> describes m (gdt + 8 * word_of_nat i) (s i)"
  shows "\<exists>m'. gdt_loop m gdt structured_gdt (word_of_nat n) (word_of_nat k) = Some m' \<and>
    (\<forall>i<n. describes m' (gdt + 8 * word_of_nat i) (s i)) \<and> (\<forall>a. \<not> in_range gdt (8 * n) a \<longrightarrow> m' a = m a)"
  using n(2) src fin
proof (induction "n - k" arbitrary: k m)
  case 0
  then have "k = n" by simp
  then show ?case using 0 by (simp add: gdt_loop.simps [of m])
next
  case (Suc d)
  then have k: "k < n" by simp
  have less: "(word_of_nat k :: u32) <s word_of_nat n"
    using k n(1) by (simp add: word_sless_alt sint_word_of_nat)
  obtain m1 where step: "encodeGdtEntry m (gdt + 8 * word_of_nat k) (s k) = Some m1"
    and new: "describes m1 (gdt + 8 * word_of_nat k) (s k)"
    and other: "\<And>a. \<not> in_range (gdt + 8 * word_of_nat k) 8 a \<Longrightarrow> m1 a = m a"
    using describes_encode [OF ok [OF k], of m "gdt + 8 * word_of_nat k"] by blast
  have outside: "m1 a = m a" if "\<not> in_range gdt (8 * n) a" for a
  proof (rule other)
    show "\<not> in_range (gdt + 8 * word_of_nat k) 8 a"
    proof
      assume "in_range (gdt + 8 * word_of_nat k) 8 a"
      then obtain i where i: "i < 8" "a = gdt + 8 * word_of_nat k + word_of_nat i" using in_range_ex by blast
      then have "a = gdt + word_of_nat (8 * k + i)" by (simp add: add.assoc)
      then have "in_range gdt (8 * n) a" using i(1) k n(1) by (simp only:) (rule in_range_offset, simp_all)
      then show False using that by blast
    qed
  qed
  have src1: "gdt_structured_at m1 (structured_gdt + 12 * word_of_nat i) = s i" if "i < n" for i
  proof -
    have "gdt_structured_at m1 (structured_gdt + 12 * word_of_nat i) = gdt_structured_at m (structured_gdt + 12 * word_of_nat i)"
    proof (rule gdt_structured_at_cong)
      fix j :: nat assume j: "j < 12"
      have eq: "structured_gdt + 12 * word_of_nat i + word_of_nat j = structured_gdt + word_of_nat (12 * i + j)"
        by (simp add: add.assoc)
      have "12 * i + j < 12 * n" using that j by simp
      then have "\<not> in_range gdt (8 * n) (structured_gdt + word_of_nat (12 * i + j))" by (rule apart_notin [OF apart])
      then show "m1 (structured_gdt + 12 * word_of_nat i + word_of_nat j) = m (structured_gdt + 12 * word_of_nat i + word_of_nat j)"
        unfolding eq by (rule outside)
    qed
    then show ?thesis using Suc.prems(2) [OF that] by simp
  qed
  have fin1: "describes m1 (gdt + 8 * word_of_nat i) (s i)" if "i < Suc k" for i
  proof (cases "i = k")
    case False
    then have "i < k" using that by simp
    from Suc.prems(3) [OF this] show ?thesis
    proof (rule describes_cong)
      fix j :: nat assume "j < 8"
      then show "m1 (gdt + 8 * word_of_nat i + word_of_nat j) = m (gdt + 8 * word_of_nat i + word_of_nat j)"
        using entry_apart [of k n i j gdt] False \<open>i < k\<close> k n(1) by (intro other) simp
    qed
  qed (use new in simp)
  have "d = n - Suc k" "Suc k \<le> n" using Suc.hyps(2) k by simp_all
  from Suc.hyps(1) [OF this src1 fin1] outside obtain m' where
    "gdt_loop m1 gdt structured_gdt (word_of_nat n) (word_of_nat (Suc k)) = Some m'"
    "\<forall>i<n. describes m' (gdt + 8 * word_of_nat i) (s i)" "\<forall>a. \<not> in_range gdt (8 * n) a \<longrightarrow> m' a = m a"
    by auto
  then show ?case
    using less step Suc.prems(2) [OF k] by (simp add: gdt_loop.simps [of m] ac_simps)
qed

section \<open>Properties\<close>

text \<open>For a limit that fits into 20 bits of bytes or of pages, \<open>encodeGdtEntry\<close> writes a descriptor
  from which the processor decodes the base, the limit and the type it was given, in 8 bytes; for
  any other limit it stops the machine.\<close>

lemma encodeGdtEntry_decodes:
  "if 65536 < gdt_limit s \<and> gdt_limit s AND 0xFFF \<noteq> 0xFFF then encodeGdtEntry m p s = None
   else \<exists>m'. encodeGdtEntry m p s = Some m' \<and> descriptor_base m' p = gdt_base s \<and>
     descriptor_limit m' p = gdt_limit s \<and> descriptor_type m' p = gdt_type s \<and>
     (\<forall>a. \<not> in_range p 8 a \<longrightarrow> m' a = m a)"
  using describes_encode [where s = s and m = m and p = p] encode_None [where s = s and m = m and p = p] by (auto simp: describes_def)

text \<open>C34: \<open>gdt_structured_to_gdt\<close> turns a table of \<open>n\<close> segments, all with encodable limits, into \<open>n\<close>
  descriptors that describe them, and changes nothing else.\<close>

theorem gdt_structured_to_gdt_describes:
  assumes "apart structured_gdt (12 * n) gdt (8 * n)" "n < 2 ^ 28"
    and "\<And>i. i < n \<Longrightarrow> gdt_limit (s i) \<le> 65536 \<or> gdt_limit (s i) AND 0xFFF = 0xFFF"
    and "\<And>i. i < n \<Longrightarrow> gdt_structured_at m (structured_gdt + 12 * word_of_nat i) = s i"
  shows "\<exists>m'. gdt_structured_to_gdt m gdt structured_gdt (word_of_nat n) = Some m' \<and>
    (\<forall>i<n. describes m' (gdt + 8 * word_of_nat i) (s i)) \<and> (\<forall>a. \<not> in_range gdt (8 * n) a \<longrightarrow> m' a = m a)"
proof -
  have "\<not> (65536 < gdt_limit (s i) \<and> gdt_limit (s i) AND 0xFFF \<noteq> 0xFFF)" if "i < n" for i
    using assms(3) [OF that] by auto
  from gdt_loop_describes [OF assms(1,2) le0 this assms(4)] show ?thesis
    by (simp add: gdt_structured_to_gdt_def)
qed

text \<open>The six segments of the kernel, with the task state segment at \<open>0x200000\<close>.\<close>

definition kernel_segments :: "gdt_structured list" where
  "kernel_segments =
    [\<lparr>gdt_base = 0, gdt_limit = 0, gdt_type = 0\<rparr>,
     \<lparr>gdt_base = 0, gdt_limit = 0xFFFFFFFF, gdt_type = 0x9A\<rparr>,
     \<lparr>gdt_base = 0, gdt_limit = 0xFFFFFFFF, gdt_type = 0x92\<rparr>,
     \<lparr>gdt_base = 0, gdt_limit = 0xFFFFFFFF, gdt_type = 0xF8\<rparr>,
     \<lparr>gdt_base = 0, gdt_limit = 0xFFFFFFFF, gdt_type = 0xF2\<rparr>,
     \<lparr>gdt_base = 0x200000, gdt_limit = 100, gdt_type = 0xE9\<rparr>]"

definition kernel_table :: mem where
  "kernel_table = (\<lambda>_. 0)(
     0x1010 := 0xFF, 0x1011 := 0xFF, 0x1012 := 0xFF, 0x1013 := 0xFF, 0x1014 := 0x9A,
     0x101C := 0xFF, 0x101D := 0xFF, 0x101E := 0xFF, 0x101F := 0xFF, 0x1020 := 0x92,
     0x1028 := 0xFF, 0x1029 := 0xFF, 0x102A := 0xFF, 0x102B := 0xFF, 0x102C := 0xF8,
     0x1034 := 0xFF, 0x1035 := 0xFF, 0x1036 := 0xFF, 0x1037 := 0xFF, 0x1038 := 0xF2,
     0x103E := 0x20, 0x1040 := 100, 0x1044 := 0xE9)"

lemma less_6: "(i :: nat) < 6 \<longleftrightarrow> i = 0 \<or> i = 1 \<or> i = 2 \<or> i = 3 \<or> i = 4 \<or> i = 5"
  by auto

theorem gdt_structured_to_gdt_describes_witness:
  "\<exists>m'. gdt_structured_to_gdt kernel_table 0x2000 0x1000 6 = Some m' \<and>
    (\<forall>i<6. describes m' (0x2000 + 8 * word_of_nat i) (kernel_segments ! i))"
proof -
  have apart: "apart 0x1000 (12 * 6) 0x2000 (8 * 6)"
    unfolding apart_def
  proof (intro allI impI)
    fix i j :: nat assume "i < 12 * 6" "j < 8 * 6"
    then have "(word_of_nat (0x1000 + i) :: u32) \<noteq> word_of_nat (0x2000 + j)" by (subst word_of_nat_inject_u32) simp_all
    then show "0x1000 + word_of_nat i \<noteq> (0x2000 :: u32) + word_of_nat j" by simp
  qed
  have limits: "gdt_limit (kernel_segments ! i) \<le> 65536 \<or> gdt_limit (kernel_segments ! i) AND 0xFFF = 0xFFF" if "i < 6" for i
    using that unfolding less_6 by (auto simp: kernel_segments_def)
  have rows: "gdt_structured_at kernel_table (0x1000 + 12 * word_of_nat i) = kernel_segments ! i" if "i < 6" for i
    using that unfolding less_6 by (elim disjE) (simp_all add: kernel_segments_def kernel_table_def gdt_structured_at_def read32_def)
  have "(6 :: nat) < 2 ^ 28" by simp
  from gdt_structured_to_gdt_describes [OF apart this limits rows] show ?thesis by auto
qed

end
