(* ===== verification/Idt.thy ===== *)
theory Idt
  imports Serial Console Gdt
begin

text \<open>
  The interrupt descriptor table of \<^verbatim>\<open>ke/idt/idt.c\<close> and the bug check of \<^verbatim>\<open>ke/bug.c\<close> that the
  exception handlers end in. A \<open>struct idt_desc\<close> has \<open>offset_1\<close> at 0, \<open>selector\<close> at 2, \<open>zero\<close> at 4,
  \<open>type_attr\<close> at 5 and \<open>offset_2\<close> at 6. The addresses of the handlers, some of them assembly, are
  parameters; loading the table register (\<open>idt_load\<close>) is not modelled.
\<close>

section \<open>The table\<close>

definition RING3 :: byte where [status_defs]: "RING3 = 0xEE"
definition KERNEL_CODE_SELECTOR :: u16 where [status_defs]: "KERNEL_CODE_SELECTOR = 0x08"
definition LIBREWIN_TOTAL_INTERRUPTS :: nat where [status_defs]: "LIBREWIN_TOTAL_INTERRUPTS = 512"

record idt_handlers =
  h_no_interrupt :: addr
  h_int2eh :: addr
  h_idt_zero :: addr
  h_idt_pf :: addr
  h_idt_gpf :: addr
  h_idt_inv :: addr
  h_idt_df :: addr
  h_idt_snp :: addr
  h_int21h :: addr

definition idt_set :: "addr \<Rightarrow> mem \<Rightarrow> u32 \<Rightarrow> addr \<Rightarrow> mem" where
  "idt_set idt_descriptors m interrupt_no address =
     (let desc = idt_descriptors + 8 * interrupt_no;
          m = write16 m desc (ucast (address AND 0x0000ffff));
          m = write16 m (desc + 2) KERNEL_CODE_SELECTOR;
          m = m(desc + 4 := 0x00);
          m = m(desc + 5 := RING3)
      in write16 m (desc + 6) (ucast (drop_bit 16 address)))"

text \<open>The table register, \<open>struct idtr_desc\<close>, has \<open>limit\<close> at 0 and \<open>base\<close> at 2.\<close>

definition idt_init :: "idt_handlers \<Rightarrow> addr \<Rightarrow> addr \<Rightarrow> mem \<Rightarrow> mem" where
  "idt_init hs idt_descriptors idtr_descriptor m =
     (let m = memset m idt_descriptors 0 4096;
          m = write16 m idtr_descriptor (4096 - 1);
          m = write32 m (idtr_descriptor + 2) idt_descriptors;
          m = fold (\<lambda>i m. idt_set idt_descriptors m (word_of_nat i) (h_no_interrupt hs)) [0..<LIBREWIN_TOTAL_INTERRUPTS] m;
          m = idt_set idt_descriptors m 0x002e (h_int2eh hs);
          m = idt_set idt_descriptors m 0 (h_idt_zero hs);
          m = idt_set idt_descriptors m 14 (h_idt_pf hs);
          m = idt_set idt_descriptors m 13 (h_idt_gpf hs);
          m = idt_set idt_descriptors m 6 (h_idt_inv hs);
          m = idt_set idt_descriptors m 8 (h_idt_df hs);
          m = idt_set idt_descriptors m 11 (h_idt_snp hs)
      in idt_set idt_descriptors m 0x21 (h_int21h hs))"

section \<open>Bug checks\<close>

definition KMODE_DIV_ZERO :: u32 where [status_defs]: "KMODE_DIV_ZERO = 0x00000000"
definition KMODE_PAGE_FAULT :: u32 where [status_defs]: "KMODE_PAGE_FAULT = 0x0000001E"
definition KMODE_GPF :: u32 where [status_defs]: "KMODE_GPF = 0x000001EF"
definition KMODE_INVOP :: u32 where [status_defs]: "KMODE_INVOP = 0x00000FF0"
definition KMODE_DF :: u32 where [status_defs]: "KMODE_DF = 0x000000EE"
definition KMODE_SNP :: u32 where [status_defs]: "KMODE_SNP = 0x00000001"
definition IMP_CRASH :: u32 where [status_defs]: "IMP_CRASH = 0xFFFFFFFF"
definition KMODE_GDTFAIL :: u32 where [status_defs]: "KMODE_GDTFAIL = 0x0000FF00"

text \<open>The addresses of the literals of \<open>KeBugCheck\<close> and of its local array \<open>Message\<close>.\<close>

record bug_literals =
  bug_div_zero :: addr
  bug_page_fault :: addr
  bug_gpf :: addr
  bug_invop :: addr
  bug_df :: addr
  bug_snp :: addr
  bug_imp :: addr
  bug_gdt :: addr
  bug_other :: addr
  bug_fatal :: addr
  bug_newline :: addr
  bug_stop :: addr
  bug_advice :: addr
  bug_Message :: addr

definition bug_literal :: "bug_literals \<Rightarrow> u32 \<Rightarrow> addr" where
  "bug_literal lits BugCheckCode =
     (if BugCheckCode = KMODE_DIV_ZERO then bug_div_zero lits
      else if BugCheckCode = KMODE_PAGE_FAULT then bug_page_fault lits
      else if BugCheckCode = KMODE_GPF then bug_gpf lits
      else if BugCheckCode = KMODE_INVOP then bug_invop lits
      else if BugCheckCode = KMODE_DF then bug_df lits
      else if BugCheckCode = KMODE_SNP then bug_snp lits
      else if BugCheckCode = IMP_CRASH then bug_imp lits
      else if BugCheckCode = KMODE_GDTFAIL then bug_gdt lits
      else bug_other lits)"

text \<open>The function ends in an endless loop; the result is the state in which it loops.\<close>

definition KeBugCheck ::
    "bug_literals \<Rightarrow> 'd ports \<Rightarrow> u32 \<Rightarrow> console \<Rightarrow> mem \<Rightarrow> 'd \<Rightarrow> (console \<times> mem \<times> 'd) option" where
  "KeBugCheck lits io BugCheckCode con m d = do {
     m \<leftarrow> strcpy m (bug_Message lits) (bug_literal lits BugCheckCode);
     d \<leftarrow> DbgPrint io m (bug_fatal lits) [] d;
     d \<leftarrow> DbgPrint io m (bug_Message lits) [] d;
     d \<leftarrow> DbgPrint io m (bug_newline lits) [] d;
     let m = ClearScreen con m;
     (con, m) \<leftarrow> Print con m (bug_stop lits);
     (con, m) \<leftarrow> Print con m (bug_Message lits);
     (con, m) \<leftarrow> Print con m (bug_advice lits);
     Some (con, m, d)
   }"

definition idt_zero :: "bug_literals \<Rightarrow> 'd ports \<Rightarrow> console \<Rightarrow> mem \<Rightarrow> 'd \<Rightarrow> (console \<times> mem \<times> 'd) option" where
  "idt_zero lits io = KeBugCheck lits io KMODE_DIV_ZERO"

definition idt_pf :: "bug_literals \<Rightarrow> 'd ports \<Rightarrow> console \<Rightarrow> mem \<Rightarrow> 'd \<Rightarrow> (console \<times> mem \<times> 'd) option" where
  "idt_pf lits io = KeBugCheck lits io KMODE_PAGE_FAULT"

definition idt_gpf :: "bug_literals \<Rightarrow> 'd ports \<Rightarrow> console \<Rightarrow> mem \<Rightarrow> 'd \<Rightarrow> (console \<times> mem \<times> 'd) option" where
  "idt_gpf lits io = KeBugCheck lits io KMODE_GPF"

definition idt_df :: "bug_literals \<Rightarrow> 'd ports \<Rightarrow> console \<Rightarrow> mem \<Rightarrow> 'd \<Rightarrow> (console \<times> mem \<times> 'd) option" where
  "idt_df lits io = KeBugCheck lits io KMODE_DF"

definition idt_snp :: "bug_literals \<Rightarrow> 'd ports \<Rightarrow> console \<Rightarrow> mem \<Rightarrow> 'd \<Rightarrow> (console \<times> mem \<times> 'd) option" where
  "idt_snp lits io = KeBugCheck lits io KMODE_INVOP"

definition idt_inv :: "bug_literals \<Rightarrow> 'd ports \<Rightarrow> console \<Rightarrow> mem \<Rightarrow> 'd \<Rightarrow> (console \<times> mem \<times> 'd) option" where
  "idt_inv lits io = KeBugCheck lits io KMODE_SNP"

definition idt_imp :: "bug_literals \<Rightarrow> 'd ports \<Rightarrow> console \<Rightarrow> mem \<Rightarrow> 'd \<Rightarrow> (console \<times> mem \<times> 'd) option" where
  "idt_imp lits io = KeBugCheck lits io IMP_CRASH"

definition no_interrupt_handler :: "'d ports \<Rightarrow> 'd \<Rightarrow> 'd" where
  "no_interrupt_handler io d = outb io 0x20 0x20 d"

section \<open>The gates\<close>

text \<open>The reference: the handler, selector and attributes of gate \<open>i\<close> as the processor reads them.\<close>

definition gate :: "mem \<Rightarrow> addr \<Rightarrow> nat \<Rightarrow> addr \<times> u16 \<times> byte" where
  "gate m idt i =
     (let p = idt + 8 * word_of_nat i
      in (ucast (read16 m p) OR push_bit 16 (ucast (read16 m (p + 6))), read16 m (p + 2), m (p + 5)))"

lemma halves: "ucast (ucast (v AND 0x0000ffff) :: u16) OR push_bit 16 (ucast (ucast (drop_bit 16 v) :: u16)) = v"
  for v :: u32
proof (rule bit_word_eqI)
  fix n assume "n < LENGTH(32)"
  have m: "(0x0000ffff :: u32) = mask 16" by (simp add: mask_eq_exp_minus_1)
  consider "n < 16" | "16 \<le> n" "n < 32" using \<open>n < LENGTH(32)\<close> by force
  then show "bit (ucast (ucast (v AND 0x0000ffff) :: u16) OR push_bit 16 (ucast (ucast (drop_bit 16 v) :: u16)) :: u32) n = bit v n"
    unfolding m
    by cases (auto simp: bit_or_iff bit_and_iff bit_mask_iff bit_push_bit_iff bit_ucast_iff bit_drop_bit_eq)
qed

lemma gate_idt_set:
  "gate (idt_set idt m (word_of_nat i) a) idt i = (a, KERNEL_CODE_SELECTOR, RING3)"
proof -
  let ?p = "idt + 8 * word_of_nat i"
  have "read16 (idt_set idt m (word_of_nat i) a) ?p = ucast (a AND 0x0000ffff)"
    "read16 (idt_set idt m (word_of_nat i) a) (?p + 2) = KERNEL_CODE_SELECTOR"
    "read16 (idt_set idt m (word_of_nat i) a) (?p + 6) = ucast (drop_bit 16 a)"
    "idt_set idt m (word_of_nat i) a (?p + 5) = RING3"
    by (simp_all add: idt_set_def Let_def read16_def write16_def read16_bytes add.assoc)
  then show ?thesis by (simp only: gate_def Let_def halves)
qed

lemma idt_set_frame: "\<not> in_range (idt + 8 * i) 8 a \<Longrightarrow> idt_set idt m i h a = m a"
proof -
  assume out: "\<not> in_range (idt + 8 * i) 8 a"
  have far: "a \<noteq> idt + 8 * i + k" if "unat k < 8" for k
    using out that by (auto simp: in_range_def)
  show ?thesis
    using far [of 0] far [of 1] far [of 2] far [of 3] far [of 4] far [of 5] far [of 6] far [of 7]
    by (simp add: idt_set_def Let_def write16_def add.assoc)
qed

lemma gate_idt_set_other:
  assumes "i < 512" "j < 512" "i \<noteq> j"
  shows "gate (idt_set idt m (word_of_nat j) h) idt i = gate m idt i"
proof -
  have same: "idt_set idt m (word_of_nat j) h (idt + 8 * word_of_nat i + word_of_nat k) = m (idt + 8 * word_of_nat i + word_of_nat k)"
    if "k < 8" for k
    using entry_apart [of j 512 i k idt] assms that by (intro idt_set_frame) simp
  show ?thesis
    using same [of 0] same [of 1] same [of 2] same [of 3] same [of 5] same [of 6] same [of 7]
    by (simp add: gate_def Let_def read16_def add.assoc)
qed

lemma gate_upd: "i < 512 \<Longrightarrow> j < 512 \<Longrightarrow> gate (idt_set idt m (word_of_nat j) h) idt i =
    (if i = j then (h, KERNEL_CODE_SELECTOR, RING3) else gate m idt i)"
  using gate_idt_set gate_idt_set_other by simp

text \<open>The handler that \<open>idt_init\<close> installs for a vector.\<close>

definition vector_handler :: "idt_handlers \<Rightarrow> nat \<Rightarrow> addr" where
  "vector_handler hs i =
     (if i = 0 then h_idt_zero hs else if i = 6 then h_idt_inv hs else if i = 8 then h_idt_df hs
      else if i = 11 then h_idt_snp hs else if i = 13 then h_idt_gpf hs else if i = 14 then h_idt_pf hs
      else if i = 0x21 then h_int21h hs else if i = 0x2e then h_int2eh hs else h_no_interrupt hs)"

lemma gate_fill:
  assumes "n \<le> 512" "i < 512"
  shows "gate (fold (\<lambda>i m. idt_set idt m (word_of_nat i) h) [0..<n] m) idt i =
    (if i < n then (h, KERNEL_CODE_SELECTOR, RING3) else gate m idt i)"
  using assms(1) by (induction n) (use assms(2) in \<open>auto simp: gate_upd less_Suc_eq\<close>)

lemma idt_init_gates:
  assumes "i < 512"
  shows "gate (idt_init hs idt idtr m) idt i = (vector_handler hs i, KERNEL_CODE_SELECTOR, RING3)"
proof -
  note upd = gate_upd [OF assms]
  have num: "(0x2e :: u32) = word_of_nat 0x2e" "(0 :: u32) = word_of_nat 0" "(14 :: u32) = word_of_nat 14"
    "(13 :: u32) = word_of_nat 13" "(6 :: u32) = word_of_nat 6" "(8 :: u32) = word_of_nat 8"
    "(11 :: u32) = word_of_nat 11" "(0x21 :: u32) = word_of_nat 0x21" by simp_all
  define m1 where "m1 = write32 (write16 (memset m idt 0 4096) idtr (4096 - 1)) (idtr + 2) idt"
  define m2 where "m2 = fold (\<lambda>i m. idt_set idt m (word_of_nat i) (h_no_interrupt hs)) [0..<512] m1"
  have "gate m2 idt i = (h_no_interrupt hs, KERNEL_CODE_SELECTOR, RING3)"
    unfolding m2_def using gate_fill [of 512 i idt] assms by simp
  moreover have "idt_init hs idt idtr m = idt_set idt (idt_set idt (idt_set idt (idt_set idt (idt_set idt (idt_set idt
      (idt_set idt (idt_set idt m2 0x002e (h_int2eh hs)) 0 (h_idt_zero hs)) 14 (h_idt_pf hs)) 13 (h_idt_gpf hs))
      6 (h_idt_inv hs)) 8 (h_idt_df hs)) 11 (h_idt_snp hs)) 0x21 (h_int21h hs)"
    unfolding idt_init_def Let_def LIBREWIN_TOTAL_INTERRUPTS_def m1_def [symmetric] m2_def ..
  ultimately show ?thesis
    unfolding vector_handler_def by (simp only: num upd) simp
qed

section \<open>Properties\<close>

text \<open>After \<open>idt_init\<close> every one of the 512 gates leads to its handler, through the kernel's code
  segment, and may be reached from user mode: the exceptions that have a handler, the keyboard, the
  system call, and \<open>no_interrupt\<close> for the rest.\<close>

theorem idt_init_installs:
  assumes "i < 512"
  shows "gate (idt_init hs idt idtr m) idt i = (vector_handler hs i, KERNEL_CODE_SELECTOR, RING3)"
  by (rule idt_init_gates [OF assms])

theorem idt_init_installs_witness:
  "gate (idt_init \<lparr>h_no_interrupt = 1, h_int2eh = 2, h_idt_zero = 3, h_idt_pf = 4, h_idt_gpf = 5, h_idt_inv = 6, h_idt_df = 7,
      h_idt_snp = 8, h_int21h = 9\<rparr> 0x10000 0x9000 (\<lambda>_. 0)) 0x10000 0x2e = (2, 8, 0xEE)"
  by (subst idt_init_installs) (simp_all add: vector_handler_def KERNEL_CODE_SELECTOR_def RING3_def)

end
