(* ===== verification/Keyboard.thy ===== *)
theory Keyboard
  imports Idt
begin

text \<open>
  The keyboard interrupt of \<^verbatim>\<open>ke/idt/idt.c\<close>: keys are collected in a line, which the return key
  hands to the shell (\<open>SetExecBuffer\<close> of \<^verbatim>\<open>init/kernel.c\<close>). The two buffers of 256 bytes are in
  memory.
\<close>

section \<open>State and handler\<close>

record keyboard =
  input_buffer :: addr
  input_pos :: u32
  ex_buffer :: addr
  exec :: u32

definition kb :: "byte list" where
  "kb = [0, 27, 49, 50, 51, 52, 53, 54, 55, 56, 57, 48, 45, 61, 8,
    9, 113, 119, 101, 114, 116, 121, 117, 105, 111, 112, 91, 93, 10,
    0, 97, 115, 100, 102, 103, 104, 106, 107, 108, 59, 39, 96,
    0, 92, 122, 120, 99, 118, 98, 110, 109, 44, 46, 47, 0,
    42, 0, 32, 0, 0, 0, 0, 0, 0, 0, 0, 0, 0, 0, 0, 0]"

text \<open>\<open>kb[scancode]\<close>. The table has 71 entries and a scancode up to 255; what lies behind the table
  is a parameter, \<open>beyond\<close>.\<close>

definition kb_at :: "(nat \<Rightarrow> byte) \<Rightarrow> byte \<Rightarrow> byte" where
  "kb_at beyond scancode = (if unat scancode < length kb then kb ! unat scancode else beyond (unat scancode))"

definition SetExecBuffer :: "keyboard \<Rightarrow> mem \<Rightarrow> addr \<Rightarrow> (keyboard \<times> mem) option" where
  "SetExecBuffer k m b = do {
     m \<leftarrow> strcpy m (ex_buffer k) b;
     Some (k\<lparr>exec := 1\<rparr>, m)
   }"

text \<open>The bound compares \<open>input_pos\<close> with a \<open>size_t\<close>, so it is unsigned.\<close>

definition int21h_handler ::
    "(nat \<Rightarrow> byte) \<Rightarrow> 'd ports \<Rightarrow> keyboard \<Rightarrow> console \<Rightarrow> mem \<Rightarrow> 'd \<Rightarrow> (keyboard \<times> console \<times> mem \<times> 'd) option" where
  "int21h_handler beyond io k con m d = do {
     let (scancode, d) = insb io 0x60 d;
     let key = kb_at beyond scancode;
     (k, con, m, d) \<leftarrow>
       (if key = 8 \<and> 0 <s input_pos k
        then
          let k = k\<lparr>input_pos := input_pos k - 1\<rparr>;
              m = m(input_buffer k + input_pos k := 0);
              (con, m) = PrintChar con m 8
          in Some (k, con, m, d)
        else if key = 10
        then do {
          let m = m(input_buffer k + input_pos k := 0);
          (k, m) \<leftarrow> SetExecBuffer k m (input_buffer k);
          Some (k\<lparr>input_pos := 0\<rparr>, con, m, d)
        }
        else if key \<noteq> 0 \<and> input_pos k < 256 - 1
        then do {
          let m = m(input_buffer k + input_pos k := key);
          let k = k\<lparr>input_pos := input_pos k + 1\<rparr>;
          d \<leftarrow> DbgPutc io key d;
          let (con, m) = PrintChar con m key;
          Some (k, con, m, d)
        }
        else Some (k, con, m, d));
     Some (k, con, m, outb io 0x20 0x20 d)
   }"

definition NtGetInputBufferSyscall :: "keyboard \<Rightarrow> mem \<Rightarrow> addr \<Rightarrow> u32 \<times> mem" where
  "NtGetInputBufferSyscall k m buf =
     (let buffer_size = 256 in
      if buf = 0 \<or> buffer_size \<le>s (0 :: u32) then (445, m)
      else
        let copy_size = (if input_pos k <s buffer_size then input_pos k else buffer_size - 1);
            m = memcpy m buf (input_buffer k) copy_size
        in (0, m(buf + copy_size := 0)))"

section \<open>What drawing leaves alone\<close>

lemma PutPixel_frame:
  assumes "unat x < unat (nWidth c)" "unat y < H" "H * unat (nWidth c) \<le> 2 ^ 30"
    "\<not> in_range buf (4 * (H * unat (nWidth c))) a"
  shows "PutPixel c m x y color buf a = m a"
  unfolding PutPixel_def
proof (rule write32_apply, rule notI)
  let ?n = "unat y * unat (nWidth c) + unat x"
  have eq: "buf + 4 * (y * nWidth c + x) = buf + 4 * word_of_nat ?n" by simp
  assume "in_range (buf + 4 * (y * nWidth c + x)) 4 a"
  then obtain k where k: "k < 4" "a = buf + 4 * word_of_nat ?n + word_of_nat k"
    unfolding eq using in_range_ex by blast
  have "Suc (unat y) * unat (nWidth c) \<le> H * unat (nWidth c)" using assms(2) by (intro mult_le_mono1) simp
  then have n: "?n < H * unat (nWidth c)" using assms(1) by simp
  have "a = buf + word_of_nat (4 * ?n + k)" unfolding k(2) by simp
  moreover have "in_range buf (4 * (H * unat (nWidth c))) (buf + word_of_nat (4 * ?n + k))"
    using n k(1) assms(3) by (intro in_range_offset) simp_all
  ultimately show False using assms(4) by simp
qed

lemma fold_frame:
  assumes "\<And>x m. x \<in> set xs \<Longrightarrow> f x m a = m a"
  shows "fold f xs m a = m a"
  using assms by (induction xs arbitrary: m) simp_all

text \<open>The cell at the cursor lies on a frame buffer of \<open>H\<close> lines.\<close>

definition draws_within :: "console \<Rightarrow> nat \<Rightarrow> bool" where
  "draws_within con H \<longleftrightarrow> on_grid con \<and> nWidth con = screen_w con \<and> unat (global_cursor_y con) + 16 \<le> H \<and>
     H * unat (nWidth con) \<le> 2 ^ 30 \<and> H < 2 ^ 31"

lemma cell_frame:
  assumes "draws_within con H" "\<not> in_range buf (4 * (H * unat (nWidth con))) a" "row < 16" "col < 8"
  shows "PutPixel con m (global_cursor_x con + word_of_nat col) (global_cursor_y con + word_of_nat row) color buf a = m a"
proof (rule PutPixel_frame [OF _ _ _ assms(2)])
  have small: "unat (word_of_nat col :: u32) = col" "unat (word_of_nat row :: u32) = row"
    using assms(3,4) by (simp_all add: unat_word_of_nat)
  have x: "unat (global_cursor_x con) + 8 \<le> unat (screen_w con)" "unat (screen_w con) < 2 ^ 31"
    "unat (global_cursor_y con) + 16 \<le> H" "H < 2 ^ 31"
    using assms(1) by (simp_all add: draws_within_def on_grid_def)
  have "unat (global_cursor_x con + word_of_nat col) = unat (global_cursor_x con) + col"
    using x assms(4) small(1) by (subst unat_add_small; simp)
  moreover have "unat (global_cursor_y con + word_of_nat row) = unat (global_cursor_y con) + row"
    using x assms(3) small(2) by (subst unat_add_small; simp)
  ultimately show "unat (global_cursor_x con + word_of_nat col) < unat (nWidth con)"
    "unat (global_cursor_y con + word_of_nat row) < H"
    using x assms(1,3,4) by (simp_all add: draws_within_def)
  show "H * unat (nWidth con) \<le> 2 ^ 30" using assms(1) unfolding draws_within_def by (elim conjE)
qed

lemma RenderChar_frame:
  assumes "draws_within con H" "\<not> in_range buf (4 * (H * unat (nWidth con))) a"
  shows "RenderChar con m (global_cursor_x con) (global_cursor_y con) color buf c a = m a"
  unfolding RenderChar_def Let_def
  by (simp, intro impI fold_frame) (auto intro!: fold_frame simp: cell_frame [OF assms])

lemma PrintChar_frame:
  assumes "draws_within con H" "\<not> in_range (frame_buffer con) (4 * (H * unat (nWidth con))) a"
    and "PrintChar con m c = (con', m')"
  shows "m' a = m a"
proof (cases "c = 8")
  case False
  then show ?thesis
    using assms(3) RenderChar_frame [OF assms(1,2)] by (auto simp: PrintChar_def Let_def split: if_splits)
next
  case True
  have grid: "on_grid con" "unat (global_cursor_y con) + 16 < 2 ^ 31" "nWidth con = screen_w con"
    using assms(1) by (simp_all add: draws_within_def)
  have draw: "draws_within con' H" "frame_buffer con' = frame_buffer con" "nWidth con' = nWidth con"
  proof -
    show same: "frame_buffer con' = frame_buffer con" "nWidth con' = nWidth con"
      using assms(3) True by (auto simp: PrintChar_def Let_def)
    have moved: "cursor con' = advance_cursor (unat (screen_w con)) c (cursor con)" "on_grid con'" "screen_w con' = screen_w con"
      using PrintChar_cursor [OF grid(1,2) assms(3)] by blast+
    then have "unat (global_cursor_y con') \<le> unat (global_cursor_y con)"
      using True by (auto simp: cursor_def advance_cursor_def split: if_splits)
    then show "draws_within con' H"
      using assms(1) moved(2,3) same(2) unfolding draws_within_def by (elim conjE, intro conjI) simp_all
  qed
  have "m' = fold (\<lambda>row m. fold (\<lambda>col m. PutPixel con' m (global_cursor_x con' + word_of_nat col)
      (global_cursor_y con' + word_of_nat row) 0xFF0000FF (frame_buffer con')) [0..<8] m) [0..<16] m"
    using assms(3) True by (auto simp: PrintChar_def Let_def)
  moreover have "fold (\<lambda>row m. fold (\<lambda>col m. PutPixel con' m (global_cursor_x con' + word_of_nat col)
      (global_cursor_y con' + word_of_nat row) 0xFF0000FF (frame_buffer con')) [0..<8] m) [0..<16] m a = m a"
    by (intro fold_frame) (use cell_frame [OF draw(1)] assms(2) draw in auto)
  ultimately show ?thesis by simp
qed

section \<open>The line editor\<close>

text \<open>The buffer holds \<open>line\<close>.\<close>

definition holds :: "keyboard \<Rightarrow> mem \<Rightarrow> byte list \<Rightarrow> bool" where
  "holds k m line \<longleftrightarrow> unat (input_pos k) = length line \<and> length line \<le> 255 \<and> 0 \<notin> set line \<and>
     bytes m (input_buffer k) (length line) = line"

text \<open>What a key does to the line: the new line, and the line handed to the shell. A backspace on
  an empty line is an ordinary key.\<close>

definition edit :: "byte \<Rightarrow> byte list \<Rightarrow> byte list \<times> byte list option" where
  "edit key line =
     (if key = 8 \<and> line \<noteq> [] then (butlast line, None)
      else if key = 10 then ([], Some line)
      else if key \<noteq> 0 \<and> length line < 255 then (line @ [key], None)
      else (line, None))"

lemma bytes_append: "bytes m p (n + n') = bytes m p n @ bytes m (p + word_of_nat n) n'"
  by (rule nth_equalityI) (auto simp: nth_append add.assoc of_nat_diff)

lemma bytes_take: "bytes m p n = xs \<Longrightarrow> k \<le> n \<Longrightarrow> bytes m p k = take k xs"
  by (rule nth_equalityI) auto

lemma holds_cong:
  assumes "holds k m line" "\<And>a. in_range (input_buffer k) 256 a \<Longrightarrow> m' a = m a"
    "input_pos k' = input_pos k" "input_buffer k' = input_buffer k"
  shows "holds k' m' line"
proof -
  have "bytes m' (input_buffer k) (length line) = bytes m (input_buffer k) (length line)"
    using assms(1) by (intro bytes_cong assms(2) in_range_offset) (simp_all add: holds_def)
  then show ?thesis using assms by (simp add: holds_def)
qed

lemma bytes_upd:
  assumes "i < n \<Longrightarrow> False" "i < 2 ^ 32" "n \<le> 2 ^ 32"
  shows "bytes (m(p + word_of_nat i := c)) p n = bytes m p n"
proof (rule bytes_cong)
  fix j assume "j < n"
  then have "(word_of_nat j :: u32) \<noteq> word_of_nat i"
    using assms word_of_nat_inject_u32 [of j i] by auto
  then show "(m(p + word_of_nat i := c)) (p + word_of_nat j) = m (p + word_of_nat j)" by simp
qed

lemma holds_pos: "holds k m line \<Longrightarrow> input_pos k = word_of_nat (length line)"
  unfolding holds_def by (elim conjE) (metis unat_word_of_nat word_of_nat_unat)

lemma holds_butlast:
  assumes "holds k m line" "line \<noteq> []"
  shows "holds (k\<lparr>input_pos := input_pos k - 1\<rparr>) (m(input_buffer k + (input_pos k - 1) := 0)) (butlast line)"
proof -
  let ?n = "length line - 1"
  have n: "unat (input_pos k) = length line" "0 < length line" "length line \<le> 255"
    using assms by (simp_all add: holds_def)
  then have pos': "unat (input_pos k - 1) = ?n" by (subst unat_dec) auto
  then have pos: "input_pos k - 1 = word_of_nat ?n" by (metis word_of_nat_unat)
  have "bytes (m(input_buffer k + (input_pos k - 1) := 0)) (input_buffer k) ?n = bytes m (input_buffer k) ?n"
    using n(3) unfolding pos by (intro bytes_upd) simp_all
  moreover have "bytes m (input_buffer k) ?n = butlast line"
    using assms(1) bytes_take [of m "input_buffer k" "length line" line ?n] by (simp add: holds_def butlast_conv_take)
  ultimately show ?thesis
    using assms pos' by (auto simp: holds_def dest: in_set_butlastD)
qed

lemma holds_snoc:
  assumes "holds k m line" "length line < 255" "key \<noteq> 0"
  shows "holds (k\<lparr>input_pos := input_pos k + 1\<rparr>) (m(input_buffer k + input_pos k := key)) (line @ [key])"
proof -
  let ?n = "length line"
  have n: "unat (input_pos k) = ?n" using assms by (simp add: holds_def)
  note pos = holds_pos [OF assms(1)]
  have "bytes (m(input_buffer k + input_pos k := key)) (input_buffer k) ?n = bytes m (input_buffer k) ?n"
    using assms(2) unfolding pos by (intro bytes_upd) simp_all
  moreover have "unat (input_pos k + 1) = ?n + 1" using n assms(2) by (simp add: unat_word_ariths)
  ultimately show ?thesis
    using assms pos bytes_append [of "m(input_buffer k + input_pos k := key)" "input_buffer k" ?n 1]
    by (auto simp: holds_def bytes_Suc)
qed

text \<open>The return key copies the line, terminated, into the shell's buffer.\<close>

lemma SetExecBuffer_writes:
  assumes "holds k m line" "apart (ex_buffer k) 256 (input_buffer k) 256"
  shows "SetExecBuffer k (m(input_buffer k + input_pos k := 0)) (input_buffer k) =
    Some (k\<lparr>exec := 1\<rparr>, write_bytes (m(input_buffer k + input_pos k := 0)) (ex_buffer k) (line @ [0]))"
proof -
  let ?m = "m(input_buffer k + input_pos k := 0)" and ?n = "length line"
  have n: "?n \<le> 255" "0 \<notin> set line" "bytes m (input_buffer k) ?n = line" using assms(1) by (simp_all add: holds_def)
  have "bytes ?m (input_buffer k) ?n = line"
    using n unfolding holds_pos [OF assms(1)] by (subst bytes_upd) simp_all
  then have "cstr ?m (input_buffer k) line"
    using n(2) by (simp add: cstr_iff flip: holds_pos [OF assms(1)])
  then have "strcpy ?m (ex_buffer k) (input_buffer k) = Some (write_bytes ?m (ex_buffer k) (line @ [0]))"
    using n(1) assms(2) by (intro strcpy_cstr) (auto elim: apart_mono)
  then show ?thesis by (simp add: SetExecBuffer_def)
qed

lemma SetExecBuffer_copies:
  assumes "holds k m line" "apart (ex_buffer k) 256 (input_buffer k) 256"
  shows "\<exists>m'. SetExecBuffer k (m(input_buffer k + input_pos k := 0)) (input_buffer k) = Some (k\<lparr>exec := 1\<rparr>, m') \<and>
    cstr m' (ex_buffer k) line"
  using assms(1) by (simp add: SetExecBuffer_writes [OF assms] holds_def cstr_write_bytes)

lemma PrintChar_holds:
  assumes "holds k m line" "draws_within con H" "apart (input_buffer k) 256 (frame_buffer con) (4 * (H * unat (nWidth con)))"
    and "PrintChar con m c = (con', m')"
  shows "holds k m' line"
proof (rule holds_cong [OF assms(1)])
  fix a assume "in_range (input_buffer k) 256 a"
  then have "\<not> in_range (frame_buffer con) (4 * (H * unat (nWidth con))) a"
    using in_range_ex apart_notin [OF assms(3)] by blast
  then show "m' a = m a" by (rule PrintChar_frame [OF assms(2) _ assms(4)])
qed simp_all

text \<open>C40: the keyboard interrupt refines the line editor \<open>edit\<close>. While the buffer holds \<open>line\<close>, the handler
  terminates on every scancode, the buffer then holds the edited line, and on the return key the
  shell's buffer holds the line, terminated, and \<open>exec\<close> is set.\<close>

theorem int21h_handler_edits:
  assumes "holds k m line" "draws_within con H" "uart_serves io busy sent"
    and buffers: "apart (ex_buffer k) 256 (input_buffer k) 256"
      "apart (input_buffer k) 256 (frame_buffer con) (4 * (H * unat (nWidth con)))"
    and key: "insb io 0x60 d = (scancode, d0)" "key = kb_at beyond scancode"
  shows "\<exists>k' con' m' d'. int21h_handler beyond io k con m d = Some (k', con', m', d') \<and>
    holds k' m' (fst (edit key line)) \<and>
    (case snd (edit key line) of None \<Rightarrow> exec k' = exec k
     | Some l \<Rightarrow> exec k' = 1 \<and> cstr m' (ex_buffer k) l)"
proof -
  have n: "unat (input_pos k) = length line" "length line \<le> 255" using assms(1) by (simp_all add: holds_def)
  then have "sint (input_pos k) = int (length line)" by (simp add: sint_unat)
  then have pos: "0 <s input_pos k \<longleftrightarrow> line \<noteq> []" "input_pos k < 255 \<longleftrightarrow> length line < 255"
    using n by (auto simp: word_sless_alt word_less_nat_alt)
  consider "key = 8" "line \<noteq> []" | "\<not> (key = 8 \<and> line \<noteq> [])" "key = 10"
    | "\<not> (key = 8 \<and> line \<noteq> [])" "key \<noteq> 10" "key \<noteq> 0" "length line < 255"
    | "\<not> (key = 8 \<and> line \<noteq> [])" "key \<noteq> 10" "\<not> (key \<noteq> 0 \<and> length line < 255)" by blast
  then show ?thesis
  proof cases
    case 1
    let ?k = "k\<lparr>input_pos := input_pos k - 1\<rparr>" and ?m = "m(input_buffer k + (input_pos k - 1) := 0)"
    obtain con' m' where print: "PrintChar con ?m 8 = (con', m')" by fastforce
    have "holds ?k m' (butlast line)"
      using PrintChar_holds [OF holds_butlast [OF assms(1) 1(2)] assms(2) _ print] buffers(2) by simp
    then show ?thesis using 1 key pos(1) print by (simp add: int21h_handler_def edit_def)
  next
    case 2
    obtain m' where copy: "SetExecBuffer k (m(input_buffer k + input_pos k := 0)) (input_buffer k) = Some (k\<lparr>exec := 1\<rparr>, m')"
      "cstr m' (ex_buffer k) line"
      using SetExecBuffer_copies [OF assms(1) buffers(1)] by blast
    then show ?thesis
      using 2 key by (simp add: int21h_handler_def edit_def holds_def)
  next
    case 3
    let ?k = "k\<lparr>input_pos := input_pos k + 1\<rparr>" and ?m = "m(input_buffer k + input_pos k := key)"
    obtain con' m' where print: "PrintChar con ?m key = (con', m')" by fastforce
    obtain d' where "DbgPutc io key d0 = Some d'" using DbgPutc_sends [OF assms(3)] by blast
    moreover have "holds ?k m' (line @ [key])"
      using PrintChar_holds [OF holds_snoc [OF assms(1) 3(4,3)] assms(2) _ print] buffers(2) by simp
    moreover have "\<not> (key = 8 \<and> 0 <s input_pos k)" using 3 pos(1) by blast
    ultimately show ?thesis
      using 3 key(1) pos(2) print key(2) [symmetric] by (auto simp: int21h_handler_def edit_def)
  next
    case 4
    have "\<not> (key = 8 \<and> 0 <s input_pos k)" "\<not> (key \<noteq> 0 \<and> input_pos k < 255)" using 4 pos by blast+
    then show ?thesis
      using 4 key(1) assms(1) key(2) [symmetric] by (auto simp: int21h_handler_def edit_def)
  qed
qed

text \<open>The key \<open>a\<close> after the line \<open>b\<close>.\<close>

definition example_keyboard :: keyboard where
  "example_keyboard = \<lparr>input_buffer = 0x2000, input_pos = 1, ex_buffer = 0x3000, exec = 0\<rparr>"

theorem int21h_handler_edits_witness:
  "\<exists>k' con' m' d'. int21h_handler (\<lambda>_. 0) example_machine example_keyboard example_console ((\<lambda>_. 0)(0x2000 := 0x62)) (0, []) =
      Some (k', con', m', d') \<and> holds k' m' [0x62, 0x61]"
proof -
  have "holds example_keyboard ((\<lambda>_. 0)(0x2000 := 0x62)) [0x62]"
    by (simp add: holds_def example_keyboard_def bytes_def)
  moreover have "draws_within example_console 480"
    using example_on_grid by (simp add: draws_within_def) (simp add: example_console_def)
  moreover have "apart (ex_buffer example_keyboard) 256 (input_buffer example_keyboard) 256"
    using low_apart [where p = "0x2000" and n = 256 and q = "0x3000" and n' = 256] by (simp add: example_keyboard_def apart_sym)
  moreover have "apart (input_buffer example_keyboard) 256 (frame_buffer example_console) (4 * (480 * unat (nWidth example_console)))"
    using low_apart [where p = "0x2000" and n = 256 and q = "0x1000000" and n' = "4 * (480 * 640)"] by (simp add: example_keyboard_def example_console_def)
  moreover have "insb example_machine 0x60 (0, []) = (0x1E, (0, []))" by (simp add: example_machine_def)
  moreover have "0x61 = kb_at (\<lambda>_. 0) 0x1E" by (simp add: kb_at_def kb_def)
  ultimately show ?thesis
    using int21h_handler_edits [OF _ _ example_machine_serves] by (fastforce simp: edit_def)
qed

section \<open>Every sequence of interrupts\<close>

text \<open>The states the interrupts lead to, from an empty line; other code may change the console, the
  memory and the devices in between.\<close>

inductive interrupts :: "(nat \<Rightarrow> byte) \<Rightarrow> 'd ports \<Rightarrow> keyboard \<Rightarrow> keyboard \<Rightarrow> bool" for beyond io k0 where
  start: "interrupts beyond io k0 k0"
| key: "interrupts beyond io k0 k \<Longrightarrow> int21h_handler beyond io k con m d = Some (k', con', m', d') \<Longrightarrow>
    interrupts beyond io k0 k'"

lemma int21h_handler_fields:
  assumes "int21h_handler beyond io k con m d = Some (k', con', m', d')"
  shows "input_buffer k' = input_buffer k" "ex_buffer k' = ex_buffer k"
    "unat (input_pos k') \<le> max (unat (input_pos k)) 255"
proof -
  let ?key = "kb_at beyond (fst (insb io 0x60 d))"
  consider "?key = 8" "0 <s input_pos k" | "\<not> (?key = 8 \<and> 0 <s input_pos k)" "?key = 10"
    | "\<not> (?key = 8 \<and> 0 <s input_pos k)" "?key \<noteq> 10" "?key \<noteq> 0 \<and> input_pos k < 255"
    | "\<not> (?key = 8 \<and> 0 <s input_pos k)" "?key \<noteq> 10" "\<not> (?key \<noteq> 0 \<and> input_pos k < 255)" by blast
  then have "input_buffer k' = input_buffer k \<and> ex_buffer k' = ex_buffer k \<and>
      (input_pos k' = input_pos k \<or> input_pos k' = 0 \<or> 0 <s input_pos k \<and> input_pos k' = input_pos k - 1 \<or>
       input_pos k < 255 \<and> input_pos k' = input_pos k + 1)"
    using assms
    by cases (auto simp: int21h_handler_def SetExecBuffer_def Let_def bind_eq_Some_conv case_prod_beta)
  moreover have "0 <s input_pos k \<Longrightarrow> unat (input_pos k - 1) \<le> unat (input_pos k)"
    by (subst unat_dec) auto
  moreover have "input_pos k < 255 \<Longrightarrow> unat (input_pos k + 1) \<le> 255"
    using unat_Suc_less [of "input_pos k" 255] by (simp add: word_less_nat_alt)
  ultimately show "input_buffer k' = input_buffer k" "ex_buffer k' = ex_buffer k"
    "unat (input_pos k') \<le> max (unat (input_pos k)) 255"
    by auto
qed

text \<open>Whatever keys arrive, and whatever other code does to the console, the memory and the
  devices between the interrupts, the position in the line buffer stays below its 256 bytes and
  both buffers stay where they are.\<close>

theorem interrupts_bounded:
  "interrupts beyond io k0 k \<Longrightarrow> unat (input_pos k0) \<le> 255 \<Longrightarrow>
   unat (input_pos k) \<le> 255 \<and> input_buffer k = input_buffer k0 \<and> ex_buffer k = ex_buffer k0"
proof (induction rule: interrupts.induct)
  case (key k con m d k' con' m' d')
  then show ?case using int21h_handler_fields [OF key(2)] by simp
qed simp

theorem interrupts_bounded_witness:
  "\<exists>k con m d. int21h_handler (\<lambda>_. 0) example_machine example_keyboard example_console (\<lambda>_. 0) (0, []) = Some (k, con, m, d) \<and>
    unat (input_pos k) \<le> 255"
proof -
  obtain d' where "DbgPutc example_machine 0x61 (0, []) = Some d'" using DbgPutc_sends [OF example_machine_serves] by blast
  then obtain k con m d where
    "int21h_handler (\<lambda>_. 0) example_machine example_keyboard example_console (\<lambda>_. 0) (0, []) = Some (k, con, m, d)"
    by (simp add: int21h_handler_def example_machine_def kb_at_def kb_def example_keyboard_def Let_def case_prod_beta)
  moreover from interrupts.key [OF interrupts.start this]
  have "interrupts (\<lambda>_. 0) example_machine example_keyboard k" .
  ultimately show ?thesis using interrupts_bounded [of "\<lambda>_. 0" example_machine example_keyboard k]
    by (simp add: example_keyboard_def)
qed

text \<open>\<open>NtGetInputBufferSyscall\<close> hands the line out, terminated, and reports success.\<close>

theorem NtGetInputBuffer_copies:
  assumes "holds k m line" "buf \<noteq> 0" "apart (input_buffer k) 256 buf 256"
    and "NtGetInputBufferSyscall k m buf = (status, m')"
  shows "status = 0 \<and> cstr m' buf line"
proof -
  let ?n = "length line"
  have n: "unat (input_pos k) = ?n" "?n \<le> 255" "0 \<notin> set line" "bytes m (input_buffer k) ?n = line"
    using assms(1) by (simp_all add: holds_def)
  have pos: "input_pos k <s 256" using n(1,2) by (simp add: word_sless_alt sint_unat)
  define m1 where "m1 = memcpy m buf (input_buffer k) (input_pos k)"
  have run: "status = 0" "m' = m1(buf + input_pos k := 0)"
    using assms(2,4) pos by (simp_all add: NtGetInputBufferSyscall_def Let_def m1_def word_sle_eq)
  have far: "buf + word_of_nat j \<noteq> input_buffer k + word_of_nat i" if "i < unat (input_pos k)" "j < i" for i j
    using apartD [OF assms(3), of i j] that n(1,2) by auto
  have "m1 (buf + word_of_nat i) = m (input_buffer k + word_of_nat i)" if "i < ?n" for i
    using that n(1,2) in_range_offset [of ?n i buf]
      memcpy_apply [of "input_pos k" buf "input_buffer k" m "buf + word_of_nat i", OF far] by (simp add: m1_def)
  then have "bytes m1 buf ?n = line" using n(4) by (metis bytes_cong nth_bytes length_bytes nth_equalityI)
  then have "bytes m' buf ?n = line"
    using n(2) unfolding run holds_pos [OF assms(1)] by (subst bytes_upd) simp_all
  then show ?thesis using n(3) by (simp add: cstr_iff run flip: holds_pos [OF assms(1)])
qed

theorem NtGetInputBuffer_copies_witness:
  "fst (NtGetInputBufferSyscall example_keyboard ((\<lambda>_. 0)(0x2000 := 0x62)) 0x5000) = 0 \<and>
    cstr (snd (NtGetInputBufferSyscall example_keyboard ((\<lambda>_. 0)(0x2000 := 0x62)) 0x5000)) 0x5000 [0x62]"
proof (rule NtGetInputBuffer_copies [OF _ _ _ prod.collapse [symmetric]])
  show "holds example_keyboard ((\<lambda>_. 0)(0x2000 := 0x62)) [0x62]"
    by (simp add: holds_def example_keyboard_def bytes_def)
  show "apart (input_buffer example_keyboard) 256 0x5000 256"
    using low_apart [where p = "0x2000" and n = 256 and q = "0x5000" and n' = 256] by (simp add: example_keyboard_def)
qed simp

end
