(* ===== verification/Output.thy ===== *)
theory Output
  imports Keyboard Terminal
begin

text \<open>
  What the kernel's three outputs do with one string: \<open>Print\<close> of \<^verbatim>\<open>init/kernel.c\<close> on the graphical
  console (it returns, moves the cursor as a text of cells does, and draws only into the frame
  buffer), beside \<open>print\<close> (theory \<open>Terminal\<close>) and \<open>DbgPrint\<close> (theory \<open>Serial\<close>).
\<close>

section \<open>The frame buffer\<close>

definition on_frame :: "console \<Rightarrow> nat \<Rightarrow> addr \<Rightarrow> bool" where
  "on_frame con H a \<longleftrightarrow> in_range (frame_buffer con) (4 * (H * unat (nWidth con))) a"

lemma on_frame_cursor [simp]:
  "on_frame (con\<lparr>global_cursor_x := x, global_cursor_y := y\<rparr>) H a = on_frame con H a"
  "on_frame (con\<lparr>global_cursor_x := x\<rparr>) H a = on_frame con H a"
  "on_frame (con\<lparr>global_cursor_y := y\<rparr>) H a = on_frame con H a"
  by (simp_all add: on_frame_def)

lemma RenderChar_cong:
  assumes "nWidth con' = nWidth con" "fontdata con' = fontdata con"
  shows "RenderChar con' = RenderChar con"
proof -
  have "PutPixel con' = PutPixel con" by (intro ext) (simp add: PutPixel_def assms(1))
  then show ?thesis by (intro ext) (simp only: RenderChar_def assms(2))
qed

lemma RenderChar_cursor [simp]:
  "RenderChar (con\<lparr>global_cursor_x := cx, global_cursor_y := cy\<rparr>) = RenderChar con"
  by (rule RenderChar_cong) simp_all

text \<open>There is room for \<open>n\<close> more lines below the cell at \<open>x, y\<close>.\<close>

definition room :: "console \<Rightarrow> nat \<Rightarrow> u32 \<Rightarrow> u32 \<Rightarrow> nat \<Rightarrow> bool" where
  "room con H x y n \<longleftrightarrow> draws_within (con\<lparr>global_cursor_x := x, global_cursor_y := y\<rparr>) H \<and> unat y + 16 * n + 16 \<le> H"

lemma roomD: "room con H x y n \<Longrightarrow> draws_within (con\<lparr>global_cursor_x := x, global_cursor_y := y\<rparr>) H"
  by (simp add: room_def)

lemma room_line:
  assumes "room con H x' y (Suc n)" "room con H x y' k"
  shows "room con H x (y + 16) n"
proof -
  have "unat y + 16 * Suc n + 16 \<le> H" "H < 2 ^ 31" using assms(1) by (simp_all add: room_def draws_within_def)
  then have "unat (y + 16) = unat y + 16" by (simp add: unat_word_ariths)
  then show ?thesis using assms by (simp add: room_def draws_within_def on_grid_def)
qed

lemma room_next:
  assumes "room con H x y (Suc n)" "\<not> screen_w con < x + 8 + 8"
  shows "room con H (x + 8) y n"
proof -
  have x: "unat x mod 8 = 0" "unat x + 8 \<le> unat (screen_w con)" "unat (screen_w con) < 2 ^ 31"
    using assms(1) by (auto simp: room_def draws_within_def on_grid_def)
  then have eq: "unat (x + 8) = unat x + 8" "unat (x + 8 + 8) = unat x + 16" by (simp_all add: unat_word_ariths)
  then have "unat x + 16 \<le> unat (screen_w con)" using assms(2) by (simp add: word_less_nat_alt)
  then show ?thesis using assms(1) x(1) eq by (auto simp: room_def draws_within_def on_grid_def)
qed

lemma room_less: "room con H x y (Suc n) \<Longrightarrow> room con H x y n"
  by (simp add: room_def)

lemma render_loop_frame:
  assumes "cstr m str s" "room con H cx cy (length s)" "room con H x y0 0"
    and "\<And>i. i \<le> length s \<Longrightarrow> \<not> on_frame con H (str + word_of_nat i)"
  shows "\<exists>m'. render_loop con x color (frame_buffer con) (screen_w con) cx cy str m = Some m' \<and>
    (\<forall>a. \<not> on_frame con H a \<longrightarrow> m' a = m a)"
  using assms(1,2,4)
proof (induction s arbitrary: str m cx cy)
  case Nil
  then show ?case by (subst render_loop.simps) simp
next
  case (Cons c s)
  have c: "m str = c" "c \<noteq> 0" and s: "cstr m (str + 1) s" using Cons.prems(1) by auto
  have out: "\<not> on_frame con H (str + 1 + word_of_nat i)" if "i \<le> length s" for i
    using Cons.prems(3) [of "Suc i"] that by (simp add: add.assoc)
  let ?m = "RenderChar con m cx cy color (frame_buffer con) c"
  have draw: "?m a = m a" if "\<not> on_frame con H a" for a
    using RenderChar_frame [OF roomD [OF Cons.prems(2)], of "frame_buffer con" a m color c] that by (simp add: on_frame_def)
  have s': "cstr ?m (str + 1) s"
    using draw out by (intro cstr_cong [OF s]) auto
  have line: "room con H x (cy + 16) (length s)"
    using Cons.prems(2) assms(3) by (simp add: room_line)
  consider "c = 10" | "c \<noteq> 10" "screen_w con < cx + 8 + 8" | "c \<noteq> 10" "\<not> screen_w con < cx + 8 + 8" by blast
  then show ?case
  proof cases
    case 1
    then show ?thesis using Cons.IH [OF s line out] c by (subst render_loop.simps) simp
  next
    case 2
    then show ?thesis using Cons.IH [OF s' line out] c draw by (subst render_loop.simps) (simp add: Let_def)
  next
    case 3
    have "room con H (cx + 8) cy (length s)" using room_next Cons.prems(2) 3(2) by simp
    then show ?thesis using Cons.IH [OF s' _ out] c draw 3 by (subst render_loop.simps) (simp add: Let_def)
  qed
qed

section \<open>The cursor after a string\<close>

text \<open>\<open>Print\<close> moves the cursor as \<open>PrintChar\<close> does, except that a backspace is a character to it.\<close>

definition printed :: "byte \<Rightarrow> byte" where
  "printed c = (if c = 8 then 0x20 else c)"

definition print_cursor :: "nat \<Rightarrow> byte \<Rightarrow> nat \<times> nat \<Rightarrow> nat \<times> nat" where
  "print_cursor w c = advance_cursor w (printed c)"

lemma cursor_loop_step:
  "cursor_loop m str con =
     (if m str \<noteq> 0 then cursor_loop m (str + 1) (fst (PrintChar con m (printed (m str)))) else Some con)"
  by (subst cursor_loop.simps) (simp add: PrintChar_def printed_def Let_def)

lemma PrintChar_printed_fields:
  "\<exists>x y. fst (PrintChar con m (printed c)) = con\<lparr>global_cursor_x := x, global_cursor_y := y\<rparr>"
  by (cases con) (auto simp: PrintChar_def printed_def Let_def)

lemma cursor_loop_cstr:
  assumes "cstr m str s" "on_grid con" "unat (global_cursor_y con) + 16 * length s + 16 < 2 ^ 31"
  shows "\<exists>x y. cursor_loop m str con = Some (con\<lparr>global_cursor_x := x, global_cursor_y := y\<rparr>) \<and>
    on_grid (con\<lparr>global_cursor_x := x, global_cursor_y := y\<rparr>) \<and>
    (unat x, unat y) = fold (print_cursor (unat (screen_w con))) s (cursor con)"
  using assms
proof (induction s arbitrary: str con)
  case Nil
  then have "cursor_loop m str con = Some con" by (subst cursor_loop_step) simp
  then show ?case using Nil.prems(2)
    by (intro exI [of _ "global_cursor_x con"] exI [of _ "global_cursor_y con"]) (simp add: cursor_def)
next
  case (Cons c s)
  let ?con = "fst (PrintChar con m (printed c))"
  have c: "m str = c" "c \<noteq> 0" and s: "cstr m (str + 1) s" using Cons.prems(1) by auto
  have step: "cursor ?con = advance_cursor (unat (screen_w con)) (printed c) (cursor con)" "on_grid ?con"
    "screen_w ?con = screen_w con"
    using PrintChar_cursor [OF Cons.prems(2) _ prod.collapse [symmetric], of m "printed c"] Cons.prems(3) by simp_all
  then have "unat (global_cursor_y ?con) \<le> unat (global_cursor_y con) + 16"
    by (auto simp: cursor_def advance_cursor_def split: if_splits)
  then have y: "unat (global_cursor_y ?con) + 16 * length s + 16 < 2 ^ 31" using Cons.prems(3) by simp
  obtain x' y' where con': "?con = con\<lparr>global_cursor_x := x', global_cursor_y := y'\<rparr>"
    using PrintChar_printed_fields by blast
  obtain x y where "cursor_loop m (str + 1) ?con = Some (?con\<lparr>global_cursor_x := x, global_cursor_y := y\<rparr>)"
    "on_grid (?con\<lparr>global_cursor_x := x, global_cursor_y := y\<rparr>)"
    "(unat x, unat y) = fold (print_cursor (unat (screen_w con))) s (cursor ?con)"
    using Cons.IH [OF s step(2) y] unfolding step(3) by blast
  moreover have "cursor_loop m str con = cursor_loop m (str + 1) ?con" using c by (subst cursor_loop_step) simp
  moreover have "?con\<lparr>global_cursor_x := x, global_cursor_y := y\<rparr> = con\<lparr>global_cursor_x := x, global_cursor_y := y\<rparr>"
    by (simp add: con')
  moreover have "cursor ?con = print_cursor (unat (screen_w con)) c (cursor con)" using step(1) by (simp only: print_cursor_def)
  ultimately show ?case by (intro exI conjI) (simp_all only: fold_Cons o_apply)
qed

text \<open>\<open>Print\<close> of a string apart from the frame buffer, with room for a line per character.\<close>

lemma Print_moves:
  assumes "cstr m str s" "room con H (global_cursor_x con) (global_cursor_y con) (length s)"
    and "\<And>i. i \<le> length s \<Longrightarrow> \<not> on_frame con H (str + word_of_nat i)"
  shows "\<exists>x y m'. Print con m str = Some (con\<lparr>global_cursor_x := x, global_cursor_y := y\<rparr>, m') \<and>
    on_grid (con\<lparr>global_cursor_x := x, global_cursor_y := y\<rparr>) \<and>
    (unat x, unat y) = fold (print_cursor (unat (screen_w con))) s (cursor con) \<and>
    (\<forall>a. \<not> on_frame con H a \<longrightarrow> m' a = m a)"
proof -
  have "room con H (global_cursor_x con) (global_cursor_y con) 0" using assms(2) by (simp add: room_def)
  then obtain m' where m': "RenderString con m (global_cursor_x con) (global_cursor_y con) 0xFFFFFFFF (frame_buffer con) str
      (screen_w con) = Some m'" "\<forall>a. \<not> on_frame con H a \<longrightarrow> m' a = m a"
    using render_loop_frame [OF assms(1,2) _ assms(3)] unfolding RenderString_def by blast
  then have "cstr m' str s" using assms(3) by (intro cstr_cong [OF assms(1)]) auto
  moreover have "on_grid con" "unat (global_cursor_y con) + 16 * length s + 16 < 2 ^ 31"
    using assms(2) by (simp_all add: room_def draws_within_def)
  ultimately obtain x y where "cursor_loop m' str con = Some (con\<lparr>global_cursor_x := x, global_cursor_y := y\<rparr>)"
    "on_grid (con\<lparr>global_cursor_x := x, global_cursor_y := y\<rparr>)"
    "(unat x, unat y) = fold (print_cursor (unat (screen_w con))) s (cursor con)"
    using cursor_loop_cstr by blast
  then show ?thesis using m' by (auto simp: Print_def)
qed

section \<open>Showing a text\<close>

text \<open>The contract of an operation that shows the string at an address: \<open>fits n k\<close> is the room there is in
  state \<open>k\<close>, \<open>holds k p t\<close> says that the text \<open>t\<close> is at \<open>p\<close>, and \<open>effect t k k'\<close> is what showing it does.\<close>

primrec print_each :: "(addr \<Rightarrow> 'k \<Rightarrow> 'k option) \<Rightarrow> addr list \<Rightarrow> 'k \<Rightarrow> 'k option" where
  "print_each out [] k = Some k"
| "print_each out (p # ps) k = do { k \<leftarrow> out p k; print_each out ps k }"

locale text_output =
  fixes out :: "addr \<Rightarrow> 'k \<Rightarrow> 'k option"
    and fits :: "nat \<Rightarrow> 'k \<Rightarrow> bool"
    and holds :: "'k \<Rightarrow> addr \<Rightarrow> byte list \<Rightarrow> bool"
    and effect :: "byte list \<Rightarrow> 'k \<Rightarrow> 'k \<Rightarrow> bool"
  assumes put_text: "fits (n + length t) k \<Longrightarrow> holds k p t \<Longrightarrow> \<exists>k'. out p k = Some k' \<and> effect t k k' \<and> fits n k'"
    and effect_holds: "effect t k k' \<Longrightarrow> holds k p u \<Longrightarrow> holds k' p u"
    and effect_append: "effect t k k1 \<Longrightarrow> effect u k1 k2 \<Longrightarrow> effect (t @ u) k k2"
    and effect_Nil: "effect [] k k"
begin

text \<open>A sequence of strings shows their concatenation.\<close>

lemma print_each_texts:
  "list_all2 (holds k) ps ts \<Longrightarrow> fits (n + length (concat ts)) k \<Longrightarrow>
    \<exists>k'. print_each out ps k = Some k' \<and> effect (concat ts) k k' \<and> fits n k'"
proof (induction ps arbitrary: ts k)
  case Nil
  then show ?case using effect_Nil by simp
next
  case (Cons p ps)
  then obtain t us where ts: "ts = t # us" "holds k p t" "list_all2 (holds k) ps us" by (auto simp: list_all2_Cons1)
  have "fits ((n + length (concat us)) + length t) k" using Cons.prems(2) ts(1) by (simp add: ac_simps)
  then obtain k1 where k1: "out p k = Some k1" "effect t k k1" "fits (n + length (concat us)) k1"
    using put_text ts(2) by blast
  have "list_all2 (holds k1) ps us" using ts(3) effect_holds [OF k1(2)] by (auto elim: list_all2_mono)
  then obtain k2 where "print_each out ps k1 = Some k2" "effect (concat us) k1 k2" "fits n k2"
    using Cons.IH k1(3) by blast
  then show ?case using k1 effect_append ts(1) by auto
qed

end

text \<open>The text terminal provides it.\<close>

definition terminal_fits :: "nat \<Rightarrow> terminal \<times> mem \<Rightarrow> bool" where
  "terminal_fits n k \<longleftrightarrow> terminal_ok (fst k)"

definition terminal_holds :: "terminal \<times> mem \<Rightarrow> addr \<Rightarrow> byte list \<Rightarrow> bool" where
  "terminal_holds k p t \<longleftrightarrow> cstr (snd k) p t \<and> length t < 2 ^ 32 \<and>
     (\<forall>i\<le>length t. \<not> in_range (video_mem (fst k)) 3200 (p + word_of_nat i))"

definition terminal_effect :: "byte list \<Rightarrow> terminal \<times> mem \<Rightarrow> terminal \<times> mem \<Rightarrow> bool" where
  "terminal_effect t k k' \<longleftrightarrow> video_mem (fst k') = video_mem (fst k) \<and>
     view (fst k') (snd k') = fold (put (vga_entry_color VGA_COLOR_WHITE VGA_COLOR_BLUE)) t (view (fst k) (snd k)) \<and>
     (\<forall>a. \<not> in_range (video_mem (fst k)) 3200 a \<longrightarrow> snd k' a = snd k a)"

interpretation terminal_text: text_output "\<lambda>p k. print (fst k) (snd k) p" terminal_fits terminal_holds terminal_effect
proof
  fix n p t and k :: "terminal \<times> mem"
  assume "terminal_fits (n + length t) k" "terminal_holds k p t"
  then show "\<exists>k'. print (fst k) (snd k) p = Some k' \<and> terminal_effect t k k' \<and> terminal_fits n k'"
    using print_put [of "snd k" p t "fst k"] by (auto simp: terminal_fits_def terminal_holds_def terminal_effect_def)
next
  fix p t u and k k' :: "terminal \<times> mem"
  assume "terminal_effect t k k'" "terminal_holds k p u"
  then show "terminal_holds k' p u"
    using cstr_cong [of "snd k" p u "snd k'"] by (simp add: terminal_effect_def terminal_holds_def)
qed (simp_all add: terminal_effect_def)

end
