(* ===== verification/Syscalls.thy ===== *)
theory Syscalls
  imports Loader Output Port
begin

text \<open>
  The system calls of \<^verbatim>\<open>ke/idt/idt.c\<close>, the batch scripts of \<^verbatim>\<open>init/loader.c\<close> and the shell's command
  interpreter of \<^verbatim>\<open>init/kernel.c\<close>. They call one another: the shell prints and starts programs by
  \<open>int 0x2e\<close>, the dispatcher calls \<open>LdrExecBat\<close>, and that calls the shell for every line. Each is
  defined over the one it calls (an argument), and \<open>int2eh\<close> ties them with a bound on how deep the
  interrupts nest; two are always enough.
\<close>

section \<open>State\<close>

text \<open>The memory, the text terminal, the console, the keyboard with \<open>exec\<close>, the static variable of
  \<open>strtok\<close>, and the devices behind the ports.\<close>

record 'd kernel =
  kmem :: mem
  kterm :: terminal
  kcon :: console
  kkb :: keyboard
  ktok :: addr
  kdev :: 'd

text \<open>What the code runs in: the file systems, the addresses of literals and locals, and three things
  that are not C: \<open>run\<close> is what a loaded program does when it is entered; \<open>left_in_eax\<close> is what
  \<open>eax\<close> holds after \<open>syscall_handler\<close>, which returns nothing, when the dispatcher's result was the
  argument; \<open>int2eh\<close> of \<^verbatim>\<open>idt.asm\<close> gives that to the caller of the interrupt.\<close>

record 'd system =
  s_env :: "'d env"
  s_ops :: "addr \<Rightarrow> 'd fs_ops"
  s_vfs :: vfs
  s_frame :: loader_frame
  s_in_mem :: addr
  s_run :: "addr \<Rightarrow> 'd kernel \<Rightarrow> 'd kernel option"
  left_in_eax :: "u32 \<Rightarrow> u32"
  at_stri :: addr
  at_status :: addr
  lit_file_name :: addr
  lit_example :: addr
  lit_test :: addr
  lit_shutdown_failed :: addr
  lit_newline :: addr
  lit_bad_syscall :: addr
  lit_cls :: addr
  lit_help :: addr
  lit_quote :: addr
  lit_not_recognized :: addr
  lit_prompt :: addr
  lit_bat :: addr
  at_HelpMsg :: addr
  at_copyright :: addr
  lit_banner :: addr

abbreviation s_io :: "'d system \<Rightarrow> 'd ports" where
  "s_io s \<equiv> ports_of (s_env s)"

definition STATUS_OBJECT_NAME_NOT_FOUND :: u32 where [status_defs]: "STATUS_OBJECT_NAME_NOT_FOUND = 0xC0000034"
definition STATUS_INVALID_SYSTEM_SERVICE :: u32 where [status_defs]: "STATUS_INVALID_SYSTEM_SERVICE = 0xC000001C"
definition STATUS_NOT_SUPPORTED :: u32 where [status_defs]: "STATUS_NOT_SUPPORTED = 0xC00000BB"
definition ShutdownNoReboot :: u32 where [status_defs]: "ShutdownNoReboot = 0"
definition ShutdownReboot :: u32 where [status_defs]: "ShutdownReboot = 1"
definition ShutdownPowerOff :: u32 where [status_defs]: "ShutdownPowerOff = 2"

section \<open>Output of a running kernel\<close>

definition kPrint :: "addr \<Rightarrow> 'd kernel \<Rightarrow> 'd kernel option" where
  "kPrint str k = do {
     (con, m) \<leftarrow> Print (kcon k) (kmem k) str;
     Some (k\<lparr>kcon := con, kmem := m\<rparr>)
   }"

definition kprint :: "addr \<Rightarrow> 'd kernel \<Rightarrow> 'd kernel option" where
  "kprint str k = do {
     (t, m) \<leftarrow> print (kterm k) (kmem k) str;
     Some (k\<lparr>kterm := t, kmem := m\<rparr>)
   }"

definition kDbgPrint :: "'d ports \<Rightarrow> addr \<Rightarrow> u32 list \<Rightarrow> 'd kernel \<Rightarrow> 'd kernel option" where
  "kDbgPrint io format args k = do {
     d \<leftarrow> DbgPrint io (kmem k) format args (kdev k);
     Some (k\<lparr>kdev := d\<rparr>)
   }"

section \<open>The services\<close>

text \<open>\<open>UNICODE_STRING\<close> has \<open>Buffer\<close> at 4, \<open>OBJECT_ATTRIBUTES\<close> has \<open>ObjectName\<close> at 8. The result of
  \<open>fopen\<close> goes into the parameter \<open>FileHandle\<close>, a local variable.\<close>

definition NtDisplayStringSyscall :: "'d system \<Rightarrow> addr \<Rightarrow> 'd kernel \<Rightarrow> (u32 \<times> 'd kernel) option" where
  "NtDisplayStringSyscall s String k = do {
     k \<leftarrow> kPrint (read32 (kmem k) (String + 4)) k;
     k \<leftarrow> kprint (read32 (kmem k) (String + 4)) k;
     k \<leftarrow> kDbgPrint (s_io s) (read32 (kmem k) (String + 4)) [] k;
     Some (STATUS_SUCCESS, k)
   }"

definition NtOpenFileSyscall ::
    "'d system \<Rightarrow> addr \<Rightarrow> u32 \<Rightarrow> addr \<Rightarrow> addr \<Rightarrow> u32 \<Rightarrow> u32 \<Rightarrow> 'd kernel \<Rightarrow> (u32 \<times> 'd kernel) option" where
  "NtOpenFileSyscall s FileHandle DesiredAccess ObjectAttributes IoStatusBlock ShareAccess OpenOptions k = do {
     (FileHandle, m, d) \<leftarrow>
       fopen (s_env s) (s_ops s) (s_vfs s) (read32 (kmem k) (read32 (kmem k) (ObjectAttributes + 8) + 4))
         (lit_r (s_frame s)) (kmem k) (kdev k);
     let k = k\<lparr>kmem := m, kdev := d\<rparr>;
     k \<leftarrow> kDbgPrint (s_io s) (lit_file_name s) [read32 (kmem k) (read32 (kmem k) (ObjectAttributes + 8) + 4)] k;
     Some (if FileHandle = 0 then STATUS_OBJECT_NAME_NOT_FOUND else STATUS_SUCCESS, k)
   }"

definition NtReadFileSyscall ::
    "u32 \<Rightarrow> u32 \<Rightarrow> addr \<Rightarrow> addr \<Rightarrow> addr \<Rightarrow> addr \<Rightarrow> u32 \<Rightarrow> u32 \<Rightarrow> addr \<Rightarrow> u32" where
  "NtReadFileSyscall FileHandle Event ApcRoutine ApcContext IoStatusBlock Buffer Length ByteOffset Key =
     STATUS_NOT_SUPPORTED"

definition NtShutdownSystemSyscall :: "'d ports \<Rightarrow> u32 \<Rightarrow> 'd \<Rightarrow> u32 \<times> 'd" where
  "NtShutdownSystemSyscall io Action d =
     (if Action = ShutdownPowerOff then (STATUS_SUCCESS, outw io 0x604 0x2000 d)
      else if Action = ShutdownNoReboot then (STATUS_NOT_SUPPORTED, d)
      else if Action = ShutdownReboot then (STATUS_SUCCESS, outb io 0x64 0xFE d)
      else (STATUS_INVALID_PARAMETER, d))"

text \<open>\<open>hexDigits\<close> and the local array \<open>buffer\<close>, at \<open>at_status\<close>.\<close>

definition hexDigits :: "byte list" where
  "hexDigits = [0x30, 0x31, 0x32, 0x33, 0x34, 0x35, 0x36, 0x37, 0x38, 0x39, 0x41, 0x42, 0x43, 0x44, 0x45, 0x46]"

definition status_text :: "u32 \<Rightarrow> byte list" where
  "status_text Status =
     [0x30, 0x78] @ map (\<lambda>i. hexDigits ! unat (drop_bit (28 - i * 4) Status AND 0xF)) [0..<8] @ [0x4C]"

definition PrintStatus :: "'d system \<Rightarrow> u32 \<Rightarrow> 'd kernel \<Rightarrow> 'd kernel option" where
  "PrintStatus s Status k =
     (let k = k\<lparr>kmem := write_bytes (kmem k) (at_status s) (status_text Status @ [0])\<rparr>
      in kPrint (at_status s) k)"

section \<open>The dispatcher\<close>

text \<open>The loader, and the shell behind it, are arguments here. Of the nine arguments of a system call
  only the first and the third are read.\<close>

definition syscall_dispatcher ::
    "'d system \<Rightarrow> (addr \<Rightarrow> 'd kernel \<Rightarrow> (u32 \<times> 'd kernel) option) \<Rightarrow> u32 \<Rightarrow> u32 \<Rightarrow> u32 \<Rightarrow> 'd kernel \<Rightarrow> (u32 \<times> 'd kernel) option" where
  "syscall_dispatcher s exec_bat syscall_number arg1 arg3 k =
     (if syscall_number = 0x01
      then do {
        k \<leftarrow> (if arg1 = 5 then kprint (lit_example s) k else kprint (lit_test s) k);
        Some (STATUS_SUCCESS, k)
      }
      else if syscall_number = 0x02
      then do {
        (result, t, m, d) \<leftarrow>
          LdrLoadPe (s_frame s) (s_in_mem s) (s_env s) (s_ops s) (s_vfs s) (kterm k) (kmem k) arg1 (kdev k);
        Some (result, k\<lparr>kterm := t, kmem := m, kdev := d\<rparr>)
      }
      else if syscall_number = 0x03 then Some (STATUS_INVALID_SYSTEM_SERVICE, k)
      else if syscall_number = 0x04 then exec_bat arg1 k
      else if syscall_number = 0x2e then NtDisplayStringSyscall s arg1 k
      else if syscall_number = 0x4f then NtOpenFileSyscall s 0 0 arg3 0 0 0 k
      else if syscall_number = 0xb4
      then do {
        let (result, d) = NtShutdownSystemSyscall (s_io s) arg1 (kdev k);
        let k = k\<lparr>kdev := d\<rparr>;
        if result \<noteq> STATUS_SUCCESS
        then do {
          k \<leftarrow> kPrint (lit_shutdown_failed s) k;
          k \<leftarrow> PrintStatus s result k;
          k \<leftarrow> kPrint (lit_newline s) k;
          Some (result, k)
        }
        else Some (result, k)
      }
      else do {
        k \<leftarrow> kPrint (lit_bad_syscall s) k;
        Some (STATUS_INVALID_SYSTEM_SERVICE, k)
      })"

section \<open>The shell\<close>

text \<open>\<open>int2e number ebx\<close> is the interrupt, as the caller sees it.\<close>

definition PrintString ::
    "'d system \<Rightarrow> (u32 \<Rightarrow> u32 \<Rightarrow> 'd kernel \<Rightarrow> (u32 \<times> 'd kernel) option) \<Rightarrow> addr \<Rightarrow> 'd kernel \<Rightarrow> 'd kernel option" where
  "PrintString s int2e msg k = do {
     m \<leftarrow> InitializeUnicodeString (kmem k) (at_stri s) msg;
     (r, k) \<leftarrow> int2e 0x2e (at_stri s) (k\<lparr>kmem := m\<rparr>);
     Some k
   }"

definition not_recognized ::
    "'d system \<Rightarrow> (u32 \<Rightarrow> u32 \<Rightarrow> 'd kernel \<Rightarrow> (u32 \<times> 'd kernel) option) \<Rightarrow> addr \<Rightarrow> 'd kernel \<Rightarrow> 'd kernel option" where
  "not_recognized s int2e cmd k = do {
     k \<leftarrow> PrintString s int2e (lit_quote s) k;
     k \<leftarrow> PrintString s int2e cmd k;
     PrintString s int2e (lit_not_recognized s) k
   }"

definition run_program ::
    "'d system \<Rightarrow> (u32 \<Rightarrow> u32 \<Rightarrow> 'd kernel \<Rightarrow> (u32 \<times> 'd kernel) option) \<Rightarrow> addr \<Rightarrow> bool \<Rightarrow> 'd kernel \<Rightarrow> 'd kernel option" where
  "run_program s int2e cmd isBat k =
     (if \<not> isBat
      then do {
        (syscallResult, k) \<leftarrow> int2e 0x02 cmd k;
        if syscallResult \<noteq> 0 then s_run s syscallResult k else not_recognized s int2e cmd k
      }
      else do {
        (syscallResult, k) \<leftarrow> int2e 0x04 cmd k;
        if syscallResult = STATUS_OBJECT_NAME_NOT_FOUND then not_recognized s int2e cmd k else Some k
      })"

definition clear_exec :: "'d kernel \<Rightarrow> 'd kernel" where
  "clear_exec k = k\<lparr>kkb := (kkb k)\<lparr>exec := 0\<rparr>\<rparr>"

text \<open>\<open>w * h * 32 / 8\<close>, computed in \<open>int\<close>.\<close>

definition screen_bytes :: "console \<Rightarrow> u32" where
  "screen_bytes c = sdiv32 (screen_w c * screen_h c * 32) 8"

text \<open>The body of \<open>NsExec\<close>, up to the prompt.\<close>

definition ns_command ::
    "'d system \<Rightarrow> (u32 \<Rightarrow> u32 \<Rightarrow> 'd kernel \<Rightarrow> (u32 \<times> 'd kernel) option) \<Rightarrow> addr \<Rightarrow> bool \<Rightarrow> 'd kernel \<Rightarrow> 'd kernel option" where
  "ns_command s int2e cmd isBat k = do {
     is_cls \<leftarrow> strcmp (kmem k) cmd (lit_cls s);
     if is_cls = 0
     then
       let k = k\<lparr>kmem := memset (kmem k) (frame_buffer (kcon k)) 0 (screen_bytes (kcon k))\<rparr>;
           k = k\<lparr>kmem := ClearScreen (kcon k) (kmem k)\<rparr>;
           k = k\<lparr>kcon := (kcon k)\<lparr>global_cursor_x := 0, global_cursor_y := 0\<rparr>\<rparr>
       in Some (clear_exec k)
     else do {
       is_help \<leftarrow> strcmp (kmem k) cmd (lit_help s);
       if is_help = 0
       then do {
         k \<leftarrow> PrintString s int2e (at_HelpMsg s) k;
         Some (clear_exec k)
       }
       else if kmem k cmd \<noteq> 0
       then do {
         k \<leftarrow> PrintString s int2e (lit_newline s) k;
         k \<leftarrow> run_program s int2e cmd isBat k;
         Some (clear_exec k)
       }
       else do {
         k \<leftarrow> PrintString s int2e (lit_newline s) k;
         Some (clear_exec k)
       }
     }
   }"

definition NsExec ::
    "'d system \<Rightarrow> (u32 \<Rightarrow> u32 \<Rightarrow> 'd kernel \<Rightarrow> (u32 \<times> 'd kernel) option) \<Rightarrow> addr \<Rightarrow> bool \<Rightarrow> 'd kernel \<Rightarrow> 'd kernel option" where
  "NsExec s int2e cmd isBat k = do {
     k \<leftarrow> ns_command s int2e cmd isBat k;
     PrintString s int2e (lit_prompt s) k
   }"

section \<open>Batch scripts\<close>

text \<open>\<open>data\<close> is a local array of 100 bytes at \<open>bat_data\<close>; \<open>fread\<close> stores 99. \<open>ns_exec line isBat\<close> is the
  shell's \<open>NsExec\<close>.\<close>

partial_function (option) skip_spaces :: "mem \<Rightarrow> addr \<Rightarrow> addr option" where
  "skip_spaces m line = (if m line = 0x20 then skip_spaces m (line + 1) else Some line)"

partial_function (option) bat_lines ::
    "'d system \<Rightarrow> (addr \<Rightarrow> 'd kernel \<Rightarrow> 'd kernel option) \<Rightarrow> addr \<Rightarrow> 'd kernel \<Rightarrow> 'd kernel option" where
  "bat_lines s ns_exec line k =
     (if line = 0 then Some k
      else do {
        line \<leftarrow> skip_spaces (kmem k) line;
        k \<leftarrow> (if kmem k line \<noteq> 0 then ns_exec line k else Some k);
        (line, tok, m) \<leftarrow> strtok (kmem k) (ktok k) 0 (lit_delim (s_frame s));
        bat_lines s ns_exec line (k\<lparr>ktok := tok, kmem := m\<rparr>)
      })"

definition LdrExecBat ::
    "'d system \<Rightarrow> (addr \<Rightarrow> bool \<Rightarrow> 'd kernel \<Rightarrow> 'd kernel option) \<Rightarrow> addr \<Rightarrow> 'd kernel \<Rightarrow> (u32 \<times> 'd kernel) option" where
  "LdrExecBat s ns_exec path k = do {
     let fr = s_frame s;
     k \<leftarrow> kDbgPrint (s_io s) (msg_bat fr) [path] k;
     (t, m) \<leftarrow> join_paths (join_lits fr) (kterm k) (kmem k) (lit_drive fr) path (file_path fr) 20;
     let k = k\<lparr>kterm := t, kmem := m\<rparr>;
     k \<leftarrow> kDbgPrint (s_io s) (msg_absolute fr) [file_path fr] k;
     (fd, m, d) \<leftarrow> fopen (s_env s) (s_ops s) (s_vfs s) (file_path fr) (lit_r fr) (kmem k) (kdev k);
     let k = k\<lparr>kmem := m, kdev := d\<rparr>;
     if fd \<noteq> 0
     then do {
       (res, bs, m, d) \<leftarrow> fread (s_ops s) (s_vfs s) 99 1 fd (kmem k) (kdev k);
       let k = k\<lparr>kmem := write_bytes m (bat_data fr) bs, kdev := d\<rparr>;
       (line, tok, m) \<leftarrow> strtok (kmem k) (ktok k) (bat_data fr) (lit_delim fr);
       k \<leftarrow> bat_lines s (\<lambda>line. ns_exec line False) line (k\<lparr>ktok := tok, kmem := m\<rparr>);
       Some (STATUS_SUCCESS, k)
     }
     else do {
       d \<leftarrow> DbgLog (log_lits fr) (s_io s) (kmem k) (msg_bat_failed fr) LOG_FAIL (kdev k);
       Some (STATUS_OBJECT_NAME_NOT_FOUND, k\<lparr>kdev := d\<rparr>)
     }
   }"

section \<open>The interrupt\<close>

text \<open>\<open>n\<close> bounds how deep interrupts nest; the third argument of a call is in \<open>edx\<close>.\<close>

fun int2eh :: "nat \<Rightarrow> 'd system \<Rightarrow> u32 \<Rightarrow> u32 \<Rightarrow> u32 \<Rightarrow> 'd kernel \<Rightarrow> (u32 \<times> 'd kernel) option" where
  "int2eh 0 s number ebx edx k = None"
| "int2eh (Suc n) s number ebx edx k = do {
     (result, k) \<leftarrow>
       syscall_dispatcher s (LdrExecBat s (NsExec s (\<lambda>number ebx. int2eh n s number ebx edx))) number ebx edx k;
     Some (left_in_eax s result, k)
   }"

section \<open>Interrupts nest two deep\<close>

text \<open>Only call 4 looks at the shell, and a line of a batch script is not itself run as a batch script.\<close>

lemma syscall_dispatcher_cong: "number \<noteq> 4 \<Longrightarrow> syscall_dispatcher s e number a b k = syscall_dispatcher s e' number a b k"
  by (simp add: syscall_dispatcher_def)

lemma int2eh_shallow: "number \<noteq> 4 \<Longrightarrow> int2eh (Suc n) s number ebx edx k = int2eh (Suc m) s number ebx edx k"
  unfolding int2eh.simps by (subst syscall_dispatcher_cong) simp_all

lemma NsExec_cong:
  assumes "\<And>a k. f 0x2e a k = g 0x2e a k" "\<And>a k. f 2 a k = g 2 a k"
  shows "NsExec s f cmd False k = NsExec s g cmd False k"
proof -
  have print: "PrintString s f = PrintString s g" by (intro ext) (simp add: PrintString_def assms(1))
  have "not_recognized s f = not_recognized s g" by (intro ext) (simp only: not_recognized_def print)
  then have "run_program s f cmd False = run_program s g cmd False"
    by (intro ext) (simp only: run_program_def assms(2) if_True simp_thms)
  moreover note print
  ultimately show ?thesis by (simp only: NsExec_def ns_command_def)
qed

lemma LdrExecBat_cong: "(\<And>line k. f line False k = g line False k) \<Longrightarrow> LdrExecBat s f path k = LdrExecBat s g path k"
proof -
  assume "\<And>line k. f line False k = g line False k"
  then have "(\<lambda>line. f line False) = (\<lambda>line. g line False)" by (intro ext)
  then show ?thesis by (simp only: LdrExecBat_def)
qed

lemma int2eh_two: "int2eh (Suc (Suc n)) s number ebx edx k = int2eh 2 s number ebx edx k"
proof -
  have "NsExec s (\<lambda>number ebx. int2eh (Suc n) s number ebx edx) line False k' =
      NsExec s (\<lambda>number ebx. int2eh (Suc 0) s number ebx edx) line False k'" for line k'
    by (intro NsExec_cong int2eh_shallow) simp_all
  then have "LdrExecBat s (NsExec s (\<lambda>number ebx. int2eh (Suc n) s number ebx edx)) =
      LdrExecBat s (NsExec s (\<lambda>number ebx. int2eh (Suc 0) s number ebx edx))"
    by (intro ext LdrExecBat_cong)
  then show ?thesis by (simp only: int2eh.simps numeral_2_eq_2)
qed

text \<open>So this is the interrupt, without a bound.\<close>

definition interrupt :: "'d system \<Rightarrow> u32 \<Rightarrow> u32 \<Rightarrow> u32 \<Rightarrow> 'd kernel \<Rightarrow> (u32 \<times> 'd kernel) option" where
  "interrupt s edx number ebx k = int2eh 2 s number ebx edx k"

section \<open>What is displayed\<close>

text \<open>The abstract state of the three outputs: the console's cursor, the terminal's screen, and what the
  serial line has sent; and what a text does to it.\<close>

type_synonym display = "(nat \<times> nat) \<times> (u16 list list \<times> nat \<times> nat) \<times> byte list"

definition displayed :: "('d \<Rightarrow> byte list) \<Rightarrow> 'd kernel \<Rightarrow> display" where
  "displayed sent k = (cursor (kcon k), view (kterm k) (kmem k), sent (kdev k))"

definition show_text :: "nat \<Rightarrow> byte list \<Rightarrow> display \<Rightarrow> display" where
  "show_text w t = (\<lambda>(c, v, out). (fold (print_cursor w) t c,
     fold (put (vga_entry_color VGA_COLOR_WHITE VGA_COLOR_BLUE)) t v, out @ t))"

lemma show_text_append: "show_text w (t @ u) = show_text w u \<circ> show_text w t"
  by (rule ext) (simp add: show_text_def case_prod_beta)

text \<open>The bytes the outputs change: the frame buffer of \<open>H\<close> lines, the video memory, and the string
  structure of \<open>PrintString\<close>.\<close>

definition scratch :: "'d system \<Rightarrow> nat \<Rightarrow> 'd kernel \<Rightarrow> addr \<Rightarrow> bool" where
  "scratch s H k a \<longleftrightarrow> on_frame (kcon k) H a \<or> in_range (video_mem (kterm k)) 3200 a \<or> in_range (at_stri s) 8 a"

definition ready :: "'d system \<Rightarrow> nat \<Rightarrow> nat \<Rightarrow> 'd kernel \<Rightarrow> bool" where
  "ready s H n k \<longleftrightarrow> terminal_ok (kterm k) \<and> room (kcon k) H (global_cursor_x (kcon k)) (global_cursor_y (kcon k)) n \<and>
     (\<forall>a. in_range (video_mem (kterm k)) 3200 a \<longrightarrow> \<not> on_frame (kcon k) H a) \<and>
     (\<forall>a. in_range (at_stri s) 8 a \<longrightarrow> \<not> on_frame (kcon k) H a \<and> \<not> in_range (video_mem (kterm k)) 3200 a)"

text \<open>A text to print: terminated, without a percent sign (which \<open>DbgPrint\<close> would read as a directive),
  and clear of those bytes.\<close>

definition literal :: "'d system \<Rightarrow> nat \<Rightarrow> 'd kernel \<Rightarrow> addr \<Rightarrow> byte list \<Rightarrow> bool" where
  "literal s H k p t \<longleftrightarrow> cstr (kmem k) p t \<and> 0x25 \<notin> set t \<and> length t < 2 ^ 31 \<and>
     (\<forall>i\<le>length t. \<not> scratch s H k (p + word_of_nat i))"

definition moved :: "console \<Rightarrow> console \<Rightarrow> bool" where
  "moved con con' \<longleftrightarrow> (\<exists>x y. con' = con\<lparr>global_cursor_x := x, global_cursor_y := y\<rparr>)"

lemma moved_trans: "moved con con' \<Longrightarrow> moved con' con'' \<Longrightarrow> moved con con''"
  by (cases con) (auto simp: moved_def)

lemma moved_fields: "moved con con' \<Longrightarrow> screen_w con' = screen_w con \<and> on_frame con' = on_frame con"
  by (auto simp: moved_def fun_eq_iff)

definition shows_text :: "'d system \<Rightarrow> nat \<Rightarrow> ('d \<Rightarrow> byte list) \<Rightarrow> byte list \<Rightarrow> 'd kernel \<Rightarrow> 'd kernel \<Rightarrow> bool" where
  "shows_text s H sent t k k' \<longleftrightarrow>
     displayed sent k' = show_text (unat (screen_w (kcon k))) t (displayed sent k) \<and>
     (\<forall>n. ready s H (n + length t) k \<longrightarrow> ready s H n k') \<and>
     (\<forall>a. \<not> scratch s H k a \<longrightarrow> kmem k' a = kmem k a) \<and>
     moved (kcon k) (kcon k') \<and> video_mem (kterm k') = video_mem (kterm k) \<and> kkb k' = kkb k \<and> ktok k' = ktok k"

lemma shows_text_scratch: "shows_text s H sent t k k' \<Longrightarrow> scratch s H k' = scratch s H k"
  by (auto simp: shows_text_def scratch_def fun_eq_iff dest!: moved_fields)

lemma shows_text_literal:
  "shows_text s H sent t k k' \<Longrightarrow> literal s H k p u \<Longrightarrow> literal s H k' p u"
  using shows_text_scratch [of s H sent t k k'] cstr_cong [of "kmem k" p u "kmem k'"]
  by (simp add: literal_def shows_text_def)

lemma shows_text_ready: "shows_text s H sent t k k' \<Longrightarrow> ready s H (n + length t) k \<Longrightarrow> ready s H n k'"
  by (simp add: shows_text_def)

lemma shows_text_append:
  assumes "shows_text s H sent t k k1" "shows_text s H sent u k1 k2"
  shows "shows_text s H sent (t @ u) k k2"
proof -
  have "screen_w (kcon k1) = screen_w (kcon k)" using assms(1) by (auto simp: shows_text_def dest!: moved_fields)
  then have "displayed sent k2 = show_text (unat (screen_w (kcon k))) (t @ u) (displayed sent k)"
    using assms by (simp add: shows_text_def show_text_append)
  moreover have "ready s H n k2" if "ready s H (n + length (t @ u)) k" for n
    using shows_text_ready [OF assms(2), of n] shows_text_ready [OF assms(1), of "n + length u"] that by (simp add: ac_simps)
  moreover have "kmem k2 a = kmem k a" if "\<not> scratch s H k a" for a
    using assms that shows_text_scratch [OF assms(1)] by (simp add: shows_text_def)
  moreover have "moved (kcon k) (kcon k2)" using assms moved_trans by (auto simp: shows_text_def)
  ultimately show ?thesis using assms by (simp add: shows_text_def)
qed

lemma format_text_plain: "0x25 \<notin> set t \<Longrightarrow> format_text t [] = Some t"
  by (induction t) simp_all

lemma print_cursor_row: "snd (fold (print_cursor w) t c) \<le> snd c + 16 * length t"
proof (induction t arbitrary: c)
  case (Cons a t)
  have "snd (print_cursor w a c) \<le> snd c + 16"
    by (cases c) (auto simp: print_cursor_def printed_def advance_cursor_def)
  then show ?case using Cons [of "print_cursor w a c"] by simp
qed simp

lemma view_same:
  assumes "\<And>a. in_range (video_mem t) 3200 a \<Longrightarrow> m' a = m a"
  shows "view t m' = view t m"
proof -
  have "cell t m' y x = cell t m y x" if "y < 20" "x < 80" for y x
  proof -
    let ?i = "2 * (y * 80 + x)"
    have "m' (video_mem t + word_of_nat i) = m (video_mem t + word_of_nat i)" if "i < 3200" for i
      using that by (intro assms in_range_offset) simp_all
    from this [of ?i] this [of "Suc ?i"] show ?thesis using that by (simp add: cell_def read16_def ac_simps)
  qed
  then show ?thesis by (simp add: view_def screen_def)
qed

text \<open>A place the outputs do not write to.\<close>

definition undrawn :: "nat \<Rightarrow> 'd kernel \<Rightarrow> addr \<Rightarrow> bool" where
  "undrawn H k a \<longleftrightarrow> \<not> on_frame (kcon k) H a \<and> \<not> in_range (video_mem (kterm k)) 3200 a"

lemma room_after:
  assumes "room con H (global_cursor_x con) (global_cursor_y con) (n + length t)"
    and "on_grid (con\<lparr>global_cursor_x := x, global_cursor_y := y\<rparr>)"
    and "(unat x, unat y) = fold (print_cursor (unat (screen_w con))) t (cursor con)"
  shows "room (con\<lparr>global_cursor_x := x, global_cursor_y := y\<rparr>) H x y n"
proof -
  have "unat y \<le> unat (global_cursor_y con) + 16 * length t"
    using print_cursor_row [of "unat (screen_w con)" t "cursor con"] unfolding assms(3) [symmetric] by (simp add: cursor_def)
  then show ?thesis using assms(1,2) unfolding room_def draws_within_def by (elim conjE, intro conjI) simp_all
qed

lemma NtDisplayStringSyscall_shows:
  assumes "ready s H (length t) k" "literal s H k (read32 (kmem k) (String + 4)) t"
    and "\<And>i. i < 4 \<Longrightarrow> undrawn H k (String + 4 + word_of_nat i)" and uart: "uart_serves (s_io s) busy sent"
  shows "\<exists>k'. NtDisplayStringSyscall s String k = Some (STATUS_SUCCESS, k') \<and> shows_text s H sent t k k'"
proof -
  define p where "p = read32 (kmem k) (String + 4)"
  have str: "cstr (kmem k) p t" "0x25 \<notin> set t" "length t < 2 ^ 32" "\<And>i. i \<le> length t \<Longrightarrow> undrawn H k (p + word_of_nat i)"
    using assms(2) by (simp_all add: literal_def p_def scratch_def undrawn_def)
  have tm: "terminal_ok (kterm k)"
    and room: "room (kcon k) H (global_cursor_x (kcon k)) (global_cursor_y (kcon k)) (length t)"
    and video: "\<And>a. in_range (video_mem (kterm k)) 3200 a \<Longrightarrow> \<not> on_frame (kcon k) H a"
    using assms(1) by (simp_all add: ready_def)
  obtain x y m1 where print1: "Print (kcon k) (kmem k) p = Some ((kcon k)\<lparr>global_cursor_x := x, global_cursor_y := y\<rparr>, m1)"
    and grid: "on_grid ((kcon k)\<lparr>global_cursor_x := x, global_cursor_y := y\<rparr>)"
    and xy: "(unat x, unat y) = fold (print_cursor (unat (screen_w (kcon k)))) t (cursor (kcon k))"
    and m1: "\<And>a. \<not> on_frame (kcon k) H a \<Longrightarrow> m1 a = kmem k a"
    using Print_moves [OF str(1) room] str(4) unfolding undrawn_def by blast
  have p1: "read32 m1 (String + 4) = p"
    unfolding p_def using assms(3) by (intro read32_cong m1) (simp add: undrawn_def)
  have str1: "cstr m1 p t"
    using str(4) m1 by (intro cstr_cong [OF str(1)]) (simp add: undrawn_def)
  obtain t' m2 where print2: "print (kterm k) m1 p = Some (t', m2)" "terminal_ok t'" "video_mem t' = video_mem (kterm k)"
    and view: "view t' m2 = fold (put (vga_entry_color VGA_COLOR_WHITE VGA_COLOR_BLUE)) t (view (kterm k) m1)"
    and m2: "\<And>a. \<not> in_range (video_mem (kterm k)) 3200 a \<Longrightarrow> m2 a = m1 a"
    using print_put [OF str1 str(3) tm] str(4) unfolding undrawn_def by blast
  have p2: "read32 m2 (String + 4) = p"
    unfolding p1 [symmetric] using assms(3) by (intro read32_cong m2) (simp add: undrawn_def)
  have str2: "cstr m2 p t"
    using str(4) m2 by (intro cstr_cong [OF str1]) (simp add: undrawn_def)
  obtain d' where dbg: "DbgPrint (s_io s) m2 p [] (kdev k) = Some d'" "sent d' = sent (kdev k) @ t"
    using DbgPrint_sends [OF uart format_text_plain [OF str(2)] str2, of "[]"] by auto
  let ?k' = "k\<lparr>kcon := (kcon k)\<lparr>global_cursor_x := x, global_cursor_y := y\<rparr>, kterm := t', kmem := m2, kdev := d'\<rparr>"
  have run: "NtDisplayStringSyscall s String k = Some (STATUS_SUCCESS, ?k')"
    using print1 print2 dbg p1 p2 by (simp add: NtDisplayStringSyscall_def kPrint_def kprint_def kDbgPrint_def p_def)
  have "view (kterm k) m1 = view (kterm k) (kmem k)" using m1 video by (intro view_same) blast
  then have "displayed sent ?k' = show_text (unat (screen_w (kcon k))) t (displayed sent k)"
    using xy view dbg(2) by (simp add: displayed_def show_text_def cursor_def)
  moreover have "ready s H n ?k'" if "ready s H (n + length t) k" for n
    using that room_after [OF _ grid xy, of H n] print2(2,3) by (simp add: ready_def)
  moreover have "kmem ?k' a = kmem k a" if "\<not> scratch s H k a" for a
    using that m1 m2 by (simp add: scratch_def)
  moreover have "moved (kcon k) (kcon ?k')" by (auto simp: moved_def)
  ultimately have "shows_text s H sent t k ?k'" using print2(3) by (simp add: shows_text_def)
  then show ?thesis using run by blast
qed

section \<open>What the shell prints\<close>

lemma InitializeUnicodeString_fields:
  assumes "cstr m p t" "\<And>i. i \<le> length t \<Longrightarrow> \<not> in_range u 8 (p + word_of_nat i)"
  shows "\<exists>m'. InitializeUnicodeString m u p = Some m' \<and> read32 m' (u + 4) = p \<and>
    (\<forall>a. \<not> in_range u 8 a \<longrightarrow> m' a = m a)"
proof -
  have out: "\<not> in_range (u + 4) 4 a" "a \<noteq> u" "a \<noteq> u + 1" "a \<noteq> u + 2" "a \<noteq> u + 3" if "\<not> in_range u 8 a" for a
    using that in_range_ex [of "u + 4" 4 a] in_range_offset [of 8 _ u] in_range_offset [of 8 "4 + _" u]
    by (auto simp: in_range_def add.assoc)
  have "cstr (write32 m (u + 4) p) p t"
    using assms(2) out(1) by (intro cstr_cong [OF assms(1)] write32_apply) simp
  moreover have "read32 (write16 m' u v) (u + 4) = read32 m' (u + 4)" "read32 (write16 m' (u + 2) v) (u + 4) = read32 m' (u + 4)" for m' v
    by (simp_all add: read32_def write16_def add.assoc)
  ultimately show ?thesis
    using out by (simp add: InitializeUnicodeString_def strlen_cstr write32_apply write16_apply add.assoc)
qed

lemma interrupt_display:
  "interrupt s edx 0x2e a k = do { (r, k) \<leftarrow> NtDisplayStringSyscall s a k; Some (left_in_eax s r, k) }"
  unfolding interrupt_def numeral_2_eq_2 int2eh.simps by (simp add: syscall_dispatcher_def)

lemma ready_less: "ready s H (n + m) k \<Longrightarrow> ready s H n k"
  by (simp add: ready_def room_def)

lemma PrintString_shows:
  assumes "ready s H (length t) k" "literal s H k p t" "uart_serves (s_io s) busy sent"
  shows "\<exists>k'. PrintString s (interrupt s edx) p k = Some k' \<and> shows_text s H sent t k k'"
proof -
  let ?u = "at_stri s"
  have str: "cstr (kmem k) p t" "\<And>i. i \<le> length t \<Longrightarrow> \<not> scratch s H k (p + word_of_nat i)"
    using assms(2) by (simp_all add: literal_def)
  then obtain m where m: "InitializeUnicodeString (kmem k) ?u p = Some m" "read32 m (?u + 4) = p"
    "\<And>a. \<not> in_range ?u 8 a \<Longrightarrow> m a = kmem k a"
    using InitializeUnicodeString_fields [OF str(1), of ?u] unfolding scratch_def by blast
  let ?k = "k\<lparr>kmem := m\<rparr>"
  have ready: "ready s H n ?k = ready s H n k" for n by (simp add: ready_def)
  have scratch: "scratch s H ?k = scratch s H k" by (simp add: scratch_def fun_eq_iff)
  have "cstr m p t" using str(2) m(3) by (intro cstr_cong [OF str(1)]) (simp add: scratch_def)
  then have "literal s H ?k (read32 (kmem ?k) (?u + 4)) t" using assms(2) m(2) scratch by (simp add: literal_def)
  moreover have "undrawn H ?k (?u + 4 + word_of_nat i)" if "i < 4" for i
    using assms(1) in_range_offset [of 8 "4 + i" ?u] that by (simp add: ready_def undrawn_def add.assoc)
  ultimately obtain k' where k': "NtDisplayStringSyscall s ?u ?k = Some (STATUS_SUCCESS, k')" "shows_text s H sent t ?k k'"
    using NtDisplayStringSyscall_shows [of s H t ?k ?u, OF _ _ _ assms(3)] assms(1) ready by blast
  have "view (kterm k) m = view (kterm k) (kmem k)"
    using assms(1) m(3) by (intro view_same) (auto simp: ready_def)
  then have "displayed sent ?k = displayed sent k" by (simp add: displayed_def)
  then have "shows_text s H sent t k k'"
    using k'(2) ready scratch m(3) by (simp add: shows_text_def) (simp add: scratch_def)
  then show ?thesis using m(1) k'(1) by (simp add: PrintString_def interrupt_display)
qed

text \<open>\<open>PrintString\<close> provides the contract, on all three displays at once.\<close>

lemma moved_refl: "moved con con"
  by (cases con) (auto simp: moved_def)

lemma shows_text_Nil: "shows_text s H sent [] k k"
  by (simp add: shows_text_def show_text_def moved_refl)

interpretation kernel_text: text_output "PrintString s (interrupt s edx)"
  "\<lambda>n k. ready s H n k \<and> uart_serves (s_io s) busy sent" "literal s H" "shows_text s H sent" for s edx H busy sent
proof
  fix n t k p assume "ready s H (n + length t) k \<and> uart_serves (s_io s) busy sent" "literal s H k p t"
  then show "\<exists>k'. PrintString s (interrupt s edx) p k = Some k' \<and> shows_text s H sent t k k' \<and>
      ready s H n k' \<and> uart_serves (s_io s) busy sent"
    using PrintString_shows [of s H t k p busy sent edx] ready_less [of s H "length t" n k] shows_text_ready [of s H sent t k _ n]
    by (auto simp: add.commute)
qed (blast intro: shows_text_literal shows_text_append shows_text_Nil)+

section \<open>The shell's own commands\<close>

lemma literal_mono_exec [simp]:
  "literal s H (clear_exec k) p t = literal s H k p t" "ready s H n (clear_exec k) = ready s H n k"
  "displayed sent (clear_exec k) = displayed sent k" "kcon (clear_exec k) = kcon k" "kmem (clear_exec k) = kmem k"
  "exec (kkb (clear_exec k)) = 0"
  by (simp_all add: clear_exec_def literal_def scratch_def ready_def displayed_def)

text \<open>The strings of the shell: \<open>"cls"\<close>, \<open>"help"\<close>, the line feed, the help text and the prompt \<open>"0:/> "\<close>.\<close>

definition help_cmd :: "byte list" where "help_cmd = [0x68, 0x65, 0x6C, 0x70]"
definition cls_cmd :: "byte list" where "cls_cmd = [0x63, 0x6C, 0x73]"
definition prompt_text :: "byte list" where "prompt_text = [0x30, 0x3A, 0x2F, 0x3E, 0x20]"

definition shell_strings :: "'d system \<Rightarrow> nat \<Rightarrow> 'd kernel \<Rightarrow> byte list \<Rightarrow> bool" where
  "shell_strings s H k help \<longleftrightarrow> cstr (kmem k) (lit_cls s) cls_cmd \<and> cstr (kmem k) (lit_help s) help_cmd \<and>
     literal s H k (lit_newline s) [10] \<and> literal s H k (at_HelpMsg s) help \<and> literal s H k (lit_prompt s) prompt_text"

text \<open>One string, then the prompt.\<close>

lemma PrintString_prompt:
  assumes "ready s H (length t + length prompt_text) k" "literal s H k p t" "literal s H k (lit_prompt s) prompt_text"
    and "uart_serves (s_io s) busy sent"
  shows "\<exists>k'. do { k \<leftarrow> PrintString s (interrupt s edx) p k; PrintString s (interrupt s edx) (lit_prompt s) (clear_exec k) } = Some k' \<and>
    exec (kkb k') = 0 \<and> displayed sent k' = show_text (unat (screen_w (kcon k))) (t @ prompt_text) (displayed sent k) \<and>
    moved (kcon k) (kcon k') \<and> video_mem (kterm k') = video_mem (kterm k)"
proof -
  obtain k1 where k1: "PrintString s (interrupt s edx) p k = Some k1" "shows_text s H sent t k k1"
    using PrintString_shows [OF ready_less [OF assms(1)] assms(2,4)] by blast
  have "ready s H (length prompt_text) k1" "literal s H k1 (lit_prompt s) prompt_text"
    using shows_text_ready [OF k1(2)] shows_text_literal [OF k1(2) assms(3)] assms(1) by (simp_all add: add.commute)
  then obtain k2 where k2: "PrintString s (interrupt s edx) (lit_prompt s) (clear_exec k1) = Some k2"
    "shows_text s H sent prompt_text (clear_exec k1) k2"
    using PrintString_shows [of s H prompt_text "clear_exec k1", OF _ _ assms(4)] by auto
  have "exec (kkb k2) = 0" using k2(2) by (simp add: shows_text_def clear_exec_def)
  moreover have "screen_w (kcon k1) = screen_w (kcon k)" using k1(2) by (auto simp: shows_text_def dest!: moved_fields)
  moreover have "moved (kcon k) (kcon k2)" "video_mem (kterm k2) = video_mem (kterm k)"
    using k1(2) k2(2) moved_trans by (auto simp: shows_text_def clear_exec_def)
  ultimately show ?thesis using k1 k2 by (simp add: shows_text_def show_text_append)
qed

lemma NsExec_prints:
  assumes "cstr (kmem k) cmd line" "line = help_cmd \<or> line = []" "shell_strings s H k help"
    and "ready s H (length help + 1 + length prompt_text) k" "uart_serves (s_io s) busy sent"
  shows "\<exists>k'. NsExec s (interrupt s edx) cmd isBat k = Some k' \<and> exec (kkb k') = 0 \<and>
    displayed sent k' =
      show_text (unat (screen_w (kcon k))) ((if line = help_cmd then help else [10]) @ prompt_text) (displayed sent k) \<and>
    moved (kcon k) (kcon k') \<and> video_mem (kterm k') = video_mem (kterm k)"
proof -
  have lits: "cstr (kmem k) (lit_cls s) cls_cmd" "cstr (kmem k) (lit_help s) help_cmd"
    "literal s H k (lit_newline s) [10]" "literal s H k (at_HelpMsg s) help" "literal s H k (lit_prompt s) prompt_text"
    using assms(3) by (simp_all add: shell_strings_def)
  note defs = NsExec_def ns_command_def strcmp_cstr [OF assms(1) lits(1)] strcmp_cstr [OF assms(1) lits(2)]
  have no_zero: "0 \<notin> set help_cmd" "0 \<notin> set cls_cmd" "help_cmd \<noteq> cls_cmd" "help_cmd \<noteq> []" "cls_cmd \<noteq> []"
    by (simp_all add: help_cmd_def cls_cmd_def)
  from assms(2) show ?thesis
  proof
    assume line: "line = help_cmd"
    then have "byte_cmp line cls_cmd \<noteq> 0" "byte_cmp line help_cmd = 0" using no_zero by (simp_all add: byte_cmp_eq_0)
    then have "NsExec s (interrupt s edx) cmd isBat k =
        do { k \<leftarrow> PrintString s (interrupt s edx) (at_HelpMsg s) k;
             PrintString s (interrupt s edx) (lit_prompt s) (clear_exec k) }"
      by (simp add: defs)
    moreover have "ready s H (length help + length prompt_text) k"
      using ready_less [of s H "length help + length prompt_text" 1 k] assms(4) by (simp add: ac_simps)
    ultimately show ?thesis using PrintString_prompt [OF _ lits(4,5) assms(5), of edx] line by simp
  next
    assume line: "line = []"
    then have "byte_cmp line cls_cmd \<noteq> 0" "byte_cmp line help_cmd \<noteq> 0" using no_zero by (simp_all add: byte_cmp_eq_0)
    moreover have "kmem k cmd = 0" using assms(1) line by simp
    ultimately have "NsExec s (interrupt s edx) cmd isBat k =
        do { k \<leftarrow> PrintString s (interrupt s edx) (lit_newline s) k;
             PrintString s (interrupt s edx) (lit_prompt s) (clear_exec k) }"
      by (simp add: defs)
    moreover have "ready s H (length [10 :: byte] + length prompt_text) k"
      using ready_less [of s H "1 + length prompt_text" "length help" k] assms(4) by (simp add: ac_simps)
    ultimately show ?thesis using PrintString_prompt [OF _ lits(3,5) assms(5), of edx] line no_zero by simp
  qed
qed

section \<open>Status codes as text\<close>

definition hex_digit :: "byte \<Rightarrow> nat" where
  "hex_digit c = (if 0x41 \<le> c then unat c - 55 else unat c - 48)"

definition hex_value :: "byte list \<Rightarrow> nat" where
  "hex_value ds = foldl (\<lambda>v c. 16 * v + hex_digit c) 0 ds"

lemma hex_digit_hexDigits: "n < 16 \<Longrightarrow> hex_digit (hexDigits ! n) = n"
proof -
  have "map hex_digit hexDigits = [0..<16]" by code_simp
  moreover have "length hexDigits = 16" by (simp add: hexDigits_def)
  ultimately show "n < 16 \<Longrightarrow> hex_digit (hexDigits ! n) = n" using nth_map [of n hexDigits hex_digit] by simp
qed

lemma foldl_digits: "foldl (\<lambda>v d. 16 * v + d) 0 (map (\<lambda>i. n div 16 ^ (k - Suc i) mod 16) [0..<k]) = n mod (16 :: nat) ^ k"
proof (induction k arbitrary: n)
  case (Suc k)
  have "map (\<lambda>i. n div 16 ^ (Suc k - Suc i) mod 16) [0..<k] = map (\<lambda>i. (n div 16) div 16 ^ (k - Suc i) mod 16) [0..<k]"
  proof (intro map_cong refl)
    fix i assume "i \<in> set [0..<k]"
    then have "Suc k - Suc i = Suc (k - Suc i)" by simp
    then show "n div 16 ^ (Suc k - Suc i) mod 16 = (n div 16) div 16 ^ (k - Suc i) mod 16"
      by (simp add: div_mult2_eq)
  qed
  then have "map (\<lambda>i. n div 16 ^ (Suc k - Suc i) mod 16) [0..<Suc k] =
      map (\<lambda>i. (n div 16) div 16 ^ (k - Suc i) mod 16) [0..<k] @ [n mod 16]" by simp
  then have "foldl (\<lambda>v d. 16 * v + d) 0 (map (\<lambda>i. n div 16 ^ (Suc k - Suc i) mod 16) [0..<Suc k]) =
      16 * (n div 16 mod 16 ^ k) + n mod 16" by (simp only: foldl_append Suc.IH foldl.simps)
  then show ?case using mod_mult2_eq [of n 16 "16 ^ k"] by (simp only: power_Suc)
qed simp

lemma nibble: "unat (drop_bit k v AND 0xF) = unat v div 2 ^ k mod 16" for v :: u32
proof -
  have "(0xF :: u32) = mask 4" by (simp add: mask_eq_exp_minus_1)
  then have "unat (drop_bit k v AND 0xF) = take_bit 4 (drop_bit k (take_bit 32 (unat v)))"
    by (simp only: take_bit_eq_mask [symmetric] unsigned_take_bit_eq unsigned_drop_bit_eq LENGTH_u32)
  then show ?thesis using unat_u32 [of v] by (simp add: take_bit_nat_eq_self drop_bit_eq_div take_bit_eq_mod)
qed

lemma status_text_value: "hex_value (take 8 (drop 2 (status_text v))) = unat v"
proof -
  let ?d = "\<lambda>i. unat v div 16 ^ (8 - Suc i) mod 16"
  have nib: "unat (drop_bit (28 - i * 4) v AND 0xF) = ?d i" if "i < 8" for i
  proof -
    have "28 - i * 4 = 4 * (8 - Suc i)" by simp
    then have "(2 :: nat) ^ (28 - i * 4) = 16 ^ (8 - Suc i)" by (simp only: power_mult) simp
    then show ?thesis by (simp only: nibble)
  qed
  have "take 8 (drop 2 (status_text v)) = map (\<lambda>i. hexDigits ! ?d i) [0..<8]"
    by (simp add: status_text_def nib)
  moreover have "foldl (\<lambda>v c. 16 * v + hex_digit c) 0 (map (\<lambda>i. hexDigits ! ?d i) [0..<8]) =
      foldl (\<lambda>v d. 16 * v + d) 0 (map ?d [0..<8])"
    by (simp only: foldl_map hex_digit_hexDigits mod_less_divisor zero_less_numeral)
  moreover have "\<dots> = unat v mod 16 ^ 8" by (rule foldl_digits)
  ultimately show ?thesis using unat_u32 [of v] by (simp add: hex_value_def)
qed

lemma kPrint_moves:
  assumes "cstr (kmem k) p t" "room (kcon k) H (global_cursor_x (kcon k)) (global_cursor_y (kcon k)) (length t)"
    and "\<And>i. i \<le> length t \<Longrightarrow> \<not> on_frame (kcon k) H (p + word_of_nat i)"
  shows "\<exists>k'. kPrint p k = Some k' \<and> cursor (kcon k') = fold (print_cursor (unat (screen_w (kcon k)))) t (cursor (kcon k)) \<and>
    (\<forall>a. \<not> on_frame (kcon k) H a \<longrightarrow> kmem k' a = kmem k a) \<and> kterm k' = kterm k \<and> kkb k' = kkb k \<and> kdev k' = kdev k"
  using Print_moves [OF assms] by (auto simp: kPrint_def cursor_def)

section \<open>Properties\<close>



text \<open>\<open>NsExec\<close> answers the command \<open>help\<close> with the help text, and an empty line with a new line, prints
  the prompt after it, and the request is done: \<open>exec\<close> is 0.\<close>

theorem NsExec_answers:
  assumes "cstr (kmem k) cmd line" "line = help_cmd \<or> line = []" "shell_strings s H k help"
    and "ready s H (length help + 1 + length prompt_text) k" "uart_serves (s_io s) busy sent"
  shows "\<exists>k'. NsExec s (interrupt s edx) cmd isBat k = Some k' \<and> exec (kkb k') = 0 \<and>
    displayed sent k' =
      show_text (unat (screen_w (kcon k))) ((if line = help_cmd then help else [10]) @ prompt_text) (displayed sent k)"
  using NsExec_prints [OF assms, of edx isBat] by blast


text \<open>C9: \<open>PrintStatus\<close> builds \<open>0x\<close>, eight hexadecimal digits and \<open>L\<close>, terminated, and the digits read
  back as the status; drawing them moves the cursor by eleven characters.\<close>

theorem PrintStatus_digits:
  assumes "room (kcon k) H (global_cursor_x (kcon k)) (global_cursor_y (kcon k)) 11"
    and "\<And>i. i \<le> 11 \<Longrightarrow> \<not> on_frame (kcon k) H (at_status s + word_of_nat i)"
  shows "\<exists>k' digits. PrintStatus s v k = Some k' \<and> cstr (kmem k') (at_status s) ([0x30, 0x78] @ digits @ [0x4C]) \<and>
    length digits = 8 \<and> hex_value digits = unat v \<and>
    cursor (kcon k') = fold (print_cursor (unat (screen_w (kcon k)))) ([0x30, 0x78] @ digits @ [0x4C]) (cursor (kcon k))"
proof -
  let ?t = "status_text v" and ?k = "k\<lparr>kmem := write_bytes (kmem k) (at_status s) (status_text v @ [0])\<rparr>"
  have len: "length ?t = 11" by (simp add: status_text_def)
  have "0 \<notin> set hexDigits" "length hexDigits = 16" by (simp_all add: hexDigits_def)
  then have "hexDigits ! n \<noteq> 0" if "n < 16" for n using that nth_mem [of n hexDigits] by metis
  then have "0 \<notin> set ?t" by (auto simp: status_text_def nibble eq_commute [of 0])
  then have str: "cstr (kmem ?k) (at_status s) ?t" by (simp add: cstr_write_bytes len)
  obtain k' where k': "kPrint (at_status s) ?k = Some k'"
    "cursor (kcon k') = fold (print_cursor (unat (screen_w (kcon k)))) ?t (cursor (kcon k))"
    "\<forall>a. \<not> on_frame (kcon k) H a \<longrightarrow> kmem k' a = kmem ?k a"
    using kPrint_moves [OF str, of H] assms by (auto simp: len)
  then have "cstr (kmem k') (at_status s) ?t" using assms(2) by (intro cstr_cong [OF str]) (simp add: len)
  moreover have "?t = [0x30, 0x78] @ take 8 (drop 2 ?t) @ [0x4C]" "length (take 8 (drop 2 ?t)) = 8"
    by (simp_all add: status_text_def)
  ultimately show ?thesis using k'(1,2) status_text_value [of v] unfolding PrintStatus_def Let_def by metis
qed

section \<open>An example\<close>

text \<open>A machine with the console, terminal, keyboard and serial line of the earlier examples, and the
  strings of the shell at 0x4000; the command line \<open>help\<close> is at 0x3000.\<close>

definition example_system :: "(nat \<times> byte list) system" where
  "example_system = \<lparr>s_env = \<lparr>kernel_heap = \<lparr>table = \<lparr>entries = 0, total = 0\<rparr>, saddr = 0\<rparr>, disk_addr = 0x5000,
       fat16_fs = 0x1200, tmp_filename = 0x3200, ports_of = example_machine, around_buf = (\<lambda>_. 0)\<rparr>,
     s_ops = (\<lambda>_. \<lparr>resolve = (\<lambda>_ m d. Some (- 1, m, d)), fs_open = (\<lambda>_ _ _ m d. Some (0, m, d)),
       fs_read = (\<lambda>_ _ _ _ m d. Some (0, [], m, d))\<rparr>),
     s_vfs = \<lparr>filesystems = 0, file_descriptors = 0\<rparr>, s_frame = example_frame, s_in_mem = 0,
     s_run = (\<lambda>_. Some), left_in_eax = id, at_stri = 0x6000, at_status = 0x6010, lit_file_name = 0, lit_example = 0,
     lit_test = 0, lit_shutdown_failed = 0, lit_newline = 0x4020, lit_bad_syscall = 0x4020, lit_cls = 0x4000,
     lit_help = 0x4010, lit_quote = 0, lit_not_recognized = 0, lit_prompt = 0x4040, lit_bat = 0x4050, at_HelpMsg = 0x4030,
     at_copyright = 0, lit_banner = 0\<rparr>"

definition example_strings_mem :: mem where
  "example_strings_mem = (\<lambda>_. 0)(0x3000 := 0x68, 0x3001 := 0x65, 0x3002 := 0x6C, 0x3003 := 0x70,
     0x4000 := 0x63, 0x4001 := 0x6C, 0x4002 := 0x73, 0x4010 := 0x68, 0x4011 := 0x65, 0x4012 := 0x6C, 0x4013 := 0x70,
     0x4020 := 10, 0x4030 := 0x3F, 0x4031 := 10,
     0x4040 := 0x30, 0x4041 := 0x3A, 0x4042 := 0x2F, 0x4043 := 0x3E, 0x4044 := 0x20,
     0x4050 := 0x2E, 0x4051 := 0x62, 0x4052 := 0x61, 0x4053 := 0x74)"

definition example_kernel :: "(nat \<times> byte list) kernel" where
  "example_kernel = \<lparr>kmem = example_strings_mem, kterm = last_cell, kcon = example_console, kkb = example_keyboard, ktok = 0,
     kdev = (0, [])\<rparr>"

lemma below_range: "i < b \<Longrightarrow> b + n \<le> 2 ^ 32 \<Longrightarrow> \<not> in_range (word_of_nat b) n (word_of_nat i)"
proof -
  assume "i < b" "b + n \<le> 2 ^ 32"
  show ?thesis
  proof (cases "n = 0")
    case False
    then have "unat (word_of_nat i :: u32) = i" "unat (word_of_nat b :: u32) = b"
      using \<open>i < b\<close> \<open>b + n \<le> 2 ^ 32\<close> by (auto intro!: unat_word_of_nat)
    then show ?thesis using \<open>i < b\<close> \<open>b + n \<le> 2 ^ 32\<close> by (simp add: in_range_def unat_sub_if')
  qed (simp add: in_range_def)
qed

lemma range_below: "in_range (word_of_nat b) n a \<Longrightarrow> b + n \<le> c \<Longrightarrow> c + k \<le> 2 ^ 32 \<Longrightarrow> \<not> in_range (word_of_nat c) k a"
proof -
  assume "in_range (word_of_nat b) n a" "b + n \<le> c" "c + k \<le> 2 ^ 32"
  then obtain i where "i < n" "a = word_of_nat (b + i)" using in_range_ex [of "word_of_nat b" n a] by auto
  then show ?thesis using below_range [of "b + i" c k] \<open>b + n \<le> c\<close> \<open>c + k \<le> 2 ^ 32\<close> by simp
qed

lemma example_low: "i < 0x6000 \<Longrightarrow> \<not> scratch example_system 480 example_kernel (word_of_nat i)"
  using below_range [of i "0x1000000" "4 * (480 * 640)"] below_range [of i "0xB8000" 3200] below_range [of i "0x6000" 8]
  by (simp add: scratch_def on_frame_def example_kernel_def example_system_def example_console_def last_cell_def)

lemma example_literal:
  assumes "cstr example_strings_mem (word_of_nat p) t" "0x25 \<notin> set t" "p + length t < 0x6000"
  shows "literal example_system 480 example_kernel (word_of_nat p) t"
proof -
  have "\<not> scratch example_system 480 example_kernel (word_of_nat p + word_of_nat i)" if "i \<le> length t" for i
    using example_low [of "p + i"] assms(3) that by simp
  then show ?thesis using assms by (simp add: literal_def) (simp add: example_kernel_def)
qed

lemma example_shell_strings: "shell_strings example_system 480 example_kernel [0x3F, 10]"
  using example_literal [of "0x4020" "[10]"] example_literal [of "0x4030" "[0x3F, 10]"] example_literal [of "0x4040" prompt_text]
  by (simp add: shell_strings_def prompt_text_def cls_cmd_def help_cmd_def example_system_def example_kernel_def example_strings_mem_def)

lemma example_ready: "n \<le> 16 \<Longrightarrow> ready example_system 480 n example_kernel"
  using range_below [of "0xB8000" 3200 _ "0x1000000" "4 * (480 * 640)"] range_below [of "0x6000" 8 _ "0x1000000" "4 * (480 * 640)"]
    range_below [of "0x6000" 8 _ "0xB8000" 3200]
  by (auto simp: ready_def room_def draws_within_def on_grid_def on_frame_def terminal_ok_def example_kernel_def
      example_system_def example_console_def last_cell_def)

lemma example_uart: "uart_serves (s_io example_system) fst snd"
  using example_machine_serves by (simp add: example_system_def)


theorem NsExec_answers_witness:
  "\<exists>k'. NsExec example_system (interrupt example_system 0) 0x3000 False example_kernel = Some k' \<and>
    snd (kdev k') = [0x3F, 10, 0x30, 0x3A, 0x2F, 0x3E, 0x20]"
proof -
  have "cstr (kmem example_kernel) 0x3000 help_cmd"
    by (simp add: help_cmd_def example_kernel_def example_strings_mem_def)
  then obtain k' where k': "NsExec example_system (interrupt example_system 0) 0x3000 False example_kernel = Some k'"
    "displayed snd k' = show_text (unat (screen_w (kcon example_kernel))) ([0x3F, 10] @ prompt_text) (displayed snd example_kernel)"
    using NsExec_answers [OF _ _ example_shell_strings example_ready example_uart, of "0x3000" help_cmd 0 False]
    by (auto simp: prompt_text_def)
  then show ?thesis
    by (simp add: displayed_def show_text_def prompt_text_def example_kernel_def)
qed

lemma example_room: "n \<le> 16 \<Longrightarrow> room (kcon example_kernel) 480 (global_cursor_x (kcon example_kernel)) (global_cursor_y (kcon example_kernel)) n"
  using example_ready by (simp add: ready_def)

lemma example_not_frame: "i < 0x7000 \<Longrightarrow> \<not> on_frame (kcon example_kernel) 480 (word_of_nat i)"
  using below_range [of i "0x1000000" "4 * (480 * 640)"] by (simp add: on_frame_def example_kernel_def example_console_def)


theorem PrintStatus_digits_witness:
  "\<exists>k' digits. PrintStatus example_system 0xC00000BB example_kernel = Some k' \<and> hex_value digits = 0xC00000BB \<and>
    cstr (kmem k') 0x6010 ([0x30, 0x78] @ digits @ [0x4C])"
proof -
  have "\<not> on_frame (kcon example_kernel) 480 (at_status example_system + word_of_nat i)" if "i \<le> 11" for i
    using example_not_frame [of "0x6010 + i"] that by (simp add: example_system_def)
  then show ?thesis
    using PrintStatus_digits [of example_kernel 480 example_system "0xC00000BB"] example_room [of 11]
    by (auto simp: example_system_def)
qed

end
