(* ===== verification/Wide.thy ===== *)
theory Wide
  imports Syscalls Layout
begin

text \<open>
  What \<^verbatim>\<open>ntdll.c\<close> uses of the C library: strings of 16-bit characters (\<open>wchar_t\<close> of Windows) in memory,
  \<open>wcslen\<close>, \<open>wcscpy\<close>, \<open>wcsncpy\<close>, \<open>wcsncat\<close>, and \<open>swprintf\<close> with the directives \<open>%lu\<close>, \<open>%lld\<close>, \<open>%02X\<close>
  and \<open>%08lX\<close> that occur there. Like the kernel's own string routines they walk the memory, and
  \<open>None\<close> is "does not return".
\<close>

section \<open>Stores and loads\<close>

type_synonym u64 = "64 word"

definition read64 :: "mem \<Rightarrow> addr \<Rightarrow> u64" where
  "read64 m p = ucast (read32 m p) OR push_bit 32 (ucast (read32 m (p + 4)))"

definition write64 :: "mem \<Rightarrow> addr \<Rightarrow> u64 \<Rightarrow> mem" where
  "write64 m p v = write32 (write32 m p (ucast v)) (p + 4) (ucast (drop_bit 32 v))"

fun write_wide :: "mem \<Rightarrow> addr \<Rightarrow> u16 list \<Rightarrow> mem" where
  "write_wide m p [] = m"
| "write_wide m p (c # cs) = write_wide (write16 m p c) (p + 2) cs"

section \<open>Routines\<close>

partial_function (option) wcslen_loop :: "mem \<Rightarrow> addr \<Rightarrow> u32 \<Rightarrow> u32 option" where
  "wcslen_loop m p n = (if read16 m p \<noteq> 0 then wcslen_loop m (p + 2) (n + 1) else Some n)"

definition wcslen :: "mem \<Rightarrow> addr \<Rightarrow> u32 option" where
  "wcslen m p = wcslen_loop m p 0"

partial_function (option) wcscpy :: "mem \<Rightarrow> addr \<Rightarrow> addr \<Rightarrow> mem option" where
  "wcscpy m d s =
     (let c = read16 m s; m = write16 m d c in if c = 0 then Some m else wcscpy m (d + 2) (s + 2))"

text \<open>\<open>wcsncpy\<close> stores exactly \<open>n\<close> characters, zeros after the end of the source.\<close>

function wcsncpy :: "mem \<Rightarrow> addr \<Rightarrow> addr \<Rightarrow> u32 \<Rightarrow> mem" where
  "wcsncpy m d s n =
     (if n = 0 then m
      else
        let c = read16 m s
        in wcsncpy (write16 m d c) (d + 2) (if c = 0 then s else s + 2) (n - 1))"
  by pat_completeness auto
termination
  by (relation "measure (\<lambda>(m, d, s, n). unat n)") (auto simp: measure_down)

declare wcsncpy.simps [simp del]

function wcsncat_append :: "mem \<Rightarrow> addr \<Rightarrow> addr \<Rightarrow> u32 \<Rightarrow> mem" where
  "wcsncat_append m d s n =
     (if n = 0 \<or> read16 m s = 0 then write16 m d 0
      else wcsncat_append (write16 m d (read16 m s)) (d + 2) (s + 2) (n - 1))"
  by pat_completeness auto
termination
  by (relation "measure (\<lambda>(m, d, s, n). unat n)") (auto simp: measure_down)

declare wcsncat_append.simps [simp del]

definition wcsncat :: "mem \<Rightarrow> addr \<Rightarrow> addr \<Rightarrow> u32 \<Rightarrow> mem option" where
  "wcsncat m d s n = do {
     len \<leftarrow> wcslen m d;
     Some (wcsncat_append m (d + 2 * len) s n)
   }"

text \<open>The arguments of \<open>swprintf\<close> have 32 or 64 bits. A directive of another kind is outside this model.\<close>

datatype w_arg = W32 u32 | W64 u64

definition wide :: "byte list \<Rightarrow> u16 list" where
  "wide = map ucast"

definition upper_hex :: "nat \<Rightarrow> u32 \<Rightarrow> byte list" where
  "upper_hex k v = map (\<lambda>i. hexDigits ! unat (drop_bit (4 * (k - Suc i)) v AND 0xF)) [0..<k]"

text \<open>The directive at \<open>p\<close>: its expansion, its length in bytes, and the arguments after it.\<close>

definition w_directive :: "mem \<Rightarrow> addr \<Rightarrow> w_arg list \<Rightarrow> (byte list \<times> u32 \<times> w_arg list) option" where
  "w_directive m p as =
     (let c1 = read16 m (p + 2); c2 = read16 m (p + 4); c3 = read16 m (p + 6); c4 = read16 m (p + 8) in
      case as of
        W32 v # as \<Rightarrow>
          if c1 = 0x6C \<and> c2 = 0x75 then Some (numeral_text (unat v), 6, as)
          else if c1 = 0x30 \<and> c2 = 0x32 \<and> c3 = 0x58 then Some (upper_hex 2 v, 8, as)
          else if c1 = 0x30 \<and> c2 = 0x38 \<and> c3 = 0x6C \<and> c4 = 0x58 then Some (upper_hex 8 v, 10, as)
          else None
      | W64 v # as \<Rightarrow>
          if c1 = 0x6C \<and> c2 = 0x6C \<and> c3 = 0x64 then Some (decimal_text (sint v), 8, as) else None
      | [] \<Rightarrow> None)"

partial_function (option) wformat :: "mem \<Rightarrow> addr \<Rightarrow> w_arg list \<Rightarrow> u16 list option" where
  "wformat m p as =
     (let c = read16 m p in
      if c = 0 then Some []
      else if c \<noteq> 0x25 then do { t \<leftarrow> wformat m (p + 2) as; Some (c # t) }
      else do {
        (t, k, as) \<leftarrow> w_directive m p as;
        rest \<leftarrow> wformat m (p + k) as;
        Some (wide t @ rest)
      })"

text \<open>At most \<open>n\<close> characters are stored, the terminator among them.\<close>

definition swprintf :: "mem \<Rightarrow> addr \<Rightarrow> u32 \<Rightarrow> addr \<Rightarrow> w_arg list \<Rightarrow> mem option" where
  "swprintf m d n format as = do {
     t \<leftarrow> wformat m format as;
     Some (if n = 0 then m else write_wide m d (take (unat n - 1) t @ [0]))
   }"

section \<open>Strings in memory\<close>

text \<open>The characters \<open>ws\<close>, none of them zero, stand at \<open>p\<close> and a zero follows them.\<close>

fun wstr :: "mem \<Rightarrow> addr \<Rightarrow> u16 list \<Rightarrow> bool" where
  "wstr m p [] \<longleftrightarrow> read16 m p = 0"
| "wstr m p (c # cs) \<longleftrightarrow> c \<noteq> 0 \<and> read16 m p = c \<and> wstr m (p + 2) cs"

lemma wcslen_loop_wstr: "wstr m p ws \<Longrightarrow> wcslen_loop m p n = Some (n + word_of_nat (length ws))"
proof (induction ws arbitrary: p n)
  case Nil
  then show ?case by (subst wcslen_loop.simps) simp
next
  case (Cons c ws)
  then show ?case using Cons.IH [of "p + 2" "n + 1"] by (subst wcslen_loop.simps) (simp add: ac_simps)
qed

lemma wcslen_wstr: "wstr m p ws \<Longrightarrow> wcslen m p = Some (word_of_nat (length ws))"
  by (simp add: wcslen_def wcslen_loop_wstr)

lemma wstr_cong:
  "wstr m p ws \<Longrightarrow> (\<And>i. i < 2 * length ws + 2 \<Longrightarrow> m' (p + word_of_nat i) = m (p + word_of_nat i)) \<Longrightarrow> wstr m' p ws"
proof (induction ws arbitrary: p)
  case Nil
  have "read16 m' p = read16 m p" using Nil.prems(2) [of 0] Nil.prems(2) [of 1] by (simp add: read16_def)
  then show ?case using Nil.prems(1) by simp
next
  case (Cons c ws)
  have "read16 m' p = read16 m p" using Cons.prems(2) [of 0] Cons.prems(2) [of 1] by (simp add: read16_def)
  moreover have "wstr m' (p + 2) ws"
    using Cons.prems(2) [of "2 + _"] Cons.prems(1) by (intro Cons.IH) (simp_all add: add.assoc)
  ultimately show ?case using Cons.prems(1) by simp
qed

text \<open>What \<open>wcsncpy\<close> leaves alone, and its first character.\<close>

lemma wcsncpy_outside: "\<not> in_range d (2 * unat n) x \<Longrightarrow> 2 * unat n < 2 ^ 32 \<Longrightarrow> wcsncpy m d s n x = m x"
proof (induction m d s n rule: wcsncpy.induct)
  case (1 m d s n)
  show ?case
  proof (cases "n = 0")
    case True
    then show ?thesis by (subst wcsncpy.simps) simp
  next
    case False
    have n: "unat (n - 1) = unat n - 1" "0 < unat n" using False by (simp_all add: unat_dec unat_gt_0)
    have tail: "\<not> in_range (d + 2) (2 * unat (n - 1)) x"
    proof
      assume "in_range (d + 2) (2 * unat (n - 1)) x"
      then obtain i where i: "i < 2 * unat (n - 1)" "x = d + 2 + word_of_nat i" using in_range_ex by blast
      then have "in_range d (2 * unat n) (d + word_of_nat (2 + i))"
        using n "1.prems"(2) by (intro in_range_offset) simp_all
      then show False using "1.prems"(1) i(2) by (simp add: add.assoc)
    qed
    have "x \<noteq> d" "x \<noteq> d + 1" using "1.prems" n by (auto simp: in_range_def)
    then have "write16 m d c x = m x" for c by (simp add: write16_apply)
    then show ?thesis
      using "1.IH" [OF False refl tail] "1.prems"(2) n False by (simp add: wcsncpy.simps [of m d s n] Let_def)
  qed
qed

lemma wcsncpy_first:
  assumes "n \<noteq> 0" "2 * unat n < 2 ^ 32"
  shows "read16 (wcsncpy m d s n) d = read16 m s"
proof -
  have n: "unat (n - 1) = unat n - 1" "0 < unat n" using assms(1) by (simp_all add: unat_dec unat_gt_0)
  have "\<not> in_range (d + 2) (2 * unat (n - 1)) d" "\<not> in_range (d + 2) (2 * unat (n - 1)) (d + 1)"
    using assms(2) n by (simp_all add: in_range_def unat_minus_one)
  then have "read16 (wcsncpy (write16 m d (read16 m s)) (d + 2) s' (n - 1)) d = read16 (write16 m d (read16 m s)) d" for s'
    using assms(2) n by (simp add: read16_def wcsncpy_outside)
  then show ?thesis using assms(1) by (simp add: wcsncpy.simps [of m d s n] Let_def)
qed

end
