(* ===== verification/Ntdll.thy ===== *)
theory Ntdll
  imports Wide
begin

text \<open>
  \<^verbatim>\<open>ntdll.c\<close>: the library through which programs call the kernel. \<open>NtQuerySystemInformation\<close> answers
  most classes itself, with fixed data, and reports every query on the console through
  \<open>SystemPrint\<close>; the other functions are system calls. A program shares the memory with the kernel,
  so they work on the kernel's state. \<open>int2e number ebx\<close> is the interrupt; the arguments pushed on
  the stack are stored there, though the kernel reads none of them. The number of processors
  (\<open>GetSystemInfo\<close> of Windows) is a parameter.
\<close>

section \<open>Structures\<close>

definition SYSTEM_BASICPROCESS_INFORMATION :: c_struct where
  "SYSTEM_BASICPROCESS_INFORMATION =
    [(''NextEntryOffset'', c_long), (''UniqueProcessId'', c_long), (''InheritedFromUniqueProcessId'', c_long),
     (''SequenceNumber'', c_quad), (''ImageName'', c_struct_type UNICODE_STRING)]"

definition SYSTEM_CODEINTEGRITY_INFORMATION :: c_struct where
  "SYSTEM_CODEINTEGRITY_INFORMATION =
    [(''Length'', c_long), (''CodeIntegrityOptions'', c_long)]"

definition SYSTEM_EXCEPTION_INFORMATION :: c_struct where
  "SYSTEM_EXCEPTION_INFORMATION =
    [(''Reserved1'', c_array 16 c_char)]"

definition SYSTEM_INTERRUPT_INFORMATION :: c_struct where
  "SYSTEM_INTERRUPT_INFORMATION =
    [(''ContextSwitches'', c_long), (''DpcCount'', c_long), (''DpcRate'', c_long), (''TimeIncrement'', c_long),
     (''DpcBypassCount'', c_long), (''ApcBypassCount'', c_long)]"

definition SYSTEM_KERNEL_VA_SHADOW_INFORMATION :: c_struct where
  "SYSTEM_KERNEL_VA_SHADOW_INFORMATION =
    [(''Flags'', c_long)]"

definition SYSTEM_LEAP_SECOND_INFORMATION :: c_struct where
  "SYSTEM_LEAP_SECOND_INFORMATION =
    [(''Reserved1'', c_array 16 c_char)]"

definition SYSTEM_PERFORMANCE_INFORMATION :: c_struct where
  "SYSTEM_PERFORMANCE_INFORMATION =
    [(''IdleTime'', c_quad), (''ReadTransferCount'', c_quad), (''WriteTransferCount'', c_quad),
     (''OtherTransferCount'', c_quad), (''ReadOperationCount'', c_long), (''WriteOperationCount'', c_long),
     (''OtherOperationCount'', c_long), (''AvailablePages'', c_long), (''CommittedPages'', c_long),
     (''CommitLimit'', c_long), (''PeakCommitment'', c_long), (''PageFaultCount'', c_long),
     (''CopyOnWriteCount'', c_long), (''TransitionCount'', c_long), (''CacheTransitionCount'', c_long),
     (''DemandZeroCount'', c_long), (''PageReadCount'', c_long), (''PageReadIoCount'', c_long),
     (''CacheReadCount'', c_long), (''CacheIoCount'', c_long), (''DirtyPagesWriteCount'', c_long),
     (''DirtyWriteIoCount'', c_long), (''MappedPagesWriteCount'', c_long), (''MappedWriteIoCount'', c_long),
     (''PagedPoolPages'', c_long), (''NonPagedPoolPages'', c_long), (''PagedPoolAllocs'', c_long),
     (''PagedPoolFrees'', c_long), (''NonPagedPoolAllocs'', c_long), (''NonPagedPoolFrees'', c_long),
     (''FreeSystemPtes'', c_long), (''ResidentSystemCodePage'', c_long), (''TotalSystemDriverPages'', c_long),
     (''TotalSystemCodePages'', c_long), (''NonPagedPoolLookasideHits'', c_long),
     (''PagedPoolLookasideHits'', c_long), (''AvailablePagedPoolPages'', c_long),
     (''ResidentSystemCachePage'', c_long), (''ResidentPagedPoolPage'', c_long),
     (''ResidentSystemDriverPage'', c_long), (''CcFastReadNoWait'', c_long), (''CcFastReadWait'', c_long),
     (''CcFastReadResourceMiss'', c_long), (''CcFastReadNotPossible'', c_long),
     (''CcFastMdlReadNoWait'', c_long), (''CcFastMdlReadWait'', c_long),
     (''CcFastMdlReadResourceMiss'', c_long), (''CcFastMdlReadNotPossible'', c_long),
     (''CcMapDataNoWait'', c_long), (''CcMapDataWait'', c_long), (''CcMapDataNoWaitMiss'', c_long),
     (''CcMapDataWaitMiss'', c_long), (''CcPinMappedDataCount'', c_long), (''CcPinReadNoWait'', c_long),
     (''CcPinReadWait'', c_long), (''CcPinReadNoWaitMiss'', c_long), (''CcPinReadWaitMiss'', c_long),
     (''CcCopyReadNoWait'', c_long), (''CcCopyReadWait'', c_long), (''CcCopyReadNoWaitMiss'', c_long),
     (''CcCopyReadWaitMiss'', c_long), (''CcMdlReadNoWait'', c_long), (''CcMdlReadWait'', c_long),
     (''CcMdlReadNoWaitMiss'', c_long), (''CcMdlReadWaitMiss'', c_long), (''CcReadAheadIos'', c_long),
     (''CcLazyWriteIos'', c_long), (''CcLazyWritePages'', c_long), (''CcDataFlushes'', c_long),
     (''CcDataPages'', c_long)]"

definition SYSTEM_POLICY_INFORMATION :: c_struct where
  "SYSTEM_POLICY_INFORMATION =
    [(''Reserved'', c_array 16 c_char)]"

definition SYSTEM_QUERY_PERFORMANCE_COUNTER_INFORMATION :: c_struct where
  "SYSTEM_QUERY_PERFORMANCE_COUNTER_INFORMATION =
    [(''PerformanceCounter'', c_quad), (''PerformanceFrequency'', c_quad)]"

definition SYSTEM_PROCESSOR_PERFORMANCE_INFORMATION :: c_struct where
  "SYSTEM_PROCESSOR_PERFORMANCE_INFORMATION =
    [(''IdleTime'', c_quad), (''KernelTime'', c_quad), (''UserTime'', c_quad), (''DpcTime'', c_quad),
     (''InterruptTime'', c_quad), (''InterruptCount'', c_long)]"

definition SYSTEM_REGISTRY_QUOTA_INFORMATION :: c_struct where
  "SYSTEM_REGISTRY_QUOTA_INFORMATION =
    [(''Reserved'', c_array 16 c_char)]"

text \<open>The bit fields of \<open>SpeculationControlFlags\<close> are the bits of one \<open>ULONG\<close>, from the lowest on.\<close>

definition SYSTEM_SPECULATION_CONTROL_INFORMATION :: c_struct where
  "SYSTEM_SPECULATION_CONTROL_INFORMATION = [(''SpeculationControlFlags'', c_long)]"

definition SYSTEM_TIMEOFDAY_INFORMATION :: c_struct where
  "SYSTEM_TIMEOFDAY_INFORMATION =
    [(''CurrentTime'', c_quad), (''BootTime'', c_quad), (''TimeZoneBias'', c_quad), (''TimeZoneId'', c_long),
     (''Reserved'', c_array 3 c_long)]"

text \<open>Evaluated.\<close>

lemma size_basicprocess [offsets]: "c_sizeof SYSTEM_BASICPROCESS_INFORMATION = 32"
  by (simp add: SYSTEM_BASICPROCESS_INFORMATION_def layout_simps offsets)

lemma offset_basicprocess [offsets]:
  "offset SYSTEM_BASICPROCESS_INFORMATION ''NextEntryOffset'' = 0"
  "offset SYSTEM_BASICPROCESS_INFORMATION ''UniqueProcessId'' = 4"
  "offset SYSTEM_BASICPROCESS_INFORMATION ''InheritedFromUniqueProcessId'' = 8"
  "offset SYSTEM_BASICPROCESS_INFORMATION ''SequenceNumber'' = 16"
  "offset SYSTEM_BASICPROCESS_INFORMATION ''ImageName'' = 24"
  by (simp_all add: SYSTEM_BASICPROCESS_INFORMATION_def offset_simps offsets)

lemma size_codeintegrity [offsets]: "c_sizeof SYSTEM_CODEINTEGRITY_INFORMATION = 8"
  by (simp add: SYSTEM_CODEINTEGRITY_INFORMATION_def layout_simps offsets)

lemma offset_codeintegrity [offsets]:
  "offset SYSTEM_CODEINTEGRITY_INFORMATION ''Length'' = 0"
  "offset SYSTEM_CODEINTEGRITY_INFORMATION ''CodeIntegrityOptions'' = 4"
  by (simp_all add: SYSTEM_CODEINTEGRITY_INFORMATION_def offset_simps offsets)

lemma size_exception [offsets]: "c_sizeof SYSTEM_EXCEPTION_INFORMATION = 16"
  by (simp add: SYSTEM_EXCEPTION_INFORMATION_def layout_simps offsets)

lemma size_interrupt [offsets]: "c_sizeof SYSTEM_INTERRUPT_INFORMATION = 24"
  by (simp add: SYSTEM_INTERRUPT_INFORMATION_def layout_simps offsets)

lemma offset_interrupt [offsets]:
  "offset SYSTEM_INTERRUPT_INFORMATION ''ContextSwitches'' = 0"
  "offset SYSTEM_INTERRUPT_INFORMATION ''DpcCount'' = 4"
  "offset SYSTEM_INTERRUPT_INFORMATION ''DpcRate'' = 8"
  "offset SYSTEM_INTERRUPT_INFORMATION ''TimeIncrement'' = 12"
  "offset SYSTEM_INTERRUPT_INFORMATION ''DpcBypassCount'' = 16"
  "offset SYSTEM_INTERRUPT_INFORMATION ''ApcBypassCount'' = 20"
  by (simp_all add: SYSTEM_INTERRUPT_INFORMATION_def offset_simps offsets)

lemma size_kernel_va_shadow [offsets]: "c_sizeof SYSTEM_KERNEL_VA_SHADOW_INFORMATION = 4"
  by (simp add: SYSTEM_KERNEL_VA_SHADOW_INFORMATION_def layout_simps offsets)

lemma offset_kernel_va_shadow [offsets]:
  "offset SYSTEM_KERNEL_VA_SHADOW_INFORMATION ''Flags'' = 0"
  by (simp_all add: SYSTEM_KERNEL_VA_SHADOW_INFORMATION_def offset_simps offsets)

lemma size_leap_second [offsets]: "c_sizeof SYSTEM_LEAP_SECOND_INFORMATION = 16"
  by (simp add: SYSTEM_LEAP_SECOND_INFORMATION_def layout_simps offsets)

lemma size_performance [offsets]: "c_sizeof SYSTEM_PERFORMANCE_INFORMATION = 296"
  by (simp add: SYSTEM_PERFORMANCE_INFORMATION_def layout_simps offsets)

lemma offset_performance [offsets]:
  "offset SYSTEM_PERFORMANCE_INFORMATION ''IdleTime'' = 0"
  "offset SYSTEM_PERFORMANCE_INFORMATION ''PageFaultCount'' = 60"
  "offset SYSTEM_PERFORMANCE_INFORMATION ''AvailablePages'' = 44"
  by (simp_all add: SYSTEM_PERFORMANCE_INFORMATION_def offset_simps offsets)

lemma size_policy [offsets]: "c_sizeof SYSTEM_POLICY_INFORMATION = 16"
  by (simp add: SYSTEM_POLICY_INFORMATION_def layout_simps offsets)

lemma size_query_performance_counter [offsets]: "c_sizeof SYSTEM_QUERY_PERFORMANCE_COUNTER_INFORMATION = 16"
  by (simp add: SYSTEM_QUERY_PERFORMANCE_COUNTER_INFORMATION_def layout_simps offsets)

lemma offset_query_performance_counter [offsets]:
  "offset SYSTEM_QUERY_PERFORMANCE_COUNTER_INFORMATION ''PerformanceCounter'' = 0"
  "offset SYSTEM_QUERY_PERFORMANCE_COUNTER_INFORMATION ''PerformanceFrequency'' = 8"
  by (simp_all add: SYSTEM_QUERY_PERFORMANCE_COUNTER_INFORMATION_def offset_simps offsets)

lemma size_processor_performance [offsets]: "c_sizeof SYSTEM_PROCESSOR_PERFORMANCE_INFORMATION = 48"
  by (simp add: SYSTEM_PROCESSOR_PERFORMANCE_INFORMATION_def layout_simps offsets)

lemma offset_processor_performance [offsets]:
  "offset SYSTEM_PROCESSOR_PERFORMANCE_INFORMATION ''IdleTime'' = 0"
  "offset SYSTEM_PROCESSOR_PERFORMANCE_INFORMATION ''KernelTime'' = 8"
  "offset SYSTEM_PROCESSOR_PERFORMANCE_INFORMATION ''UserTime'' = 16"
  "offset SYSTEM_PROCESSOR_PERFORMANCE_INFORMATION ''DpcTime'' = 24"
  "offset SYSTEM_PROCESSOR_PERFORMANCE_INFORMATION ''InterruptTime'' = 32"
  "offset SYSTEM_PROCESSOR_PERFORMANCE_INFORMATION ''InterruptCount'' = 40"
  by (simp_all add: SYSTEM_PROCESSOR_PERFORMANCE_INFORMATION_def offset_simps offsets)

lemma size_registry_quota [offsets]: "c_sizeof SYSTEM_REGISTRY_QUOTA_INFORMATION = 16"
  by (simp add: SYSTEM_REGISTRY_QUOTA_INFORMATION_def layout_simps offsets)

lemma size_speculation_control [offsets]: "c_sizeof SYSTEM_SPECULATION_CONTROL_INFORMATION = 4"
  by (simp add: SYSTEM_SPECULATION_CONTROL_INFORMATION_def layout_simps offsets)

lemma offset_speculation_control [offsets]:
  "offset SYSTEM_SPECULATION_CONTROL_INFORMATION ''SpeculationControlFlags'' = 0"
  by (simp_all add: SYSTEM_SPECULATION_CONTROL_INFORMATION_def offset_simps offsets)

lemma size_timeofday [offsets]: "c_sizeof SYSTEM_TIMEOFDAY_INFORMATION = 40"
  by (simp add: SYSTEM_TIMEOFDAY_INFORMATION_def layout_simps offsets)

lemma offset_timeofday [offsets]:
  "offset SYSTEM_TIMEOFDAY_INFORMATION ''CurrentTime'' = 0"
  "offset SYSTEM_TIMEOFDAY_INFORMATION ''BootTime'' = 8"
  "offset SYSTEM_TIMEOFDAY_INFORMATION ''TimeZoneBias'' = 16"
  "offset SYSTEM_TIMEOFDAY_INFORMATION ''TimeZoneId'' = 24"
  "offset SYSTEM_TIMEOFDAY_INFORMATION ''Reserved'' = 28"
  by (simp_all add: SYSTEM_TIMEOFDAY_INFORMATION_def offset_simps offsets)

section \<open>Constants\<close>

definition STATUS_INFO_LENGTH_MISMATCH :: u32 where [status_defs]: "STATUS_INFO_LENGTH_MISMATCH = 0xC0000004"
definition STATUS_INVALID_INFO_CLASS :: u32 where [status_defs]: "STATUS_INVALID_INFO_CLASS = 0xC0000003"

definition SystemPerformanceInformation :: u32 where [status_defs]: "SystemPerformanceInformation = 2"
definition SystemTimeOfDayInformation :: u32 where [status_defs]: "SystemTimeOfDayInformation = 3"
definition SystemProcessInformation :: u32 where [status_defs]: "SystemProcessInformation = 5"
definition SystemProcessorPerformanceInformation :: u32 where [status_defs]: "SystemProcessorPerformanceInformation = 8"
definition SystemInterruptInformation :: u32 where [status_defs]: "SystemInterruptInformation = 23"
definition SystemExceptionInformation :: u32 where [status_defs]: "SystemExceptionInformation = 33"
definition SystemRegistryQuotaInformation :: u32 where [status_defs]: "SystemRegistryQuotaInformation = 37"
definition SystemLookasideInformation :: u32 where [status_defs]: "SystemLookasideInformation = 45"
definition SystemLeapSecondInformation :: u32 where [status_defs]: "SystemLeapSecondInformation = 46"
definition SystemPolicyInformation :: u32 where [status_defs]: "SystemPolicyInformation = 47"
definition SystemQueryPerformanceCounterInformation :: u32 where [status_defs]: "SystemQueryPerformanceCounterInformation = 48"
definition SystemSpeculationControlInformation :: u32 where [status_defs]: "SystemSpeculationControlInformation = 49"
definition SystemCodeIntegrityInformation :: u32 where [status_defs]: "SystemCodeIntegrityInformation = 103"
definition SystemKernelVaShadowInformation :: u32 where [status_defs]: "SystemKernelVaShadowInformation = 196"

definition CODEINTEGRITY_OPTION_ENABLED :: u32 where [status_defs]: "CODEINTEGRITY_OPTION_ENABLED = 0x00000001"
definition CODEINTEGRITY_OPTION_HVCI_KMCI_ENABLED :: u32 where [status_defs]: "CODEINTEGRITY_OPTION_HVCI_KMCI_ENABLED = 0x00000400"
definition KVA_SHADOW_ENABLED :: u32 where [status_defs]: "KVA_SHADOW_ENABLED = 0x00000001"
definition KVA_SHADOW_PCID :: u32 where [status_defs]: "KVA_SHADOW_PCID = 0x00000004"
definition KVA_L1TF_MITIGATION_PRESENT :: u32 where [status_defs]: "KVA_L1TF_MITIGATION_PRESENT = 0x00002000"

definition SYS_NtAccessCheckAndAuditAlarm :: u32 where [status_defs]: "SYS_NtAccessCheckAndAuditAlarm = 0x0002"
definition SYS_NtAccessCheckByType :: u32 where [status_defs]: "SYS_NtAccessCheckByType = 0x0003"
definition SYS_NtAccessCheckByTypeAndAuditAlarm :: u32 where [status_defs]: "SYS_NtAccessCheckByTypeAndAuditAlarm = 0x0004"
definition SYS_NtAccessCheckByTypeResultList :: u32 where [status_defs]: "SYS_NtAccessCheckByTypeResultList = 0x0005"

section \<open>What it runs in\<close>

text \<open>The literals and the arrays, with the messages named after their queries.\<close>

datatype nt_text = Q_exception | Q_byte | Q_leap_second | Q_lookaside | Q_code_integrity | Q_va_shadow | Q_performance
  | Q_interrupt | Q_policy | Q_process | Q_processor | Q_counter | Q_quota | Q_speculation | Q_time | Q_unsupported
  | Q_hello | Q_process_attached | Q_thread_attached

record ntdll_frame =
  nt_text :: "nt_text \<Rightarrow> addr"
  at_fname_buffer :: addr
  at_fname_struct :: addr
  at_buf :: addr
  at_hex :: addr
  at_dummyName :: addr
  dwNumberOfProcessors :: u32

type_synonym 'd int2e = "u32 \<Rightarrow> u32 \<Rightarrow> 'd kernel \<Rightarrow> (u32 \<times> 'd kernel) option"

section \<open>System calls\<close>

definition NtDisplayString :: "'d int2e \<Rightarrow> addr \<Rightarrow> 'd kernel \<Rightarrow> (u32 \<times> 'd kernel) option" where
  "NtDisplayString int2e String k = do {
     (r, k) \<leftarrow> int2e 0x2e String k;
     Some (0, k)
   }"

text \<open>\<open>push_args esp args\<close> pushes the arguments, the last of the list first.\<close>

definition push_args :: "addr \<Rightarrow> u32 list \<Rightarrow> mem \<Rightarrow> mem" where
  "push_args esp args m = snd (foldr (\<lambda>v (esp, m). (esp - 4, write32 m (esp - 4) v)) args (esp, m))"

definition stack_call :: "'d int2e \<Rightarrow> u32 \<Rightarrow> u32 \<Rightarrow> addr \<Rightarrow> u32 list \<Rightarrow> 'd kernel \<Rightarrow> (u32 \<times> 'd kernel) option" where
  "stack_call int2e number ebx esp args k = int2e number ebx (k\<lparr>kmem := push_args esp args (kmem k)\<rparr>)"

text \<open>The parameters are in the order of the functions; \<open>ebx\<close> and \<open>esp\<close> are what the registers hold.\<close>

definition NtAcceptConnectPort_call ::
    "'d int2e \<Rightarrow> u32 \<Rightarrow> addr \<Rightarrow> addr \<Rightarrow> addr \<Rightarrow> addr \<Rightarrow> byte \<Rightarrow> addr \<Rightarrow> addr \<Rightarrow> 'd kernel \<Rightarrow> (u32 \<times> 'd kernel) option" where
  "NtAcceptConnectPort_call int2e ebx esp PortHandle PortContext ConnectionRequest AcceptConnection WriteSection ReadSection k =
     stack_call int2e 0 ebx esp
       [PortHandle, PortContext, ConnectionRequest, ucast AcceptConnection, WriteSection, ReadSection] k"

definition NtAccessCheckAndAuditAlarm ::
    "'d int2e \<Rightarrow> u32 \<Rightarrow> addr \<Rightarrow> addr \<Rightarrow> addr \<Rightarrow> addr \<Rightarrow> addr \<Rightarrow> addr \<Rightarrow> u32 \<Rightarrow> addr \<Rightarrow> byte \<Rightarrow> addr \<Rightarrow> addr \<Rightarrow> addr \<Rightarrow>
      'd kernel \<Rightarrow> (u32 \<times> 'd kernel) option" where
  "NtAccessCheckAndAuditAlarm int2e ebx esp SubsystemName HandleId ObjectTypeName ObjectName SecurityDescriptor
       DesiredAccess GenericMapping ObjectCreation GrantedAccess AccessStatus GenerateOnClose k =
     stack_call int2e SYS_NtAccessCheckAndAuditAlarm ebx esp
       [SubsystemName, HandleId, ObjectTypeName, ObjectName, SecurityDescriptor, DesiredAccess, GenericMapping,
        ucast ObjectCreation, GrantedAccess, AccessStatus, GenerateOnClose] k"

definition NtAccessCheckByType ::
    "'d int2e \<Rightarrow> u32 \<Rightarrow> addr \<Rightarrow> addr \<Rightarrow> addr \<Rightarrow> u32 \<Rightarrow> u32 \<Rightarrow> addr \<Rightarrow> u32 \<Rightarrow> addr \<Rightarrow> addr \<Rightarrow> addr \<Rightarrow> addr \<Rightarrow> addr \<Rightarrow>
      'd kernel \<Rightarrow> (u32 \<times> 'd kernel) option" where
  "NtAccessCheckByType int2e ebx esp SecurityDescriptor PrincipalSelfSid ClientToken DesiredAccess TypeList
       TypeListLength GenericMapping Privileges PrivilegeSetLength GrantedAccess AccessStatus k =
     stack_call int2e SYS_NtAccessCheckByType ebx esp
       [SecurityDescriptor, PrincipalSelfSid, ClientToken, DesiredAccess, TypeList, TypeListLength, GenericMapping,
        Privileges, PrivilegeSetLength, GrantedAccess, AccessStatus] k"

definition NtAccessCheckByTypeAndAuditAlarm ::
    "'d int2e \<Rightarrow> u32 \<Rightarrow> addr \<Rightarrow> addr \<Rightarrow> addr \<Rightarrow> addr \<Rightarrow> addr \<Rightarrow> addr \<Rightarrow> addr \<Rightarrow> u32 \<Rightarrow> u32 \<Rightarrow> u32 \<Rightarrow> addr \<Rightarrow> u32 \<Rightarrow> addr \<Rightarrow>
      byte \<Rightarrow> addr \<Rightarrow> addr \<Rightarrow> addr \<Rightarrow> 'd kernel \<Rightarrow> (u32 \<times> 'd kernel) option" where
  "NtAccessCheckByTypeAndAuditAlarm int2e ebx esp SubsystemName HandleId ObjectTypeName ObjectName SecurityDescriptor
       PrincipalSelfSid DesiredAccess AuditType Flags ObjectTypeList ObjectTypeListLength GenericMapping ObjectCreation
       GrantedAccess AccessStatus GenerateOnClose k =
     stack_call int2e SYS_NtAccessCheckByTypeAndAuditAlarm ebx esp
       [SubsystemName, HandleId, ObjectTypeName, ObjectName, SecurityDescriptor, PrincipalSelfSid, DesiredAccess,
        AuditType, Flags, ObjectTypeList, ObjectTypeListLength, GenericMapping, ucast ObjectCreation, GrantedAccess,
        AccessStatus, GenerateOnClose] k"

definition NtAccessCheckByTypeResultList ::
    "'d int2e \<Rightarrow> u32 \<Rightarrow> addr \<Rightarrow> addr \<Rightarrow> addr \<Rightarrow> u32 \<Rightarrow> u32 \<Rightarrow> addr \<Rightarrow> u32 \<Rightarrow> addr \<Rightarrow> addr \<Rightarrow> addr \<Rightarrow> addr \<Rightarrow> addr \<Rightarrow>
      'd kernel \<Rightarrow> (u32 \<times> 'd kernel) option" where
  "NtAccessCheckByTypeResultList int2e ebx esp SecurityDescriptor PrincipalSelfSid ClientToken DesiredAccess TypeList
       TypeListLength GenericMapping Privileges PrivilegeSetLength GrantedAccessList AccessStatusList k =
     stack_call int2e SYS_NtAccessCheckByTypeResultList ebx esp
       [SecurityDescriptor, PrincipalSelfSid, ClientToken, DesiredAccess, TypeList, TypeListLength, GenericMapping,
        Privileges, PrivilegeSetLength, GrantedAccessList, AccessStatusList] k"

text \<open>\<open>DllMain\<close> stores through the null pointer \<open>fname\<close>; the reasons are 1, a process attaches, and 2, a
  thread does.\<close>

definition DllMain :: "ntdll_frame \<Rightarrow> 'd int2e \<Rightarrow> u32 \<Rightarrow> 'd kernel \<Rightarrow> (u32 \<times> 'd kernel) option" where
  "DllMain f int2e ul_reason_for_call k = do {
     let fname = 0;
     let m = write16 (write16 (kmem k) fname 30) (fname + 2) 50;
     (r, k) \<leftarrow> NtDisplayString int2e fname (k\<lparr>kmem := write32 m (fname + 4) (nt_text f Q_hello)\<rparr>);
     (r, k) \<leftarrow>
       (if ul_reason_for_call = 1
        then NtDisplayString int2e fname (k\<lparr>kmem := write32 (kmem k) (fname + 4) (nt_text f Q_process_attached)\<rparr>)
        else if ul_reason_for_call = 2
        then NtDisplayString int2e fname (k\<lparr>kmem := write32 (kmem k) (fname + 4) (nt_text f Q_thread_attached)\<rparr>)
        else Some (0, k));
     Some (1, k)
   }"

definition AddNumbers :: "u32 \<Rightarrow> u32 \<Rightarrow> u32" where
  "AddNumbers a b = a + b"

text \<open>At most as many characters as the buffer holds; the length is stored in bytes.\<close>

definition SystemPrint :: "'d int2e \<Rightarrow> addr \<Rightarrow> addr \<Rightarrow> 'd kernel \<Rightarrow> 'd kernel option" where
  "SystemPrint int2e fname msg k = do {
     len \<leftarrow> wcslen (kmem k) msg;
     let max_length = ucast (read16 (kmem k) (fname + 2));
     let len = (if max_length \<le> len * 2 then max_length div 2 - 1 else len);
     let m = wcsncpy (kmem k) (read32 (kmem k) (fname + 4)) msg len;
     let m = write16 m (read32 m (fname + 4) + 2 * len) 0;
     let m = write16 m fname (ucast (len * 2));
     (r, k) \<leftarrow> NtDisplayString int2e fname (k\<lparr>kmem := m\<rparr>);
     Some k
   }"

section \<open>Queries\<close>

text \<open>\<open>if (ReturnLength) *ReturnLength = size\<close>, and success.\<close>

definition returned :: "addr \<Rightarrow> nat \<Rightarrow> 'd kernel \<Rightarrow> (u32 \<times> 'd kernel) option" where
  "returned ReturnLength n k =
     Some (STATUS_SUCCESS,
       if ReturnLength \<noteq> 0 then k\<lparr>kmem := write32 (kmem k) ReturnLength (word_of_nat n)\<rparr> else k)"

definition mismatch :: "'d kernel \<Rightarrow> (u32 \<times> 'd kernel) option" where
  "mismatch k = Some (STATUS_INFO_LENGTH_MISMATCH, k)"

text \<open>What each query stores at \<open>p\<close>, the address \<open>SystemInformation\<close>.\<close>

definition fill_code_integrity :: "addr \<Rightarrow> mem \<Rightarrow> mem" where
  "fill_code_integrity p m =
     (let m = write32 m (p + offset SYSTEM_CODEINTEGRITY_INFORMATION ''Length'')
                (word_of_nat (c_sizeof SYSTEM_CODEINTEGRITY_INFORMATION))
      in write32 m (p + offset SYSTEM_CODEINTEGRITY_INFORMATION ''CodeIntegrityOptions'')
           (CODEINTEGRITY_OPTION_ENABLED OR CODEINTEGRITY_OPTION_HVCI_KMCI_ENABLED))"

definition fill_va_shadow :: "addr \<Rightarrow> mem \<Rightarrow> mem" where
  "fill_va_shadow p m =
     write32 m (p + offset SYSTEM_KERNEL_VA_SHADOW_INFORMATION ''Flags'')
       (KVA_SHADOW_ENABLED OR KVA_SHADOW_PCID OR KVA_L1TF_MITIGATION_PRESENT)"

definition fill_performance :: "addr \<Rightarrow> mem \<Rightarrow> mem" where
  "fill_performance p m =
     (let m = memset m p 0 (word_of_nat (c_sizeof SYSTEM_PERFORMANCE_INFORMATION));
          m = write64 m (p + offset SYSTEM_PERFORMANCE_INFORMATION ''IdleTime'') 12345678;
          m = write32 m (p + offset SYSTEM_PERFORMANCE_INFORMATION ''PageFaultCount'') 42
      in write32 m (p + offset SYSTEM_PERFORMANCE_INFORMATION ''AvailablePages'') 8192)"

definition fill_policy :: "addr \<Rightarrow> mem \<Rightarrow> mem" where
  "fill_policy p m = memset m p 0 (word_of_nat (c_sizeof SYSTEM_POLICY_INFORMATION))"

text \<open>\<open>DummyProcess.exe\<close> has 16 characters.\<close>

definition fill_process :: "ntdll_frame \<Rightarrow> addr \<Rightarrow> mem \<Rightarrow> mem option" where
  "fill_process f p m = do {
     let m = write32 m (p + offset SYSTEM_BASICPROCESS_INFORMATION ''NextEntryOffset'') 0;
     let m = write32 m (p + offset SYSTEM_BASICPROCESS_INFORMATION ''UniqueProcessId'') 1234;
     let m = write32 m (p + offset SYSTEM_BASICPROCESS_INFORMATION ''InheritedFromUniqueProcessId'') 1;
     let m = write64 m (p + offset SYSTEM_BASICPROCESS_INFORMATION ''SequenceNumber'') 1;
     let name = p + offset SYSTEM_BASICPROCESS_INFORMATION ''ImageName'';
     let m = write32 m (name + offset UNICODE_STRING ''Buffer'') (at_dummyName f);
     len \<leftarrow> wcslen m (at_dummyName f);
     let m = write16 m (name + offset UNICODE_STRING ''Length'') (ucast (len * 2));
     Some (write16 m (name + offset UNICODE_STRING ''MaximumLength'') 34)
   }"

text \<open>The counters are products of 32 bits.\<close>

function fill_processors :: "addr \<Rightarrow> u32 \<Rightarrow> u32 \<Rightarrow> mem \<Rightarrow> mem" where
  "fill_processors ppi nProcs i m =
     (if i < nProcs
      then
        let p = ppi + i * word_of_nat (c_sizeof SYSTEM_PROCESSOR_PERFORMANCE_INFORMATION);
            m = write64 m (p + offset SYSTEM_PROCESSOR_PERFORMANCE_INFORMATION ''IdleTime'') (ucast (1000 * i));
            m = write64 m (p + offset SYSTEM_PROCESSOR_PERFORMANCE_INFORMATION ''KernelTime'') (ucast (2000 * i));
            m = write64 m (p + offset SYSTEM_PROCESSOR_PERFORMANCE_INFORMATION ''UserTime'') (ucast (1500 * i));
            m = write64 m (p + offset SYSTEM_PROCESSOR_PERFORMANCE_INFORMATION ''DpcTime'') (ucast (50 * i));
            m = write64 m (p + offset SYSTEM_PROCESSOR_PERFORMANCE_INFORMATION ''InterruptTime'') (ucast (25 * i))
        in fill_processors ppi nProcs (i + 1)
             (write32 m (p + offset SYSTEM_PROCESSOR_PERFORMANCE_INFORMATION ''InterruptCount'') (100 + i))
      else m)"
  by pat_completeness auto
termination
  by (relation "measure (\<lambda>(ppi, n, i, m). unat (n - i))") (auto simp: measure_up)

declare fill_processors.simps [simp del]

definition fill_counter :: "addr \<Rightarrow> mem \<Rightarrow> mem" where
  "fill_counter p m =
     (let m = write64 m (p + offset SYSTEM_QUERY_PERFORMANCE_COUNTER_INFORMATION ''PerformanceCounter'') 1234567890
      in write64 m (p + offset SYSTEM_QUERY_PERFORMANCE_COUNTER_INFORMATION ''PerformanceFrequency'') 10000000)"

definition fill_quota :: "addr \<Rightarrow> mem \<Rightarrow> mem" where
  "fill_quota p m = memset m p 0 (word_of_nat (c_sizeof SYSTEM_REGISTRY_QUOTA_INFORMATION))"

text \<open>Bits 0, 5, 6 and 8 are set, and the 16 highest, \<open>Reserved\<close>, cleared.\<close>

definition fill_speculation :: "addr \<Rightarrow> mem \<Rightarrow> mem" where
  "fill_speculation p m =
     (let q = p + offset SYSTEM_SPECULATION_CONTROL_INFORMATION ''SpeculationControlFlags'';
          m = write32 m q (set_bit 0 (read32 m q));
          m = write32 m q (set_bit 5 (read32 m q));
          m = write32 m q (set_bit 6 (read32 m q));
          m = write32 m q (set_bit 8 (read32 m q))
      in write32 m q (take_bit 16 (read32 m q)))"

definition fill_time :: "addr \<Rightarrow> mem \<Rightarrow> mem" where
  "fill_time p m =
     (let m = write64 m (p + offset SYSTEM_TIMEOFDAY_INFORMATION ''CurrentTime'') 1324567890123456;
          m = write64 m (p + offset SYSTEM_TIMEOFDAY_INFORMATION ''BootTime'') 1324560000000000;
          m = write64 m (p + offset SYSTEM_TIMEOFDAY_INFORMATION ''TimeZoneBias'') 0;
          m = write32 m (p + offset SYSTEM_TIMEOFDAY_INFORMATION ''TimeZoneId'') 0;
          r = p + offset SYSTEM_TIMEOFDAY_INFORMATION ''Reserved''
      in write32 (write32 (write32 m r 0) (r + 4) 0) (r + 8) 0)"

section \<open>NtQuerySystemInformation\<close>

text \<open>The queries, one per case of the switch: \<open>p\<close> and \<open>len\<close> are \<open>SystemInformation\<close> and its length, \<open>r\<close> is
  \<open>ReturnLength\<close>.\<close>

fun dump_bytes :: "ntdll_frame \<Rightarrow> addr \<Rightarrow> nat \<Rightarrow> mem \<Rightarrow> mem option" where
  "dump_bytes f p 0 m = Some m"
| "dump_bytes f p (Suc n) m = do {
     m \<leftarrow> swprintf m (at_hex f) 8 (nt_text f Q_byte) [W32 (ucast (m (p + 16 - word_of_nat (Suc n))))];
     len \<leftarrow> wcslen m (at_buf f);
     m \<leftarrow> wcsncat m (at_buf f) (at_hex f) (512 - len - 1);
     dump_bytes f p n m
   }"

definition query_exception :: "ntdll_frame \<Rightarrow> 'd int2e \<Rightarrow> addr \<Rightarrow> u32 \<Rightarrow> addr \<Rightarrow> 'd kernel \<Rightarrow> (u32 \<times> 'd kernel) option" where
  "query_exception f int2e p len r k =
     (if len < word_of_nat (c_sizeof SYSTEM_EXCEPTION_INFORMATION) then mismatch k
      else do {
        m \<leftarrow> wcscpy (kmem k) (at_buf f) (nt_text f Q_exception);
        m \<leftarrow> dump_bytes f p 16 m;
        k \<leftarrow> SystemPrint int2e (at_fname_struct f) (at_buf f) (k\<lparr>kmem := m\<rparr>);
        returned r (c_sizeof SYSTEM_EXCEPTION_INFORMATION) k
      })"

definition query_leap_second :: "ntdll_frame \<Rightarrow> 'd int2e \<Rightarrow> addr \<Rightarrow> u32 \<Rightarrow> addr \<Rightarrow> 'd kernel \<Rightarrow> (u32 \<times> 'd kernel) option" where
  "query_leap_second f int2e p len r k =
     (if len < word_of_nat (c_sizeof SYSTEM_LEAP_SECOND_INFORMATION) then mismatch k
      else do {
        m \<leftarrow> wcscpy (kmem k) (at_buf f) (nt_text f Q_leap_second);
        m \<leftarrow> dump_bytes f p 16 m;
        k \<leftarrow> SystemPrint int2e (at_fname_struct f) (at_buf f) (k\<lparr>kmem := m\<rparr>);
        returned r (c_sizeof SYSTEM_LEAP_SECOND_INFORMATION) k
      })"

definition query_lookaside :: "ntdll_frame \<Rightarrow> 'd int2e \<Rightarrow> addr \<Rightarrow> 'd kernel \<Rightarrow> (u32 \<times> 'd kernel) option" where
  "query_lookaside f int2e r k = do {
     k \<leftarrow> SystemPrint int2e (at_fname_struct f) (nt_text f Q_lookaside) k;
     returned r 0 k
   }"

definition query_code_integrity :: "ntdll_frame \<Rightarrow> 'd int2e \<Rightarrow> addr \<Rightarrow> u32 \<Rightarrow> addr \<Rightarrow> 'd kernel \<Rightarrow> (u32 \<times> 'd kernel) option" where
  "query_code_integrity f int2e p len r k =
     (if len < word_of_nat (c_sizeof SYSTEM_CODEINTEGRITY_INFORMATION) then mismatch k
      else do {
        let m = fill_code_integrity p (kmem k);
        m \<leftarrow> swprintf m (at_buf f) 512 (nt_text f Q_code_integrity)
          [W32 (read32 m (p + offset SYSTEM_CODEINTEGRITY_INFORMATION ''CodeIntegrityOptions''))];
        k \<leftarrow> SystemPrint int2e (at_fname_struct f) (at_buf f) (k\<lparr>kmem := m\<rparr>);
        returned r (c_sizeof SYSTEM_CODEINTEGRITY_INFORMATION) k
      })"

definition query_va_shadow :: "ntdll_frame \<Rightarrow> 'd int2e \<Rightarrow> addr \<Rightarrow> u32 \<Rightarrow> addr \<Rightarrow> 'd kernel \<Rightarrow> (u32 \<times> 'd kernel) option" where
  "query_va_shadow f int2e p len r k =
     (if len < word_of_nat (c_sizeof SYSTEM_KERNEL_VA_SHADOW_INFORMATION) then mismatch k
      else do {
        let m = fill_va_shadow p (kmem k);
        m \<leftarrow> swprintf m (at_buf f) 512 (nt_text f Q_va_shadow)
          [W32 (read32 m (p + offset SYSTEM_KERNEL_VA_SHADOW_INFORMATION ''Flags''))];
        k \<leftarrow> SystemPrint int2e (at_fname_struct f) (at_buf f) (k\<lparr>kmem := m\<rparr>);
        returned r (c_sizeof SYSTEM_KERNEL_VA_SHADOW_INFORMATION) k
      })"

definition query_performance :: "ntdll_frame \<Rightarrow> 'd int2e \<Rightarrow> addr \<Rightarrow> u32 \<Rightarrow> addr \<Rightarrow> 'd kernel \<Rightarrow> (u32 \<times> 'd kernel) option" where
  "query_performance f int2e p len r k =
     (if len < word_of_nat (c_sizeof SYSTEM_PERFORMANCE_INFORMATION) then mismatch k
      else do {
        let m = fill_performance p (kmem k);
        m \<leftarrow> swprintf m (at_buf f) 512 (nt_text f Q_performance)
          [W64 (read64 m (p + offset SYSTEM_PERFORMANCE_INFORMATION ''IdleTime'')),
           W32 (read32 m (p + offset SYSTEM_PERFORMANCE_INFORMATION ''PageFaultCount'')),
           W32 (read32 m (p + offset SYSTEM_PERFORMANCE_INFORMATION ''AvailablePages''))];
        k \<leftarrow> SystemPrint int2e (at_fname_struct f) (at_buf f) (k\<lparr>kmem := m\<rparr>);
        returned r (c_sizeof SYSTEM_PERFORMANCE_INFORMATION) k
      })"

text \<open>This query does not look at the length.\<close>

definition query_interrupt :: "ntdll_frame \<Rightarrow> 'd int2e \<Rightarrow> addr \<Rightarrow> addr \<Rightarrow> 'd kernel \<Rightarrow> (u32 \<times> 'd kernel) option" where
  "query_interrupt f int2e p r k = do {
     let m = kmem k;
     m \<leftarrow> swprintf m (at_buf f) 512 (nt_text f Q_interrupt)
       [W32 (read32 m (p + offset SYSTEM_INTERRUPT_INFORMATION ''ContextSwitches'')),
        W32 (read32 m (p + offset SYSTEM_INTERRUPT_INFORMATION ''DpcCount'')),
        W32 (read32 m (p + offset SYSTEM_INTERRUPT_INFORMATION ''DpcRate'')),
        W32 (read32 m (p + offset SYSTEM_INTERRUPT_INFORMATION ''TimeIncrement'')),
        W32 (read32 m (p + offset SYSTEM_INTERRUPT_INFORMATION ''DpcBypassCount'')),
        W32 (read32 m (p + offset SYSTEM_INTERRUPT_INFORMATION ''ApcBypassCount''))];
     k \<leftarrow> SystemPrint int2e (at_fname_struct f) (at_buf f) (k\<lparr>kmem := m\<rparr>);
     returned r (c_sizeof SYSTEM_INTERRUPT_INFORMATION) k
   }"

definition query_policy :: "ntdll_frame \<Rightarrow> 'd int2e \<Rightarrow> addr \<Rightarrow> u32 \<Rightarrow> addr \<Rightarrow> 'd kernel \<Rightarrow> (u32 \<times> 'd kernel) option" where
  "query_policy f int2e p len r k =
     (if len < word_of_nat (c_sizeof SYSTEM_POLICY_INFORMATION) then mismatch k
      else do {
        k \<leftarrow> SystemPrint int2e (at_fname_struct f) (nt_text f Q_policy) (k\<lparr>kmem := fill_policy p (kmem k)\<rparr>);
        returned r (c_sizeof SYSTEM_POLICY_INFORMATION) k
      })"

definition query_process :: "ntdll_frame \<Rightarrow> 'd int2e \<Rightarrow> addr \<Rightarrow> u32 \<Rightarrow> addr \<Rightarrow> 'd kernel \<Rightarrow> (u32 \<times> 'd kernel) option" where
  "query_process f int2e p len r k =
     (if len < word_of_nat (c_sizeof SYSTEM_BASICPROCESS_INFORMATION) then mismatch k
      else do {
        m \<leftarrow> fill_process f p (kmem k);
        k \<leftarrow> SystemPrint int2e (at_fname_struct f) (nt_text f Q_process) (k\<lparr>kmem := m\<rparr>);
        returned r (c_sizeof SYSTEM_BASICPROCESS_INFORMATION) k
      })"

text \<open>The length is compared with a product of 32 bits.\<close>

definition query_processor :: "ntdll_frame \<Rightarrow> 'd int2e \<Rightarrow> addr \<Rightarrow> u32 \<Rightarrow> addr \<Rightarrow> 'd kernel \<Rightarrow> (u32 \<times> 'd kernel) option" where
  "query_processor f int2e p len r k =
     (let nProcs = dwNumberOfProcessors f;
          need = nProcs * word_of_nat (c_sizeof SYSTEM_PROCESSOR_PERFORMANCE_INFORMATION) in
      if len < need then mismatch k
      else do {
        k \<leftarrow> SystemPrint int2e (at_fname_struct f) (nt_text f Q_processor)
          (k\<lparr>kmem := fill_processors p nProcs 0 (kmem k)\<rparr>);
        returned r (unat need) k
      })"

definition query_counter :: "ntdll_frame \<Rightarrow> 'd int2e \<Rightarrow> addr \<Rightarrow> u32 \<Rightarrow> addr \<Rightarrow> 'd kernel \<Rightarrow> (u32 \<times> 'd kernel) option" where
  "query_counter f int2e p len r k =
     (if len < word_of_nat (c_sizeof SYSTEM_QUERY_PERFORMANCE_COUNTER_INFORMATION) then mismatch k
      else do {
        k \<leftarrow> SystemPrint int2e (at_fname_struct f) (nt_text f Q_counter) (k\<lparr>kmem := fill_counter p (kmem k)\<rparr>);
        returned r (c_sizeof SYSTEM_QUERY_PERFORMANCE_COUNTER_INFORMATION) k
      })"

definition query_quota :: "ntdll_frame \<Rightarrow> 'd int2e \<Rightarrow> addr \<Rightarrow> u32 \<Rightarrow> addr \<Rightarrow> 'd kernel \<Rightarrow> (u32 \<times> 'd kernel) option" where
  "query_quota f int2e p len r k =
     (if len < word_of_nat (c_sizeof SYSTEM_REGISTRY_QUOTA_INFORMATION) then mismatch k
      else do {
        k \<leftarrow> SystemPrint int2e (at_fname_struct f) (nt_text f Q_quota) (k\<lparr>kmem := fill_quota p (kmem k)\<rparr>);
        returned r (c_sizeof SYSTEM_REGISTRY_QUOTA_INFORMATION) k
      })"

definition query_speculation :: "ntdll_frame \<Rightarrow> 'd int2e \<Rightarrow> addr \<Rightarrow> u32 \<Rightarrow> addr \<Rightarrow> 'd kernel \<Rightarrow> (u32 \<times> 'd kernel) option" where
  "query_speculation f int2e p len r k =
     (if len < word_of_nat (c_sizeof SYSTEM_SPECULATION_CONTROL_INFORMATION) then mismatch k
      else do {
        k \<leftarrow> SystemPrint int2e (at_fname_struct f) (nt_text f Q_speculation) (k\<lparr>kmem := fill_speculation p (kmem k)\<rparr>);
        returned r (c_sizeof SYSTEM_SPECULATION_CONTROL_INFORMATION) k
      })"

definition query_time :: "ntdll_frame \<Rightarrow> 'd int2e \<Rightarrow> addr \<Rightarrow> u32 \<Rightarrow> addr \<Rightarrow> 'd kernel \<Rightarrow> (u32 \<times> 'd kernel) option" where
  "query_time f int2e p len r k =
     (if len < word_of_nat (c_sizeof SYSTEM_TIMEOFDAY_INFORMATION) then mismatch k
      else do {
        k \<leftarrow> SystemPrint int2e (at_fname_struct f) (nt_text f Q_time) (k\<lparr>kmem := fill_time p (kmem k)\<rparr>);
        returned r (c_sizeof SYSTEM_TIMEOFDAY_INFORMATION) k
      })"

definition query_unsupported :: "ntdll_frame \<Rightarrow> 'd int2e \<Rightarrow> u32 \<Rightarrow> 'd kernel \<Rightarrow> (u32 \<times> 'd kernel) option" where
  "query_unsupported f int2e class k = do {
     m \<leftarrow> swprintf (kmem k) (at_buf f) 512 (nt_text f Q_unsupported) [W32 class];
     k \<leftarrow> SystemPrint int2e (at_fname_struct f) (at_buf f) (k\<lparr>kmem := m\<rparr>);
     Some (STATUS_INVALID_INFO_CLASS, k)
   }"

text \<open>The local \<open>fname_struct\<close> of \<open>NtQuerySystemInformation\<close> hides the global one.\<close>

definition init_fname :: "ntdll_frame \<Rightarrow> mem \<Rightarrow> mem" where
  "init_fname f m =
     (let m = write32 m (at_fname_struct f + 4) (at_fname_buffer f);
          m = write16 m (at_fname_struct f) 0
      in write16 m (at_fname_struct f + 2) 1024)"

definition query_class ::
    "ntdll_frame \<Rightarrow> 'd int2e \<Rightarrow> u32 \<Rightarrow> addr \<Rightarrow> u32 \<Rightarrow> addr \<Rightarrow> 'd kernel \<Rightarrow> (u32 \<times> 'd kernel) option" where
  "query_class f int2e class p len r k =
     (if class = SystemExceptionInformation then query_exception f int2e p len r k
      else if class = SystemLeapSecondInformation then query_leap_second f int2e p len r k
      else if class = SystemLookasideInformation then query_lookaside f int2e r k
      else if class = SystemCodeIntegrityInformation then query_code_integrity f int2e p len r k
      else if class = SystemKernelVaShadowInformation then query_va_shadow f int2e p len r k
      else if class = SystemPerformanceInformation then query_performance f int2e p len r k
      else if class = SystemInterruptInformation then query_interrupt f int2e p r k
      else if class = SystemPolicyInformation then query_policy f int2e p len r k
      else if class = SystemProcessInformation then query_process f int2e p len r k
      else if class = SystemProcessorPerformanceInformation then query_processor f int2e p len r k
      else if class = SystemQueryPerformanceCounterInformation then query_counter f int2e p len r k
      else if class = SystemRegistryQuotaInformation then query_quota f int2e p len r k
      else if class = SystemSpeculationControlInformation then query_speculation f int2e p len r k
      else if class = SystemTimeOfDayInformation then query_time f int2e p len r k
      else query_unsupported f int2e class k)"

definition NtQuerySystemInformation ::
    "ntdll_frame \<Rightarrow> 'd int2e \<Rightarrow> u32 \<Rightarrow> addr \<Rightarrow> u32 \<Rightarrow> addr \<Rightarrow> 'd kernel \<Rightarrow> (u32 \<times> 'd kernel) option" where
  "NtQuerySystemInformation f int2e SystemInformationClass SystemInformation SystemInformationLength ReturnLength k =
     (if SystemInformation = 0 then Some (STATUS_INFO_LENGTH_MISMATCH, k)
      else query_class f int2e SystemInformationClass SystemInformation SystemInformationLength ReturnLength
             (k\<lparr>kmem := init_fname f (kmem k)\<rparr>))"

end
