(* ===== verification/SystemInfo.thy ===== *)
theory SystemInfo
  imports Ntdll
begin

text \<open>
  What the queries of \<^verbatim>\<open>ntdll.c\<close> answer: buffers that are too small are refused, the classes with
  fixed data store it, and the message goes through the system call to the kernel's displays.
\<close>

section \<open>SystemPrint\<close>

text \<open>Bytes none of the outputs writes to.\<close>

definition offscreen :: "'d system \<Rightarrow> nat \<Rightarrow> 'd kernel \<Rightarrow> addr \<Rightarrow> nat \<Rightarrow> bool" where
  "offscreen s H k p n \<longleftrightarrow> (\<forall>a. in_range p n a \<longrightarrow> \<not> scratch s H k a)"

definition buffers_ok :: "'d system \<Rightarrow> nat \<Rightarrow> 'd kernel \<Rightarrow> addr \<Rightarrow> addr \<Rightarrow> bool" where
  "buffers_ok s H k fname buf \<longleftrightarrow> read32 (kmem k) (fname + 4) = buf \<and> read16 (kmem k) (fname + 2) = 1024 \<and>
     apart fname 8 buf 1024 \<and> offscreen s H k fname 8 \<and> offscreen s H k buf 1024"

text \<open>The memory when \<open>SystemPrint\<close> enters the kernel.\<close>

lemma SystemPrint_stores:
  assumes "wstr (kmem k) msg (c # ws)" "length ws < 511" "buffers_ok s H k fname buf"
  shows "\<exists>m. SystemPrint int2e fname msg k = do { (r, k) \<leftarrow> int2e 0x2e fname (k\<lparr>kmem := m\<rparr>); Some k } \<and>
    read16 m buf = c \<and> read32 m (fname + 4) = buf \<and>
    (\<forall>a. \<not> in_range fname 8 a \<longrightarrow> \<not> in_range buf 1024 a \<longrightarrow> m a = kmem k a)"
proof -
  let ?n = "word_of_nat (Suc (length ws)) :: u32"
  let ?m1 = "wcsncpy (kmem k) buf msg ?n"
  let ?m2 = "write16 ?m1 (buf + 2 * ?n) 0"
  let ?m3 = "write16 ?m2 fname (ucast (?n * 2))"
  have buf: "read32 (kmem k) (fname + 4) = buf" "read16 (kmem k) (fname + 2) = 1024" and ap: "apart fname 8 buf 1024"
    using assms(3) by (simp_all add: buffers_ok_def)
  have n: "unat ?n = Suc (length ws)" using assms(2) by (intro unat_word_of_nat) simp
  have "2 * ?n = word_of_nat (2 * Suc (length ws))" by simp
  moreover have "unat (word_of_nat (2 * Suc (length ws)) :: u32) = 2 * Suc (length ws)"
    using assms(2) by (intro unat_word_of_nat) simp
  ultimately have n2: "unat (2 * ?n) = 2 * Suc (length ws)" by simp
  have m1: "?m1 a = kmem k a" if "\<not> in_range buf 1024 a" for a
    using that assms(2) by (intro wcsncpy_outside) (simp_all only: n in_range_def, simp_all)
  have nbuf: "\<not> in_range buf 1024 (fname + word_of_nat i)" if "i < 8" for i
    using apart_notin [OF ap that] .
  have nbuf4: "\<not> in_range buf 1024 (fname + 4 + word_of_nat i)" if "i < 4" for i
    using nbuf [of "4 + i"] that by (simp add: add.assoc)
  have "read32 ?m1 (fname + 4) = read32 (kmem k) (fname + 4)" by (intro read32_cong m1 nbuf4)
  then have f1: "read32 ?m1 (fname + 4) = buf" using buf(1) by simp
  have end2: "\<not> in_range (buf + 2 * ?n) 2 a" if "\<not> in_range buf 1024 a" for a
    using n2 assms(2) by (intro member_outside [OF that]) simp_all
  have m3: "?m3 a = kmem k a" if "\<not> in_range fname 8 a" "\<not> in_range buf 1024 a" for a
    using m1 [OF that(2)] end2 [OF that(2)] member_outside [OF that(1), of 0 2] by (simp add: write16_outside)
  have f3: "read32 ?m3 (fname + 4) = buf"
  proof -
    have "read32 ?m3 (fname + 4) = read32 ?m2 (fname + 4)" using read32_write_apart(2) [of 4 0 ?m2 fname] by simp
    also have "\<dots> = read32 ?m1 (fname + 4)"
      by (intro read32_cong write16_outside end2 nbuf4)
    finally show ?thesis using f1 by simp
  qed
  have first: "read16 ?m3 buf = c"
  proof -
    have "read16 ?m3 buf = read16 ?m2 buf"
      using apartD [OF ap, of 0 0] apartD [OF ap, of 1 0] apartD [OF ap, of 0 1] apartD [OF ap, of 1 1]
      by (simp add: read16_def write16_def)
    also have "\<dots> = read16 ?m1 buf"
    proof -
      have "2 \<le> 2 * ?n" "2 \<le> - (2 * ?n)"
      proof -
        show "2 \<le> 2 * ?n" by (simp only: word_le_nat_alt n2) simp
        have "unat (0 - 2 * ?n) = 2 ^ 32 - 2 * Suc (length ws)" by (simp only: unat_sub_if' n2) simp
        then show "2 \<le> - (2 * ?n)" using assms(2) by (simp add: word_le_nat_alt)
      qed
      then show ?thesis using read16_write_apart(2) [of 0 "2 * ?n" ?m1 buf 0] by simp
    qed
    also have "\<dots> = read16 (kmem k) msg" using n assms(2) by (intro wcsncpy_first) auto
    finally show ?thesis using assms(1) by simp
  qed
  have "wcslen (kmem k) msg = Some ?n" using wcslen_wstr [OF assms(1)] by simp
  moreover have "\<not> (1024 :: u32) \<le> ?n * 2"
    using n2 assms(2) by (simp only: word_le_nat_alt mult.commute [of ?n]) simp
  ultimately have "SystemPrint int2e fname msg k = do { (r, k) \<leftarrow> int2e 0x2e fname (k\<lparr>kmem := ?m3\<rparr>); Some k }"
    using f1 by (simp only: SystemPrint_def NtDisplayString_def buf Let_def bind.bind_lunit) (simp add: bind_assoc case_prod_unfold)
  then show ?thesis using first f3 m3 by blast
qed

lemma ucast_or_push: "ucast (ucast a OR push_bit 8 (ucast b) :: u16) = a" for a b :: byte
  by (rule bit_word_eqI) (auto simp: bit_ucast_iff bit_or_iff bit_push_bit_iff)

lemma drop_or_push: "ucast (drop_bit 8 (ucast a OR push_bit 8 (ucast b) :: u16)) = b" for a b :: byte
  by (rule bit_word_eqI) (auto simp: bit_ucast_iff bit_or_iff bit_push_bit_iff bit_drop_bit_eq dest: bit_imp_le_length)

lemma drop_ucast: "(ucast (drop_bit 8 (ucast a :: u16)) :: byte) = 0" for a :: byte
  by (rule bit_word_eqI) (auto simp: bit_ucast_iff bit_drop_bit_eq dest: bit_imp_le_length)

text \<open>The kernel reads the 16-bit characters as bytes: of an ASCII message it sees the first character.\<close>

lemma SystemPrint_shows:
  assumes msg: "wstr (kmem k) msg (ucast c # ws)" "length ws < 511" "c \<noteq> 0x25" and bufs: "buffers_ok s H k fname buf"
    and ready: "ready s H 1 k" and uart: "uart_serves (s_io s) busy sent"
  shows "\<exists>k'. SystemPrint (interrupt s edx) fname msg k = Some k' \<and>
    displayed sent k' = show_text (unat (screen_w (kcon k))) [c] (displayed sent k) \<and>
    (\<forall>a. \<not> scratch s H k a \<longrightarrow> \<not> in_range fname 8 a \<longrightarrow> \<not> in_range buf 1024 a \<longrightarrow> kmem k' a = kmem k a) \<and>
    video_mem (kterm k') = video_mem (kterm k)"
proof -
  obtain m where print: "SystemPrint (interrupt s edx) fname msg k =
      do { (r, k) \<leftarrow> interrupt s edx 0x2e fname (k\<lparr>kmem := m\<rparr>); Some k }"
    and m: "read16 m buf = ucast c" "read32 m (fname + 4) = buf"
      "\<And>a. \<not> in_range fname 8 a \<Longrightarrow> \<not> in_range buf 1024 a \<Longrightarrow> m a = kmem k a"
    using SystemPrint_stores [OF msg(1,2) bufs] by blast
  let ?k = "k\<lparr>kmem := m\<rparr>"
  have off: "\<not> scratch s H k a" if "in_range fname 8 a \<or> in_range buf 1024 a" for a
    using that bufs by (auto simp: buffers_ok_def offscreen_def)
  have same [simp]: "ready s H n ?k = ready s H n k" "scratch s H ?k = scratch s H k" for n
    by (simp_all add: ready_def scratch_def fun_eq_iff)
  have bytes: "m buf = c" "m (buf + 1) = 0" "c \<noteq> 0"
  proof -
    have lo: "ucast (read16 m buf) = m buf" and hi: "ucast (drop_bit 8 (read16 m buf)) = m (buf + 1)"
      by (simp_all only: read16_def ucast_or_push drop_or_push)
    show "m buf = c" using lo m(1) ucast_or_push [of c 0] by simp
    show "m (buf + 1) = 0" using hi m(1) by (simp add: drop_ucast)
    show "c \<noteq> 0" using msg(1) by auto
  qed
  have "literal s H ?k (read32 (kmem ?k) (fname + 4)) [c]"
    using bytes msg(3) off in_range_offset [of 1024 0 buf] in_range_offset [of 1024 1 buf]
    by (auto simp: literal_def m(2) le_Suc_eq)
  moreover have "undrawn H ?k (fname + 4 + word_of_nat i)" if "i < 4" for i
    using off [of "fname + 4 + word_of_nat i"] in_range_offset [of 8 "4 + i" fname] that
    by (simp add: undrawn_def scratch_def add.assoc)
  ultimately obtain k' where k': "NtDisplayStringSyscall s fname ?k = Some (STATUS_SUCCESS, k')" "shows_text s H sent [c] ?k k'"
    using NtDisplayStringSyscall_shows [of s H "[c]" ?k fname, OF _ _ _ uart] ready by auto
  have "view (kterm k) m = view (kterm k) (kmem k)"
    using m(3) off by (intro view_same) (auto simp: scratch_def)
  then have "displayed sent ?k = displayed sent k" by (simp add: displayed_def)
  then show ?thesis using print k' m(3) by (auto simp: interrupt_display shows_text_def)
qed

section \<open>Queries that are refused\<close>

text \<open>The size of the buffer each class asks for; three classes do not look at the length.\<close>

definition needed :: "ntdll_frame \<Rightarrow> u32 \<Rightarrow> u32 option" where
  "needed f class =
     (if class = 33 then Some 16
      else if class = 46 then Some 16
      else if class = 103 then Some 8
      else if class = 196 then Some 4
      else if class = 47 then Some 16
      else if class = 48 then Some 16
      else if class = 37 then Some 16
      else if class = 49 then Some 4
      else if class = 2 then Some 296
      else if class = 5 then Some 32
      else if class = 8 then Some (dwNumberOfProcessors f * 48)
      else if class = 3 then Some 40
      else None)"

lemmas queries = query_class_def query_exception_def query_leap_second_def query_code_integrity_def query_va_shadow_def
  query_performance_def query_policy_def query_process_def query_processor_def query_counter_def query_quota_def
  query_speculation_def query_time_def

lemma query_class_short: "needed f class = Some n \<Longrightarrow> len < n \<Longrightarrow> query_class f int2e class p len r k = mismatch k"
  by (simp add: needed_def queries status_defs offsets Let_def split: if_splits)

lemma init_fname_outside: "\<not> in_range (at_fname_struct f) 8 a \<Longrightarrow> init_fname f m a = m a"
  using member_outside [of "at_fname_struct f" 8 a 0 2] member_outside [of "at_fname_struct f" 8 a 2 2]
    member_outside [of "at_fname_struct f" 8 a 4 4]
  by (simp add: init_fname_def Let_def write16_outside write32_apply)

text \<open>C14: a query for a class with a buffer too small for its answer, or without a buffer, returns
  \<open>STATUS_INFO_LENGTH_MISMATCH\<close>, shows nothing, and stores nothing but its own string structure.\<close>

theorem NtQuerySystemInformation_refuses:
  assumes "p = 0 \<or> (\<exists>n. needed f class = Some n \<and> len < n)"
  shows "\<exists>m. NtQuerySystemInformation f int2e class p len r k = Some (0xC0000004, k\<lparr>kmem := m\<rparr>) \<and>
    (\<forall>a. \<not> in_range (at_fname_struct f) 8 a \<longrightarrow> m a = kmem k a)"
proof (cases "p = 0")
  case True
  then show ?thesis
    by (intro exI [of _ "kmem k"]) (simp add: NtQuerySystemInformation_def STATUS_INFO_LENGTH_MISMATCH_def)
next
  case False
  then obtain n where "needed f class = Some n" "len < n" using assms by blast
  then show ?thesis using False
    by (intro exI [of _ "init_fname f (kmem k)"])
      (simp add: NtQuerySystemInformation_def query_class_short mismatch_def init_fname_outside STATUS_INFO_LENGTH_MISMATCH_def)
qed

section \<open>Queries with fixed answers\<close>

text \<open>The message, the size and the data of a class.\<close>

definition fixed_query :: "u32 \<Rightarrow> addr \<Rightarrow> (nt_text \<times> nat \<times> (mem \<Rightarrow> mem)) option" where
  "fixed_query class p =
     (if class = 47 then Some (Q_policy, 16, fill_policy p)
      else if class = 48 then Some (Q_counter, 16, fill_counter p)
      else if class = 37 then Some (Q_quota, 16, fill_quota p)
      else if class = 49 then Some (Q_speculation, 4, fill_speculation p)
      else if class = 3 then Some (Q_time, 40, fill_time p)
      else None)"

lemma fixed_query_cases:
  assumes "fixed_query class p = Some (q, n, fill)"
  obtains "class = 47" "q = Q_policy" "n = 16" "fill = fill_policy p"
    | "class = 48" "q = Q_counter" "n = 16" "fill = fill_counter p"
    | "class = 37" "q = Q_quota" "n = 16" "fill = fill_quota p"
    | "class = 49" "q = Q_speculation" "n = 4" "fill = fill_speculation p"
    | "class = 3" "q = Q_time" "n = 40" "fill = fill_time p"
  using assms by (auto simp: fixed_query_def split: if_splits)

lemmas fixed_queries = query_policy_def query_counter_def query_quota_def query_speculation_def query_time_def

lemma query_class_fixed:
  assumes "fixed_query class p = Some (q, n, fill)" "word_of_nat n \<le> len"
  shows "query_class f int2e class p len r k = do {
     k \<leftarrow> SystemPrint int2e (at_fname_struct f) (nt_text f q) (k\<lparr>kmem := fill (kmem k)\<rparr>);
     returned r n k
   }"
  using assms(1)
  by (cases rule: fixed_query_cases) (use assms(2) [unfolded not_less [symmetric]] in
      \<open>simp_all add: query_class_def fixed_queries status_defs offsets\<close>)

lemmas fills = fill_policy_def fill_counter_def fill_quota_def fill_speculation_def fill_time_def write64_def

text \<open>The data depends on the buffer only, and changes the buffer only.\<close>

lemma fill_outside:
  assumes "fixed_query class p = Some (q, n, fill)" "\<not> in_range p n a"
  shows "fill m a = m a"
proof -
  have out: "write32 m (p + i) v a = m a" if "unat i + 4 \<le> n" "n \<le> 40" for i v m
    using member_outside [OF assms(2) that(1)] that(2) by (simp add: write32_apply)
  have out0: "write32 m p v a = m a" if "4 \<le> n" "n \<le> 40" for v m using out [of 0] that by simp
  show ?thesis using assms(1)
    by (cases rule: fixed_query_cases) (use assms(2) in \<open>simp_all add: fills offsets Let_def memset_apply add.assoc out out0\<close>)
qed

lemma fill_cong:
  assumes "fixed_query class p = Some (q, n, fill)" "in_range p n a" "\<And>a. in_range p n a \<Longrightarrow> m' a = m a"
  shows "fill m' a = fill m a"
proof -
  have at: "write32 m' q v a = write32 m q v a" if "m' a = m a" for m m' :: mem and q v
    using that by (simp add: write32_def)
  have q: "read32 m' p = read32 m p" if "n \<ge> 4" "n \<le> 40"
    using that by (intro read32_cong assms(3) in_range_offset) simp_all
  have same: "m' a = m a" by (rule assms(3) [OF assms(2)])
  show ?thesis using assms(1)
    by (cases rule: fixed_query_cases) (use q in \<open>auto simp: fills offsets Let_def memset_apply same intro!: at\<close>)
qed

text \<open>The regions a query works on, \<open>l\<close> bytes of message, do not overlap one another or the outputs.\<close>

definition query_regions :: "'d system \<Rightarrow> nat \<Rightarrow> 'd kernel \<Rightarrow> ntdll_frame \<Rightarrow> addr \<Rightarrow> nat \<Rightarrow> addr \<Rightarrow> nat \<Rightarrow> addr \<Rightarrow> bool" where
  "query_regions s H k f msg l p n r \<longleftrightarrow>
     apart (at_fname_struct f) 8 (at_fname_buffer f) 1024 \<and> apart p n (at_fname_struct f) 8 \<and>
     apart p n (at_fname_buffer f) 1024 \<and> apart p n r 4 \<and> apart msg l (at_fname_struct f) 8 \<and> apart msg l p n \<and>
     offscreen s H k (at_fname_struct f) 8 \<and> offscreen s H k (at_fname_buffer f) 1024 \<and> offscreen s H k p n \<and>
     offscreen s H k r 4"

lemma not_in_rangeD: "apart p n q k \<Longrightarrow> in_range p n a \<Longrightarrow> \<not> in_range q k a"
  using apart_notin in_range_ex by metis

lemma init_fname_fields:
  "read32 (init_fname f m) (at_fname_struct f + 4) = at_fname_buffer f" "read16 (init_fname f m) (at_fname_struct f + 2) = 1024"
  using read32_write_apart(2) [of 4 2 "write16 (write32 m (at_fname_struct f + 4) (at_fname_buffer f)) (at_fname_struct f) 0" "at_fname_struct f"]
    read32_write_apart(2) [of 4 0 "write32 m (at_fname_struct f + 4) (at_fname_buffer f)" "at_fname_struct f"]
  by (simp_all add: init_fname_def Let_def)

text \<open>The messages and the sizes of the fixed answers, and the answers themselves.\<close>

definition fixed_class :: "u32 \<Rightarrow> (nt_text \<times> nat) option" where
  "fixed_class class =
     (if class = 47 then Some (Q_policy, 16)
      else if class = 48 then Some (Q_counter, 16)
      else if class = 37 then Some (Q_quota, 16)
      else if class = 49 then Some (Q_speculation, 4)
      else if class = 3 then Some (Q_time, 40)
      else None)"

definition system_answer :: "u32 \<Rightarrow> addr \<Rightarrow> mem \<Rightarrow> mem \<Rightarrow> bool" where
  "system_answer class p m m' \<longleftrightarrow>
     (if class = 3
      then read64 m' p = 1324567890123456 \<and> read64 m' (p + 8) = 1324560000000000 \<and> read64 m' (p + 16) = 0 \<and>
        read32 m' (p + 24) = 0 \<and> read32 m' (p + 28) = 0 \<and> read32 m' (p + 32) = 0 \<and> read32 m' (p + 36) = 0
      else if class = 48 then read64 m' p = 1234567890 \<and> read64 m' (p + 8) = 10000000
      else if class = 49 then read32 m' p = (read32 m p OR 0x161) AND 0xFFFF
      else \<forall>i<16. m' (p + word_of_nat i) = 0)"

lemma fixed_class_query: "fixed_class class = Some (q, n) \<Longrightarrow> \<exists>fill. fixed_query class p = Some (q, n, fill)"
  by (auto simp: fixed_class_def fixed_query_def split: if_splits)

lemma read32_write_first:
  fixes a :: addr
  shows "4 \<le> a \<Longrightarrow> 4 \<le> - a \<Longrightarrow> read32 (write32 m (p + a) v) p = read32 m p"
    and "4 \<le> a \<Longrightarrow> 4 \<le> - a \<Longrightarrow> read32 (write32 m p v) (p + a) = read32 m (p + a)"
  using read32_write_apart(1) [of 0 a m p v] read32_write_apart(1) [of a 0 m p v] by simp_all

lemma fill_answers:
  assumes "fixed_query class p = Some (q, n, fill)"
  shows "system_answer class p m (fill m)"
  using assms
  by (cases rule: fixed_query_cases)
    (simp_all add: system_answer_def fills read64_def offsets Let_def memset_apply read32_write_apart read32_write_first
      in_range_offset add.assoc set_bit_eq_or take_bit_eq_mask or.assoc mask_eq_exp_minus_1)

lemma system_answer_cong:
  assumes "fixed_query class p = Some (q, n, fill)" "system_answer class p m m1" "\<And>a. in_range p n a \<Longrightarrow> m2 a = m1 a"
  shows "system_answer class p m m2"
proof -
  have r: "read32 m2 (p + i) = read32 m1 (p + i)" if "unat i + 4 \<le> n" "n \<le> 40" for i
  proof (intro read32_cong assms(3))
    fix j :: nat assume "j < 4"
    then have "unat (word_of_nat j :: u32) = j" by (intro unat_word_of_nat) simp
    then have "unat (i + word_of_nat j) = unat i + j" using that \<open>j < 4\<close> by (subst unat_add_small) simp_all
    then show "in_range p n (p + i + word_of_nat j)" using that \<open>j < 4\<close> by (simp add: in_range_def)
  qed
  have r0: "read32 m2 p = read32 m1 p" if "4 \<le> n" "n \<le> 40" using r [of 0] that by simp
  show ?thesis using assms(1)
    by (cases rule: fixed_query_cases)
      (use assms(2,3) r r0 in \<open>simp_all add: system_answer_def read64_def add.assoc in_range_offset\<close>)
qed

text \<open>With the string structure set up and the buffer filled, the message is printed.\<close>

lemma filled_outside:
  assumes "fixed_query class p = Some (q, n, fill)" "\<not> in_range (at_fname_struct f) 8 a" "\<not> in_range p n a"
  shows "fill (init_fname f m) a = m a"
  using assms by (simp add: fill_outside [OF assms(1)] init_fname_outside)

lemma filled_buffers:
  assumes query: "fixed_query class p = Some (q, n, fill)" and reg: "query_regions s H k f msg l p n r"
  shows "buffers_ok s H (k\<lparr>kmem := fill (init_fname f (kmem k))\<rparr>) (at_fname_struct f) (at_fname_buffer f)"
proof -
  let ?fs = "at_fname_struct f"
  have "apart ?fs 8 p n" using reg by (simp add: query_regions_def apart_sym)
  then have keep: "fill (init_fname f (kmem k)) (?fs + word_of_nat i) = init_fname f (kmem k) (?fs + word_of_nat i)" if "i < 8" for i
    using fill_outside [OF query] apart_notin that by blast
  from keep [of "4 + _"] have "read32 (fill (init_fname f (kmem k))) (?fs + 4) = read32 (init_fname f (kmem k)) (?fs + 4)"
    by (intro read32_cong) (simp add: add.assoc)
  moreover from keep [of "2 + _"] have "read16 (fill (init_fname f (kmem k))) (?fs + 2) = read16 (init_fname f (kmem k)) (?fs + 2)"
    by (intro read16_cong) (simp add: add.assoc)
  moreover have "scratch s H (k\<lparr>kmem := m\<rparr>) = scratch s H k" for m by (simp add: scratch_def fun_eq_iff)
  ultimately show ?thesis using reg by (simp add: buffers_ok_def query_regions_def offscreen_def init_fname_fields)
qed

lemma filled_prints:
  assumes query: "fixed_query class p = Some (q, n, fill)"
    and msg: "wstr (kmem k) (nt_text f q) (0x5B # ws)" "length ws < 511"
    and reg: "query_regions s H k f (nt_text f q) (2 * length ws + 4) p n r"
    and ready: "ready s H 1 k" and uart: "uart_serves (s_io s) busy sent"
  defines "k0 \<equiv> k\<lparr>kmem := fill (init_fname f (kmem k))\<rparr>"
  shows "\<exists>k1. SystemPrint (interrupt s edx) (at_fname_struct f) (nt_text f q) k0 = Some k1 \<and>
    displayed sent k1 = show_text (unat (screen_w (kcon k))) [0x5B] (displayed sent k0) \<and>
    (\<forall>a. \<not> scratch s H k a \<and> \<not> in_range (at_fname_struct f) 8 a \<and> \<not> in_range (at_fname_buffer f) 1024 a \<longrightarrow>
      kmem k1 a = kmem k0 a) \<and> video_mem (kterm k1) = video_mem (kterm k)"
proof -
  have same [simp]: "ready s H i k0 = ready s H i k" "scratch s H k0 = scratch s H k" for i
    by (simp_all add: k0_def ready_def scratch_def fun_eq_iff)
  have "wstr (kmem k0) (nt_text f q) (0x5B # ws)"
  proof (rule wstr_cong [OF msg(1)])
    fix i assume "i < 2 * length (0x5B # ws) + 2"
    then have "i < 2 * length ws + 4" by simp
    then show "kmem k0 (nt_text f q + word_of_nat i) = kmem k (nt_text f q + word_of_nat i)"
      using reg apart_notin [of "nt_text f q" "2 * length ws + 4" _ _ i]
      by (auto simp: k0_def query_regions_def intro!: filled_outside [OF query])
  qed
  then have "wstr (kmem k0) (nt_text f q) (ucast (0x5B :: byte) # ws)" by simp
  note printed = this
  have "buffers_ok s H k0 (at_fname_struct f) (at_fname_buffer f)" "ready s H 1 k0" "(0x5B :: byte) \<noteq> 0x25"
    using filled_buffers [OF query reg] ready by (simp_all add: k0_def ready_def)
  then obtain k1 where "SystemPrint (interrupt s edx) (at_fname_struct f) (nt_text f q) k0 = Some k1"
    "displayed sent k1 = show_text (unat (screen_w (kcon k0))) [0x5B] (displayed sent k0)"
    "\<forall>a. \<not> scratch s H k0 a \<longrightarrow> \<not> in_range (at_fname_struct f) 8 a \<longrightarrow> \<not> in_range (at_fname_buffer f) 1024 a \<longrightarrow>
      kmem k1 a = kmem k0 a"
    "video_mem (kterm k1) = video_mem (kterm k0)"
    using SystemPrint_shows [OF printed msg(2) _ _ _ uart, of H "at_fname_struct f" "at_fname_buffer f" edx] by blast
  moreover have "screen_w (kcon k0) = screen_w (kcon k)" "video_mem (kterm k0) = video_mem (kterm k)" by (simp_all add: k0_def)
  ultimately show ?thesis by simp
qed


text \<open>A program on the machine of the earlier examples: the string structure at 0x7200, the buffer at 0x7400,
  the message \<open>[\<close> at 0x7900, the answer at 0x7000 and its size at 0x7100.\<close>

definition example_ntdll :: ntdll_frame where
  "example_ntdll = \<lparr>nt_text = (\<lambda>_. 0x7900), at_fname_buffer = 0x7400, at_fname_struct = 0x7200, at_buf = 0x8000,
     at_hex = 0x9000, at_dummyName = 0x9100, dwNumberOfProcessors = 2\<rparr>"

definition example_program :: "(nat \<times> byte list) kernel" where
  "example_program = example_kernel\<lparr>kmem := (\<lambda>_. 0)(0x7900 := 0x5B)\<rparr>"

theorem NtQuerySystemInformation_refuses_witness:
  "\<exists>m. NtQuerySystemInformation example_ntdll (interrupt example_system 0) 3 0x7000 39 0x7100 example_program =
     Some (0xC0000004, example_program\<lparr>kmem := m\<rparr>) \<and> m 0x7900 = 0x5B"
  using NtQuerySystemInformation_refuses [of "0x7000" example_ntdll 3 39 "interrupt example_system 0" "0x7100" example_program]
  by (auto simp: needed_def) (auto simp: in_range_def example_ntdll_def example_program_def)

lemma example_offscreen:
  assumes "0x6008 \<le> p" "p + n \<le> 0xB8000"
  shows "offscreen example_system 480 example_program (word_of_nat p) n"
  unfolding offscreen_def
proof (intro allI impI)
  fix a :: addr assume "in_range (word_of_nat p) n a"
  then obtain i where i: "i < n" "a = word_of_nat (p + i)" using in_range_ex by force
  have "unat (a - 0x6000) = p + i - 0x6000"
  proof -
    have "unat (word_of_nat (p + i) :: u32) = p + i" using i(1) assms by (intro unat_word_of_nat) simp
    then show ?thesis using assms by (simp add: i(2) unat_sub_if')
  qed
  then have "\<not> in_range 0x6000 8 a" using assms by (simp add: in_range_def)
  then show "\<not> scratch example_system 480 example_program a"
    using i assms below_range [of "p + i" "0x1000000" "4 * (480 * 640)"] below_range [of "p + i" "0xB8000" 3200]
    by (simp add: scratch_def on_frame_def example_program_def example_kernel_def example_system_def example_console_def last_cell_def)
qed

lemma example_query_regions: "query_regions example_system 480 example_program example_ntdll 0x7900 4 0x7000 40 0x7100"
  unfolding query_regions_def
  using low_apart [of "0x7200" 8 "0x7400" 1024] low_apart [of "0x7000" 40 "0x7200" 8] low_apart [of "0x7000" 40 "0x7400" 1024]
    low_apart [of "0x7000" 40 "0x7100" 4] low_apart [of "0x7200" 8 "0x7900" 4] low_apart [of "0x7000" 40 "0x7900" 4]
    example_offscreen [of "0x7200" 8] example_offscreen [of "0x7400" 1024] example_offscreen [of "0x7000" 40]
    example_offscreen [of "0x7100" 4]
  by (simp add: example_ntdll_def apart_sym)


end
