(* ===== verification/Programs.thy ===== *)
theory Programs
  imports Ntdll
begin

text \<open>
  The programs of \<^verbatim>\<open>applications\<close> and the library \<^verbatim>\<open>appinclude/print.c\<close> they are linked with. A
  program runs on the kernel's state, \<open>int2e edx number ebx\<close> is the interrupt with the registers it is
  given, and its literals and local variables are at addresses that are parameters. The strings go
  through the system call to the three displays: \<open>text_output\<close> is the contract of everything that
  shows one string, and what a sequence of strings shows follows from it. \<open>shut_main\<close> is the program of
  \<^verbatim>\<open>shut.c\<close>.
\<close>

section \<open>print.c\<close>

partial_function (option) app_strlen_loop :: "mem \<Rightarrow> addr \<Rightarrow> u32 \<Rightarrow> u32 option" where
  "app_strlen_loop m ptr i = (if m ptr \<noteq> 0 then app_strlen_loop m (ptr + 1) (i + 1) else Some i)"

definition app_strlen :: "mem \<Rightarrow> addr \<Rightarrow> u32 option" where
  "app_strlen m ptr = app_strlen_loop m ptr 0"

definition RtlCreateUnicodeStringFromAsciiz :: "mem \<Rightarrow> addr \<Rightarrow> addr \<Rightarrow> mem option" where
  "RtlCreateUnicodeStringFromAsciiz m UnicodeString SourceString = do {
     let m = write32 m (UnicodeString + 4) SourceString;
     len \<leftarrow> app_strlen m SourceString;
     let m = write16 m UnicodeString (ucast (ucast len :: byte));
     Some (write16 m (UnicodeString + 2) (read16 m UnicodeString + 1))
   }"

text \<open>\<open>stri\<close> is the local structure.\<close>

definition RtlCliDisplayString :: "'d int2e \<Rightarrow> addr \<Rightarrow> addr \<Rightarrow> 'd kernel \<Rightarrow> 'd kernel option" where
  "RtlCliDisplayString int2e stri msg k = do {
     m \<leftarrow> RtlCreateUnicodeStringFromAsciiz (kmem k) stri msg;
     (r, k) \<leftarrow> NtDisplayString int2e stri (k\<lparr>kmem := m\<rparr>);
     Some k
   }"

text \<open>The digits, last one first, then reversed in place; \<open>i\<close> and \<open>j\<close> are of type \<open>int\<close>.\<close>

function uint_digits :: "mem \<Rightarrow> addr \<Rightarrow> u32 \<Rightarrow> u32 \<Rightarrow> mem \<times> u32" where
  "uint_digits m str index v =
     (if 0 < v
      then uint_digits (m(str + index := ucast (0x30 + v mod 10))) str (index + 1) (v div 10)
      else (m, index))"
  by pat_completeness auto
termination
  by (relation "measure (\<lambda>(m, str, index, v). unat v)") (auto simp: unat_div word_less_nat_alt)

lemma sint_dec_above: "i <s j \<Longrightarrow> sint (j - 1) = sint j - 1" for i j :: u32
proof -
  assume "i <s j"
  then have "- (2 ^ 31) < sint j" "sint j < 2 ^ 31" using sint_ge [of i] sint_lt [of j] by (simp_all add: word_sless_alt)
  then show ?thesis by (simp add: sint_word_ariths signed_take_bit_int_eq_self)
qed

function swap_digits :: "mem \<Rightarrow> addr \<Rightarrow> u32 \<Rightarrow> u32 \<Rightarrow> mem" where
  "swap_digits m str i j =
     (if i <s j
      then
        let temp = m (str + i);
            m = m(str + i := m (str + j));
            m = m(str + j := temp)
        in swap_digits m str (i + 1) (j - 1)
      else m)"
  by pat_completeness auto
termination
  by (relation "measure (\<lambda>(m, str, i, j). nat (sint j - sint i))")
    (auto simp: sint_inc sint_dec_above word_sless_alt)

declare uint_digits.simps [simp del] swap_digits.simps [simp del]

definition RtlCreateStringFromUint :: "u32 \<Rightarrow> addr \<Rightarrow> mem \<Rightarrow> mem" where
  "RtlCreateStringFromUint v str m =
     (if v = 0 then m(str := 0x30, str + 1 := 0)
      else
        let (m, index) = uint_digits m str 0 v;
            m = m(str + index := 0)
        in swap_digits m str 0 (index - 1))"

section \<open>Numbers as text\<close>

lemma div_mod_word_of_nat:
  assumes "n < 2 ^ 32"
  shows "(word_of_nat n :: u32) div 10 = word_of_nat (n div 10)" "(word_of_nat n :: u32) mod 10 = word_of_nat (n mod 10)"
proof -
  have n: "unat (word_of_nat n :: u32) = n" using assms by (rule unat_word_of_nat)
  have "unat (word_of_nat (n div 10) :: u32) = n div 10" "unat (word_of_nat (n mod 10) :: u32) = n mod 10"
    using assms by (auto intro!: unat_word_of_nat)
  then show "(word_of_nat n :: u32) div 10 = word_of_nat (n div 10)" "(word_of_nat n :: u32) mod 10 = word_of_nat (n mod 10)"
    by (simp_all add: word_unat_eq_iff unat_div unat_mod n)
qed

lemma digit_byte: "n < 10 \<Longrightarrow> (ucast (0x30 + word_of_nat n :: u32) :: byte) = word_of_nat (48 + n)"
  using ucast_of_nat [of "48 + n"] by simp

lemma uint_digits_text:
  "0 < n \<Longrightarrow> n < 2 ^ 32 \<Longrightarrow> uint_digits m str i (word_of_nat n) =
     (write_bytes m (str + i) (rev (numeral_text n)), i + word_of_nat (length (numeral_text n)))"
proof (induction n arbitrary: m i rule: less_induct)
  case (less n)
  let ?d = "word_of_nat (48 + n mod 10) :: byte"
  have pos: "0 < (word_of_nat n :: u32)"
    using less.prems unat_word_of_nat [of n] by (simp add: word_less_nat_alt)
  have step: "uint_digits m str i (word_of_nat n) = uint_digits (m(str + i := ?d)) str (i + 1) (word_of_nat (n div 10))"
    using pos digit_byte [of "n mod 10"] by (simp add: uint_digits.simps [of m str i "word_of_nat n"] div_mod_word_of_nat [OF less.prems(2)])
  show ?case
  proof (cases "n < 10")
    case True
    then have "uint_digits (m(str + i := ?d)) str (i + 1) (word_of_nat (n div 10)) = (m(str + i := ?d), i + 1)"
      by (simp add: uint_digits.simps)
    then show ?thesis using True step by (simp add: numeral_text.simps [of n] fun_upd_def)
  next
    case False
    then show ?thesis
      using step less.IH [of "n div 10" "m(str + i := ?d)" "i + 1"] less.prems
      by (simp add: numeral_text.simps [of n] ac_simps fun_upd_def)
  qed
qed

text \<open>The loop swaps the bytes from \<open>a\<close> to \<open>b\<close> end for end.\<close>

lemma swap_digits_reverses:
  "a < 2 ^ 31 \<Longrightarrow> b < 2 ^ 31 \<Longrightarrow> a \<le> b + 1 \<Longrightarrow> k < 2 ^ 32 \<Longrightarrow>
    swap_digits m str (word_of_nat a) (word_of_nat b) (str + word_of_nat k) =
      (if a \<le> k \<and> k \<le> b then m (str + word_of_nat (a + b - k)) else m (str + word_of_nat k))"
proof (induction "b - a" arbitrary: a b m rule: less_induct)
  case less
  have inj: "(word_of_nat x :: u32) = word_of_nat y \<longleftrightarrow> x = y" if "x < 2 ^ 32" "y < 2 ^ 32" for x y
    using that by (intro word_of_nat_inject_u32)
  show ?case
  proof (cases "a < b")
    case False
    then have "\<not> (word_of_nat a :: u32) <s word_of_nat b"
      using less.prems sint_word_of_nat [of a] sint_word_of_nat [of b] by (simp add: word_sless_alt)
    then have "swap_digits m str (word_of_nat a) (word_of_nat b) = m" by (subst swap_digits.simps) simp
    then show ?thesis using False by (auto dest: le_antisym)
  next
    case True
    let ?m = "m(str + word_of_nat a := m (str + word_of_nat b), str + word_of_nat b := m (str + word_of_nat a))"
    have "(word_of_nat a :: u32) <s word_of_nat b"
      using True less.prems(1,2) sint_word_of_nat [of a] sint_word_of_nat [of b] by (simp add: word_sless_alt)
    moreover have "(word_of_nat b - 1 :: u32) = word_of_nat (b - 1)" using True by simp
    ultimately have step: "swap_digits m str (word_of_nat a) (word_of_nat b) =
        swap_digits ?m str (word_of_nat (a + 1)) (word_of_nat (b - 1))"
      by (subst swap_digits.simps) (simp add: Let_def add.commute)
    have IH: "swap_digits ?m str (word_of_nat (a + 1)) (word_of_nat (b - 1)) (str + word_of_nat k) =
        (if a + 1 \<le> k \<and> k \<le> b - 1 then ?m (str + word_of_nat (a + 1 + (b - 1) - k)) else ?m (str + word_of_nat k))"
      using True less.prems by (intro less.hyps) simp_all
    show ?thesis
    proof (cases "a + 1 \<le> k \<and> k \<le> b - 1")
      case True
      then have "a + b - k < 2 ^ 31" "a + b - k \<noteq> a" "a + b - k \<noteq> b" using less.prems(2) \<open>a < b\<close> by auto
      then show ?thesis using step IH True \<open>a < b\<close> less.prems(1,2) inj [of "a + b - k" a] inj [of "a + b - k" b]
        by (auto simp del: of_nat_add of_nat_diff)
    next
      case False
      then have rest: "swap_digits m str (word_of_nat a) (word_of_nat b) (str + word_of_nat k) = ?m (str + word_of_nat k)"
        using step IH by (simp only: if_False)
      consider "k = a" | "k = b" | "k < a \<or> b < k" using False \<open>a < b\<close> by linarith
      then show ?thesis
      proof cases
        case 3
        then show ?thesis using rest inj [of k a] inj [of k b] less.prems \<open>a < b\<close> by auto
      qed (use rest \<open>a < b\<close> inj [of a b] less.prems in simp_all)
    qed
  qed
qed

lemma length_numeral_text: "n < 10 ^ k \<Longrightarrow> 0 < k \<Longrightarrow> length (numeral_text n) \<le> k"
proof (induction k arbitrary: n)
  case (Suc k)
  show ?case
  proof (cases "n < 10")
    case False
    then have "n div 10 < 10 ^ k" "0 < k" using Suc.prems by (auto simp: less_mult_imp_div_less mult.commute intro: gr0I)
    then show ?thesis using Suc.IH [of "n div 10"] False by (simp add: numeral_text.simps [of n])
  qed (simp add: numeral_text.simps [of n])
qed simp

lemma numeral_text_nonzero: "0 \<notin> set (numeral_text n)"
proof (induction n rule: numeral_text.induct)
  case (1 n)
  have "(0 :: byte) \<noteq> word_of_nat (48 + d)" if "d < 10" for d using digit_char(4) [OF that] by simp
  then show ?case using 1 by (cases "n < 10") (simp_all add: numeral_text_small numeral_text_large)
qed

text \<open>The bytes \<open>RtlCreateStringFromUint\<close> leaves, by their distance \<open>k\<close> from the string's address.\<close>

lemma RtlCreateStringFromUint_bytes:
  assumes "k < 2 ^ 32"
  shows "RtlCreateStringFromUint v str m (str + word_of_nat k) =
    (let t = numeral_text (unat v) in if k < length t then t ! k else if k = length t then 0 else m (str + word_of_nat k))"
proof (cases "v = 0")
  case True
  have "(word_of_nat k :: u32) = 0 \<longleftrightarrow> k = 0" "(word_of_nat k :: u32) = 1 \<longleftrightarrow> k = 1"
    using word_of_nat_inject_u32 [OF assms, of 0] word_of_nat_inject_u32 [OF assms, of 1] by simp_all
  then show ?thesis using True by (auto simp: RtlCreateStringFromUint_def numeral_text.simps)
next
  case False
  let ?t = "numeral_text (unat v)"
  let ?m = "(write_bytes m str (rev ?t))(str + word_of_nat (length ?t) := 0)"
  have L: "length ?t \<le> 10" "0 < length ?t"
    using length_numeral_text [of "unat v" 10] unat_u32 [of v] by (simp_all add: numeral_text.simps [of "unat v"])
  have inj: "(word_of_nat i :: u32) = word_of_nat j \<longleftrightarrow> i = j" if "i < 2 ^ 32" "j < 2 ^ 32" for i j
    using word_of_nat_inject_u32 [OF that] .
  have "uint_digits m str 0 v = (write_bytes m str (rev ?t), word_of_nat (length ?t))"
    using uint_digits_text [of "unat v" m str 0] False unat_u32 [of v] by (simp add: unat_gt_0)
  moreover have "word_of_nat (length ?t) - 1 = (word_of_nat (length ?t - 1) :: u32)"
    using L(2) by (cases "length ?t") simp_all
  ultimately have eq: "RtlCreateStringFromUint v str m = swap_digits ?m str (word_of_nat 0) (word_of_nat (length ?t - 1))"
    using False by (simp add: RtlCreateStringFromUint_def)
  have at: "?m (str + word_of_nat i) = (if i < length ?t then rev ?t ! i else if i = length ?t then 0 else m (str + word_of_nat i))"
    if "i < 2 ^ 32" for i
    using that L inj [of i "length ?t"] by (auto simp: write_bytes_apply in_range_def unat_word_of_nat)
  define j where "j = length ?t - 1"
  have j: "length ?t = Suc j" "j < 10" using L by (simp_all add: j_def)
  have swap: "RtlCreateStringFromUint v str m (str + word_of_nat k) =
      (if 0 \<le> k \<and> k \<le> j then ?m (str + word_of_nat (0 + j - k)) else ?m (str + word_of_nat k))"
    unfolding eq j_def [symmetric] using j assms by (intro swap_digits_reverses) simp_all
  show ?thesis
  proof (cases "k < length ?t")
    case True
    then have "RtlCreateStringFromUint v str m (str + word_of_nat k) = rev ?t ! (j - k)"
    proof -
      have "?m (str + word_of_nat (j - k)) = rev ?t ! (j - k)" using j by (subst at) auto
      then show ?thesis unfolding swap using True j by simp
    qed
    then show ?thesis using True j by (simp add: rev_nth Let_def)
  next
    case False
    then have "RtlCreateStringFromUint v str m (str + word_of_nat k) = ?m (str + word_of_nat k)" using swap j by simp
    then show ?thesis using False at [OF assms] by (simp add: Let_def)
  qed
qed

lemma RtlCreateStringFromUint_cstr: "cstr (RtlCreateStringFromUint v str m) str (numeral_text (unat v))"
proof -
  let ?t = "numeral_text (unat v)"
  have L: "length ?t \<le> 10" using length_numeral_text [of "unat v" 10] unat_u32 [of v] by simp
  have "bytes (RtlCreateStringFromUint v str m) str (length ?t) = ?t"
    using L by (intro nth_equalityI) (simp_all add: RtlCreateStringFromUint_bytes)
  then show ?thesis using L by (simp add: cstr_iff numeral_text_nonzero RtlCreateStringFromUint_bytes)
qed

lemma RtlCreateStringFromUint_outside:
  assumes "\<not> in_range str (length (numeral_text (unat v)) + 1) a"
  shows "RtlCreateStringFromUint v str m a = m a"
  using assms RtlCreateStringFromUint_bytes [of "unat (a - str)" v str m] unat_u32 [of "a - str"]
  by (simp add: in_range_def Let_def)

text \<open>C18: \<open>RtlCreateStringFromUint\<close> stores the decimal digits of the number, the first one first, terminated,
  for every value, and nothing beyond the terminator.\<close>

theorem RtlCreateStringFromUint_stores:
  "cstr (RtlCreateStringFromUint v str m) str (numeral_text (unat v)) \<and>
   (\<forall>a. \<not> in_range str (length (numeral_text (unat v)) + 1) a \<longrightarrow> RtlCreateStringFromUint v str m a = m a)"
  using RtlCreateStringFromUint_cstr RtlCreateStringFromUint_outside by blast

theorem RtlCreateStringFromUint_stores_witness:
  "cstr (RtlCreateStringFromUint 5414 0x100 (\<lambda>_. 1)) 0x100 [0x35, 0x34, 0x31, 0x34] \<and>
   RtlCreateStringFromUint 5414 0x100 (\<lambda>_. 1) 0x105 = 1"
proof -
  have "numeral_text 5414 = [0x35, 0x34, 0x31, 0x34]" by (simp add: numeral_text.simps)
  then show ?thesis using RtlCreateStringFromUint_stores [of 5414 "0x100" "\<lambda>_. 1"] by (auto simp: in_range_def)
qed

section \<open>Showing a string\<close>

lemma app_strlen_loop_returns:
  assumes "app_strlen_loop m p i = Some r"
  shows "strlen_loop m p i = Some r"
proof (rule app_strlen_loop.raw_induct [where P = "\<lambda>m p i r. strlen_loop m p i = Some r", OF _ assms])
  fix f m p i r
  assume "\<And>m p i r. f m p i = Some r \<Longrightarrow> strlen_loop m p i = Some r"
    and "(if m p \<noteq> 0 then f m (p + 1) (i + 1) else Some i) = Some r"
  then show "strlen_loop m p i = Some r" by (subst strlen_loop.simps) (auto split: if_splits)
qed

lemma strlen_loop_returns:
  assumes "strlen_loop m p i = Some r"
  shows "app_strlen_loop m p i = Some r"
proof (rule strlen_loop.raw_induct [where P = "\<lambda>m p i r. app_strlen_loop m p i = Some r", OF _ assms])
  fix f m p i r
  assume "\<And>m p i r. f m p i = Some r \<Longrightarrow> app_strlen_loop m p i = Some r"
    and "(if m p \<noteq> 0 then f m (p + 1) (i + 1) else Some i) = Some r"
  then show "app_strlen_loop m p i = Some r" by (subst app_strlen_loop.simps) (auto split: if_splits)
qed

lemma app_strlen_same: "app_strlen = strlen"
proof (intro ext)
  show "app_strlen m p = strlen m p" for m p
    unfolding app_strlen_def strlen_def using app_strlen_loop_returns strlen_loop_returns by (metis option.exhaust)
qed

lemma RtlCreateUnicodeString_same: "RtlCreateUnicodeStringFromAsciiz m u p = InitializeUnicodeString m u p"
  by (simp add: RtlCreateUnicodeStringFromAsciiz_def InitializeUnicodeString_def app_strlen_same)

text \<open>A program's own string structure, at \<open>stri\<close>, in the place of the shell's.\<close>

abbreviation at_local :: "addr \<Rightarrow> 'd system \<Rightarrow> 'd system" where
  "at_local stri s \<equiv> s\<lparr>at_stri := stri\<rparr>"

lemma RtlCliDisplayString_PrintString:
  "RtlCliDisplayString (interrupt s edx) stri p k = PrintString (at_local stri s) (interrupt (at_local stri s) edx) p k"
proof -
  have "interrupt (at_local stri s) edx 0x2e a k = interrupt s edx 0x2e a k" for a k
    by (simp add: interrupt_display NtDisplayStringSyscall_def)
  then show ?thesis
    by (simp add: RtlCliDisplayString_def PrintString_def NtDisplayString_def RtlCreateUnicodeString_same bind_assoc case_prod_unfold)
qed

interpretation program_text: text_output "RtlCliDisplayString (interrupt s edx) stri"
  "\<lambda>n k. ready (at_local stri s) H n k \<and> uart_serves (s_io s) busy sent" "literal (at_local stri s) H"
  "shows_text (at_local stri s) H sent" for s edx stri H busy sent
  using kernel_text.text_output_axioms [of "at_local stri s" edx H busy sent]
  unfolding RtlCliDisplayString_PrintString [abs_def] by simp

section \<open>The programs\<close>

definition hello :: "'d int2e \<Rightarrow> addr \<Rightarrow> addr \<Rightarrow> 'd kernel \<Rightarrow> 'd kernel option" where
  "hello int2e stri msg k = RtlCliDisplayString int2e stri msg k"

text \<open>\<open>hlt\<close> is what the processor does at this instruction in user mode.\<close>

definition bsod :: "'d int2e \<Rightarrow> ('d kernel \<Rightarrow> 'd kernel option) \<Rightarrow> addr \<Rightarrow> addr \<Rightarrow> 'd kernel \<Rightarrow> 'd kernel option" where
  "bsod int2e hlt stri msg k = do { k \<leftarrow> RtlCliDisplayString int2e stri msg k; hlt k }"

definition shutdown :: "'d int2e \<Rightarrow> 'd kernel \<Rightarrow> (u32 \<times> 'd kernel) option" where
  "shutdown int2e k = int2e 0x00b4 ShutdownPowerOff k"

definition reboot :: "'d int2e \<Rightarrow> 'd kernel \<Rightarrow> (u32 \<times> 'd kernel) option" where
  "reboot int2e k = int2e 0x00b4 ShutdownReboot k"

lemma six_less_seven: "i < 7 \<Longrightarrow> unat (6 - i) < unat (7 - i)" for i :: u32
  by unat_arith

text \<open>\<open>lsbin.c\<close>: \<open>apps\<close> is an array of seven pointers.\<close>

function lsbin_loop :: "'d int2e \<Rightarrow> addr \<Rightarrow> addr \<Rightarrow> addr \<Rightarrow> u32 \<Rightarrow> 'd kernel \<Rightarrow> 'd kernel option" where
  "lsbin_loop int2e stri apps newline i k =
     (if i < 7
      then
        case RtlCliDisplayString int2e stri (read32 (kmem k) (apps + 4 * i)) k of
          None \<Rightarrow> None
        | Some k \<Rightarrow>
            case RtlCliDisplayString int2e stri newline k of
              None \<Rightarrow> None
            | Some k \<Rightarrow> lsbin_loop int2e stri apps newline (i + 1) k
      else Some k)"
  by pat_completeness auto
termination
  by (relation "measure (\<lambda>(f, stri, apps, nl, i, k). unat (7 - i))") (simp_all add: six_less_seven)

declare lsbin_loop.simps [simp del]

definition lsbin :: "'d int2e \<Rightarrow> addr \<Rightarrow> addr \<Rightarrow> addr \<Rightarrow> 'd kernel \<Rightarrow> 'd kernel option" where
  "lsbin int2e stri apps newline k = lsbin_loop int2e stri apps newline 0 k"

text \<open>\<open>librever.c\<close>: the literals and the five local arrays.\<close>

record librever_frame =
  v_stri :: addr
  v_title :: addr
  v_dot :: addr
  v_beta :: addr
  v_build :: addr
  v_close :: addr
  szMajorVersion :: addr
  szMiddleVersion :: addr
  szMinorVersion :: addr
  szBeta :: addr
  szBuild :: addr

definition librever :: "'d int2e \<Rightarrow> librever_frame \<Rightarrow> 'd kernel \<Rightarrow> 'd kernel option" where
  "librever int2e f k =
     (let nBuild = 5414; nBeta = 3; nMajorVersion = 0; nMiddleVersion = 3; nMinorVersion = 0;
          m = RtlCreateStringFromUint nMajorVersion (szMajorVersion f) (kmem k);
          m = RtlCreateStringFromUint nMiddleVersion (szMiddleVersion f) m;
          m = RtlCreateStringFromUint nMinorVersion (szMinorVersion f) m;
          m = RtlCreateStringFromUint nBeta (szBeta f) m;
          m = RtlCreateStringFromUint nBuild (szBuild f) m
      in print_each (RtlCliDisplayString int2e (v_stri f))
           [v_title f, szMajorVersion f, v_dot f, szMiddleVersion f, v_dot f, szMinorVersion f, v_beta f, szBeta f,
            v_build f, szBuild f, v_close f] (k\<lparr>kmem := m\<rparr>))"

text \<open>\<open>open.c\<close>: \<open>objAttrs\<close> is the value of the pointer, which is never initialised; the interrupt gets it
  in \<open>edx\<close>.\<close>

record open_frame =
  o_fnamebuf :: addr
  o_fname_struct :: addr
  o_objAttrs :: addr
  o_stri :: addr
  o_exists :: addr
  o_missing :: addr

definition fnamebuf_text :: "byte list" where
  "fnamebuf_text = [0x30, 0x3A, 0x2F, 0x62, 0x6F, 0x6F, 0x74, 0x2E, 0x69, 0x6E, 0x69, 0]"

definition NtOpenFile :: "(u32 \<Rightarrow> 'd int2e) \<Rightarrow> u32 \<Rightarrow> addr \<Rightarrow> 'd kernel \<Rightarrow> (u32 \<times> 'd kernel) option" where
  "NtOpenFile int2e ebx ObjectAttributes k = int2e ObjectAttributes 0x004f ebx k"

definition open_program :: "(u32 \<Rightarrow> 'd int2e) \<Rightarrow> u32 \<Rightarrow> open_frame \<Rightarrow> 'd kernel \<Rightarrow> 'd kernel option" where
  "open_program int2e ebx f k = do {
     let m = write_bytes (kmem k) (o_fnamebuf f) fnamebuf_text;
     m \<leftarrow> RtlCreateUnicodeStringFromAsciiz m (o_fname_struct f) (o_fnamebuf f);
     let m = write32 m (o_objAttrs f + 8) (o_fname_struct f);
     (syscallResult, k) \<leftarrow> int2e (o_objAttrs f) 0x004f ebx (k\<lparr>kmem := m\<rparr>);
     (r, k) \<leftarrow> NtOpenFile int2e ebx (o_objAttrs f) k;
     (r, k) \<leftarrow> NtDisplayString (int2e (o_objAttrs f)) (o_fname_struct f) k;
     if syscallResult = 0
     then RtlCliDisplayString (int2e (o_objAttrs f)) (o_stri f) (o_exists f) k
     else RtlCliDisplayString (int2e (o_objAttrs f)) (o_stri f) (o_missing f) k
   }"

text \<open>\<^verbatim>\<open>shut.c\<close>: the number is not the one \<open>shutdown\<close> uses. The first result is what \<open>printf\<close> writes.\<close>

definition ok_text :: "byte list" where
  "ok_text = [0x4F, 0x4B, 0xA]"

definition failed_text :: "byte list" where
  "failed_text = [0x46, 0x41, 0x49, 0x4C, 0x45, 0x44, 0x3A, 0x20]"

definition shut_main :: "'d int2e \<Rightarrow> 'd kernel \<Rightarrow> (byte list \<times> 'd kernel) option" where
  "shut_main int2e k = do {
     (status, k) \<leftarrow> int2e 0x0030 2 k;
     if status = 0 then Some (ok_text, k) else Some (failed_text @ decimal_text (sint status) @ [0xA], k)
   }"

section \<open>What they do\<close>

text \<open>\<open>shutdown\<close> and \<open>reboot\<close>, through the system call, write the one value to the port that
  switches the machine off or resets it, and change nothing else.\<close>

theorem shutdown_reaches_port:
  "shutdown (interrupt s edx) k = Some (left_in_eax s 0, k\<lparr>kdev := outw (s_io s) 0x604 0x2000 (kdev k)\<rparr>) \<and>
   reboot (interrupt s edx) k = Some (left_in_eax s 0, k\<lparr>kdev := outb (s_io s) 0x64 0xFE (kdev k)\<rparr>)"
  unfolding shutdown_def reboot_def interrupt_def numeral_2_eq_2 int2eh.simps
  by (simp add: syscall_dispatcher_def NtShutdownSystemSyscall_def status_defs)


text \<open>The console's program asks for a service the kernel does not have: a message is drawn, the machine
  stays on, and the program reports what the interrupt left in \<open>eax\<close>.\<close>

lemma shut_main_reports:
  assumes "cstr (kmem k) (lit_bad_syscall s) t" "room (kcon k) H (global_cursor_x (kcon k)) (global_cursor_y (kcon k)) (length t)"
    and "\<And>i. i \<le> length t \<Longrightarrow> \<not> on_frame (kcon k) H (lit_bad_syscall s + word_of_nat i)"
    and "left_in_eax s 0xC000001C = 0xC000001C"
  shows "\<exists>k'. shut_main (interrupt s edx) k = Some (failed_text @ decimal_text (- 1073741796) @ [0xA], k') \<and> kdev k' = kdev k \<and>
    (\<forall>a. \<not> on_frame (kcon k) H a \<longrightarrow> kmem k' a = kmem k a)"
proof -
  obtain k' where k': "kPrint (lit_bad_syscall s) k = Some k'" "kdev k' = kdev k" "\<forall>a. \<not> on_frame (kcon k) H a \<longrightarrow> kmem k' a = kmem k a"
    using kPrint_moves [OF assms(1-3)] by blast
  have "interrupt s edx 0x30 2 k = Some (0xC000001C, k')"
    unfolding interrupt_def numeral_2_eq_2 int2eh.simps using k'(1) assms(4)
    by (simp add: syscall_dispatcher_def STATUS_INVALID_SYSTEM_SERVICE_def)
  then show ?thesis using k'(2,3) by (simp add: shut_main_def)
qed

text \<open>Storing numbers one after the other.\<close>

definition store_numbers :: "(u32 \<times> addr) list \<Rightarrow> mem \<Rightarrow> mem" where
  "store_numbers = fold (\<lambda>(v, p). RtlCreateStringFromUint v p)"

lemma store_numbers_outside:
  "(\<And>v p. (v, p) \<in> set vs \<Longrightarrow> \<not> in_range p 11 a) \<Longrightarrow> store_numbers vs m a = m a"
proof (induction vs arbitrary: m)
  case (Cons x vs)
  obtain v p where x: "x = (v, p)" by force
  have "length (numeral_text (unat v)) \<le> 10" using length_numeral_text [of "unat v" 10] unat_u32 [of v] by simp
  then have "\<not> in_range p (length (numeral_text (unat v)) + 1) a" using Cons.prems [of v p] x by (simp add: in_range_def)
  then have "RtlCreateStringFromUint v p m a = m a" by (rule RtlCreateStringFromUint_outside)
  moreover have "store_numbers vs (RtlCreateStringFromUint v p m) a = RtlCreateStringFromUint v p m a"
    by (rule Cons.IH) (use Cons.prems in auto)
  ultimately show ?case by (simp add: x store_numbers_def)
qed (simp add: store_numbers_def)

text \<open>Strings stored in buffers of 11 bytes that do not overlap are all there at the end.\<close>

lemma store_numbers_hold:
  assumes "sorted_wrt (\<lambda>x y. apart (snd x) 11 (snd y) 11) vs" "(v, p) \<in> set vs"
  shows "cstr (store_numbers vs m) p (numeral_text (unat v))"
  using assms
proof (induction vs arbitrary: m)
  case (Cons x vs)
  show ?case
  proof (cases "(v, p) \<in> set vs")
    case True
    then show ?thesis using Cons.IH Cons.prems(1) by (simp add: store_numbers_def)
  next
    case False
    let ?t = "numeral_text (unat v)"
    have x: "x = (v, p)" and apart: "\<And>y. y \<in> set vs \<Longrightarrow> apart p 11 (snd y) 11" using False Cons.prems by auto
    have "length ?t \<le> 10" using length_numeral_text [of "unat v" 10] unat_u32 [of v] by simp
    then have "store_numbers vs (RtlCreateStringFromUint v p m) (p + word_of_nat i) = RtlCreateStringFromUint v p m (p + word_of_nat i)"
      if "i \<le> length ?t" for i
      using that apart_notin [OF apart, of _ i] by (intro store_numbers_outside) fastforce
    then have "cstr (store_numbers vs (RtlCreateStringFromUint v p m)) p ?t"
      by (rule cstr_cong [OF RtlCreateStringFromUint_cstr])
    then show ?thesis by (simp add: x store_numbers_def)
  qed
qed simp

text \<open>What \<open>librever\<close> needs of its frame: the literals are terminated texts and the buffers overlap
  neither each other nor the literals nor what the display writes.\<close>

definition librever_numbers :: "librever_frame \<Rightarrow> (u32 \<times> addr) list" where
  "librever_numbers f =
     [(0, szMajorVersion f), (3, szMiddleVersion f), (0, szMinorVersion f), (3, szBeta f), (5414, szBuild f)]"

definition librever_literals :: "librever_frame \<Rightarrow> byte list list \<Rightarrow> (addr \<times> byte list) list" where
  "librever_literals f ts = zip [v_title f, v_dot f, v_beta f, v_build f, v_close f] ts"

definition librever_fits :: "'d system \<Rightarrow> nat \<Rightarrow> librever_frame \<Rightarrow> byte list list \<Rightarrow> 'd kernel \<Rightarrow> bool" where
  "librever_fits s H f ts k \<longleftrightarrow>
     sorted_wrt (\<lambda>x y. apart (snd x) 11 (snd y) 11) (librever_numbers f) \<and>
     list_all (\<lambda>(p, t). literal s H k p t \<and> list_all (\<lambda>(v, q). apart p (length t + 1) q 11) (librever_numbers f))
       (librever_literals f ts) \<and>
     (\<forall>(v, q) \<in> set (librever_numbers f). \<forall>i<11. \<not> scratch s H k (q + word_of_nat i))"

definition librever_text :: "byte list \<Rightarrow> byte list \<Rightarrow> byte list \<Rightarrow> byte list \<Rightarrow> byte list \<Rightarrow> byte list list" where
  "librever_text title dot beta build closing =
     [title, [0x30], dot, [0x33], dot, [0x30], beta, [0x33], build, [0x35, 0x34, 0x31, 0x34], closing]"

lemma librever_numerals:
  "numeral_text 0 = [0x30]" "numeral_text 3 = [0x33]" "numeral_text 5414 = [0x35, 0x34, 0x31, 0x34]"
  by (simp_all add: numeral_text.simps)

lemma numeral_text_plain: "0x25 \<notin> set (numeral_text n)"
proof (induction n rule: numeral_text.induct)
  case (1 n)
  have "(0x25 :: byte) \<noteq> word_of_nat (48 + d)" if "d < 10" for d
  proof -
    have "d \<in> {0, 1, 2, 3, 4, 5, 6, 7, 8, 9}" using that by auto
    then show ?thesis by auto
  qed
  then show ?case using 1 by (cases "n < 10") (simp_all add: numeral_text_small numeral_text_large)
qed

lemma librever_holds:
  assumes "librever_fits s H f [title, dot, beta, build, closing] k"
  defines "k1 \<equiv> k\<lparr>kmem := store_numbers (librever_numbers f) (kmem k)\<rparr>"
  shows "list_all2 (literal s H k1)
    [v_title f, szMajorVersion f, v_dot f, szMiddleVersion f, v_dot f, szMinorVersion f, v_beta f, szBeta f,
     v_build f, szBuild f, v_close f] (librever_text title dot beta build closing)"
proof -
  have scratch: "scratch s H k1 = scratch s H k" by (simp add: k1_def scratch_def fun_eq_iff)
  have literal: "literal s H k1 p t" if "(p, t) \<in> set (librever_literals f [title, dot, beta, build, closing])" for p t
  proof -
    have "literal s H k p t" and away: "\<And>v q. (v, q) \<in> set (librever_numbers f) \<Longrightarrow> apart p (length t + 1) q 11"
      using that assms(1) by (auto simp: librever_fits_def list_all_iff)
    moreover have "kmem k1 (p + word_of_nat i) = kmem k (p + word_of_nat i)" if "i \<le> length t" for i
      using that apart_notin [OF away, of _ _ i] by (simp add: k1_def) (intro store_numbers_outside, fastforce)
    ultimately show ?thesis using cstr_cong [of "kmem k" p t "kmem k1"] by (simp add: literal_def scratch)
  qed
  have number: "literal s H k1 p (numeral_text (unat v))" if "(v, p) \<in> set (librever_numbers f)" for v p
  proof -
    have "length (numeral_text (unat v)) \<le> 10" using length_numeral_text [of "unat v" 10] unat_u32 [of v] by simp
    moreover have "cstr (kmem k1) p (numeral_text (unat v))"
      using that assms(1) by (simp add: k1_def librever_fits_def store_numbers_hold)
    ultimately show ?thesis
      using that assms(1) numeral_text_plain by (auto simp: literal_def scratch librever_fits_def)
  qed
  show ?thesis
    using literal number [of 0 "szMajorVersion f"] number [of 3 "szMiddleVersion f"] number [of 0 "szMinorVersion f"]
      number [of 3 "szBeta f"] number [of 5414 "szBuild f"]
    by (simp add: librever_text_def librever_literals_def librever_numbers_def librever_numerals)
qed

lemma librever_same_view:
  assumes "librever_fits s H f ts k"
  shows "view (kterm k) (store_numbers (librever_numbers f) (kmem k)) = view (kterm k) (kmem k)"
proof (intro view_same store_numbers_outside notI)
  fix a v q assume "in_range (video_mem (kterm k)) 3200 a" "(v, q) \<in> set (librever_numbers f)" "in_range q 11 a"
  then show False using assms in_range_ex [of q 11 a] by (force simp: librever_fits_def scratch_def)
qed

text \<open>C16: \<open>librever\<close> shows its version line, with the numbers 0, 3, 0, 3 and 5414 as decimal text between
  the literals, on the screen and on the serial line.\<close>

theorem librever_shows:
  assumes "librever_fits (at_local (v_stri f) s) H f [title, dot, beta, build, closing] k"
    and "ready (at_local (v_stri f) s) H (length (concat (librever_text title dot beta build closing))) k"
    and "uart_serves (s_io s) busy sent"
  shows "\<exists>k'. librever (interrupt s edx) f k = Some k' \<and>
    displayed sent k' =
      show_text (unat (screen_w (kcon k))) (concat (librever_text title dot beta build closing)) (displayed sent k)"
proof -
  let ?k = "k\<lparr>kmem := store_numbers (librever_numbers f) (kmem k)\<rparr>"
  let ?show = "\<lambda>p. RtlCliDisplayString (interrupt s edx) (v_stri f) p"
  let ?ps = "[v_title f, szMajorVersion f, v_dot f, szMiddleVersion f, v_dot f, szMinorVersion f, v_beta f, szBeta f,
       v_build f, szBuild f, v_close f]"
  have run: "librever (interrupt s edx) f k = print_each ?show ?ps ?k"
    by (simp add: librever_def store_numbers_def librever_numbers_def Let_def)
  have "ready (at_local (v_stri f) s) H (length (concat (librever_text title dot beta build closing))) ?k"
    using assms(2) by (simp add: ready_def)
  then have "\<exists>k'. print_each ?show ?ps ?k = Some k' \<and>
      shows_text (at_local (v_stri f) s) H sent (concat (librever_text title dot beta build closing)) ?k k' \<and>
      ready (at_local (v_stri f) s) H 0 k' \<and> uart_serves (s_io s) busy sent"
    using assms(3) by (intro program_text.print_each_texts [OF librever_holds [OF assms(1)]]) simp
  then obtain k' where "librever (interrupt s edx) f k = Some k'"
    "shows_text (at_local (v_stri f) s) H sent (concat (librever_text title dot beta build closing)) ?k k'"
    unfolding run [symmetric] by blast
  moreover have "displayed sent ?k = displayed sent k"
    using librever_same_view [OF assms(1)] by (simp add: displayed_def)
  ultimately show ?thesis by (auto simp: shows_text_def)
qed

definition example_librever :: librever_frame where
  "example_librever = \<lparr>v_stri = 0x6000, v_title = 0x4020, v_dot = 0x4020, v_beta = 0x4020, v_build = 0x4020,
     v_close = 0x4020, szMajorVersion = 0x5000, szMiddleVersion = 0x5100, szMinorVersion = 0x5200, szBeta = 0x5300,
     szBuild = 0x5400\<rparr>"

lemma example_librever_fits:
  "librever_fits example_system 480 example_librever [[10], [10], [10], [10], [10]] example_kernel"
proof -
  have low: "apart (word_of_nat p) n (word_of_nat q) n'" if "p + n \<le> q" "q + n' < 2 ^ 32" for p q n n'
    using low_apart [OF that] .
  have "literal example_system 480 example_kernel 0x4020 [10]"
    using example_literal [of "0x4020" "[10]"] by (simp add: example_strings_mem_def)
  moreover have "\<not> scratch example_system 480 example_kernel (q + word_of_nat i)"
    if "q \<in> {0x5000, 0x5100, 0x5200, 0x5300, 0x5400}" "i < 11" for q i
    using that example_low [of "unat q + i"] by auto
  ultimately show ?thesis
    using low [of "0x4020" "Suc (Suc 0)" "0x5000" 11] low [of "0x4020" "Suc (Suc 0)" "0x5100" 11] low [of "0x4020" "Suc (Suc 0)" "0x5200" 11]
      low [of "0x4020" "Suc (Suc 0)" "0x5300" 11] low [of "0x4020" "Suc (Suc 0)" "0x5400" 11] low [of "0x5000" 11 "0x5100" 11]
      low [of "0x5000" 11 "0x5200" 11] low [of "0x5000" 11 "0x5300" 11] low [of "0x5000" 11 "0x5400" 11]
      low [of "0x5100" 11 "0x5200" 11] low [of "0x5100" 11 "0x5300" 11] low [of "0x5100" 11 "0x5400" 11]
      low [of "0x5200" 11 "0x5300" 11] low [of "0x5200" 11 "0x5400" 11] low [of "0x5300" 11 "0x5400" 11]
    by (simp add: librever_fits_def librever_literals_def librever_numbers_def example_librever_def)
qed

theorem librever_shows_witness:
  "\<exists>k'. librever (interrupt example_system 0) example_librever example_kernel = Some k' \<and>
    snd (kdev k') = [10, 0x30, 10, 0x33, 10, 0x30, 10, 0x33, 10, 0x35, 0x34, 0x31, 0x34, 10]"
proof -
  have "at_local (v_stri example_librever) example_system = example_system"
    by (simp add: example_librever_def example_system_def)
  moreover have "ready example_system 480 (length (concat (librever_text [10] [10] [10] [10] [10]))) example_kernel"
    by (rule example_ready) (simp add: librever_text_def)
  ultimately obtain k' where "librever (interrupt example_system 0) example_librever example_kernel = Some k'"
    "displayed snd k' = show_text (unat (screen_w (kcon example_kernel))) (concat (librever_text [10] [10] [10] [10] [10]))
       (displayed snd example_kernel)"
    using librever_shows [of example_librever example_system 480 "[10]" "[10]" "[10]" "[10]" "[10]" example_kernel fst snd 0]
      example_librever_fits example_uart by auto
  then show ?thesis by (simp add: displayed_def show_text_def example_kernel_def librever_text_def)
qed

end
