(* ===== verification/Shell.thy ===== *)
theory Shell
  imports Syscalls
begin

text \<open>
  The shell of \<^verbatim>\<open>init/kernel.c\<close>, \<open>KiUserInit\<close>: its start, and one round of its endless loop. Between two
  rounds the keyboard interrupt may come; a step of the system is one or the other. The end of
  the theory follows a line from the return key to the displays.
\<close>

section \<open>Operations\<close>

text \<open>\<open>fb\<close> is the address of the screen, which \<open>kernel_main\<close> sets to 0xFD000000.\<close>

definition refresh :: "addr \<Rightarrow> 'd kernel \<Rightarrow> 'd kernel" where
  "refresh fb k = k\<lparr>kmem := memcpy (kmem k) fb (frame_buffer (kcon k)) (screen_bytes (kcon k))\<rparr>"

definition KiUserInit_start :: "'d system \<Rightarrow> u32 \<Rightarrow> 'd kernel \<Rightarrow> 'd kernel option" where
  "KiUserInit_start s edx k = do {
     let k = k\<lparr>kmem := memset (kmem k) (frame_buffer (kcon k)) 0 (screen_bytes (kcon k))\<rparr>;
     let k = k\<lparr>kmem := FillRectangle (kcon k) (kmem k) 0 0 (screen_w (kcon k)) (screen_h (kcon k)) 0xFF0000FF
                         (frame_buffer (kcon k))\<rparr>;
     k \<leftarrow> PrintString s (interrupt s edx) (at_copyright s) k;
     k \<leftarrow> PrintString s (interrupt s edx) (lit_banner s) k;
     PrintString s (interrupt s edx) (lit_prompt s) k
   }"

definition KiUserInit_turn :: "'d system \<Rightarrow> u32 \<Rightarrow> addr \<Rightarrow> 'd kernel \<Rightarrow> 'd kernel option" where
  "KiUserInit_turn s edx fb k = do {
     k \<leftarrow>
       (if exec (kkb k) \<noteq> 0
        then do {
          bat \<leftarrow> IsBatFile (lit_bat s) (kmem k) (ex_buffer (kkb k));
          if bat then NsExec s (interrupt s edx) (ex_buffer (kkb k)) True k
          else NsExec s (interrupt s edx) (ex_buffer (kkb k)) False k
        }
        else Some k);
     Some (refresh fb k)
   }"

definition key_interrupt :: "'d system \<Rightarrow> (nat \<Rightarrow> byte) \<Rightarrow> 'd kernel \<Rightarrow> 'd kernel option" where
  "key_interrupt s beyond k = do {
     (kb, con, m, d) \<leftarrow> int21h_handler beyond (s_io s) (kkb k) (kcon k) (kmem k) (kdev k);
     Some (k\<lparr>kkb := kb, kcon := con, kmem := m, kdev := d\<rparr>)
   }"

section \<open>The shell as a state machine\<close>

inductive shell_step :: "'d system \<Rightarrow> (nat \<Rightarrow> byte) \<Rightarrow> u32 \<Rightarrow> addr \<Rightarrow> 'd kernel \<Rightarrow> 'd kernel \<Rightarrow> bool"
  for s beyond edx fb where
  key: "key_interrupt s beyond k = Some k' \<Longrightarrow> shell_step s beyond edx fb k k'"
| turn: "KiUserInit_turn s edx fb k = Some k' \<Longrightarrow> shell_step s beyond edx fb k k'"

inductive_simps shell_step_iff: "shell_step s beyond edx fb k k'"

inductive shell_runs :: "'d system \<Rightarrow> (nat \<Rightarrow> byte) \<Rightarrow> u32 \<Rightarrow> addr \<Rightarrow> 'd kernel \<Rightarrow> 'd kernel \<Rightarrow> bool"
  for s beyond edx fb k0 where
  start: "shell_runs s beyond edx fb k0 k0"
| step: "shell_runs s beyond edx fb k0 k \<Longrightarrow> shell_step s beyond edx fb k k' \<Longrightarrow> shell_runs s beyond edx fb k0 k'"

section \<open>What a round leaves of the typed line\<close>

text \<open>The line being typed: nothing but the keyboard interrupt changes it, provided the programs
  that are run do not.\<close>

definition same_line :: "'d kernel \<Rightarrow> 'd kernel \<Rightarrow> bool" where
  "same_line k k' \<longleftrightarrow> input_buffer (kkb k') = input_buffer (kkb k) \<and> ex_buffer (kkb k') = ex_buffer (kkb k) \<and>
     input_pos (kkb k') = input_pos (kkb k)"

definition programs_behave :: "'d system \<Rightarrow> bool" where
  "programs_behave s \<longleftrightarrow> (\<forall>entry k k'. s_run s entry k = Some k' \<longrightarrow> same_line k k')"

definition keeps_line :: "('d kernel \<Rightarrow> ('r \<times> 'd kernel) option) \<Rightarrow> bool" where
  "keeps_line f \<longleftrightarrow> (\<forall>k r k'. f k = Some (r, k') \<longrightarrow> same_line k k')"

lemma same_line_refl [simp]: "same_line k k"
  by (simp add: same_line_def)

lemma same_line_trans [trans]: "same_line k k' \<Longrightarrow> same_line k' k'' \<Longrightarrow> same_line k k''"
  by (simp add: same_line_def)

lemma same_line_upd [simp]:
  "same_line k (k'\<lparr>kmem := m\<rparr>) = same_line k k'" "same_line k (k'\<lparr>kcon := c\<rparr>) = same_line k k'"
  "same_line k (k'\<lparr>kterm := t\<rparr>) = same_line k k'" "same_line k (k'\<lparr>kdev := d\<rparr>) = same_line k k'"
  "same_line k (k'\<lparr>ktok := p\<rparr>) = same_line k k'" "same_line (k\<lparr>kmem := m\<rparr>) k' = same_line k k'"
  "same_line (k\<lparr>kdev := d\<rparr>) k' = same_line k k'" "same_line (k\<lparr>ktok := p\<rparr>) k' = same_line k k'"
  "same_line (k\<lparr>kterm := t\<rparr>) k' = same_line k k'" "same_line k (clear_exec k') = same_line k k'"
  by (simp_all add: same_line_def clear_exec_def)

lemma output_same_line:
  "kPrint p k = Some k' \<Longrightarrow> same_line k k'" "kprint p k = Some k' \<Longrightarrow> same_line k k'"
  "kDbgPrint io p args k = Some k' \<Longrightarrow> same_line k k'"
  by (auto simp: kPrint_def kprint_def kDbgPrint_def bind_eq_Some_conv split: prod.splits)

lemma service_same_line:
  "NtDisplayStringSyscall s a k = Some (r, k') \<Longrightarrow> same_line k k'"
  "NtOpenFileSyscall s h da oa io sh oo k = Some (r, k') \<Longrightarrow> same_line k k'"
  "PrintStatus s v k = Some k' \<Longrightarrow> same_line k k'"
  by (auto simp: NtDisplayStringSyscall_def NtOpenFileSyscall_def PrintStatus_def Let_def bind_eq_Some_conv
      dest!: output_same_line intro: same_line_trans split: prod.splits)

lemma syscall_dispatcher_same_line:
  assumes "\<And>path. keeps_line (exec_bat path)"
  shows "syscall_dispatcher s exec_bat number a b k = Some (r, k') \<Longrightarrow> same_line k k'"
  using assms
  by (auto simp: syscall_dispatcher_def keeps_line_def bind_eq_Some_conv Let_def
      dest!: output_same_line service_same_line intro: same_line_trans split: if_splits prod.splits)

text \<open>The same for the shell over an interrupt that keeps the line.\<close>

lemma shell_same_line:
  assumes int2e: "\<And>number ebx. keeps_line (int2e number ebx)" and run: "programs_behave s"
  shows "PrintString s int2e p k = Some k' \<Longrightarrow> same_line k k'"
    and "not_recognized s int2e p k = Some k' \<Longrightarrow> same_line k k'"
    and "run_program s int2e p isBat k = Some k' \<Longrightarrow> same_line k k'"
    and "NsExec s int2e p isBat k = Some k' \<Longrightarrow> same_line k k'"
proof -
  have keep: "int2e number ebx k = Some (r, k') \<Longrightarrow> same_line k k'" for number ebx k r k'
    using int2e unfolding keeps_line_def by blast
  have prog: "s_run s entry k = Some k' \<Longrightarrow> same_line k k'" for entry k k'
    using run unfolding programs_behave_def by blast
  have print: "PrintString s int2e p k = Some k' \<Longrightarrow> same_line k k'" for p k k'
    by (auto simp: PrintString_def bind_eq_Some_conv dest!: keep)
  have unknown: "not_recognized s int2e p k = Some k' \<Longrightarrow> same_line k k'" for p k k'
    by (auto simp: not_recognized_def bind_eq_Some_conv dest!: print intro: same_line_trans)
  have program: "run_program s int2e p isBat k = Some k' \<Longrightarrow> same_line k k'" for p k k'
    by (auto simp: run_program_def bind_eq_Some_conv dest!: keep prog unknown intro: same_line_trans split: if_splits)
  have command: "ns_command s int2e p isBat k = Some k' \<Longrightarrow> same_line k k'" for p k k'
    by (auto simp: ns_command_def bind_eq_Some_conv Let_def dest!: print program intro: same_line_trans split: if_splits)
  show "PrintString s int2e p k = Some k' \<Longrightarrow> same_line k k'" "not_recognized s int2e p k = Some k' \<Longrightarrow> same_line k k'"
    "run_program s int2e p isBat k = Some k' \<Longrightarrow> same_line k k'"
    using print unknown program by blast+
  show "NsExec s int2e p isBat k = Some k' \<Longrightarrow> same_line k k'"
    by (auto simp: NsExec_def bind_eq_Some_conv dest!: command print intro: same_line_trans)
qed

lemma bat_lines_same_line:
  assumes "bat_lines s ns_exec line k = Some k'" "\<And>line k k'. ns_exec line k = Some k' \<Longrightarrow> same_line k k'"
  shows "same_line k k'"
proof -
  have "(\<forall>line k k'. ns_exec line k = Some k' \<longrightarrow> same_line k k') \<longrightarrow> same_line k k'"
  proof (rule bat_lines.raw_induct [where P = "\<lambda>s f line k k'. (\<forall>line k k'. f line k = Some k' \<longrightarrow> same_line k k') \<longrightarrow> same_line k k'",
        OF _ assms(1)])
    fix rec s f line k k'
    assume IH: "\<And>s f line k k'. rec s f line k = Some k' \<Longrightarrow> (\<forall>line k k'. f line k = Some k' \<longrightarrow> same_line k k') \<longrightarrow> same_line k k'"
      and run: "(if line = 0 then Some k
        else do {
          line \<leftarrow> skip_spaces (kmem k) line;
          k \<leftarrow> (if kmem k line \<noteq> 0 then f line k else Some k);
          (line, tok, m) \<leftarrow> strtok (kmem k) (ktok k) 0 (lit_delim (s_frame s));
          rec s f line (k\<lparr>ktok := tok, kmem := m\<rparr>)
        }) = Some k'"
    show "(\<forall>line k k'. f line k = Some k' \<longrightarrow> same_line k k') \<longrightarrow> same_line k k'"
    proof
      assume f: "\<forall>line k k'. f line k = Some k' \<longrightarrow> same_line k k'"
      show "same_line k k'"
      proof (cases "line = 0")
        case False
        then obtain l k1 l' tok m where "(if kmem k l \<noteq> 0 then f l k else Some k) = Some k1"
          "rec s f l' (k1\<lparr>ktok := tok, kmem := m\<rparr>) = Some k'"
          using run by (auto simp: bind_eq_Some_conv)
        then have "same_line k k1" "same_line k1 k'"
          using f IH [of s f l' "k1\<lparr>ktok := tok, kmem := m\<rparr>" k'] by (auto split: if_splits)
        then show ?thesis by (rule same_line_trans)
      qed (use run in simp)
    qed
  qed
  then show ?thesis using assms(2) by blast
qed

lemma LdrExecBat_same_line:
  assumes "\<And>line k k'. ns_exec line False k = Some k' \<Longrightarrow> same_line k k'"
  shows "keeps_line (LdrExecBat s ns_exec path)"
  unfolding keeps_line_def LdrExecBat_def Let_def
  by (auto simp: bind_eq_Some_conv dest!: output_same_line bat_lines_same_line [OF _ assms] split: if_splits)
    (meson same_line_trans)+

lemma int2eh_same_line: "programs_behave s \<Longrightarrow> keeps_line (int2eh n s number ebx edx)"
proof (induction n arbitrary: number ebx)
  case (Suc n)
  have "keeps_line (LdrExecBat s (NsExec s (\<lambda>number ebx. int2eh n s number ebx edx)) path)" for path
    by (rule LdrExecBat_same_line, rule shell_same_line(4)) (use Suc in auto)
  note dispatch = syscall_dispatcher_same_line [of "LdrExecBat s (NsExec s (\<lambda>number ebx. int2eh n s number ebx edx))", OF this]
  show ?case by (auto simp: keeps_line_def bind_eq_Some_conv dest!: dispatch)
qed (simp add: keeps_line_def)

lemma KiUserInit_turn_same_line: "programs_behave s \<Longrightarrow> KiUserInit_turn s edx fb k = Some k' \<Longrightarrow> same_line k k'"
proof -
  assume run: "programs_behave s" and turn: "KiUserInit_turn s edx fb k = Some k'"
  have "keeps_line (interrupt s edx number ebx)" for number ebx
    using int2eh_same_line [OF run, of 2 number ebx edx] by (simp add: keeps_line_def interrupt_def)
  note exec = shell_same_line(4) [of "interrupt s edx", OF this run]
  show ?thesis using turn
    by (auto simp: KiUserInit_turn_def refresh_def bind_eq_Some_conv dest!: exec split: if_splits)
qed

section \<open>From the return key to the displays\<close>

definition bat_suffix :: "byte list" where "bat_suffix = [0x2E, 0x62, 0x61, 0x74]"

text \<open>The two buffers of the keyboard, and the strings of the shell clear of them.\<close>

definition typing_area :: "'d kernel \<Rightarrow> addr \<Rightarrow> bool" where
  "typing_area k a \<longleftrightarrow> in_range (input_buffer (kkb k)) 256 a \<or> in_range (ex_buffer (kkb k)) 256 a"

definition strings_clear :: "'d system \<Rightarrow> 'd kernel \<Rightarrow> byte list \<Rightarrow> bool" where
  "strings_clear s k help \<longleftrightarrow>
     (\<forall>(p, t) \<in> {(lit_cls s, cls_cmd), (lit_help s, help_cmd), (lit_newline s, [10]), (at_HelpMsg s, help),
       (lit_prompt s, prompt_text), (lit_bat s, bat_suffix)}. \<forall>i\<le>length t. \<not> typing_area k (p + word_of_nat i))"

text \<open>The interrupt for the return key: the line goes to the shell.\<close>

lemma write_bytes_outside: "length bs \<le> n \<Longrightarrow> n \<le> 2 ^ 32 \<Longrightarrow> \<not> in_range p n a \<Longrightarrow> write_bytes m p bs a = m a"
  by (rule write_bytes_other) (auto simp: in_range_def)

lemma key_interrupt_return:
  assumes "holds (kkb k) (kmem k) line" "apart (ex_buffer (kkb k)) 256 (input_buffer (kkb k)) 256"
    and "insb (s_io s) 0x60 (kdev k) = (scancode, d)" "kb_at beyond scancode = 10"
  shows "\<exists>k'. key_interrupt s beyond k = Some k' \<and> exec (kkb k') = 1 \<and> cstr (kmem k') (ex_buffer (kkb k)) line \<and>
    (\<forall>a. \<not> typing_area k a \<longrightarrow> kmem k' a = kmem k a) \<and> kcon k' = kcon k \<and> kterm k' = kterm k \<and>
    kdev k' = outb (s_io s) 0x20 0x20 d \<and> ex_buffer (kkb k') = ex_buffer (kkb k)"
proof -
  let ?kb = "kkb k" let ?m = "(kmem k)(input_buffer ?kb + input_pos ?kb := 0)"
  have line: "length line \<le> 255" "0 \<notin> set line" "input_pos ?kb = word_of_nat (length line)"
    using assms(1) holds_pos [OF assms(1)] by (simp_all add: holds_def)
  have run: "key_interrupt s beyond k = Some (k\<lparr>kkb := ?kb\<lparr>exec := 1, input_pos := 0\<rparr>,
      kmem := write_bytes ?m (ex_buffer ?kb) (line @ [0]), kdev := outb (s_io s) 0x20 0x20 d\<rparr>)"
    using assms(3,4) SetExecBuffer_writes [OF assms(1,2)] by (simp add: key_interrupt_def int21h_handler_def)
  have "write_bytes ?m (ex_buffer ?kb) (line @ [0]) a = kmem k a" if "\<not> typing_area k a" for a
  proof -
    have "a \<noteq> input_buffer ?kb + input_pos ?kb"
      using that line(1,3) in_range_offset [of 256 "length line" "input_buffer ?kb"] by (auto simp: typing_area_def)
    moreover have "write_bytes ?m (ex_buffer ?kb) (line @ [0]) a = ?m a"
      using that line(1) by (intro write_bytes_outside [of _ 256]) (simp_all add: typing_area_def)
    ultimately show ?thesis by simp
  qed
  then show ?thesis using run line(1,2) by (simp add: cstr_write_bytes)
qed

text \<open>What a round of the shell does with it.\<close>

lemma screen_of_frame:
  assumes "apart fb (unat (screen_bytes con)) (frame_buffer con) (unat (screen_bytes con))"
  shows "memcpy m fb (frame_buffer con) (screen_bytes con) a =
    (if in_range fb (unat (screen_bytes con)) a then m (frame_buffer con + (a - fb)) else m a)"
  using apartD [OF assms] by (intro memcpy_apply) (metis less_trans)

lemma refresh_displayed:
  assumes "\<And>a. in_range (video_mem (kterm k)) 3200 a \<Longrightarrow> \<not> in_range fb (unat (screen_bytes (kcon k))) a"
    and "apart fb (unat (screen_bytes (kcon k))) (frame_buffer (kcon k)) (unat (screen_bytes (kcon k)))"
  shows "displayed sent (refresh fb k) = displayed sent k"
    and "\<forall>i<unat (screen_bytes (kcon k)). kmem (refresh fb k) (fb + word_of_nat i) = kmem k (frame_buffer (kcon k) + word_of_nat i)"
    and "kkb (refresh fb k) = kkb k"
proof -
  note copy = screen_of_frame [OF assms(2), of "kmem k"]
  show "displayed sent (refresh fb k) = displayed sent k"
    using assms(1) by (simp add: displayed_def refresh_def, intro view_same) (simp add: copy)
  show "\<forall>i<unat (screen_bytes (kcon k)). kmem (refresh fb k) (fb + word_of_nat i) = kmem k (frame_buffer (kcon k) + word_of_nat i)"
    using unat_u32 [of "screen_bytes (kcon k)"] by (simp add: refresh_def copy in_range_offset)
  show "kkb (refresh fb k) = kkb k" by (simp add: refresh_def)
qed

lemma strings_survive:
  assumes "shell_strings s H k help" "strings_clear s k help" "cstr (kmem k) (lit_bat s) bat_suffix"
    and "\<forall>a. \<not> typing_area k a \<longrightarrow> kmem k' a = kmem k a" "kcon k' = kcon k" "kterm k' = kterm k"
  shows "shell_strings s H k' help" "cstr (kmem k') (lit_bat s) bat_suffix"
proof -
  have keep: "cstr (kmem k') p t" if "cstr (kmem k) p t" "\<forall>i\<le>length t. \<not> typing_area k (p + word_of_nat i)" for p t
    using that assms(4) by (intro cstr_cong [OF that(1)]) simp
  have "scratch s H k' = scratch s H k" using assms(5,6) by (simp add: scratch_def fun_eq_iff)
  then show "shell_strings s H k' help"
    using assms(1,2) keep keep [of "lit_newline s" "[10]"] by (simp add: shell_strings_def literal_def strings_clear_def)
  show "cstr (kmem k') (lit_bat s) bat_suffix" using assms(2,3) keep by (simp add: strings_clear_def)
qed

section \<open>Properties\<close>


text \<open>The return key on an empty line: the machine of the example, whose keyboard port gives 0x1C.\<close>

definition return_machine :: "(nat \<times> byte list) ports" where
  "return_machine = example_machine\<lparr>insb := (\<lambda>port (n, s). if port = 0x3FD then (if n = 0 then 0x20 else 0, n - 1, s) else (0x1C, n, s))\<rparr>"

definition return_system :: "(nat \<times> byte list) system" where
  "return_system = example_system\<lparr>s_env := (s_env example_system)\<lparr>ports_of := return_machine\<rparr>\<rparr>"

definition empty_line :: "(nat \<times> byte list) kernel" where
  "empty_line = example_kernel\<lparr>kkb := example_keyboard\<lparr>input_pos := 0\<rparr>\<rparr>"

lemma return_system_fields:
  "shell_strings return_system 480 empty_line [0x3F, 10]" "n \<le> 16 \<Longrightarrow> ready return_system 480 n empty_line"
  "uart_serves (s_io return_system) fst snd" "cstr (kmem empty_line) (lit_bat return_system) bat_suffix"
  using example_shell_strings example_ready [of n]
  by (simp_all add: return_system_def empty_line_def shell_strings_def literal_def scratch_def ready_def)
    (auto simp: uart_serves_def return_machine_def example_machine_def bat_suffix_def example_system_def example_kernel_def
      example_strings_mem_def)

lemma empty_line_typing:
  "typing_area empty_line a \<longleftrightarrow> in_range 0x2000 256 a \<or> in_range 0x3000 256 a"
  by (simp add: typing_area_def empty_line_def example_keyboard_def)

lemma above_typing: "i < 0x10000 \<Longrightarrow> \<not> typing_area empty_line (0x4000 + word_of_nat i)"
  using range_below [of "0x2000" 256 "word_of_nat (0x4000 + i)" "0x4000 + i" 1] range_below [of "0x3000" 256 "word_of_nat (0x4000 + i)" "0x4000 + i" 1]
  by (auto simp: empty_line_typing in_range_def)

lemma empty_line_strings: "strings_clear return_system empty_line [0x3F, 10]"
proof -
  have "\<not> typing_area empty_line (word_of_nat (0x4000 + q) + word_of_nat i)" if "q < 0x100" "i \<le> 5" for q i
    using above_typing [of "q + i"] that by (simp add: add.assoc)
  from this [of 0] this [of "0x10"] this [of "0x20"] this [of "0x30"] this [of "0x40"] this [of "0x50"]
  show ?thesis
    by (simp add: strings_clear_def return_system_def example_system_def cls_cmd_def help_cmd_def prompt_text_def bat_suffix_def)
qed

lemma example_screen_bytes: "screen_bytes example_console = word_of_nat 1228800" "unat (screen_bytes example_console) = 1228800"
  using sdiv32_nat [of 9830400 8] by (simp_all add: screen_bytes_def example_console_def)


text \<open>C5: in every state the shell and the keyboard can reach, in whatever order keys, rounds, system
  calls, scripts and programs come, the position in the line buffer stays below its 256 bytes, and
  both buffers stay where they are, provided the programs run leave the keyboard's state alone.\<close>

theorem shell_line_bounded:
  assumes "shell_runs s beyond edx fb k0 k" "programs_behave s" "unat (input_pos (kkb k0)) \<le> 255"
  shows "unat (input_pos (kkb k)) \<le> 255 \<and> input_buffer (kkb k) = input_buffer (kkb k0) \<and> ex_buffer (kkb k) = ex_buffer (kkb k0)"
  using assms(1)
proof induction
  case (step k k')
  from step(2) show ?case
  proof cases
    case key
    then obtain kb con m d where handler: "int21h_handler beyond (s_io s) (kkb k) (kcon k) (kmem k) (kdev k) = Some (kb, con, m, d)"
      "kkb k' = kb" by (auto simp: key_interrupt_def bind_eq_Some_conv)
    show ?thesis using int21h_handler_fields [OF handler(1)] handler(2) step.IH by simp
  next
    case turn
    then show ?thesis using KiUserInit_turn_same_line [OF assms(2)] step.IH by (auto simp: same_line_def)
  qed
qed (use assms(3) in simp)

theorem shell_line_bounded_witness:
  "\<exists>k1. key_interrupt return_system (\<lambda>_. 0) empty_line = Some k1 \<and> shell_runs return_system (\<lambda>_. 0) 0 0 empty_line k1 \<and>
    unat (input_pos (kkb k1)) \<le> 255 \<and> ex_buffer (kkb k1) = 0x3000"
proof -
  have "holds (kkb empty_line) (kmem empty_line) []" by (simp add: holds_def empty_line_def bytes_def)
  moreover have "insb (s_io return_system) 0x60 (kdev empty_line) = (0x1C, (0, []))" "kb_at (\<lambda>_. 0) 0x1C = 10"
    by (simp_all add: return_system_def return_machine_def empty_line_def example_kernel_def kb_at_def kb_def)
  moreover have "apart (ex_buffer (kkb empty_line)) 256 (input_buffer (kkb empty_line)) 256"
    using low_apart [of "0x2000" 256 "0x3000" 256] by (simp add: apart_sym empty_line_def example_keyboard_def)
  ultimately obtain k1 where k1: "key_interrupt return_system (\<lambda>_. 0) empty_line = Some k1"
    using key_interrupt_return [of empty_line "[]" return_system "0x1C" "(0, [])" "\<lambda>_. 0"] by blast
  then have runs: "shell_runs return_system (\<lambda>_. 0) 0 0 empty_line k1" by (blast intro: shell_runs.intros shell_step.key)
  have "programs_behave return_system"
    by (simp add: programs_behave_def return_system_def example_system_def)
  then show ?thesis
    using shell_line_bounded [OF runs] k1 runs by (intro exI [of _ k1]) (simp add: empty_line_def example_keyboard_def)
qed

end
