(* ===== verification/Graphics.thy ===== *)
theory Graphics
  imports Console Disk
begin

text \<open>
  The registers of the graphics adapter (Bochs VBE) in \<^verbatim>\<open>ke/graphics/graphics.c\<close>: an index port and a
  data port. The adapter is behind the ports; what it promises is \<open>bga_serves\<close>.
\<close>

definition VBE_DISPI_IOPORT_INDEX :: u16 where [status_defs]: "VBE_DISPI_IOPORT_INDEX = 0x01CE"
definition VBE_DISPI_IOPORT_DATA :: u16 where [status_defs]: "VBE_DISPI_IOPORT_DATA = 0x01CF"
definition VBE_DISPI_INDEX_ID :: u16 where [status_defs]: "VBE_DISPI_INDEX_ID = 0"
definition VBE_DISPI_INDEX_XRES :: u16 where [status_defs]: "VBE_DISPI_INDEX_XRES = 1"
definition VBE_DISPI_INDEX_YRES :: u16 where [status_defs]: "VBE_DISPI_INDEX_YRES = 2"
definition VBE_DISPI_INDEX_BPP :: u16 where [status_defs]: "VBE_DISPI_INDEX_BPP = 3"
definition VBE_DISPI_INDEX_ENABLE :: u16 where [status_defs]: "VBE_DISPI_INDEX_ENABLE = 4"
definition VBE_DISPI_ID5 :: u16 where [status_defs]: "VBE_DISPI_ID5 = 0xB0C4"
definition VBE_DISPI_DISABLED :: u16 where [status_defs]: "VBE_DISPI_DISABLED = 0"
definition VBE_DISPI_ENABLED :: u16 where [status_defs]: "VBE_DISPI_ENABLED = 1"
definition VBE_DISPI_LFB_ENABLED :: u16 where [status_defs]: "VBE_DISPI_LFB_ENABLED = 0x40"
definition VBE_DISPI_NOCLEARMEM :: u16 where [status_defs]: "VBE_DISPI_NOCLEARMEM = 0x80"

definition outpw :: "'d ports \<Rightarrow> u16 \<Rightarrow> u16 \<Rightarrow> 'd \<Rightarrow> 'd" where
  "outpw io port val d = outw io port val d"

definition inpw :: "'d ports \<Rightarrow> u16 \<Rightarrow> 'd \<Rightarrow> u16 \<times> 'd" where
  "inpw io port d = insw io port d"

definition BgaWriteRegister :: "'d ports \<Rightarrow> u16 \<Rightarrow> u16 \<Rightarrow> 'd \<Rightarrow> 'd" where
  "BgaWriteRegister io IndexValue DataValue d =
     (let d = outpw io VBE_DISPI_IOPORT_INDEX IndexValue d
      in outpw io VBE_DISPI_IOPORT_DATA DataValue d)"

definition BgaReadRegister :: "'d ports \<Rightarrow> u16 \<Rightarrow> 'd \<Rightarrow> u16 \<times> 'd" where
  "BgaReadRegister io IndexValue d =
     (let d = outpw io VBE_DISPI_IOPORT_INDEX IndexValue d
      in inpw io VBE_DISPI_IOPORT_DATA d)"

definition BgaIsAvailable :: "'d ports \<Rightarrow> 'd \<Rightarrow> bool \<times> 'd" where
  "BgaIsAvailable io d = (let (v, d) = BgaReadRegister io VBE_DISPI_INDEX_ID d in (v = VBE_DISPI_ID5, d))"

text \<open>The 32-bit arguments are cut to 16 bits where they are passed on.\<close>

definition BgaSetVideoMode :: "'d ports \<Rightarrow> u32 \<Rightarrow> u32 \<Rightarrow> u32 \<Rightarrow> bool \<Rightarrow> bool \<Rightarrow> 'd \<Rightarrow> 'd" where
  "BgaSetVideoMode io Width Height BitDepth UseLinearFrameBuffer ClearVideoMemory d =
     (let d = BgaWriteRegister io VBE_DISPI_INDEX_ENABLE VBE_DISPI_DISABLED d;
          d = BgaWriteRegister io VBE_DISPI_INDEX_XRES (ucast Width) d;
          d = BgaWriteRegister io VBE_DISPI_INDEX_YRES (ucast Height) d;
          d = BgaWriteRegister io VBE_DISPI_INDEX_BPP (ucast BitDepth) d
      in BgaWriteRegister io VBE_DISPI_INDEX_ENABLE
           (VBE_DISPI_ENABLED OR (if UseLinearFrameBuffer then VBE_DISPI_LFB_ENABLED else 0) OR
            (if ClearVideoMemory then 0 else VBE_DISPI_NOCLEARMEM)) d)"

definition WritePort :: "'d ports \<Rightarrow> u16 \<Rightarrow> byte \<Rightarrow> 'd \<Rightarrow> 'd" where
  "WritePort io port val d = outb io port val d"

definition ReadPort :: "'d ports \<Rightarrow> u16 \<Rightarrow> 'd \<Rightarrow> byte \<times> 'd" where
  "ReadPort io port d = insb io port d"

definition BgaDisable :: "'d ports \<Rightarrow> 'd \<Rightarrow> 'd" where
  "BgaDisable io d = BgaWriteRegister io VBE_DISPI_INDEX_ENABLE VBE_DISPI_DISABLED d"

definition VdiInit :: "'d ports \<Rightarrow> console \<Rightarrow> 'd \<Rightarrow> 'd" where
  "VdiInit io c d = BgaSetVideoMode io (nWidth c) (nHeight c) 0x20 True True d"

section \<open>What the adapter ends up with\<close>

text \<open>The adapter: a word written to the index port selects a register, the data port writes and reads
  the selected one.\<close>

definition bga_serves :: "'d ports \<Rightarrow> ('d \<Rightarrow> u16) \<Rightarrow> ('d \<Rightarrow> u16 \<Rightarrow> u16) \<Rightarrow> bool" where
  "bga_serves io index regs \<longleftrightarrow>
     (\<forall>d v. index (outw io 0x01CE v d) = v \<and> regs (outw io 0x01CE v d) = regs d \<and>
        index (outw io 0x01CF v d) = index d \<and> regs (outw io 0x01CF v d) = (regs d)(index d := v) \<and>
        fst (insw io 0x01CF d) = regs d (index d))"

lemma BgaWriteRegister_regs: "bga_serves io index regs \<Longrightarrow> regs (BgaWriteRegister io i v d) = (regs d)(i := v)"
  by (simp add: bga_serves_def BgaWriteRegister_def outpw_def status_defs)

lemma BgaReadRegister_reads: "bga_serves io index regs \<Longrightarrow> fst (BgaReadRegister io i d) = regs d i"
  by (simp add: bga_serves_def BgaReadRegister_def outpw_def inpw_def status_defs)


text \<open>An adapter that is an index and a table of registers.\<close>

definition example_bga :: "(u16 \<times> (u16 \<Rightarrow> u16)) ports" where
  "example_bga = \<lparr>outb = (\<lambda>_ _ d. d), insb = (\<lambda>_ d. (0, d)),
     insw = (\<lambda>port (i, r). if port = 0x01CF then (r i, (i, r)) else (0, (i, r))),
     outw = (\<lambda>port v (i, r). if port = 0x01CE then (v, r) else if port = 0x01CF then (i, r(i := v)) else (i, r))\<rparr>"


end
