(* ===== verification/AddressSpace.thy ===== *)
theory AddressSpace
  imports Paging
begin

text \<open>
  The address space of the kernel: \<open>paging_switch\<close> of \<^verbatim>\<open>ke/memory/paging/paging.c\<close>, the two routines of
  \<^verbatim>\<open>paging.asm\<close> it stands on, the part of \<open>kernel_main\<close> that builds and enters the address space, and
  what the processor then makes of an address.
\<close>

section \<open>Registers\<close>

text \<open>The two control registers, and the variable \<open>current_directory\<close> of \<^verbatim>\<open>paging.c\<close>.\<close>

record mmu =
  cr0 :: u32
  cr3 :: u32
  current_directory :: addr

definition paging_load_directory :: "addr \<Rightarrow> mmu \<Rightarrow> mmu" where
  "paging_load_directory directory c = c\<lparr>cr3 := directory\<rparr>"

definition enable_paging :: "mmu \<Rightarrow> mmu" where
  "enable_paging c = c\<lparr>cr0 := cr0 c OR 0x80000000\<rparr>"

definition paging_switch :: "addr \<Rightarrow> mmu \<Rightarrow> mmu" where
  "paging_switch directory c = (let c = paging_load_directory directory c in c\<lparr>current_directory := directory\<rparr>)"

text \<open>The address on the bus: with paging on, the frame of the entry and the low twelve bits.\<close>

definition translate :: "mmu \<Rightarrow> mem \<Rightarrow> addr \<Rightarrow> addr" where
  "translate c m v = (if cr0 c AND 0x80000000 = 0 then v else frame_of (pte m (frame_of (cr3 c)) v) OR (v AND 0xfff))"

section \<open>The kernel's address space\<close>

text \<open>\<open>ptr\<close>, the page that is mapped at 0x1000, the memory and the registers.\<close>

definition kernel_paging :: "heap \<Rightarrow> mem \<Rightarrow> mmu \<Rightarrow> addr \<times> mem \<times> mmu" where
  "kernel_paging h m c =
     (let (kernel_chunk, m) = paging_new_4gb h m (ucast (PAGING_IS_WRITEABLE OR PAGING_IS_PRESENT OR PAGING_ACCESS_FROM_ALL));
          c = paging_switch (paging_4gb_chunk_get_directory m kernel_chunk) c;
          (ptr, m) = kzalloc h m 4096;
          (r, m) = paging_set m (paging_4gb_chunk_get_directory m kernel_chunk) 0x1000
                     (ptr OR PAGING_ACCESS_FROM_ALL OR PAGING_IS_PRESENT OR PAGING_IS_WRITEABLE);
          c = enable_paging c
      in (ptr, m, c))"

section \<open>Bits\<close>

lemma offset_bits: "v AND 0xfff = take_bit 12 (v :: u32)"
  by (simp add: take_bit_eq_mask mask_eq_exp_minus_1)

lemma frame_and_offset: "frame_of v OR (v AND 0xfff) = v"
  unfolding offset_bits by (rule bit_word_eqI) (auto simp: bit_or_iff frame_bits bit_take_bit_iff)

lemma offset_in_page:
  assumes "aligned p"
  shows "p OR (v AND 0xfff) = p + (v AND 0xfff)"
  unfolding offset_bits
  by (rule disjunctive_add [symmetric]) (use assms in \<open>auto simp: aligned_bits bit_take_bit_iff\<close>)

lemma second_page:
  assumes "unat v div 4096 = 1"
  shows "v AND 0xfff = v - 0x1000" "in_range 0x1000 4096 v"
proof -
  have v: "4096 \<le> unat v" "unat v < 8192" "unat v mod 4096 = unat v - 4096"
    using assms div_mult_mod_eq [of "unat v" 4096] by auto
  then have "unat (v - 0x1000) = unat v - 4096" by (simp add: unat_sub_if')
  moreover have "unat (take_bit 12 v) = unat v mod 4096" by (simp only: unsigned_take_bit_eq) (simp add: take_bit_eq_mod)
  ultimately show "v AND 0xfff = v - 0x1000" unfolding offset_bits word_unat_eq_iff using v(3) by simp
  show "in_range 0x1000 4096 v" using v by (simp add: in_range_def unat_sub_if')
qed

lemma not_second_page: "in_range 0x1000 4096 v \<Longrightarrow> unat v div 4096 = 1"
  by (auto simp: in_range_def unat_sub_if' split: if_splits)

section \<open>What an allocation leaves of a directory\<close>

lemma directory_cong:
  assumes "\<And>p a. p = d \<or> p \<in> table_of m d ` {..<1024} \<Longrightarrow> in_range p 4096 a \<Longrightarrow> m' a = m a"
  shows "directory_ok m' d = directory_ok m d" "i < 1024 \<Longrightarrow> table_of m' d i = table_of m d i" "pte m' d v = pte m d v"
proof -
  have t: "table_of m' d i = table_of m d i" if "i < 1024" for i
    using read_slot_page [OF that, of d m' m] assms [of d] by (simp add: table_of_def)
  then show "i < 1024 \<Longrightarrow> table_of m' d i = table_of m d i" .
  have "table_of m' d ` {..<1024} = table_of m d ` {..<1024}" using t by (auto intro!: image_cong)
  moreover have "inj_on (table_of m' d) {..<1024} = inj_on (table_of m d) {..<1024}" using t by (auto simp: inj_on_def)
  ultimately show "directory_ok m' d = directory_ok m d" by (simp add: directory_ok_def)
  have "table_of m d (directory_index v) \<in> table_of m d ` {..<1024}" using index_bounds by blast
  then show "pte m' d v = pte m d v"
    using read_slot_page [of "table_index v" "table_of m d (directory_index v)" m' m] index_bounds
      assms [of "table_of m d (directory_index v)"] t [of "directory_index v"] by (simp add: pte_table_of)
qed

lemma kernel_paging_works:
  assumes live: "kheap_live h m L (k + 1027)"
  shows "\<exists>d ptr m'. kernel_paging h m c = (ptr, m', enable_paging (paging_switch d c)) \<and> aligned d \<and>
    ptr \<noteq> 0 \<and> aligned ptr \<and> L ptr = None \<and>
    (\<forall>v. pte m' d v = (if unat v div 4096 = 1 then ptr else frame_of v) OR 7) \<and>
    (\<forall>p n a. L p = Some n \<longrightarrow> in_range p n a \<longrightarrow> m' a = m a)"
proof -
  have live0: "kheap_live h m L (Suc k + 1026)" using live by (simp add: add.commute)
  have fl: "ucast (PAGING_IS_WRITEABLE OR PAGING_IS_PRESENT OR PAGING_ACCESS_FROM_ALL) = (7 :: byte)" by (simp add: status_defs)
  obtain ch m1 where new: "paging_new_4gb h m 7 = (ch, m1)" by fastforce
  let ?d = "paging_4gb_chunk_get_directory m1 ch" and ?R = "directory_regions m1 ch"
  let ?L = "\<lambda>p. if p \<in> ?R then Some 4096 else L p"
  note N = paging_new_4gb_works [OF live0 new]
  obtain ptr m2 where ptr: "kzalloc h m1 4096 = (ptr, m2)" by fastforce
  have sz: "(0 :: u32) < 4096" "(4096 :: u32) \<le> 4096" by simp_all
  note A = kh.alloc_page [OF N(3) sz ptr] and keep = kh.alloc_keeps [OF N(3) sz ptr]
  have region: "p \<in> ?R" if "p = ch \<or> p = ?d \<or> p \<in> table_of m1 ?d ` {..<1024}" for p
    using that by (auto simp: directory_regions_def paging_4gb_chunk_get_directory_def)
  have same: "m2 a = m1 a" if "p \<in> ?R" "in_range p 4096 a" for p a using keep [of p 4096 a] that by simp
  have dir2: "paging_4gb_chunk_get_directory m2 ch = ?d"
    using read_slot_page [of 0 ch m2 m1] same [OF region [of ch]] by (simp add: paging_4gb_chunk_get_directory_def)
  have pages: "m2 a = m1 a" if "p = ?d \<or> p \<in> table_of m1 ?d ` {..<1024}" "in_range p 4096 a" for p a
    using same [OF region that(2)] that(1) by blast
  have D: "directory_ok m2 ?d = directory_ok m1 ?d" "\<And>i. i < 1024 \<Longrightarrow> table_of m2 ?d i = table_of m1 ?d i"
      "\<And>v. pte m2 ?d v = pte m1 ?d v"
    by (rule directory_cong; use pages in blast)+
  have fresh: "L ptr = None" "aligned ptr" "ptr \<noteq> 0" using A by (auto split: if_splits)
  have "aligned 0x1000" "unat (0x1000 :: addr) div 4096 = 1" by (simp_all add: aligned_def)
  note set = paging_set_aligned [OF this(1)] and one = this(2)
  let ?t = "table_of m2 ?d (directory_index 0x1000)" and ?val = "ptr OR PAGING_ACCESS_FROM_ALL OR PAGING_IS_PRESENT OR PAGING_IS_WRITEABLE"
  obtain r m3 where m3: "paging_set m2 ?d 0x1000 ?val = (r, m3)" by fastforce
  have val: "?val = ptr OR 7" by (simp add: status_defs or.assoc)
  have "kernel_paging h m c = (ptr, m3, enable_paging (paging_switch ?d c))"
    by (simp add: kernel_paging_def fl new ptr dir2 m3 [unfolded val] val)
  moreover have "pte m3 ?d v = (if unat v div 4096 = 1 then ptr else frame_of v) OR 7" for v
    using pte_paging_set [OF _ \<open>aligned 0x1000\<close> m3] D(1,3) N(1,2) one by (simp add: val)
  moreover have "m3 a = m a" if L: "L p = Some n" "in_range p n a" for p n a
  proof -
    have p: "p \<notin> ?R" using N(4) L(1) by auto
    have "?t \<in> ?R" using D(2) [OF index_bounds(1)] index_bounds(1) region by auto
    moreover have "m3 a = m2 a" if "\<not> in_range ?t 4096 a"
      using write_slot_frame [OF index_bounds(2) that] m3 unfolding set by auto
    moreover have "apart ?t 4096 p n" if "?t \<in> ?R"
      using that p L(1) by (intro kh.live_disjoint [OF N(3)]) auto
    ultimately show ?thesis using keep [of p n a] N(7) [OF L] p L apart_outside by metis
  qed
  moreover have "aligned ?d" using N(1) by (simp add: directory_ok_def)
  ultimately show ?thesis using fresh by blast
qed

lemma entry_frame: "aligned p \<Longrightarrow> frame_of (p OR 7) = p"
proof (rule frame_of_entry)
  show "\<not> bit (7 :: u32) n" if "12 \<le> n" for n
    using that flags_bits(2) [of n 7] by simp
qed

section \<open>Properties\<close>

text \<open>C4: with 1027 free pages on the heap, \<open>kernel_main\<close> enters an address space in which the page at
  0x1000 is the new page \<open>ptr\<close> and every other address is its own translation, so that the page is
  seen under two addresses; all pages are present, writeable and open to programs, and nothing that
  was live before is changed.\<close>

theorem kernel_paging_translates:
  assumes "kheap_live h m L (k + 1027)"
  shows "\<exists>ptr m' c'. kernel_paging h m c = (ptr, m', c') \<and> ptr \<noteq> 0 \<and> L ptr = None \<and>
    (\<forall>v. translate c' m' v = (if in_range 0x1000 4096 v then ptr + (v - 0x1000) else v)) \<and>
    (\<forall>v. pte m' (cr3 c') v AND 7 = 7) \<and> current_directory c' = cr3 c' \<and>
    (\<forall>p n a. L p = Some n \<longrightarrow> in_range p n a \<longrightarrow> m' a = m a)"
proof -
  obtain d ptr m' where run: "kernel_paging h m c = (ptr, m', enable_paging (paging_switch d c))"
    and d: "aligned d" and ptr: "ptr \<noteq> 0" "aligned ptr" "L ptr = None"
    and entry: "\<And>v. pte m' d v = (if unat v div 4096 = 1 then ptr else frame_of v) OR 7"
    and same: "\<forall>p n a. L p = Some n \<longrightarrow> in_range p n a \<longrightarrow> m' a = m a"
    using kernel_paging_works [OF assms, of c] by blast
  let ?c = "enable_paging (paging_switch d c)"
  have regs: "cr3 ?c = d" "current_directory ?c = d" "frame_of d = d"
    using frame_of_entry [OF d, of 0] by (simp_all add: enable_paging_def paging_switch_def paging_load_directory_def)
  have "(x OR 0x80000000) AND 0x80000000 \<noteq> 0" for x :: u32
    by (simp add: bit.conj_disj_distrib2)
  then have on: "translate ?c m' v = frame_of (pte m' d v) OR (v AND 0xfff)" for v
    using regs by (simp add: translate_def enable_paging_def)
  have "translate ?c m' v = (if in_range 0x1000 4096 v then ptr + (v - 0x1000) else v)" for v
  proof (cases "unat v div 4096 = 1")
    case True
    then show ?thesis
      using second_page [OF True] offset_in_page [OF ptr(2), of v] by (simp add: on entry entry_frame [OF ptr(2)])
  next
    case False
    then show ?thesis
      using not_second_page [of v] by (auto simp: on entry entry_frame [OF frame_of_aligned] frame_and_offset)
  qed
  moreover have "pte m' d v AND 7 = 7" for v unfolding entry by (simp add: bit.conj_disj_distrib2)
  ultimately show ?thesis using run ptr(1,3) regs(1,2) same by auto
qed

text \<open>The heap that \<open>kheap_init\<close> builds has room for it.\<close>

definition first_heap :: heap where
  "first_heap = fst (snd (kheap_init (\<lambda>_. 0) \<lparr>table = \<lparr>entries = 0, total = 0\<rparr>, saddr = 0\<rparr>))"

definition first_mem :: mem where
  "first_mem = snd (snd (kheap_init (\<lambda>_. 0) \<lparr>table = \<lparr>entries = 0, total = 0\<rparr>, saddr = 0\<rparr>))"

theorem kernel_paging_translates_witness:
  "\<exists>ptr m' c'. kernel_paging first_heap first_mem \<lparr>cr0 = 0x11, cr3 = 0, current_directory = 0\<rparr> = (ptr, m', c') \<and> ptr \<noteq> 0 \<and>
    translate c' m' 0x1001 = ptr + 1 \<and> translate c' m' 0xFD000000 = 0xFD000000"
proof -
  have "kheap_live first_heap first_mem (\<lambda>_. None) (24573 + 1027)"
    unfolding first_heap_def first_mem_def using kheap_init_heap(4) by simp
  from kernel_paging_translates [OF this, of "\<lparr>cr0 = 0x11, cr3 = 0, current_directory = 0\<rparr>"]
  obtain ptr m' c' where run: "kernel_paging first_heap first_mem \<lparr>cr0 = 0x11, cr3 = 0, current_directory = 0\<rparr> = (ptr, m', c')" "ptr \<noteq> 0"
    and at: "\<And>v. translate c' m' v = (if in_range 0x1000 4096 v then ptr + (v - 0x1000) else v)" by blast
  have "in_range 0x1000 4096 0x1001" "\<not> in_range 0x1000 4096 0xFD000000" by (simp_all add: in_range_def)
  then show ?thesis using run at [of "0x1001"] at [of "0xFD000000"] by auto
qed

end
