(* ===== verification/Boot.thy ===== *)
theory Boot
  imports Shell Graphics Gdt AddressSpace
begin

text \<open>
  The start of the kernel, \<open>kernel_main\<close> of \<^verbatim>\<open>init/kernel.c\<close>, with the processor's name and the font it
  loads: every component is initialised in the order of the code, \<^verbatim>\<open>boot.ini\<close> gives the resolution,
  and \<open>jump_usermode\<close> enters the shell. The memory of the model is the physical one: once paging is on, an
  access to the page at 0x1000 goes through \<open>translate\<close>, and every other address is its own translation
  (\<open>kernel_paging_translates\<close>). Loading the table registers of the processor and switching interrupts on
  are assembly and have no effect here.
\<close>

section \<open>What it runs in\<close>

datatype boot_text = T_called | T_vga | T_starting | T_gdt | T_heap | T_fs | T_idt | T_tss | T_paging | T_paging_end
  | T_disk | T_interrupts | T_ini_path | T_ini_found | T_ini_read | T_settings | T_res | T_res_ok | T_res_bad
  | T_res_missing | T_default | T_ini_missing | T_failed | T_bga | T_no_buffer | T_user | T_cpu | T_cpu_end
  | T_font_path | T_font_failed

text \<open>Addresses of literals, tables and local arrays, the control registers, and the \<open>cpuid\<close> instruction: \<open>eax\<close>, \<open>ebx\<close>, \<open>ecx\<close>, \<open>edx\<close>.\<close>

record 'd boot =
  b_text :: "boot_text \<Rightarrow> addr"
  b_gdt_real :: addr
  b_gdt_structured :: addr
  b_idt :: addr
  b_idtr :: addr
  b_handlers :: idt_handlers
  b_tss :: addr
  b_mmu :: mmu
  b_buf :: addr
  b_brand :: addr
  b_cpuid :: "u32 \<Rightarrow> u32 \<times> u32 \<times> u32 \<times> u32"

definition b_dbg :: "'d boot \<Rightarrow> 'd system \<Rightarrow> boot_text \<Rightarrow> 'd kernel \<Rightarrow> 'd kernel option" where
  "b_dbg b s t k = kDbgPrint (s_io s) (b_text b t) [] k"

section \<open>The processor and the font\<close>

definition store_regs :: "mem \<Rightarrow> addr \<Rightarrow> u32 \<times> u32 \<times> u32 \<times> u32 \<Rightarrow> mem" where
  "store_regs m p r =
     (case r of (eax, ebx, ecx, edx) \<Rightarrow>
        write32 (write32 (write32 (write32 m p eax) (p + 4) ebx) (p + 8) ecx) (p + 12) edx)"

definition get_cpu_info :: "'d boot \<Rightarrow> 'd kernel \<Rightarrow> 'd kernel option" where
  "get_cpu_info b k =
     (let m = store_regs (kmem k) (b_brand b) (b_cpuid b 0x80000002);
          m = store_regs m (b_brand b + 16) (b_cpuid b 0x80000003);
          m = store_regs m (b_brand b + 32) (b_cpuid b 0x80000004);
          m = m(b_brand b + 48 := 0)
      in kprint (b_brand b) (k\<lparr>kmem := m\<rparr>))"

definition LoadPsfFont :: "'d boot \<Rightarrow> 'd system \<Rightarrow> addr \<Rightarrow> 'd kernel \<Rightarrow> 'd kernel option" where
  "LoadPsfFont b s path k = do {
     (fd, m, d) \<leftarrow> fopen (s_env s) (s_ops s) (s_vfs s) path (lit_r (s_frame s)) (kmem k) (kdev k);
     if fd \<noteq> 0
     then do {
       (res, bs, m, d) \<leftarrow> fread (s_ops s) (s_vfs s) 5900 1 fd m d;
       Some (k\<lparr>kmem := write_bytes m (fontdata (kcon k)) bs, kdev := d\<rparr>)
     }
     else do {
       d \<leftarrow> DbgLog (log_lits (s_frame s)) (s_io s) m (b_text b T_font_failed) LOG_ERROR d;
       Some (k\<lparr>kmem := m, kdev := d\<rparr>)
     }
   }"

section \<open>The resolution\<close>

text \<open>\<open>w\<close> and \<open>h\<close> are set by \<open>fetchwh\<close> whatever it returns.\<close>

definition boot_resolution :: "'d boot \<Rightarrow> 'd system \<Rightarrow> addr \<Rightarrow> 'd kernel \<Rightarrow> 'd kernel option" where
  "boot_resolution b s buf k = do {
     settings_section \<leftarrow> strstr (kmem k) buf (b_text b T_settings);
     if settings_section \<noteq> 0
     then do {
       res_start \<leftarrow> strstr (kmem k) settings_section (b_text b T_res);
       if res_start \<noteq> 0
       then do {
         (r, w, h) \<leftarrow> fetchwh (kmem k) (res_start + 4);
         let k = k\<lparr>kcon := (kcon k)\<lparr>screen_w := w, screen_h := h\<rparr>\<rparr>;
         if r = 2 then b_dbg b s T_res_ok k else b_dbg b s T_res_bad k
       }
       else b_dbg b s T_res_missing k
     }
     else b_dbg b s T_default k
   }"

text \<open>The result says whether the file was there.\<close>

definition boot_ini :: "'d boot \<Rightarrow> 'd system \<Rightarrow> 'd kernel \<Rightarrow> (bool \<times> 'd kernel) option" where
  "boot_ini b s k = do {
     (fd, m, d) \<leftarrow> fopen (s_env s) (s_ops s) (s_vfs s) (b_text b T_ini_path) (lit_r (s_frame s)) (kmem k) (kdev k);
     let k = k\<lparr>kmem := m, kdev := d\<rparr>;
     if fd \<noteq> 0
     then do {
       k \<leftarrow> b_dbg b s T_ini_found k;
       (res, bs, m, d) \<leftarrow> fread (s_ops s) (s_vfs s) 511 1 fd (kmem k) (kdev k);
       let k = k\<lparr>kmem := (write_bytes m (b_buf b) bs)(b_buf b + 500 := 0), kdev := d\<rparr>;
       k \<leftarrow> b_dbg b s T_ini_read k;
       k \<leftarrow> kDbgPrint (s_io s) (b_buf b) [] k;
       k \<leftarrow> boot_resolution b s (b_buf b) k;
       Some (True, k)
     }
     else do {
       k \<leftarrow> b_dbg b s T_ini_missing k;
       k \<leftarrow> kprint (b_text b T_failed) k;
       Some (False, k)
     }
   }"

section \<open>kernel_main\<close>

text \<open>The global heap is part of the environment of the system; the table of operations is that of the
  one file system, FAT16.\<close>

definition with_heap :: "'d system \<Rightarrow> heap \<Rightarrow> 'd system" where
  "with_heap s h = (let e = (s_env s)\<lparr>kernel_heap := h\<rparr> in s\<lparr>s_env := e, s_ops := (\<lambda>_. fat16_ops e)\<rparr>)"

definition boot_tables :: "'d boot \<Rightarrow> 'd system \<Rightarrow> 'd kernel \<Rightarrow> ('d system \<times> 'd kernel) option" where
  "boot_tables b s k = do {
     let (r, d) = DbgInit (s_io s) (kdev k);
     k \<leftarrow> b_dbg b s T_called (k\<lparr>kdev := d\<rparr>);
     let (t, m) = FirstTimeBootInit (kmem k);
     k \<leftarrow> b_dbg b s T_vga (k\<lparr>kterm := t, kmem := m\<rparr>);
     k \<leftarrow> kprint (b_text b T_starting) k;
     let m = memset (kmem k) (b_gdt_real b) 0 48;
     m \<leftarrow> gdt_structured_to_gdt m (b_gdt_real b) (b_gdt_structured b) 6;
     k \<leftarrow> b_dbg b s T_gdt (k\<lparr>kmem := m\<rparr>);
     let (r, h, m) = kheap_init (kmem k) (kernel_heap (s_env s));
     let s = with_heap s h;
     k \<leftarrow> b_dbg b s T_heap (k\<lparr>kmem := m\<rparr>);
     m \<leftarrow> fs_init (s_env s) (s_vfs s) (kmem k);
     k \<leftarrow> b_dbg b s T_fs (k\<lparr>kmem := m\<rparr>);
     let m = idt_init (b_handlers b) (b_idt b) (b_idtr b) (kmem k);
     k \<leftarrow> b_dbg b s T_idt (k\<lparr>kmem := m\<rparr>);
     let m = memset (kmem k) (b_tss b) 0 100;
     let m = write32 m (b_tss b + 4) 0x600000;
     let m = write32 m (b_tss b + 8) 0x10;
     k \<leftarrow> b_dbg b s T_tss (k\<lparr>kmem := m\<rparr>);
     Some (s, k)
   }"

definition boot_paging :: "'d boot \<Rightarrow> 'd system \<Rightarrow> 'd kernel \<Rightarrow> 'd kernel option" where
  "boot_paging b s k = do {
     let (ptr, m, c) = kernel_paging (kernel_heap (s_env s)) (kmem k) (b_mmu b);
     k \<leftarrow> b_dbg b s T_paging (k\<lparr>kmem := m\<rparr>);
     let ptr2 = translate c (kmem k) 0x1000;
     let k = k\<lparr>kmem := (kmem k)(ptr2 := 0x41, translate c (kmem k) 0x1001 := 0x42)\<rparr>;
     k \<leftarrow> kDbgPrint (s_io s) ptr2 [] k;
     b_dbg b s T_paging_end k
   }"

definition boot_screen :: "'d boot \<Rightarrow> 'd system \<Rightarrow> 'd kernel \<Rightarrow> (bool \<times> 'd kernel) option" where
  "boot_screen b s k = do {
     let (t, m) = terminal_initialize (kmem k);
     let con = VdiSetScreenRes (kcon k) (screen_w (kcon k)) (screen_h (kcon k));
     let d = VdiInit (s_io s) con (kdev k);
     k \<leftarrow> b_dbg b s T_bga (k\<lparr>kterm := t, kmem := m, kcon := con, kdev := d\<rparr>);
     let (buffer, m) = kmalloc (kernel_heap (s_env s)) (kmem k) (screen_bytes con);
     let k = k\<lparr>kmem := m, kcon := con\<lparr>frame_buffer := buffer\<rparr>\<rparr>;
     if buffer = 0
     then do {
       k \<leftarrow> b_dbg b s T_no_buffer k;
       Some (False, k)
     }
     else do {
       k \<leftarrow> b_dbg b s T_user k;
       k \<leftarrow> kprint (b_text b T_cpu) k;
       k \<leftarrow> get_cpu_info b k;
       k \<leftarrow> kprint (b_text b T_cpu_end) k;
       k \<leftarrow> LoadPsfFont b s (b_text b T_font_path) k;
       Some (True, k)
     }
   }"

text \<open>The result says whether user mode is entered; the system is the one the shell then runs in.\<close>

definition kernel_main :: "'d boot \<Rightarrow> 'd system \<Rightarrow> 'd kernel \<Rightarrow> (bool \<times> 'd system \<times> 'd kernel) option" where
  "kernel_main b s k = do {
     (s, k) \<leftarrow> boot_tables b s k;
     k \<leftarrow> boot_paging b s k;
     (m, d) \<leftarrow> DiskInit (s_ops s) (s_vfs s) (disk_addr (s_env s)) (kmem k) (kdev k);
     k \<leftarrow> b_dbg b s T_disk (k\<lparr>kmem := m, kdev := d\<rparr>);
     k \<leftarrow> b_dbg b s T_interrupts k;
     (found, k) \<leftarrow> boot_ini b s k;
     if \<not> found then Some (False, s, k)
     else do {
       (user, k) \<leftarrow> boot_screen b s k;
       Some (user, s, k)
     }
   }"

section \<open>Reading the resolution\<close>

lemma numeral_text_digits: "digits (numeral_text n)"
proof (induction n rule: numeral_text.induct)
  case (1 n)
  show ?case
  proof (cases "n < 10")
    case True
    then show ?thesis using digit_char(2,3) [OF True] by (simp add: digits_def numeral_text_small)
  next
    case False
    then show ?thesis using digit_char(2,3) [of "n mod 10"] 1 by (simp add: digits_def numeral_text_large)
  qed
qed

lemma decimal_snoc: "decimal v (s @ [c]) = decimal v s * 10 + (scast c - 48)"
  by (simp add: decimal_def)

lemma decimal_numeral_text: "decimal 0 (numeral_text n) = word_of_nat n"
proof (induction n rule: numeral_text.induct)
  case (1 n)
  show ?case
  proof (cases "n < 10")
    case True
    then show ?thesis using decimal_snoc [of 0 "[]"] digit_char(1) [OF True] by (simp add: numeral_text_small decimal_def)
  next
    case False
    have "decimal 0 (numeral_text n) = word_of_nat (n div 10) * 10 + (scast (word_of_nat (48 + n mod 10) :: byte) - 48)"
      unfolding numeral_text_large [OF False] decimal_snoc 1 [OF False] ..
    also have "scast (word_of_nat (48 + n mod 10) :: byte) = (word_of_nat (48 + n mod 10) :: u32)"
      by (rule digit_char(1)) simp
    also have "word_of_nat (n div 10) * 10 + (word_of_nat (48 + n mod 10) - 48) = word_of_nat (n div 10) * 10 + (word_of_nat (n mod 10) :: u32)"
      by simp
    also have "\<dots> = word_of_nat (n div 10 * 10 + n mod 10)" by (simp only: of_nat_add of_nat_mult of_nat_numeral)
    also have "\<dots> = word_of_nat n" by (simp only: div_mult_mod_eq)
    finally show ?thesis .
  qed
qed

text \<open>The literals: \<open>"[settings]"\<close> and \<open>"res="\<close>.\<close>

definition settings_text :: "byte list" where
  "settings_text = [0x5B, 0x73, 0x65, 0x74, 0x74, 0x69, 0x6E, 0x67, 0x73, 0x5D]"

definition res_text :: "byte list" where
  "res_text = [0x72, 0x65, 0x73, 0x3D]"

lemma strstr_at:
  assumes "cstr m p s" "cstr m n needle" "find_infix needle s = Some i"
  shows "strstr m p n = Some (p + word_of_nat i)" "cstr m (p + word_of_nat i) (drop i s)"
proof -
  show "strstr m p n = Some (p + word_of_nat i)" using strstr_cstr [OF assms(1,2)] assms(3) by simp
  show "cstr m (p + word_of_nat i) (drop i s)"
    using find_infix_Some [OF assms(3)] by (intro cstr_suffix [OF assms(1)]) simp
qed

lemma fetchwh_numerals:
  assumes "cstr m p (numeral_text w @ [0x78] @ numeral_text h @ rest)" "rest = [] \<or> hd rest = 10"
  shows "fetchwh m p = Some (2, word_of_nat w, word_of_nat h)"
proof -
  let ?s = "numeral_text w @ [0x78] @ numeral_text h"
  have "bytes m p (length ?s) = ?s" "cstr m (p + word_of_nat (length ?s)) rest"
    using assms(1) cstr_append [of m p ?s rest] by simp_all
  moreover have "m (p + word_of_nat (length ?s)) = 0 \<or> m (p + word_of_nat (length ?s)) = 10"
    using calculation(2) assms(2) by (cases rest) auto
  moreover have "length ?s = length (numeral_text w) + 1 + length (numeral_text h)" by simp
  ultimately show ?thesis
    using fetchwh_parses [OF numeral_text_digits numeral_text_digits, of m p w h] by (simp add: decimal_numeral_text)
qed

lemma b_dbg_sends:
  assumes "uart_serves (s_io s) busy sent" "cstr (kmem k) (b_text b t) msg" "0x25 \<notin> set msg"
  shows "\<exists>d'. b_dbg b s t k = Some (k\<lparr>kdev := d'\<rparr>) \<and> sent d' = sent (kdev k) @ msg"
  using DbgPrint_sends [OF assms(1) format_text_plain [OF assms(3)] assms(2), of "[]" "kdev k"]
  by (auto simp: b_dbg_def kDbgPrint_def)

lemma boot_resolution_fetches:
  assumes "cstr (kmem k) buf t" "cstr (kmem k) (b_text b T_settings) settings_text" "cstr (kmem k) (b_text b T_res) res_text"
    and "find_infix settings_text t = Some i" "find_infix res_text (drop i t) = Some j"
    and "buf + word_of_nat i \<noteq> 0" "buf + word_of_nat (i + j) \<noteq> 0"
    and "fetchwh (kmem k) (buf + word_of_nat (i + j + 4)) = Some (r, w, h)"
  shows "boot_resolution b s buf k =
    b_dbg b s (if r = 2 then T_res_ok else T_res_bad) (k\<lparr>kcon := (kcon k)\<lparr>screen_w := w, screen_h := h\<rparr>\<rparr>)"
proof -
  note settings = strstr_at [OF assms(1,2,4)]
  note res = strstr_at [OF settings(2) assms(3,5)]
  have "buf + word_of_nat i + word_of_nat j \<noteq> 0" "fetchwh (kmem k) (buf + word_of_nat i + word_of_nat j + 4) = Some (r, w, h)"
    using assms(7,8) by (simp_all add: add.assoc)
  then show ?thesis using settings(1) res(1) assms(6) by (simp add: boot_resolution_def Let_def)
qed

text \<open>What stands after the first \<open>res=\<close> of the settings section.\<close>

definition res_value :: "byte list \<Rightarrow> nat \<Rightarrow> nat \<Rightarrow> byte list" where
  "res_value t i j = drop (i + j + 4) t"

lemma res_value_cstr:
  assumes "cstr m buf t" "find_infix settings_text t = Some i" "find_infix res_text (drop i t) = Some j"
  shows "cstr m (buf + word_of_nat (i + j + 4)) (res_value t i j)"
proof -
  have "take (length res_text) (drop j (drop i t)) = res_text" using find_infix_Some [OF assms(3)] by blast
  then have "length res_text \<le> length (drop j (drop i t))" by (metis length_take min.cobounded1)
  then have "i + j + 4 \<le> length t" by (simp add: res_text_def)
  then show ?thesis unfolding res_value_def by (rule cstr_suffix [OF assms(1)])
qed

section \<open>Properties\<close>

text \<open>C12: when \<^verbatim>\<open>boot.ini\<close> has \<open>res=WxH\<close>, in decimal, in its settings section, at the end of a line or of the
  text, the boot code returns with the resolution set to that width and height (modulo 2 ^ 32) and
  reports success on the serial line, for all \<open>W\<close> and \<open>H\<close>.\<close>

theorem boot_resolution_reads:
  assumes "cstr (kmem k) buf t" "cstr (kmem k) (b_text b T_settings) settings_text" "cstr (kmem k) (b_text b T_res) res_text"
    and "find_infix settings_text t = Some i" "find_infix res_text (drop i t) = Some j"
    and "buf + word_of_nat i \<noteq> 0" "buf + word_of_nat (i + j) \<noteq> 0"
    and val: "res_value t i j = numeral_text w @ [0x78] @ numeral_text h @ rest" "rest = [] \<or> hd rest = 10"
    and "uart_serves (s_io s) busy sent" "cstr (kmem k) (b_text b T_res_ok) msg" "0x25 \<notin> set msg"
  shows "\<exists>k'. boot_resolution b s buf k = Some k' \<and> screen_w (kcon k') = word_of_nat w \<and> screen_h (kcon k') = word_of_nat h \<and>
    kmem k' = kmem k \<and> sent (kdev k') = sent (kdev k) @ msg"
proof -
  have "fetchwh (kmem k) (buf + word_of_nat (i + j + 4)) = Some (2, word_of_nat w, word_of_nat h)"
    using res_value_cstr [OF assms(1,4,5)] val by (intro fetchwh_numerals) auto
  note run = boot_resolution_fetches [OF assms(1-7) this]
  show ?thesis using b_dbg_sends [OF assms(10), of "k\<lparr>kcon := (kcon k)\<lparr>screen_w := word_of_nat w, screen_h := word_of_nat h\<rparr>\<rparr>" b T_res_ok msg]
    assms(11,12) by (auto simp: run)
qed

text \<open>A value that does not parse is stored all the same: of \<open>res=W;\<close> the width stays and the height is 0.\<close>

lemma boot_resolution_malformed:
  assumes "cstr (kmem k) buf t" "cstr (kmem k) (b_text b T_settings) settings_text" "cstr (kmem k) (b_text b T_res) res_text"
    and "find_infix settings_text t = Some i" "find_infix res_text (drop i t) = Some j"
    and "buf + word_of_nat i \<noteq> 0" "buf + word_of_nat (i + j) \<noteq> 0"
    and val: "res_value t i j = numeral_text w @ [0x3B] @ rest"
  shows "boot_resolution b s buf k = b_dbg b s T_res_bad (k\<lparr>kcon := (kcon k)\<lparr>screen_w := word_of_nat w, screen_h := 0\<rparr>\<rparr>)"
proof -
  let ?p = "buf + word_of_nat (i + j + 4)"
  have "bytes (kmem k) ?p (length (numeral_text w)) = numeral_text w"
    "kmem k (?p + word_of_nat (length (numeral_text w))) = 0x3B"
    using res_value_cstr [OF assms(1,4,5)] val cstr_append [of "kmem k" ?p "numeral_text w" "[0x3B] @ rest"] by auto
  then have "fetchwh (kmem k) ?p = Some (0, word_of_nat w, 0)"
    using fetchwh_fails [OF numeral_text_digits, of "kmem k" ?p w "0x3B"] by (simp add: decimal_numeral_text word_sle_eq)
  then show ?thesis using boot_resolution_fetches [OF assms(1-7)] by simp
qed

text \<open>The settings of a file with \<open>res=8x6\<close>.\<close>

definition example_ini_text :: "byte list" where
  "example_ini_text = [0x5B, 0x73, 0x65, 0x74, 0x74, 0x69, 0x6E, 0x67, 0x73, 0x5D, 0xA, 0x72, 0x65, 0x73, 0x3D, 0x38, 0x78, 0x36, 0xA]"

definition example_ini :: mem where
  "example_ini = (\<lambda>_. 0)(0x1000 := 0x5B, 0x1001 := 0x73, 0x1002 := 0x65, 0x1003 := 0x74, 0x1004 := 0x74, 0x1005 := 0x69, 0x1006 :=
     0x6E, 0x1007 := 0x67, 0x1008 := 0x73, 0x1009 := 0x5D, 0x100A := 0xA, 0x100B := 0x72, 0x100C := 0x65, 0x100D :=
     0x73, 0x100E := 0x3D, 0x100F := 0x38, 0x1010 := 0x78, 0x1011 := 0x36, 0x1012 := 0xA, 0x1100 := 0x5B, 0x1101 :=
     0x73, 0x1102 := 0x65, 0x1103 := 0x74, 0x1104 := 0x74, 0x1105 := 0x69, 0x1106 := 0x6E, 0x1107 := 0x67, 0x1108
     := 0x73, 0x1109 := 0x5D, 0x1200 := 0x72, 0x1201 := 0x65, 0x1202 := 0x73, 0x1203 := 0x3D, 0x1300 := 0x6F,
     0x1301 := 0x6B)"

definition example_boot :: "(nat \<times> byte list) boot" where
  "example_boot = \<lparr>b_text = (\<lambda>t. if t = T_settings then 0x1100 else if t = T_res then 0x1200 else 0x1300),
     b_gdt_real = 0, b_gdt_structured = 0, b_idt = 0, b_idtr = 0,
     b_handlers = \<lparr>h_no_interrupt = 0, h_int2eh = 0, h_idt_zero = 0, h_idt_pf = 0, h_idt_gpf = 0, h_idt_inv = 0, h_idt_df = 0,
       h_idt_snp = 0, h_int21h = 0\<rparr>,
     b_tss = 0, b_mmu = \<lparr>cr0 = 0x11, cr3 = 0, current_directory = 0\<rparr>, b_buf = 0x1000, b_brand = 0, b_cpuid = (\<lambda>_. (0, 0, 0, 0))\<rparr>"

lemma example_ini_strings:
  "cstr example_ini 0x1000 example_ini_text" "cstr example_ini 0x1100 settings_text" "cstr example_ini 0x1200 res_text"
  "cstr example_ini 0x1300 [0x6F, 0x6B]"
  by (simp_all add: example_ini_def example_ini_text_def settings_text_def res_text_def)

theorem boot_resolution_reads_witness:
  "\<exists>k'. boot_resolution example_boot example_system 0x1000 (example_kernel\<lparr>kmem := example_ini\<rparr>) = Some k' \<and>
    screen_w (kcon k') = 8 \<and> screen_h (kcon k') = 6"
proof -
  let ?k = "example_kernel\<lparr>kmem := example_ini\<rparr>"
  have strs: "cstr (kmem ?k) 0x1000 example_ini_text" "cstr (kmem ?k) (b_text example_boot T_settings) settings_text"
    "cstr (kmem ?k) (b_text example_boot T_res) res_text" "cstr (kmem ?k) (b_text example_boot T_res_ok) [0x6F, 0x6B]"
    using example_ini_strings by (simp_all add: example_boot_def del: cstr.simps)
  have found: "find_infix settings_text example_ini_text = Some 0" "find_infix res_text (drop 0 example_ini_text) = Some 11"
    by (simp_all add: settings_text_def res_text_def example_ini_text_def)
  have "res_value example_ini_text 0 11 = numeral_text 8 @ [0x78] @ numeral_text 6 @ [10]"
    by (simp add: res_value_def example_ini_text_def numeral_text_small)
  then show ?thesis
    using boot_resolution_reads [OF strs(1-3) found _ _ _ _ example_uart strs(4)] by fastforce
qed

end
