(* ===== verification/Spec2Isabelle.thy ===== *)
theory Spec2Isabelle
  imports Files Text Process Port Image SystemInfo Programs Boot
begin

text \<open>
  LibreWin is a 32-bit operating system for the i386 with the look of Windows NT: a kernel, \<^verbatim>\<open>txos\<close>, in C
  (\<^verbatim>\<open>src/librewin/base/txos\<close>), the library \<^verbatim>\<open>ntdll.c\<close> through which programs call it, and a handful of programs
  (\<^verbatim>\<open>applications\<close>, \<^verbatim>\<open>shut.c\<close>). This development translates that C code into HOL and proves what its parts
  promise, and where the code falls short of it, what it does instead.

  \<^bold>\<open>The machine.\<close> A C value of 32 bits, signed or not, is a \<open>32 word\<close>; signed comparison is \<open><s\<close> and \<open>\<le>s\<close>, so that
  overflow, negative indexes and the casts of the code are those of the compiler. Memory is a function
  from addresses to bytes, and every C structure is bytes at the offsets the compiler gives them; pointers
  may alias, and that two regions do not overlap (\<open>apart\<close>, \<open>in_range\<close>) is a hypothesis wherever it matters.
  Devices are a parameter: a record \<open>ports\<close> with \<open>insb\<close>, \<open>outb\<close> and their like on a state \<open>'d\<close>, about which the
  theorems assume the documented behaviour of the ATA controller (\<open>ata_serves\<close>) or of the UART
  (\<open>uart_serves\<close>); both are witnessed by concrete devices. String literals, global arrays and local arrays are
  addresses, fields of the records \<open>env\<close>, \<open>vfs\<close>, \<open>system\<close>, \<open>boot\<close> and the frames of the loader and the programs.
  A loop that may not end is a partial function and \<open>None\<close> means that it does not; the theorems state
  \<open>Some\<close>, so that termination is part of them.

  \<^bold>\<open>The theories\<close>, each of which opens with a note of its own.
  \<^item> \<open>Prelude\<close>, \<open>Memory\<close>, \<open>Strings\<close>: words and memory; \<^verbatim>\<open>ke/memory/memory.c\<close>; \<^verbatim>\<open>ke/string/string.c\<close> against lists of
    bytes (\<open>cstr\<close> says that a list is the C string at an address).
  \<^item> \<open>Heap\<close>, \<open>KHeap\<close>: \<^verbatim>\<open>heap.c\<close> against a map from first blocks to lengths (\<open>heap_rep\<close>), and \<^verbatim>\<open>kheap.c\<close>, whose
    contract with its clients is the locale \<open>page_allocator\<close>, interpreted as \<open>kh\<close> on \<open>kzalloc\<close> and \<open>kfree\<close>. In the
    clients, \<open>L\<close> maps the regions that are live to their lengths, \<open>kheap_live h m L k\<close> adds that \<open>k\<close> pages are
    free, and \<open>kept\<close> are the bytes no allocation touches.
  \<^item> \<open>Paging\<close>, \<open>AddressSpace\<close>: \<^verbatim>\<open>paging.c\<close> with the walk of the processor (\<open>pte\<close>), and the address space that
    \<open>kernel_main\<close> builds and enters, with the two routines of \<^verbatim>\<open>paging.asm\<close>.
  \<^item> \<open>PathParser\<close>, \<open>Disk\<close>, \<open>Fat16\<close>, \<open>Vfs\<close>, \<open>Files\<close>: \<^verbatim>\<open>pparser.c\<close>; \<^verbatim>\<open>disk.c\<close> and \<^verbatim>\<open>streamer.c\<close>; \<^verbatim>\<open>fat16.c\<close>; \<^verbatim>\<open>file.c\<close>; and what these do
    together from a path to the bytes of the file.
  \<^item> \<open>Terminal\<close>, \<open>Console\<close>, \<open>Serial\<close>, \<open>Output\<close>: the three outputs of \<^verbatim>\<open>kernel.c\<close> and \<^verbatim>\<open>graphics.c\<close>. Whatever shows one
    string is an instance of the locale \<open>text_output\<close>: \<open>terminal_text\<close> (\<open>print\<close>), \<open>kernel_text\<close> (\<open>PrintString\<close> of the
    shell, through the interrupt) and \<open>program_text\<close> (the display routine of the programs).
  \<^item> \<open>Text\<close>, \<open>Wide\<close>: the string routines outside \<^verbatim>\<open>string.c\<close>, and those of the C library for 16-bit characters.
  \<^item> \<open>Gdt\<close>, \<open>Idt\<close>, \<open>Keyboard\<close>, \<open>Tasks\<close>, \<open>Process\<close>, \<open>Port\<close>, \<open>Graphics\<close>: \<^verbatim>\<open>gdt.c\<close>; \<^verbatim>\<open>idt.c\<close> and \<^verbatim>\<open>bug.c\<close>; the keyboard
    interrupt; \<^verbatim>\<open>task.c\<close>; \<^verbatim>\<open>process.c\<close>; \<^verbatim>\<open>accept.c\<close>; the registers of the graphics adapter.
  \<^item> \<open>Layout\<close>, \<open>Loader\<close>, \<open>Image\<close>: the layout of the structures, computed from their members; \<^verbatim>\<open>loader.c\<close>; what
    it makes of the headers of a program and of its sections.
  \<^item> \<open>Syscalls\<close>, \<open>Shell\<close>, \<open>Boot\<close>: the dispatcher and the services, batch scripts and the commands of the shell;
    the shell as a step relation with the keyboard interrupt; \<open>kernel_main\<close>.
  \<^item> \<open>Ntdll\<close>, \<open>SystemInfo\<close>, \<open>Programs\<close>: \<^verbatim>\<open>ntdll.c\<close>, what its queries answer, and the programs.

  \<^bold>\<open>How the parts meet.\<close> The boot code (\<open>kernel_main\<close>) initialises them in order and leaves a state of type
  \<open>kernel\<close>: memory, terminal, console, keyboard line and devices. The keyboard interrupt stores a line;
  a turn of the shell takes it, a command runs a program (\<open>LdrLoadPe\<close>) or a script (\<open>LdrExecBat\<close>) through the
  interrupt 0x2e, and programs come back through the same interrupt. The dispatcher, the script
  runner and the shell call each other; each is defined over the one it calls, and \<open>int2eh n\<close> ties the knot
  with a bound \<open>n\<close> on how deep interrupts nest. Two levels are enough: \<open>int2eh_two_levels\<close> shows that any larger
  bound gives the same result, and \<open>interrupt\<close> is \<open>int2eh 2\<close>. No other definition has fuel.

  \<^bold>\<open>What the lemmas show.\<close> For the heap, the path parser and the page directories: exact effect, and that freeing
  gives back what was taken. For files: \<open>open_then_read\<close>, from the path to the bytes on the disk, and \<open>fopen_misses\<close>. For the
  outputs: refinement of a scrolling screen, a cursor on a grid, and the formatted text on the line.
  For the loader: the description of a file, and \<open>file_sections_loaded\<close>, that its sections arrive. For the
  shell: that a typed line is answered, and that the line never leaves its buffer. For the queries: which
  sizes are refused and what is answered. Theorems that show a defect (the overrun in
  \<open>heap_malloc_exhausted\<close>, the lost last descriptor, the name that runs on into the extension) state what
  the code does.

  \<^bold>\<open>Not modelled\<close>: assembly other than \<^verbatim>\<open>paging.asm\<close> (loading the descriptor, interrupt and task registers, entering
  user mode, port instructions), so a running program is the parameter \<open>s_run\<close>; the 64-bit stub of
  \<open>NtAccessCheckByType\<close>, which is not compiled for this machine; the declarations of headers of programs in
  \<^verbatim>\<open>kernel.c\<close> that nothing uses; \<open>process_current\<close>, which returns a global that nothing sets; the message of
  \<open>kheap_init\<close> for a failure that \<open>kheap_init_heap\<close> rules out; build files and scripts. What \<open>eax\<close> holds after
  \<open>syscall_handler\<close>, which returns nothing, is the parameter \<open>left_in_eax\<close>; what lies on the stack around
  a buffer that is read past its end is the parameter \<open>around_buf\<close>.
\<close>

section \<open>A booted kernel\<close>

text \<open>The state the witnesses start from: the strings of the examples stand at 1 MB, where neither
  the heap nor its table lies, and \<open>kheap_init\<close> has run.\<close>

definition example_text :: "byte list" where
  "example_text = [0x30, 0x3A, 0x2F, 0x61, 0x2F, 0x62]"

definition boot_mem :: mem where
  "boot_mem = write_bytes (\<lambda>_. 0) 0x100000 (example_text @ [0])"

definition no_heap :: heap where
  "no_heap = \<lparr>table = \<lparr>entries = 0, total = 0\<rparr>, saddr = 0\<rparr>"

definition boot_heap :: heap where
  "boot_heap = fst (snd (kheap_init boot_mem no_heap))"

definition boot_ram :: mem where
  "boot_ram = snd (snd (kheap_init boot_mem no_heap))"

lemma boot_live: "kheap_live boot_heap boot_ram (\<lambda>_. None) 25600"
  unfolding boot_heap_def boot_ram_def by (rule kheap_init_heap)

lemma boot_table: "table boot_heap = \<lparr>entries = 0x7E00, total = 25600\<rparr>" "saddr boot_heap = 0x01000000"
  unfolding boot_heap_def by (rule kheap_init_heap)+

lemma boot_string: "cstr boot_ram 0x100000 example_text"
proof (rule cstr_cong)
  show "cstr boot_mem 0x100000 example_text"
    unfolding boot_mem_def by (rule cstr_write_bytes) (simp_all add: example_text_def)
  fix i assume "i \<le> length example_text"
  then have "i < 7" by (simp add: example_text_def)
  then have "unat (word_of_nat i :: u32) = i" by (simp add: unat_of_nat)
  then have "\<not> in_range 0x7E00 25600 (0x100000 + word_of_nat i)"
    using \<open>i < 7\<close> by (simp add: in_range_def unat_word_ariths)
  then show "boot_ram (0x100000 + word_of_nat i) = boot_mem (0x100000 + word_of_nat i)"
    unfolding boot_ram_def by (rule kheap_init_heap)
qed

lemma boot_kept: "i < 7 \<Longrightarrow> kept boot_heap L (0x100000 + word_of_nat i)"
proof -
  assume i: "i < 7"
  then have u: "unat (word_of_nat i :: u32) = i" by (simp add: unat_of_nat)
  have "\<not> in_table (table boot_heap) (0x100000 + word_of_nat i)"
    using i u by (simp add: boot_table in_table_def unat_word_ariths)
  moreover have "\<not> in_range (saddr boot_heap) (unat (total (table boot_heap)) * 4096) (0x100000 + word_of_nat i)"
    using i u by (simp add: boot_table in_range_def unat_sub_if')
  ultimately show ?thesis by (simp add: kh.keeps_def)
qed

text \<open>A heap of three blocks, all free, and the same heap with two of them allocated.\<close>

definition small_heap :: heap where
  "small_heap = \<lparr>table = \<lparr>entries = 0x100, total = 3\<rparr>, saddr = 0x1000\<rparr>"

lemma small_heap_ok: "heap_ok (\<lambda>_. 0) small_heap (\<lambda>_. None)"
  by (simp add: small_heap_def heap_ok_def heap_rep_def tb_def)

lemma blocks_for_5000: "blocks_for 5000 = 2" "blocks_for 9000 = 3"
  by (simp_all add: blocks_for_def)

lemma small_heap_fits: "\<exists>s. fits (unused (\<lambda>_. None)) (blocks_for 5000) (unat (total (table small_heap))) s"
  unfolding blocks_for_5000 by (rule exI [of _ 0]) (simp add: fits_def in_chunk_def small_heap_def)

lemma free_tail_3: "free_tail F 3 = (if F 2 then Suc (if F 1 then Suc (if F 0 then 1 else 0) else 0) else 0)"
  by (simp add: numeral_3_eq_3 numeral_2_eq_2)

definition small_mem :: mem where
  "small_mem = snd (heap_malloc (\<lambda>_. 0) small_heap 5000)"

lemma small_mem_ok: "heap_ok small_mem small_heap ((\<lambda>_. None)(0 \<mapsto> 2))"
proof -
  have "(LEAST s. fits (unused (\<lambda>_. None)) (blocks_for 5000) (unat (total (table small_heap))) s) = 0"
    by (rule Least_eq_0) (simp add: fits_def in_chunk_def small_heap_def blocks_for_5000)
  then show ?thesis
    using heap_malloc_success(2) [OF small_heap_ok _ _ small_heap_fits] small_heap_ok
    by (simp add: small_mem_def heap_ok_def blocks_for_5000)
qed

section \<open>The kernel heap\<close>

text \<open>C19: while the block table represents the allocations \<open>A\<close> and a run of free blocks that is
  long enough exists, \<open>heap_malloc\<close> returns the address of the first such run, records the
  allocation of all its blocks and changes nothing but the table.\<close>

theorem heap_malloc_allocates:
  assumes "heap_ok m h A" "0 < sz" "sz \<le> 0xFFFFF000"
    and "\<exists>s. fits (unused A) (blocks_for sz) (unat (total (table h))) s"
  shows "\<exists>s m'. heap_malloc m h sz = (heap_block_to_address h (word_of_nat s), m') \<and>
    s = (LEAST s. fits (unused A) (blocks_for sz) (unat (total (table h))) s) \<and>
    heap_ok m' h (A(s \<mapsto> blocks_for sz)) \<and> (\<forall>a. \<not> in_table (table h) a \<longrightarrow> m' a = m a)"
  using heap_malloc_success [OF assms] assms(1)
  by (auto simp: heap_ok_def heap_block_to_address_def LIBREWIN_HEAP_BLOCK_SIZE_def)

theorem heap_malloc_allocates_witness:
  "\<exists>s m'. heap_malloc (\<lambda>_. 0) small_heap 5000 = (heap_block_to_address small_heap (word_of_nat s), m') \<and>
    heap_ok m' small_heap ((\<lambda>_. None)(s \<mapsto> 2))"
  using heap_malloc_allocates [OF small_heap_ok _ _ small_heap_fits] blocks_for_5000 by fastforce

text \<open>C20: \<open>heap_free\<close> of the address of an allocation releases exactly its blocks: the table
  represents the allocations without it and nothing but the table changes.\<close>

theorem heap_free_releases:
  assumes "heap_ok m h A" "A s = Some n"
  shows "heap_ok (heap_free m h (heap_block_to_address h (word_of_nat s))) h (A(s := None)) \<and>
    (\<forall>a. \<not> in_table (table h) a \<longrightarrow> heap_free m h (heap_block_to_address h (word_of_nat s)) a = m a)"
  using heap_free_success [OF assms] assms(1)
  by (auto simp: heap_ok_def heap_block_to_address_def LIBREWIN_HEAP_BLOCK_SIZE_def)

theorem heap_free_releases_witness:
  "heap_ok (heap_free small_mem small_heap (heap_block_to_address small_heap (word_of_nat 0)))
    small_heap ((\<lambda>_. None)(0 := None))"
  using heap_free_releases [OF small_mem_ok, of 0 2] by simp

text \<open>C21: when no run of free blocks is long enough, \<open>heap_malloc\<close> reports exhaustion with a null
  pointer only if the last block of the table is in use. Otherwise it returns the free blocks at
  the end of the table, though they are too few, and its marking overwrites the byte that follows
  the table.\<close>

theorem heap_malloc_exhausted:
  assumes "heap_ok m h A" "0 < sz" "sz \<le> 0xFFFFF000"
    and "\<nexists>s. fits (unused A) (blocks_for sz) (unat (total (table h))) s"
  shows "if free_tail (unused A) (unat (total (table h))) = 0 then heap_malloc m h sz = (0, m)
    else fst (heap_malloc m h sz) = heap_block_to_address h
        (word_of_nat (unat (total (table h)) - free_tail (unused A) (unat (total (table h))))) \<and>
      snd (heap_malloc m h sz) (entries (table h) + total (table h)) AND HEAP_BLOCK_TABLE_ENTRY_TAKEN \<noteq> 0"
proof (cases "free_tail (unused A) (unat (total (table h))) = 0")
  case True
  then show ?thesis using heap_malloc_full [OF assms True] by simp
next
  case False
  then have "0 < free_tail (unused A) (unat (total (table h)))" by simp
  note over = heap_malloc_overrun [OF assms this]
  have "entry_code n j AND HEAP_BLOCK_TABLE_ENTRY_TAKEN \<noteq> 0" for n j
    by (simp add: entry_code_def status_defs)
  then show ?thesis using over False
    by (simp add: heap_block_to_address_def LIBREWIN_HEAP_BLOCK_SIZE_def)
qed

theorem heap_malloc_exhausted_witness:
  "snd (heap_malloc small_mem small_heap 5000) (entries (table small_heap) + total (table small_heap))
    AND HEAP_BLOCK_TABLE_ENTRY_TAKEN \<noteq> 0"
proof -
  let ?A = "(\<lambda>_. None)(0 \<mapsto> 2) :: nat \<Rightarrow> nat option"
  have N: "unat (total (table small_heap)) = 3" by (simp add: small_heap_def)
  have used: "in_chunk ?A i \<longleftrightarrow> i < 2" for i by (auto simp: in_chunk_def)
  have no: "\<nexists>s. fits (unused ?A) (blocks_for 5000) (unat (total (table small_heap))) s"
    unfolding N blocks_for_5000 fits_def used by (auto simp: numeral_2_eq_2 numeral_3_eq_3)
  have "free_tail (unused ?A) (unat (total (table small_heap))) = 1"
    unfolding N free_tail_3 used by simp
  then show ?thesis using heap_malloc_exhausted [OF small_mem_ok _ _ no] by simp
qed

text \<open>A request for 0 bytes, or for so many that rounding up to whole blocks wraps around,
  returns the address of the free blocks at the end of the table and allocates nothing.\<close>

theorem heap_malloc_empty_request:
  assumes "heap_ok m h A" "sz = 0 \<or> 0xFFFFF000 < sz"
    and "0 < free_tail (unused A) (unat (total (table h)))"
  shows "heap_malloc m h sz = (heap_block_to_address h
    (word_of_nat (unat (total (table h)) - free_tail (unused A) (unat (total (table h))))), m)"
  using heap_malloc_no_blocks [OF assms]
  by (simp add: heap_block_to_address_def LIBREWIN_HEAP_BLOCK_SIZE_def)

theorem heap_malloc_empty_request_witness:
  "heap_malloc (\<lambda>_. 0) small_heap 0xFFFFF001 = (0x1000, \<lambda>_. 0)"
proof -
  have "free_tail (unused (\<lambda>_. None)) (unat (total (table small_heap))) = 3"
    by (simp add: small_heap_def free_tail_3 in_chunk_def)
  then show ?thesis
    using heap_malloc_empty_request [OF small_heap_ok, of "0xFFFFF001"]
    by (simp add: small_heap_def heap_block_to_address_def)
qed

text \<open>\<open>kheap_init\<close> succeeds and leaves an empty heap of 25600 pages, the 100 MB from
  \<open>0x01000000\<close> on, whose table lies at \<open>0x7E00\<close>.\<close>

theorem kheap_init_empty:
  "\<exists>kernel_heap m'. kheap_init m h = (0, kernel_heap, m') \<and>
    saddr kernel_heap = LIBREWIN_HEAP_ADDRESS \<and>
    table kernel_heap = \<lparr>entries = LIBREWIN_HEAP_TABLE_ADDRESS, total = 25600\<rparr> \<and>
    kheap_live kernel_heap m' (\<lambda>_. None) 25600"
  using kheap_init_heap [where m = m and h = h] by (cases "kheap_init m h") (auto simp: status_defs)

text \<open>C22: a request of up to a page from a kernel heap with a free page returns a page that is
  page aligned, not null, not part of any live allocation, zero in the requested length; what is
  stored in the live allocations and outside the heap stays as it was.\<close>

theorem kzalloc_fresh_page:
  assumes "kheap_live h m L (Suc k)" "0 < sz" "sz \<le> 4096" "kzalloc h m sz = (p, m')"
  shows "p \<noteq> 0 \<and> aligned p \<and> kheap_live h m' (L(p \<mapsto> 4096)) k \<and>
    (\<forall>q n. L q = Some n \<longrightarrow> apart q n p 4096) \<and>
    (\<forall>a. in_range p (unat sz) a \<longrightarrow> m' a = 0) \<and> (\<forall>a. kept h L a \<longrightarrow> m' a = m a)"
proof -
  note A = kh.alloc_page [OF assms]
  have "apart q n p 4096" if "L q = Some n" for q n
  proof (rule kh.live_disjoint)
    show "kheap_live h m' (L(p \<mapsto> 4096)) k" using A by blast
    show "(L(p \<mapsto> 4096)) q = Some n" "q \<noteq> p" using A that by auto
  qed simp
  then show ?thesis
    using A kh.alloc_zero [OF assms] kh.alloc_keeps_all(1) [OF assms] by blast
qed

theorem kzalloc_fresh_page_witness:
  "aligned (fst (kzalloc boot_heap boot_ram 108)) \<and> snd (kzalloc boot_heap boot_ram 108) 0x100000 = 0x30"
proof -
  have live: "kheap_live boot_heap boot_ram (\<lambda>_. None) (Suc 25599)" using boot_live by simp
  have "boot_ram 0x100000 = 0x30" using boot_string by (simp add: example_text_def)
  then show ?thesis
    using kzalloc_fresh_page [OF live _ _ prod.collapse [symmetric], of 108] boot_kept [of 0] by simp
qed

section \<open>Paging\<close>

text \<open>\<open>paging_new_4gb\<close> builds a well-formed directory that maps every page to itself with the
  given flags, from fresh pages of the heap only.\<close>

theorem paging_new_4gb_identity:
  assumes "kheap_live h m L (k + 1026)" "paging_new_4gb h m flags = (chunk, m')"
  shows "directory_ok m' (paging_4gb_chunk_get_directory m' chunk) \<and>
    (\<forall>v. pte m' (paging_4gb_chunk_get_directory m' chunk) v = (v AND 0xfffff000) OR ucast flags) \<and>
    kheap_live h m' (with_pages L (directory_regions m' chunk)) k \<and>
    (\<forall>p n a. L p = Some n \<longrightarrow> in_range p n a \<longrightarrow> m' a = m a)"
  using paging_new_4gb_works [OF assms] unfolding with_pages_def by blast

theorem paging_new_4gb_identity_witness:
  "\<exists>chunk m'. paging_new_4gb boot_heap boot_ram 7 = (chunk, m') \<and>
    pte m' (paging_4gb_chunk_get_directory m' chunk) 0x401234 = 0x401007"
proof -
  have live: "kheap_live boot_heap boot_ram (\<lambda>_. None) (24574 + 1026)" using boot_live by simp
  obtain chunk m' where run: "paging_new_4gb boot_heap boot_ram 7 = (chunk, m')" by fastforce
  then show ?thesis using paging_new_4gb_identity [OF live run] by simp
qed

text \<open>C23: freeing a directory that \<open>paging_new_4gb\<close> has built gives back all its 1026 pages: the
  heap is as it was before the directory was built.\<close>

theorem paging_free_4gb_restores:
  assumes "kheap_live h m L (k + 1026)" "paging_new_4gb h m flags = (chunk, m')"
  shows "kheap_live h (paging_free_4gb h m' chunk) L (k + 1026)"
proof -
  note N = paging_new_4gb_works [OF assms, unfolded paging_4gb_chunk_get_directory_def]
  have "aligned chunk"
  proof -
    have "(\<lambda>p. if p \<in> directory_regions m' chunk then Some 4096 else L p) chunk = Some (4096 :: nat)"
      by (simp add: directory_regions_def)
    from kh.live_aligned [OF N(3) this] show ?thesis .
  qed
  then show ?thesis using paging_free_4gb_works(1) [OF N(3,1) _ N(5,6,4)] by blast
qed

theorem paging_free_4gb_restores_witness:
  "\<exists>chunk m'. paging_new_4gb boot_heap boot_ram 7 = (chunk, m') \<and>
    kheap_live boot_heap (paging_free_4gb boot_heap m' chunk) (\<lambda>_. None) (24574 + 1026)"
proof -
  have live: "kheap_live boot_heap boot_ram (\<lambda>_. None) (24574 + 1026)" using boot_live by simp
  obtain chunk m' where run: "paging_new_4gb boot_heap boot_ram 7 = (chunk, m')" by fastforce
  then show ?thesis using paging_free_4gb_restores [OF live run] by blast
qed

text \<open>C24: \<open>paging_set\<close> on a page-aligned address changes the entry of that page, keeps the
  directory well formed and leaves the translation of every other page alone; on any other address
  it fails with \<open>-EINVARG\<close> and stores nothing.\<close>

theorem paging_set_one_page:
  assumes "directory_ok m d"
  shows "if aligned virt then \<exists>m'. paging_set m d virt val = (0, m') \<and> directory_ok m' d \<and>
      (\<forall>v. pte m' d v = (if unat v div 4096 = unat virt div 4096 then val else pte m d v))
    else paging_set m d virt val = (- EINVARG, m)"
  using pte_paging_set [OF assms, where virt = virt and val = val]
    paging_set_unaligned [of virt m d val]
  by (cases "paging_set m d virt val") auto

theorem paging_set_one_page_witness:
  "\<exists>m d m'. paging_set m d 0x400000 5 = (0, m') \<and> pte m' d 0x400FFF = 5"
proof -
  have live: "kheap_live boot_heap boot_ram (\<lambda>_. None) (24574 + 1026)" using boot_live by simp
  obtain chunk m where run: "paging_new_4gb boot_heap boot_ram 7 = (chunk, m)" by fastforce
  have ok: "directory_ok m (read32 m chunk)"
    using paging_new_4gb_works(1) [OF live run] by (simp add: paging_4gb_chunk_get_directory_def)
  have "aligned 0x400000" by (simp add: aligned_def)
  with paging_set_one_page [OF ok, where virt = "0x400000" and val = "5"]
  obtain m' where "paging_set m (read32 m chunk) 0x400000 5 = (0, m')"
    "pte m' (read32 m chunk) 0x400FFF = 5" by auto
  then show ?thesis by blast
qed

text \<open>\<open>paging_map_range\<close> maps the first page of the range only: the loop is left as soon as
  a page has been mapped.\<close>

theorem paging_map_range_first_page:
  assumes "directory_ok m d" "aligned virt" "aligned phys" "0 <s count"
  shows "\<exists>m'. paging_map_range m d virt phys count flags = (0, m') \<and>
    (\<forall>v. pte m' d v = (if unat v div 4096 = unat virt div 4096 then phys OR flags else pte m d v))"
proof -
  obtain m' where "paging_set m d virt (phys OR flags) = (0, m')"
    using paging_set_aligned [OF assms(2)] by blast
  then show ?thesis
    using pte_paging_set [OF assms(1,2)] paging_map_range_eq [of m d virt phys count flags] assms by auto
qed

theorem paging_map_range_first_page_witness:
  "\<exists>m d m'. paging_map_range m d 0x400000 0x800000 2 7 = (0, m') \<and> pte m' d 0x401000 = 0x401007"
proof -
  have live: "kheap_live boot_heap boot_ram (\<lambda>_. None) (24574 + 1026)" using boot_live by simp
  obtain chunk m where run: "paging_new_4gb boot_heap boot_ram 7 = (chunk, m)" by fastforce
  let ?d = "paging_4gb_chunk_get_directory m chunk"
  have ok: "directory_ok m ?d" and id: "pte m ?d 0x401000 = 0x401007"
    using paging_new_4gb_works(1,2) [OF live run] by simp_all
  have "aligned 0x400000" "aligned 0x800000" "(0 :: u32) <s 2"
    by (simp_all add: aligned_def word_sless_alt)
  from paging_map_range_first_page [OF ok this, of 7]
  obtain m' where "paging_map_range m ?d 0x400000 0x800000 2 7 = (0, m')"
    "pte m' ?d 0x401000 = pte m ?d 0x401000" by auto
  then show ?thesis using id by metis
qed

section \<open>Paths\<close>

text \<open>C25: for a path of at most 108 characters that starts with a digit, a colon and a slash,
  \<open>pathparser_parse\<close> terminates with the drive number and the list of the parts of the path, up to
  the first empty one, and changes nothing that was live.\<close>

theorem pathparser_parse_parts:
  assumes "kheap_live h m L (Suc (2 * length (path_parts rest) + Suc (Suc k)))"
    and "cstr m path (d # colon # slash # rest)" "length rest \<le> 105" "isdigit d"
    and "\<And>i. i \<le> length rest + 3 \<Longrightarrow> kept h L (path + word_of_nat i)"
  shows "\<exists>root m' ns strs. pathparser_parse h m path = Some (root, m') \<and> root \<noteq> 0 \<and>
    sint (read32 m' root) = sint d - 48 \<and> read32 m' (root + 4) = (if ns = [] then 0 else hd ns) \<and>
    parts_at m' ns strs (path_parts rest) \<and> (\<forall>a. kept h L a \<longrightarrow> m' a = m a)"
proof -
  have "length (d # colon # slash # rest) \<le> 108" using assms(3) by simp
  have kept: "kept h L (path + word_of_nat i)" if "i \<le> length (d # colon # slash # rest)" for i
    using assms(5) that by simp
  from pathparser_parse_valid [OF assms(1,2) \<open>length (d # colon # slash # rest) \<le> 108\<close> refl assms(4) kept]
  obtain root m' ns strs where "pathparser_parse h m path = Some (root, m')" "root \<noteq> 0"
    "read32 m' root = tonumericdigit d" "read32 m' (root + 4) = (if ns = [] then 0 else hd ns)"
    "parsed h (L(root \<mapsto> 4096)) ns strs (path_parts rest) (Suc (Suc k)) m'"
    "\<forall>a. kept h L a \<longrightarrow> m' a = m a" by blast
  then show ?thesis using digit_value(1) [OF assms(4)] unfolding parsed_def by metis
qed

lemma example_parts: "path_parts [0x61, 0x2F, 0x62] = [[0x61], [0x62]]"
  by (simp add: path_parts.simps first_part_def)

theorem pathparser_parse_parts_witness:
  "\<exists>root m' ns strs. pathparser_parse boot_heap boot_ram 0x100000 = Some (root, m') \<and>
    parts_at m' ns strs [[0x61], [0x62]]"
proof -
  have live: "kheap_live boot_heap boot_ram (\<lambda>_. None)
      (Suc (2 * length (path_parts [0x61, 0x2F, 0x62]) + Suc (Suc 25593)))"
    using boot_live by (simp add: example_parts)
  have str: "cstr boot_ram 0x100000 (0x30 # colon # slash # [0x61, 0x2F, 0x62])"
    using boot_string by (simp add: example_text_def)
  have digit: "isdigit 0x30" by (simp add: isdigit_def word_sle_eq)
  have kept: "kept boot_heap (\<lambda>_. None) (0x100000 + word_of_nat i)"
    if "i \<le> length [0x61, 0x2F, 0x62 :: byte] + 3" for i
    using boot_kept [of i] that by simp
  have "length [0x61, 0x2F, 0x62 :: byte] \<le> 105" by simp
  from pathparser_parse_parts [OF live str this digit kept] show ?thesis
    unfolding example_parts by blast
qed

text \<open>C26: \<open>pathparser_free\<close> of a parsed path terminates and gives back every page the parser took.\<close>

theorem pathparser_free_restores:
  assumes "kheap_live h m L (Suc (2 * length (path_parts rest) + Suc (Suc k)))"
    and "cstr m path (d # colon # slash # rest)" "length rest \<le> 105" "isdigit d"
    and "\<And>i. i \<le> length rest + 3 \<Longrightarrow> kept h L (path + word_of_nat i)"
  shows "\<exists>root m' m''. pathparser_parse h m path = Some (root, m') \<and> pathparser_free h m' root = Some m'' \<and>
    kheap_live h m'' L (Suc (2 * length (path_parts rest) + Suc (Suc k)))"
proof -
  have len: "length (d # colon # slash # rest) \<le> 108" using assms(3) by simp
  have kept: "kept h L (path + word_of_nat i)" if "i \<le> length (d # colon # slash # rest)" for i
    using assms(5) that by simp
  from pathparser_parse_valid [OF assms(1,2) len refl assms(4) kept]
  obtain root m' ns strs where run: "pathparser_parse h m path = Some (root, m')" and root: "L root = None"
    and first: "read32 m' (root + 4) = (if ns = [] then 0 else hd ns)"
    and p: "parsed h (L(root \<mapsto> 4096)) ns strs (path_parts rest) (Suc (Suc k)) m'" by blast
  have "length ns = length (path_parts rest)" using p by (simp add: parsed_def parts_at_def)
  then show ?thesis using run pathparser_free_works [OF p root first] by (auto simp: ac_simps)
qed

theorem pathparser_free_restores_witness:
  "\<exists>root m' m''. pathparser_parse boot_heap boot_ram 0x100000 = Some (root, m') \<and>
    pathparser_free boot_heap m' root = Some m'' \<and>
    kheap_live boot_heap m'' (\<lambda>_. None) (Suc (2 * length (path_parts [0x61, 0x2F, 0x62]) + Suc (Suc 25593)))"
proof -
  have live: "kheap_live boot_heap boot_ram (\<lambda>_. None)
      (Suc (2 * length (path_parts [0x61, 0x2F, 0x62]) + Suc (Suc 25593)))"
    using boot_live by (simp add: example_parts)
  have str: "cstr boot_ram 0x100000 (0x30 # colon # slash # [0x61, 0x2F, 0x62])"
    using boot_string by (simp add: example_text_def)
  have digit: "isdigit 0x30" by (simp add: isdigit_def word_sle_eq)
  have kept: "kept boot_heap (\<lambda>_. None) (0x100000 + word_of_nat i)"
    if "i \<le> length [0x61, 0x2F, 0x62 :: byte] + 3" for i
    using boot_kept [of i] that by simp
  have "length [0x61, 0x2F, 0x62 :: byte] \<le> 105" by simp
  from pathparser_free_restores [OF live str this digit kept] show ?thesis .
qed

text \<open>Any other path is refused with a null pointer, and nothing is allocated or stored.\<close>

theorem pathparser_parse_refuses:
  assumes "cstr m path s" "length s < 2 ^ 31"
    and "108 < length s \<or> (\<nexists>d rest. s = d # colon # slash # rest \<and> isdigit d)"
  shows "pathparser_parse h m path = Some (0, m)"
  by (rule pathparser_parse_invalid [OF assms])

theorem pathparser_parse_refuses_witness:
  "pathparser_parse boot_heap boot_ram 0x100001 = Some (0, boot_ram)"
proof (rule pathparser_parse_refuses)
  show "cstr boot_ram 0x100001 [0x3A, 0x2F, 0x61, 0x2F, 0x62]"
    using boot_string by (simp add: example_text_def)
qed simp_all

section \<open>Tasks\<close>

text \<open>C35: \<open>task_new\<close> appends a task to the list, linked both ways, that starts at the program's entry
  address with the user stack and data segment, its own page directory and its process; the
  current task stays the same, and 1027 pages of the heap are used.\<close>

theorem task_new_linked:
  assumes "kheap_live h m L (k + 1027)" "task_list s m ts" "\<forall>p\<in>set ts. L p = Some 4096"
    and "task_new h s m process = (t, s', m')"
  shows "L t = None \<and> task_list s' m' (ts @ [t]) \<and> current_task s' = current_task s \<and> new_task m' t process \<and>
    kheap_live h m' (with_pages (L(t \<mapsto> 4096)) (directory_regions m' (read32 m' t))) k"
  by (rule task_new_appends [OF assms])

theorem task_new_linked_witness:
  "\<exists>t s' m'. task_new boot_heap \<lparr>current_task = 0, task_tail = 0, task_head = 0\<rparr> boot_ram 0x2000 = (t, s', m') \<and>
    task_head s' = t \<and> read32 m' (t + 52) = 0x2000"
proof -
  have live: "kheap_live boot_heap boot_ram (\<lambda>_. None) (24573 + 1027)" using boot_live by simp
  obtain t s' m' where run: "task_new boot_heap \<lparr>current_task = 0, task_tail = 0, task_head = 0\<rparr> boot_ram 0x2000 = (t, s', m')"
    by (metis prod.exhaust)
  have "task_list \<lparr>current_task = 0, task_tail = 0, task_head = 0\<rparr> boot_ram []"
    by (simp add: task_list_def linked_def linked_back_def)
  from task_new_linked [OF live this _ run] have "task_list s' m' [t]" "new_task m' t 0x2000" by simp_all
  then show ?thesis using run by (simp add: task_list_def new_task_def)
qed

end
